(* ===== verification/Serctl_Prelude.thy ===== *)
theory Serctl_Prelude
  imports Main "HOL-Library.Word" "HOL-Library.Sublist"
begin

text \<open>
  Shared vocabulary of the development: machine integers, the result type of fallible Rust
  code (\<open>Inl\<close> is \<open>Err\<close>, \<open>Inr\<close> is \<open>Ok\<close>), the part of \<open>str\<close>, \<open>u8\<close>, \<open>char\<close> and the
  checked and saturating integer operations that the crates under src/ use, big-endian integer
  encoding, and the two interfaces that several components share: a validator that consumes a
  sequence of messages, and a framed byte stream.

  A Rust \<open>String\<close> is its UTF-8 byte sequence, as in the language: a HOL \<open>string\<close>, whose
  characters are bytes, so that \<open>length\<close> is \<open>str::len\<close>. Wire data is a list of 8-bit words.
\<close>

unbundle bit_operations_syntax

section \<open>Machine integers\<close>

type_synonym u8 = "8 word"
type_synonym u16 = "16 word"
type_synonym u32 = "32 word"
type_synonym i32 = "32 word"
type_synonym u64 = "64 word"
type_synonym bytes = "8 word list"

text \<open>\<open>checked_add\<close>, \<open>checked_sub\<close>, \<open>saturating_add\<close> and \<open>saturating_sub\<close> of the unsigned
  integer types.\<close>

definition checked_add :: "'a::len word \<Rightarrow> 'a word \<Rightarrow> 'a word option" where
  "checked_add a b = (if unat a + unat b < 2 ^ LENGTH('a) then Some (a + b) else None)"

definition checked_sub :: "'a::len word \<Rightarrow> 'a word \<Rightarrow> 'a word option" where
  "checked_sub a b = (if b \<le> a then Some (a - b) else None)"

definition saturating_add :: "'a::len word \<Rightarrow> 'a word \<Rightarrow> 'a word" where
  "saturating_add a b = (if unat a + unat b < 2 ^ LENGTH('a) then a + b else - 1)"

definition saturating_sub :: "'a::len word \<Rightarrow> 'a word \<Rightarrow> 'a word" where
  "saturating_sub a b = (if b \<le> a then a - b else 0)"

text \<open>Lengths are \<open>usize\<close>, 64 bits wide on the supported targets, and modelled as \<open>nat\<close>.\<close>

definition usize_max :: nat where
  "usize_max = 2 ^ 64 - 1"

definition usize_saturating_add :: "nat \<Rightarrow> nat \<Rightarrow> nat" where
  "usize_saturating_add a b = min (a + b) (2 ^ 64 - 1)"

section \<open>Fallible computations\<close>

text \<open>The result of code that fails with an \<open>anyhow\<close> error, which is its message.\<close>

type_synonym 'a res = "string + 'a"

text \<open>\<open>and_then\<close> is the question-mark operator followed by the rest of the function,
  \<open>ensure\<close> is \<open>anyhow::ensure!\<close> (an early return when the condition fails), and
  \<open>collect_res\<close> is \<open>iter().map(f).collect::<Result<Vec<_>, _>>()\<close>, which stops at the
  first error.\<close>

definition and_then :: "'e + 'a \<Rightarrow> ('a \<Rightarrow> 'e + 'b) \<Rightarrow> 'e + 'b" where
  "and_then r f = (case r of Inl e \<Rightarrow> Inl e | Inr x \<Rightarrow> f x)"

definition ensure :: "bool \<Rightarrow> 'e \<Rightarrow> 'e + 'a \<Rightarrow> 'e + 'a" where
  "ensure c e rest = (if c then rest else Inl e)"

definition ok_or :: "'a option \<Rightarrow> 'e \<Rightarrow> 'e + 'a" where
  "ok_or x e = (case x of None \<Rightarrow> Inl e | Some y \<Rightarrow> Inr y)"

fun collect_res :: "('a \<Rightarrow> 'e + 'b) \<Rightarrow> 'a list \<Rightarrow> 'e + 'b list" where
  "collect_res f [] = Inr []"
| "collect_res f (x # xs) =
     and_then (f x) (\<lambda>y. and_then (collect_res f xs) (\<lambda>ys. Inr (y # ys)))"

section \<open>Bytes and characters of a string\<close>

definition char_code :: "char \<Rightarrow> nat" where
  "char_code c = of_char c"

definition byte_of_char :: "char \<Rightarrow> u8" where
  "byte_of_char c = word_of_nat (of_char c)"

definition char_of_byte :: "u8 \<Rightarrow> char" where
  "char_of_byte b = char_of (unat b)"

definition as_bytes :: "string \<Rightarrow> bytes" where
  "as_bytes s = map byte_of_char s"

definition is_ascii_digit :: "char \<Rightarrow> bool" where
  "is_ascii_digit c \<longleftrightarrow> 48 \<le> char_code c \<and> char_code c \<le> 57"

definition is_ascii_lowercase :: "char \<Rightarrow> bool" where
  "is_ascii_lowercase c \<longleftrightarrow> 97 \<le> char_code c \<and> char_code c \<le> 122"

definition is_ascii_uppercase :: "char \<Rightarrow> bool" where
  "is_ascii_uppercase c \<longleftrightarrow> 65 \<le> char_code c \<and> char_code c \<le> 90"

definition is_ascii_alphabetic :: "char \<Rightarrow> bool" where
  "is_ascii_alphabetic c \<longleftrightarrow> is_ascii_lowercase c \<or> is_ascii_uppercase c"

definition is_ascii_alphanumeric :: "char \<Rightarrow> bool" where
  "is_ascii_alphanumeric c \<longleftrightarrow> is_ascii_alphabetic c \<or> is_ascii_digit c"

definition is_ascii_control :: "char \<Rightarrow> bool" where
  "is_ascii_control c \<longleftrightarrow> char_code c < 32 \<or> char_code c = 127"

definition is_ascii :: "string \<Rightarrow> bool" where
  "is_ascii s \<longleftrightarrow> list_all (\<lambda>c. char_code c < 128) s"

definition lower :: "char \<Rightarrow> char" where
  "lower c = (if is_ascii_uppercase c then char_of (char_code c + 32) else c)"

definition upper :: "char \<Rightarrow> char" where
  "upper c = (if is_ascii_lowercase c then char_of (char_code c - 32) else c)"

definition to_ascii_lowercase :: "string \<Rightarrow> string" where
  "to_ascii_lowercase s = map lower s"

definition to_ascii_uppercase :: "string \<Rightarrow> string" where
  "to_ascii_uppercase s = map upper s"

definition is_lower_hex_char :: "char \<Rightarrow> bool" where
  "is_lower_hex_char c \<longleftrightarrow> is_ascii_digit c \<or> 97 \<le> char_code c \<and> char_code c \<le> 102"

text \<open>
  \<open>str::chars\<close> decodes UTF-8. \<open>utf8_decode\<close> follows the well-formedness table that
  \<open>core::str\<close> implements (no overlong forms, no surrogates, at most U+10FFFF); it is \<open>None\<close>
  exactly where \<open>str::from_utf8\<close> fails.
\<close>

definition utf8_cont :: "nat \<Rightarrow> bool" where
  "utf8_cont b \<longleftrightarrow> 128 \<le> b \<and> b \<le> 191"

fun utf8_decode :: "nat list \<Rightarrow> nat list option" where
  "utf8_decode [] = Some []"
| "utf8_decode (b # bs) =
    (if b < 128 then map_option (Cons b) (utf8_decode bs)
     else if 194 \<le> b \<and> b \<le> 223 then
       (case bs of
          c # bs' \<Rightarrow>
            if utf8_cont c
            then map_option (Cons ((b - 192) * 64 + (c - 128))) (utf8_decode bs') else None
        | _ \<Rightarrow> None)
     else if 224 \<le> b \<and> b \<le> 239 then
       (case bs of
          c # d # bs' \<Rightarrow>
            if (if b = 224 then 160 \<le> c \<and> c \<le> 191
                else if b = 237 then 128 \<le> c \<and> c \<le> 159 else utf8_cont c) \<and> utf8_cont d
            then map_option (Cons ((b - 224) * 4096 + (c - 128) * 64 + (d - 128)))
                   (utf8_decode bs') else None
        | _ \<Rightarrow> None)
     else if 240 \<le> b \<and> b \<le> 244 then
       (case bs of
          c # d # e # bs' \<Rightarrow>
            if (if b = 240 then 144 \<le> c \<and> c \<le> 191
                else if b = 244 then 128 \<le> c \<and> c \<le> 143 else utf8_cont c)
               \<and> utf8_cont d \<and> utf8_cont e
            then map_option (Cons ((b - 240) * 262144 + (c - 128) * 4096
                                   + (d - 128) * 64 + (e - 128)))
                   (utf8_decode bs') else None
        | _ \<Rightarrow> None)
     else None)"

definition valid_utf8 :: "string \<Rightarrow> bool" where
  "valid_utf8 s \<longleftrightarrow> utf8_decode (map char_code s) \<noteq> None"

definition chars :: "string \<Rightarrow> nat list" where
  "chars s = (case utf8_decode (map char_code s) of None \<Rightarrow> [] | Some cs \<Rightarrow> cs)"

definition from_utf8 :: "bytes \<Rightarrow> string option" where
  "from_utf8 bs =
     (let s = map char_of_byte bs in if valid_utf8 s then Some s else None)"

text \<open>\<open>char::is_control\<close> is the Unicode category Cc.\<close>

definition is_control :: "nat \<Rightarrow> bool" where
  "is_control c \<longleftrightarrow> c < 32 \<or> 127 \<le> c \<and> c \<le> 159"

definition any_control :: "string \<Rightarrow> bool" where
  "any_control s \<longleftrightarrow> list_ex is_control (chars s)"

section \<open>String operations\<close>

definition starts_with :: "string \<Rightarrow> string \<Rightarrow> bool" where
  "starts_with s p \<longleftrightarrow> prefix p s"

definition ends_with :: "string \<Rightarrow> string \<Rightarrow> bool" where
  "ends_with s p \<longleftrightarrow> suffix p s"

definition strip_prefix :: "string \<Rightarrow> string \<Rightarrow> string option" where
  "strip_prefix s p = (if prefix p s then Some (drop (length p) s) else None)"

definition strip_suffix :: "string \<Rightarrow> string \<Rightarrow> string option" where
  "strip_suffix s p = (if suffix p s then Some (take (length s - length p) s) else None)"

fun split_on :: "char \<Rightarrow> string \<Rightarrow> string list" where
  "split_on d [] = [[]]"
| "split_on d (c # cs) =
     (if c = d then [] # split_on d cs
      else (case split_on d cs of [] \<Rightarrow> [[c]] | w # ws \<Rightarrow> (c # w) # ws))"

fun join_with :: "char \<Rightarrow> string list \<Rightarrow> string" where
  "join_with d [] = []"
| "join_with d [w] = w"
| "join_with d (w # v # ws) = w @ d # join_with d (v # ws)"

text \<open>\<open>str::split_once\<close>: the text before and after the first occurrence of the separator.\<close>

fun split_once :: "string \<Rightarrow> string \<Rightarrow> (string \<times> string) option" where
  "split_once [] p = (if p = [] then Some ([], []) else None)"
| "split_once (c # cs) p =
     (if prefix p (c # cs) then Some ([], drop (length p) (c # cs))
      else map_option (\<lambda>(a, b). (c # a, b)) (split_once cs p))"

text \<open>\<open>str::parse\<close> for \<open>u32\<close>: an optional plus sign and at least one decimal digit.\<close>

fun parse_digits :: "nat \<Rightarrow> string \<Rightarrow> nat option" where
  "parse_digits acc [] = Some acc"
| "parse_digits acc (c # cs) =
     (if is_ascii_digit c then parse_digits (acc * 10 + (char_code c - 48)) cs else None)"

definition parse_u32 :: "string \<Rightarrow> u32 option" where
  "parse_u32 s =
     (let ds = (case s of c # cs \<Rightarrow> if c = CHR ''+'' then cs else s | [] \<Rightarrow> s) in
      if ds = [] then None
      else case parse_digits 0 ds of
             None \<Rightarrow> None
           | Some n \<Rightarrow> if n < 2 ^ 32 then Some (word_of_nat n) else None)"

text \<open>Decimal formatting of an unsigned integer.\<close>

fun decimal :: "nat \<Rightarrow> string" where
  "decimal n =
     (if n < 10 then [char_of (48 + n)] else decimal (n div 10) @ [char_of (48 + n mod 10)])"

declare decimal.simps [simp del]

section \<open>Big-endian integers\<close>

text \<open>\<open>to_be_bytes\<close> and \<open>from_be_bytes\<close>, on the value of the word: \<open>be_bytes n v\<close> is the
  \<open>n\<close>-byte big-endian representation, \<open>be_value\<close> reads one back.\<close>

fun be_bytes :: "nat \<Rightarrow> nat \<Rightarrow> bytes" where
  "be_bytes 0 v = []"
| "be_bytes (Suc n) v = be_bytes n (v div 256) @ [word_of_nat (v mod 256)]"

definition be_value :: "bytes \<Rightarrow> nat" where
  "be_value bs = foldl (\<lambda>a b. a * 256 + unat b) 0 bs"

definition be16 :: "u16 \<Rightarrow> bytes" where "be16 x = be_bytes 2 (unat x)"
definition be32 :: "u32 \<Rightarrow> bytes" where "be32 x = be_bytes 4 (unat x)"
definition be64 :: "u64 \<Rightarrow> bytes" where "be64 x = be_bytes 8 (unat x)"

text \<open>The lower-case hexadecimal rendering of a byte string.\<close>

definition hex_digit :: "nat \<Rightarrow> char" where
  "hex_digit n = ''0123456789abcdef'' ! n"

definition hex_lower :: "bytes \<Rightarrow> string" where
  "hex_lower bs =
     concat (map (\<lambda>byte. [hex_digit (unat (drop_bit 4 byte)), hex_digit (unat (byte AND 0x0F))]) bs)"

definition hex_value :: "char \<Rightarrow> nat" where
  "hex_value c = (if is_ascii_digit c then char_code c - 48 else char_code c - 87)"

fun unhex :: "string \<Rightarrow> bytes option" where
  "unhex (a # b # cs) = map_option (\<lambda>bs. word_of_nat (16 * hex_value a + hex_value b) # bs) (unhex cs)"
| "unhex [] = Some []"
| "unhex _ = None"

section \<open>Sequences of messages and framed streams\<close>

text \<open>\<open>run_steps\<close> feeds messages to a validator until the first rejection; \<open>read_all\<close> reads
  frames off a byte stream until it ends, with a bound on the number of reads (\<open>None\<close> when
  the bound is used up).\<close>

fun run_steps :: "('s \<Rightarrow> 'm \<Rightarrow> 'e + 's) \<Rightarrow> 's \<Rightarrow> 'm list \<Rightarrow> 'e + 's" where
  "run_steps step s [] = Inr s"
| "run_steps step s (m # ms) = and_then (step s m) (\<lambda>s'. run_steps step s' ms)"

fun read_all :: "(bytes \<Rightarrow> 'e + ('f \<times> bytes) option) \<Rightarrow> nat \<Rightarrow> bytes \<Rightarrow> ('e + 'f list) option" where
  "read_all read 0 bs = None"
| "read_all read (Suc n) bs =
     (case read bs of
        Inl e \<Rightarrow> Some (Inl e)
      | Inr None \<Rightarrow> Some (Inr [])
      | Inr (Some (f, rest)) \<Rightarrow>
          map_option (\<lambda>r. and_then r (\<lambda>fs. Inr (f # fs))) (read_all read n rest))"

section \<open>Lemmas\<close>

named_theorems result_simps \<open>elimination of the success branch of fallible code\<close>
named_theorems text_defs \<open>definitions that evaluate string operations on literals\<close>
named_theorems be_simps \<open>big-endian encoding of integers\<close>

lemmas [text_defs] =
  char_code_def is_ascii_digit_def is_ascii_lowercase_def is_ascii_uppercase_def
  is_ascii_alphabetic_def is_ascii_alphanumeric_def is_ascii_control_def is_ascii_def
  lower_def upper_def to_ascii_lowercase_def to_ascii_uppercase_def is_lower_hex_char_def
  utf8_cont_def valid_utf8_def chars_def is_control_def any_control_def starts_with_def
  ends_with_def strip_prefix_def strip_suffix_def parse_u32_def Let_def suffix_def char_of_def bit_0

subsection \<open>Results\<close>

lemma and_then_simps [simp]:
  "and_then (Inl e) f = Inl e"
  "and_then (Inr x) f = f x"
  by (simp_all add: and_then_def)

lemma and_then_eq_Inr [result_simps]:
  "and_then r f = Inr y \<longleftrightarrow> (\<exists>x. r = Inr x \<and> f x = Inr y)"
  by (cases r) auto

lemma ensure_simps [simp]:
  "ensure True e r = r"
  "ensure False e r = Inl e"
  by (simp_all add: ensure_def)

lemma ensure_eq_Inr [result_simps]: "ensure c e r = Inr x \<longleftrightarrow> c \<and> r = Inr x"
  by (simp add: ensure_def)

lemma ensure_eq_Inl: "ensure c e r = Inl e' \<longleftrightarrow> (if c then r = Inl e' else e' = e)"
  by (auto simp: ensure_def)

lemma ensure_cong: "c = c' \<Longrightarrow> ensure c e r = ensure c' e r"
  by simp

lemma and_then_assoc: "and_then (and_then r f) g = and_then r (\<lambda>x. and_then (f x) g)"
  by (simp add: and_then_def split: sum.split)

lemma and_then_if: "and_then (if b then r else s) f = (if b then and_then r f else and_then s f)"
  by simp

lemma and_then_cong: "r = r' \<Longrightarrow> and_then r f = and_then r' f"
  by simp

lemma ok_or_eq_Inr [result_simps]: "ok_or x e = Inr y \<longleftrightarrow> x = Some y"
  by (cases x) (auto simp: ok_or_def)

lemma ok_or_simps [simp]:
  "ok_or None e = Inl e"
  "ok_or (Some x) e = Inr x"
  by (simp_all add: ok_or_def)

lemma if_Inl_eq_Inr [result_simps]:
  "(if c then Inl e else r) = Inr y \<longleftrightarrow> \<not> c \<and> r = Inr y"
  "(if c then r else Inl e) = Inr y \<longleftrightarrow> c \<and> r = Inr y"
  by simp_all

lemma collect_res_eq_Inr [result_simps]:
  "collect_res f xs = Inr ys \<longleftrightarrow> list_all2 (\<lambda>x y. f x = Inr y) xs ys"
  by (induction xs arbitrary: ys) (auto simp: list_all2_Cons1 result_simps)

lemma and_then_eq_Inl:
  "and_then r f = Inl e \<longleftrightarrow> r = Inl e \<or> (\<exists>x. r = Inr x \<and> f x = Inl e)"
  by (cases r) auto

lemma collect_res_eq_Inl: "collect_res f xs = Inl e \<Longrightarrow> \<exists>x\<in>set xs. f x = Inl e"
  by (induction xs) (auto simp: and_then_eq_Inl)

lemma if_eq_Inl: "(if b then Inl x else r) = Inl e \<longleftrightarrow> (if b then x = e else r = Inl e)"
  by simp

lemma collect_res_set:
  assumes "collect_res f xs = Inr ys" "collect_res f xs' = Inr ys'" "set xs = set xs'"
  shows "set ys = set ys'"
proof -
  have "set vs = {v. \<exists>u\<in>set us. f u = Inr v}" if "collect_res f us = Inr vs" for us vs
    using that by (induction us arbitrary: vs) (auto simp: and_then_eq_Inr)
  with assms show ?thesis by simp
qed

lemma collect_res_map: "(\<And>x. x \<in> set xs \<Longrightarrow> f x = Inr (g x)) \<Longrightarrow> collect_res f xs = Inr (map g xs)"
  by (induction xs) auto

lemma list_all2_image: "list_all2 (\<lambda>x y. f x = Inr y) xs ys \<Longrightarrow> y \<in> set ys \<Longrightarrow>
    \<exists>x\<in>set xs. f x = Inr y"
  by (induction xs ys rule: list_all2_induct) auto

lemma list_all2_id:
  "list_all2 (\<lambda>x y. f x = Inr y) xs ys \<Longrightarrow> (\<And>x y. f x = Inr y \<Longrightarrow> y = x) \<Longrightarrow>
     ys = xs \<and> (\<forall>x\<in>set xs. f x = Inr x)"
  by (induction xs ys rule: list_all2_induct) auto

subsection \<open>Checked and saturating arithmetic\<close>

lemma word_one_le: "(1::'a::len word) \<le> w \<longleftrightarrow> w \<noteq> 0"
  by (metis word_coorder.not_eq_extremum word_le_less_eq word_less_1 word_not_simps(1) linorder_not_le)

lemma checked_add_eq_Some:
  "checked_add a b = Some c \<longleftrightarrow> unat a + unat b < 2 ^ LENGTH('a) \<and> c = a + (b::'a::len word)"
  by (auto simp: checked_add_def)

lemma unat_checked_add:
  "checked_add a b = Some c \<Longrightarrow> unat c = unat a + unat (b::'a::len word)"
  by (auto simp: checked_add_eq_Some unat_word_ariths)

lemma unat_checked_sub:
  "checked_sub a b = Some c \<Longrightarrow> unat c = unat a - unat (b::'a::len word) \<and> unat b \<le> unat a"
  by (auto simp: checked_sub_def unat_sub word_le_nat_alt split: if_splits)

lemma unat_less: "unat (x :: 'a::len word) < 2 ^ LENGTH('a)"
  by (rule unsigned_less)

lemma usize_saturating_add_min:
  "usize_saturating_add (min a usize_max) b = min (a + b) usize_max"
  by (simp add: usize_saturating_add_def usize_max_def min_def)

lemma saturating_add_le:
  fixes a b m :: "'a::len word"
  assumes "saturating_add a b \<le> m" and "m < - 1"
  shows "unat a + unat b \<le> unat m"
proof (cases "unat a + unat b < 2 ^ LENGTH('a)")
  case True
  then have "unat (a + b) = unat a + unat b" by (simp add: unat_word_ariths)
  with True assms(1) show ?thesis by (simp add: saturating_add_def word_le_nat_alt)
next
  case False
  with assms show ?thesis by (simp add: saturating_add_def)
qed

subsection \<open>Big-endian encoding\<close>

lemma length_be_bytes [simp, be_simps]: "length (be_bytes n v) = n"
  by (induction n arbitrary: v) auto

lemma be_value_snoc [simp]: "be_value (bs @ [b]) = be_value bs * 256 + unat b"
  by (simp add: be_value_def)

lemma be_value_Nil [simp]: "be_value [] = 0"
  by (simp add: be_value_def)

lemma be_value_be_bytes: "be_value (be_bytes n v) = v mod 256 ^ n"
proof (induction n arbitrary: v)
  case 0
  then show ?case by simp
next
  case (Suc n)
  have "unat (word_of_nat (v mod 256) :: u8) = v mod 256"
    by (simp add: unat_of_nat)
  then show ?case
    using mod_mult2_eq [of v 256 "256 ^ n"] by (simp add: Suc.IH)
qed

lemma be_value_less: "be_value bs < 256 ^ length bs"
proof (induction bs rule: rev_induct)
  case Nil
  then show ?case by simp
next
  case (snoc b bs)
  have "unat b < 256" using unat_less [of b] by simp
  with snoc.IH have "be_value bs * 256 + unat b < 256 ^ length bs * 256" by linarith
  then show ?case by (simp add: mult.commute)
qed

lemma be_bytes_be_value: "be_bytes (length bs) (be_value bs) = bs"
proof (induction bs rule: rev_induct)
  case Nil
  then show ?case by simp
next
  case (snoc b bs)
  have b: "unat b < 256" using unat_less [of b] by simp
  then have "(be_value bs * 256 + unat b) div 256 = be_value bs"
    and "(be_value bs * 256 + unat b) mod 256 = unat b" by simp_all
  with snoc.IH show ?case by simp
qed

lemma be_lengths [simp, be_simps]:
  "length (be16 a) = 2" "length (be32 b) = 4" "length (be64 c) = 8"
  by (simp_all add: be16_def be32_def be64_def)

lemma be_values [simp, be_simps]:
  "word_of_nat (be_value (be16 a)) = a"
  "word_of_nat (be_value (be32 b)) = b"
  "word_of_nat (be_value (be64 c)) = c"
  using unat_less [of a] unat_less [of b] unat_less [of c]
  by (simp_all add: be16_def be32_def be64_def be_value_be_bytes)

lemma be16_word: "length bs = 2 \<Longrightarrow> be16 (word_of_nat (be_value bs)) = bs"
  using be_bytes_be_value [of bs] be_value_less [of bs]
  by (simp add: be16_def unat_of_nat)

lemma be32_word: "length bs = 4 \<Longrightarrow> be32 (word_of_nat (be_value bs)) = bs"
  using be_bytes_be_value [of bs] be_value_less [of bs]
  by (simp add: be32_def unat_of_nat)

lemma be64_word: "length bs = 8 \<Longrightarrow> be64 (word_of_nat (be_value bs)) = bs"
  using be_bytes_be_value [of bs] be_value_less [of bs]
  by (simp add: be64_def unat_of_nat)

lemma be_inject [simp]:
  "be16 a = be16 a' \<longleftrightarrow> a = a'"
  "be32 b = be32 b' \<longleftrightarrow> b = b'"
  "be64 c = be64 c' \<longleftrightarrow> c = c'"
  by (metis be_values)+

subsection \<open>Bytes and strings\<close>

lemma char_of_byte_of_char [simp]: "char_of_byte (byte_of_char c) = c"
proof -
  have "(of_char c :: nat) < 256" by simp
  then show ?thesis by (simp add: char_of_byte_def byte_of_char_def unat_of_nat)
qed

lemma byte_of_char_of_byte [simp]: "byte_of_char (char_of_byte b) = b"
proof -
  have "unat b < 256" using unat_less [of b] by simp
  then show ?thesis by (simp add: char_of_byte_def byte_of_char_def)
qed

lemma length_as_bytes [simp]: "length (as_bytes s) = length s"
  by (simp add: as_bytes_def)

lemma as_bytes_inject [simp]: "as_bytes s = as_bytes t \<longleftrightarrow> s = t"
  unfolding as_bytes_def
  by (metis (mono_tags, lifting) char_of_byte_of_char inj_map_eq_map inj_on_inverseI)

lemma from_utf8_as_bytes [simp]: "valid_utf8 s \<Longrightarrow> from_utf8 (as_bytes s) = Some s"
  by (simp add: from_utf8_def as_bytes_def comp_def)

lemma from_utf8_eq_Some: "from_utf8 bs = Some s \<longleftrightarrow> bs = as_bytes s \<and> valid_utf8 s"
proof
  assume "from_utf8 bs = Some s"
  then have "s = map char_of_byte bs" "valid_utf8 s"
    by (auto simp: from_utf8_def Let_def split: if_splits)
  then show "bs = as_bytes s \<and> valid_utf8 s"
    by (simp add: as_bytes_def comp_def)
qed simp

lemma char_code_char_of: "n < 256 \<Longrightarrow> char_code (char_of n) = n"
  by (simp add: char_code_def)

lemma upper_cases:
  "upper c = c \<and> \<not> is_ascii_lowercase c \<or>
   char_code (upper c) = char_code c - 32 \<and> is_ascii_lowercase c"
  by (auto simp: upper_def is_ascii_lowercase_def char_code_char_of)

lemma upper_upper [simp]: "upper (upper c) = upper c"
  using upper_cases [of c] by (auto simp: is_ascii_lowercase_def upper_def [of "upper c"])

lemma upper_alphabetic: "is_ascii_alphabetic c \<Longrightarrow> is_ascii_alphabetic (upper c)"
  using upper_cases [of c]
  by (auto simp: is_ascii_alphabetic_def is_ascii_lowercase_def is_ascii_uppercase_def)

subsection \<open>Hexadecimal\<close>

lemma hex_digit_inject: "a < 16 \<Longrightarrow> b < 16 \<Longrightarrow> hex_digit a = hex_digit b \<Longrightarrow> a = b"
proof -
  have "\<forall>a\<in>{0..<16}. \<forall>b\<in>{0..<16}. hex_digit a = hex_digit b \<longrightarrow> a = b"
    by (simp add: hex_digit_def atLeastLessThan_upt upt_rec)
  then show "a < 16 \<Longrightarrow> b < 16 \<Longrightarrow> hex_digit a = hex_digit b \<Longrightarrow> a = b" by simp
qed

lemma nibbles: "unat (drop_bit 4 (b::u8)) = unat b div 16" "unat (b AND 0x0F) = unat b mod 16"
proof -
  show "unat (drop_bit 4 b) = unat b div 16"
    by (simp add: drop_bit_eq_div unat_div)
  have "b AND 0x0F = take_bit 4 b"
    by (simp add: take_bit_eq_mask mask_eq_exp_minus_1)
  then show "unat (b AND 0x0F) = unat b mod 16"
    by (simp add: take_bit_eq_mod unat_mod)
qed

lemma hex_lower_Cons:
  "hex_lower (b # bs) = hex_digit (unat b div 16) # hex_digit (unat b mod 16) # hex_lower bs"
  by (simp add: hex_lower_def nibbles)

lemma hex_lower_inject: "hex_lower xs = hex_lower ys \<longleftrightarrow> xs = ys"
proof (induction xs arbitrary: ys)
  case Nil
  then show ?case by (cases ys) (auto simp: hex_lower_def)
next
  case (Cons x xs)
  show ?case
  proof (cases ys)
    case (Cons y ys')
    have u: "unat (b::u8) < 256" for b using unat_less [of b] by simp
    have "x = y" if "hex_digit (unat x div 16) = hex_digit (unat y div 16)"
      "hex_digit (unat x mod 16) = hex_digit (unat y mod 16)"
    proof -
      from that have "unat x div 16 = unat y div 16" "unat x mod 16 = unat y mod 16"
        using u [of x] u [of y] hex_digit_inject by (auto simp: div_less_iff_less_mult)
      then have "unat x = unat y" by (metis div_mult_mod_eq)
      then show ?thesis by (simp only: word_eq_iff_unsigned [where ?'a = nat])
    qed
    with Cons Cons.IH show ?thesis by (auto simp: hex_lower_Cons)
  qed (simp add: hex_lower_Cons hex_lower_def)
qed

lemma unhex_hex_lower [simp]: "unhex (hex_lower bs) = Some bs"
proof (induction bs)
  case (Cons b bs)
  have v: "\<forall>a\<in>{0..<16}. hex_value (hex_digit a) = a"
    by (simp add: hex_digit_def hex_value_def is_ascii_digit_def char_code_def atLeastLessThan_upt upt_rec)
  have "unat b div 16 < 16" using unat_less [of b] by (simp add: div_less_iff_less_mult)
  with v have "hex_value (hex_digit (unat b div 16)) = unat b div 16"
    "hex_value (hex_digit (unat b mod 16)) = unat b mod 16" by simp_all
  with Cons show ?case by (simp add: hex_lower_Cons)
qed (simp add: hex_lower_def)

lemma hex_lower_chars: "length (hex_lower bs) = 2 * length bs" "list_all is_lower_hex_char (hex_lower bs)"
proof -
  show "length (hex_lower bs) = 2 * length bs" by (induction bs) (simp add: hex_lower_def, simp add: hex_lower_Cons)
  have v: "\<forall>a\<in>{0..<16}. is_lower_hex_char (hex_digit a)"
    by (simp add: hex_digit_def is_lower_hex_char_def is_ascii_digit_def char_code_def atLeastLessThan_upt upt_rec)
  have "is_lower_hex_char (hex_digit (unat b div 16))" for b :: u8
    using v unat_less [of b] by (simp add: div_less_iff_less_mult)
  moreover have "is_lower_hex_char (hex_digit (unat b mod 16))" for b :: u8
    using v by simp
  ultimately show "list_all is_lower_hex_char (hex_lower bs)"
    by (induction bs) (simp add: hex_lower_def, simp add: hex_lower_Cons)
qed

subsection \<open>Splitting and joining\<close>

lemma split_on_not_Nil [simp]: "split_on d s \<noteq> []"
  by (induction s) (auto split: list.splits)

lemma join_split [simp]: "join_with d (split_on d s) = s"
proof (induction s)
  case (Cons c s)
  then show ?case
    by (cases "split_on d s"; cases "tl (split_on d s)") auto
qed simp

lemma split_on_free: "w \<in> set (split_on d s) \<Longrightarrow> d \<notin> set w"
  by (induction s arbitrary: w) (auto split: list.splits if_splits)

lemma split_on_no_sep: "d \<notin> set w \<Longrightarrow> split_on d w = [w]"
  by (induction w) auto

lemma split_on_append: "d \<notin> set w \<Longrightarrow> split_on d (w @ d # s) = w # split_on d s"
  by (induction w) auto

lemma split_on_join:
  "ws \<noteq> [] \<Longrightarrow> \<forall>w\<in>set ws. d \<notin> set w \<Longrightarrow> split_on d (join_with d ws) = ws"
  by (induction d ws rule: join_with.induct) (auto simp: split_on_no_sep split_on_append)

lemma set_split_on: "w \<in> set (split_on d s) \<Longrightarrow> set w \<subseteq> set s"
proof (induction s arbitrary: w)
  case (Cons c s)
  then show ?case by (cases "split_on d s") (fastforce split: if_splits)+
qed simp

lemma split_on_join_append:
  "ws \<noteq> [] \<Longrightarrow> \<forall>w\<in>set ws. d \<notin> set w \<Longrightarrow>
     split_on d (join_with d ws @ d # s) = ws @ split_on d s"
  by (induction d ws rule: join_with.induct) (auto simp: split_on_append)

lemma join_with_append:
  "ws \<noteq> [] \<Longrightarrow> vs \<noteq> [] \<Longrightarrow> join_with d (ws @ vs) = join_with d ws @ d # join_with d vs"
  by (induction d ws rule: join_with.induct) (auto simp: neq_Nil_conv)

lemma set_join_with: "set (join_with d ws) \<subseteq> insert d (\<Union>w\<in>set ws. set w)"
  by (induction d ws rule: join_with.induct) auto

subsection \<open>Runs\<close>

lemma run_steps_append:
  "run_steps step s (xs @ ys) = and_then (run_steps step s xs) (\<lambda>t. run_steps step t ys)"
  by (induction xs arbitrary: s) (auto simp: and_then_assoc)

lemma run_steps_snoc:
  "run_steps step s (xs @ [x]) = Inr s' \<longleftrightarrow>
     (\<exists>t. run_steps step s xs = Inr t \<and> step t x = Inr s')"
  by (simp add: run_steps_append and_then_eq_Inr)

section \<open>Stateful computations\<close>

text \<open>Code that changes a state and may fail is a function from the state to the state and a result;
  the state is given on the error branch too. \<open>act_bind\<close> is sequencing with early return.\<close>

type_synonym ('s, 'a) action = "'s \<Rightarrow> 's \<times> 'a res"

definition act_bind :: "('s, 'a) action \<Rightarrow> ('a \<Rightarrow> ('s, 'b) action) \<Rightarrow> ('s, 'b) action" where
  "act_bind m f = (\<lambda>s. case m s of (s, Inl e) \<Rightarrow> (s, Inl e) | (s, Inr x) \<Rightarrow> f x s)"

definition act_result :: "'a res \<Rightarrow> ('s, 'a) action" where
  "act_result r = (\<lambda>s. (s, r))"

definition act_ensure :: "bool \<Rightarrow> string \<Rightarrow> ('s, 'a) action \<Rightarrow> ('s, 'a) action" where
  "act_ensure c e rest = (if c then rest else act_result (Inl e))"

lemma act_bind_eq_Inr [result_simps]:
  "act_bind m f s = (s', Inr y) \<longleftrightarrow> (\<exists>s1 x. m s = (s1, Inr x) \<and> f x s1 = (s', Inr y))"
  by (auto simp: act_bind_def split: prod.splits sum.splits)

lemma act_result_eq [result_simps]: "act_result r s = (s', r') \<longleftrightarrow> s' = s \<and> r = r'"
  by (auto simp: act_result_def)

lemma act_ensure_eq_Inr [result_simps]:
  "act_ensure c e m s = (s', Inr y) \<longleftrightarrow> c \<and> m s = (s', Inr y)"
  by (simp add: act_ensure_def act_result_def)

lemma act_bind_eq:
  "m s = (s1, Inr x) \<Longrightarrow> act_bind m f s = f x s1"
  "m s = (s1, Inl e) \<Longrightarrow> act_bind m f s = (s1, Inl e)"
  by (simp_all add: act_bind_def)

lemma act_simps [simp]:
  "act_bind (act_result (Inr x)) f = f x"
  "act_bind (act_result (Inl e)) f = act_result (Inl e)"
  "act_ensure True e m = m"
  "act_ensure False e m = act_result (Inl e)"
  by (simp_all add: act_bind_def act_result_def act_ensure_def fun_eq_iff)

lemma act_bind_and_then:
  "act_bind (act_result (and_then r g)) f = act_bind (act_result r) (\<lambda>x. act_bind (act_result (g x)) f)"
  by (cases r) (simp_all add: act_bind_def act_result_def)

lemma act_bind_ensure: "act_bind (act_result (ensure c e r)) f = act_ensure c e (act_bind (act_result r) f)"
  by (cases c) simp_all

lemma act_bind_assoc: "act_bind (act_bind m f) g = act_bind m (\<lambda>x. act_bind (f x) g)"
  by (simp add: act_bind_def fun_eq_iff split: prod.split sum.split)

lemmas act_bind_lift = act_bind_and_then act_bind_ensure act_bind_assoc

text \<open>Reasoning about every outcome of an operation, failures included.\<close>

definition act_post :: "('s, 'a) action \<Rightarrow> 's \<Rightarrow> ('s \<Rightarrow> 'a res \<Rightarrow> bool) \<Rightarrow> bool" where
  "act_post m s P \<longleftrightarrow> P (fst (m s)) (snd (m s))"

lemma act_post_bind:
  "act_post (act_bind m f) s P \<longleftrightarrow>
     act_post m s (\<lambda>s1 r. case r of Inl e \<Rightarrow> P s1 (Inl e) | Inr x \<Rightarrow> act_post (f x) s1 P)"
  by (simp add: act_post_def act_bind_def split: prod.split sum.split)

lemma act_post_result: "act_post (act_result r) s P \<longleftrightarrow> P s r"
  by (simp add: act_post_def act_result_def)

lemma act_post_ensure: "act_post (act_ensure c e m) s P \<longleftrightarrow> (if c then act_post m s P else P s (Inl e))"
  by (simp add: act_post_def act_ensure_def act_result_def)

lemma act_postI: "(\<And>s' r. m s = (s', r) \<Longrightarrow> P s' r) \<Longrightarrow> act_post m s P"
  by (cases "m s") (simp add: act_post_def)

lemma act_postD: "act_post m s P \<Longrightarrow> m s = (s', r) \<Longrightarrow> P s' r"
  by (simp add: act_post_def)

lemma act_post_mono: "act_post m s P \<Longrightarrow> (\<And>s' r. P s' r \<Longrightarrow> Q s' r) \<Longrightarrow> act_post m s Q"
  by (simp add: act_post_def)

section \<open>Interfaces\<close>

text \<open>A validator consumes one message at a time. \<open>message_validator\<close> is what every session
  validator of the protocol crates promises: an accepted message keeps the invariant.\<close>

locale message_validator =
  fixes step :: "'s \<Rightarrow> 'm \<Rightarrow> 'e + 's"
    and inv :: "'s \<Rightarrow> bool"
  assumes inv_step: "inv s \<Longrightarrow> step s m = Inr s' \<Longrightarrow> inv s'"
begin

lemma inv_run: "inv s \<Longrightarrow> run_steps step s ms = Inr s' \<Longrightarrow> inv s'"
  by (induction ms arbitrary: s) (auto simp: result_simps dest: inv_step)

end

text \<open>A sequenced validator counts accepted messages in a machine integer and never wraps.\<close>

locale sequenced_validator = message_validator step inv
  for step :: "'s \<Rightarrow> 'm \<Rightarrow> 'e + 's" and inv :: "'s \<Rightarrow> bool" +
  fixes sequence :: "'s \<Rightarrow> u64"
    and tag :: "'m \<Rightarrow> u64"
  assumes step_sequence:
    "step s m = Inr s' \<Longrightarrow> tag m = sequence s \<and> unat (sequence s') = Suc (unat (sequence s))"
begin

lemma run_sequence:
  "run_steps step s ms = Inr s' \<Longrightarrow>
     unat (sequence s') = unat (sequence s) + length ms \<and>
     map (unat \<circ> tag) ms = [unat (sequence s) ..< unat (sequence s')]"
proof (induction ms arbitrary: s)
  case Nil
  then show ?case by simp
next
  case (Cons m ms)
  then obtain t where t: "step s m = Inr t" "run_steps step t ms = Inr s'"
    by (auto simp: result_simps)
  let ?a = "unat (sequence s)" and ?z = "unat (sequence s')"
  from step_sequence [OF t(1)] Cons.IH [OF t(2)]
  have z: "?z = Suc (?a + length ms)" and tags: "map (unat \<circ> tag) ms = [Suc ?a ..< ?z]"
    and m: "tag m = sequence s" by (simp_all add: comp_def del: upt_Suc)
  from z have "[?a ..< ?z] = ?a # [Suc ?a ..< ?z]" by (intro upt_conv_Cons) simp
  with z tags m show ?case by (simp add: comp_def del: upt_Suc)
qed

end

text \<open>A cursor over a byte string, seen as the bytes read and the bytes left (\<open>rd pre suf\<close>), and
  the operation that takes the next \<open>n\<close> bytes.\<close>

locale byte_cursor =
  fixes rd :: "bytes \<Rightarrow> bytes \<Rightarrow> 'r"
    and take_bytes :: "'r \<Rightarrow> nat \<Rightarrow> 'e + bytes \<times> 'r"
  assumes take_iff:
    "take_bytes (rd pre suf) n = Inr (v, r) \<longleftrightarrow>
       length v = n \<and> (\<exists>s. suf = v @ s \<and> r = rd (pre @ v) s)"
begin

lemma word_field:
  assumes "\<And>v. length v = n \<Longrightarrow> put (f v) = v" and "\<And>x. length (put x) = n" and "\<And>x. f (put x) = x"
  shows "and_then (take_bytes (rd pre suf) n) (\<lambda>(v, r). Inr (f v, r)) = Inr (x, r) \<longleftrightarrow>
    (\<exists>s. suf = put x @ s \<and> r = rd (pre @ put x) s)"
proof
  assume "and_then (take_bytes (rd pre suf) n) (\<lambda>(v, r). Inr (f v, r)) = Inr (x, r)"
  then show "\<exists>s. suf = put x @ s \<and> r = rd (pre @ put x) s"
    using assms(1) by (auto simp: and_then_eq_Inr take_iff)
next
  assume "\<exists>s. suf = put x @ s \<and> r = rd (pre @ put x) s"
  then have "take_bytes (rd pre suf) n = Inr (put x, r)"
    using assms(2) by (auto simp: take_iff)
  then show "and_then (take_bytes (rd pre suf) n) (\<lambda>(v, r). Inr (f v, r)) = Inr (x, r)"
    using assms(3) by simp
qed

lemmas integer_fields =
  word_field [where put = be16 and n = 2, OF be16_word be_lengths(1) be_values(1)]
  word_field [where put = be32 and n = 4, OF be32_word be_lengths(2) be_values(2)]
  word_field [where put = be64 and n = 8, OF be64_word be_lengths(3) be_values(3)]

lemma byte_field:
  "and_then (take_bytes (rd pre suf) 1) (\<lambda>(v, r). Inr (v ! 0, r)) = Inr (x, r) \<longleftrightarrow>
     (\<exists>s. suf = [x] @ s \<and> r = rd (pre @ [x]) s)"
proof (rule word_field)
  show "[v ! 0] = v" if "length v = 1" for v :: bytes using that by (cases v) auto
qed simp_all

end

text \<open>A field of an encoded record: a cursor operation is the exact inverse of an encoding on the
  values that satisfy a predicate.\<close>

locale field_codec =
  fixes rd :: "bytes \<Rightarrow> bytes \<Rightarrow> 'r"
    and get :: "'r \<Rightarrow> 'e + 'a \<times> 'r"
    and put :: "'a \<Rightarrow> bytes"
    and ok :: "'a \<Rightarrow> bool"
  assumes get_iff:
    "get (rd pre suf) = Inr (x, r) \<longleftrightarrow>
       ok x \<and> (\<exists>s. suf = put x @ s \<and> r = rd (pre @ put x) s)"
begin

lemma get_put: "ok x \<Longrightarrow> get (rd pre (put x @ s)) = Inr (x, rd (pre @ put x) s)"
  by (auto simp: get_iff)

lemma get_put_last: "ok x \<Longrightarrow> get (rd pre (put x)) = Inr (x, rd (pre @ put x) [])"
  by (auto simp: get_iff)

lemma prefix_free:
  assumes "ok x" "ok y" "put x @ s = put y @ t"
  shows "x = y \<and> s = t"
proof -
  from get_put [OF assms(1), of "[]" s] get_put [OF assms(2), of "[]" t] assms(3)
  have "x = y" by simp
  with assms(3) show ?thesis by simp
qed

end

text \<open>A framed stream: writing a frame and reading it back, with whatever follows left in the
  stream; an empty stream is a clean end.\<close>

locale framed_stream =
  fixes put_frame :: "'f \<Rightarrow> 'e + bytes"
    and get_frame :: "bytes \<Rightarrow> 'e + ('f \<times> bytes) option"
    and wf :: "'f \<Rightarrow> bool"
  assumes read_write:
      "wf f \<Longrightarrow> put_frame f = Inr bs \<Longrightarrow> get_frame (bs @ rest) = Inr (Some (f, rest))"
    and read_end: "get_frame [] = Inr None"
begin

lemma read_all_written:
  "list_all2 (\<lambda>f bs. put_frame f = Inr bs) fs bss \<Longrightarrow> list_all wf fs \<Longrightarrow> length fs < n \<Longrightarrow>
     read_all get_frame n (concat bss) = Some (Inr fs)"
proof (induction fs arbitrary: bss n)
  case Nil
  then show ?case by (cases n) (auto simp: read_end)
next
  case (Cons f fs)
  then obtain bs bss' m where "bss = bs # bss'" "put_frame f = Inr bs" "n = Suc m"
      "list_all2 (\<lambda>f bs. put_frame f = Inr bs) fs bss'" "length fs < m"
    by (cases n) (auto simp: list_all2_Cons1)
  moreover from Cons.prems have "wf f" "list_all wf fs" by simp_all
  ultimately show ?case using Cons.IH [of bss' m] by (simp add: read_write)
qed

end

end
