(* ===== verification/Policy.thy ===== *)
theory Policy
  imports Serctl_Prelude
begin

text \<open>
  The policy crate (crates/serctl_policy/src/lib.rs): compilation of a bounded schema-v1 policy
  document into a normalised intermediate representation with a digest, and evaluation of a
  typed intent against it.

  \<open>BTreeSet\<close>s are sets: the code uses membership, insertion, removal, inclusion and emptiness,
  and iterates only where the order cannot change the result. A \<open>PolicyError\<close> is its stable
  \<open>ReasonCode\<close>; the display text beside it is never inspected. JSON (\<open>serde_json\<close>), SHA-256
  and hexadecimal encoding are other crates and enter as the fields of \<open>policy_ext\<close>.
\<close>

section \<open>Data\<close>

datatype base_template = Green | Yellow | Red

datatype capability =
  FsList | FsRead | ProcessInspect | FsWriteNew | TransferRead | TransferWrite | ProcessRun

datatype run_as = User string | Uid u32

datatype path_flavor = Posix | Windows

record intent_path =
  ip_flavor :: path_flavor
  ip_value :: string

record env_var =
  ev_name :: string
  ev_value :: string

record intent_budget =
  budget_bytes :: u64
  budget_output_bytes :: u64
  budget_parallel :: u16
  budget_operations :: u32

record typed_intent =
  intent_schema_version :: u16
  intent_capability :: capability
  intent_run_as :: run_as
  intent_program :: "string option"
  intent_argv :: "string list"
  intent_env :: "env_var list"
  intent_paths :: "intent_path list"
  intent_budget :: intent_budget
  intent_deadline_ms :: u64

record limits_overlay =
  ov_max_deadline_ms :: "u64 option"
  ov_max_bytes :: "u64 option"
  ov_max_output_bytes :: "u64 option"
  ov_max_parallel :: "u16 option"
  ov_max_operations :: "u32 option"

record process_overlay =
  ov_programs :: "string list option"
  ov_env_keys :: "string list option"

datatype deny_rule =
  DenyCapability capability | DenyProgram string | DenyPathPrefix path_flavor string

record policy_document =
  doc_schema_version :: u16
  doc_base :: base_template
  doc_capabilities :: "capability list option"
  doc_run_as :: "run_as list"
  doc_limits :: limits_overlay
  doc_process :: process_overlay
  doc_deny :: "deny_rule list"

datatype reason_code =
    Allowed | SchemaInvalid | SchemaUnsupported | PolicyTooLarge | PolicyLimitExceeded
  | CapabilityExpandsBase | IdentityExpandsBase | ProgramExpandsBase | EnvironmentExpandsBase
  | InvariantRootRunAs | InvariantCommandInterpreter | InvariantShellCommandFlag
  | InvariantDangerousProgram | InvariantEnvironmentInjection | InvariantControlCharacter
  | InvariantPathTraversal | InvariantPathNotAbsolute | InvariantAmbiguousPath
  | IntentShapeMismatch | IntentCapabilityDenied | IntentIdentityDenied | IntentProgramDenied
  | IntentEnvironmentDenied | IntentPathDenied | IntentDeadlineInvalid | IntentDeadlineExceeded
  | IntentBudgetInvalid | IntentBudgetExceeded | IntentArgumentLimitExceeded
  | IntentEnvironmentLimitExceeded | IntentPathLimitExceeded

fun reason_as_str :: "reason_code \<Rightarrow> string" where
  "reason_as_str Allowed = ''allowed''"
| "reason_as_str SchemaInvalid = ''schema.invalid''"
| "reason_as_str SchemaUnsupported = ''schema.unsupported''"
| "reason_as_str PolicyTooLarge = ''policy.too_large''"
| "reason_as_str PolicyLimitExceeded = ''policy.limit_exceeded''"
| "reason_as_str CapabilityExpandsBase = ''policy.capability_expands_base''"
| "reason_as_str IdentityExpandsBase = ''policy.identity_expands_base''"
| "reason_as_str ProgramExpandsBase = ''policy.program_expands_base''"
| "reason_as_str EnvironmentExpandsBase = ''policy.environment_expands_base''"
| "reason_as_str InvariantRootRunAs = ''invariant.root_run_as''"
| "reason_as_str InvariantCommandInterpreter = ''invariant.command_interpreter''"
| "reason_as_str InvariantShellCommandFlag = ''invariant.shell_command_flag''"
| "reason_as_str InvariantDangerousProgram = ''invariant.dangerous_program''"
| "reason_as_str InvariantEnvironmentInjection = ''invariant.environment_injection''"
| "reason_as_str InvariantControlCharacter = ''invariant.control_character''"
| "reason_as_str InvariantPathTraversal = ''invariant.path_traversal''"
| "reason_as_str InvariantPathNotAbsolute = ''invariant.path_not_absolute''"
| "reason_as_str InvariantAmbiguousPath = ''invariant.ambiguous_path''"
| "reason_as_str IntentShapeMismatch = ''intent.shape_mismatch''"
| "reason_as_str IntentCapabilityDenied = ''intent.capability_denied''"
| "reason_as_str IntentIdentityDenied = ''intent.identity_denied''"
| "reason_as_str IntentProgramDenied = ''intent.program_denied''"
| "reason_as_str IntentEnvironmentDenied = ''intent.environment_denied''"
| "reason_as_str IntentPathDenied = ''intent.path_denied''"
| "reason_as_str IntentDeadlineInvalid = ''intent.deadline_invalid''"
| "reason_as_str IntentDeadlineExceeded = ''intent.deadline_exceeded''"
| "reason_as_str IntentBudgetInvalid = ''intent.budget_invalid''"
| "reason_as_str IntentBudgetExceeded = ''intent.budget_exceeded''"
| "reason_as_str IntentArgumentLimitExceeded = ''intent.argument_limit_exceeded''"
| "reason_as_str IntentEnvironmentLimitExceeded = ''intent.environment_limit_exceeded''"
| "reason_as_str IntentPathLimitExceeded = ''intent.path_limit_exceeded''"

record effective_limits =
  max_deadline_ms :: u64
  max_bytes :: u64
  max_output_bytes :: u64
  max_parallel :: u16
  max_operations :: u32

record normalized_path =
  np_flavor :: path_flavor
  np_value :: string

record policy_ir =
  ir_schema_version :: u16
  ir_base :: base_template
  ir_capabilities :: "capability set"
  ir_run_as :: "run_as set"
  ir_limits :: effective_limits
  ir_process_programs :: "string set"
  ir_process_env_keys :: "string set"
  ir_allowed_paths :: "normalized_path set"
  ir_denied_paths :: "normalized_path set"

record compiled_policy =
  cp_ir :: policy_ir
  cp_digest :: string

record explanation =
  ex_allowed :: bool
  ex_reason_code :: reason_code
  ex_policy_digest :: string

record policy_ext =
  document_from_slice :: "bytes \<Rightarrow> policy_document option"
  ir_to_vec :: "policy_ir \<Rightarrow> bytes option"
  policy_sha256 :: "bytes \<Rightarrow> bytes"
  policy_hex_encode :: "bytes \<Rightarrow> string"

definition POLICY_SCHEMA_VERSION :: u16 where "POLICY_SCHEMA_VERSION = 1"
definition INTENT_SCHEMA_VERSION :: u16 where "INTENT_SCHEMA_VERSION = 1"
definition MAX_POLICY_DOCUMENT_BYTES :: nat where "MAX_POLICY_DOCUMENT_BYTES = 64 * 1024"
definition MAX_POLICY_CAPABILITIES :: nat where "MAX_POLICY_CAPABILITIES = 16"
definition MAX_POLICY_IDENTITIES :: nat where "MAX_POLICY_IDENTITIES = 16"
definition MAX_POLICY_DENY_RULES :: nat where "MAX_POLICY_DENY_RULES = 256"
definition MAX_PROCESS_PROGRAMS :: nat where "MAX_PROCESS_PROGRAMS = 32"
definition MAX_PROCESS_ENV_KEYS :: nat where "MAX_PROCESS_ENV_KEYS = 16"
definition MAX_PROGRAM_BYTES :: nat where "MAX_PROGRAM_BYTES = 128"
definition MAX_IDENTITY_BYTES :: nat where "MAX_IDENTITY_BYTES = 64"
definition MAX_ENV_NAME_BYTES :: nat where "MAX_ENV_NAME_BYTES = 64"
definition MAX_ENV_VALUE_BYTES :: nat where "MAX_ENV_VALUE_BYTES = 1024"
definition MAX_ENV_COUNT :: nat where "MAX_ENV_COUNT = 16"
definition MAX_ENV_TOTAL_BYTES :: nat where "MAX_ENV_TOTAL_BYTES = 8 * 1024"
definition MAX_ARG_COUNT :: nat where "MAX_ARG_COUNT = 64"
definition MAX_ARG_BYTES :: nat where "MAX_ARG_BYTES = 4 * 1024"
definition MAX_ARG_TOTAL_BYTES :: nat where "MAX_ARG_TOTAL_BYTES = 16 * 1024"
definition MAX_PATH_COUNT :: nat where "MAX_PATH_COUNT = 8"
definition MAX_PATH_BYTES :: nat where "MAX_PATH_BYTES = 4 * 1024"

definition POLICY_DIGEST_DOMAIN :: bytes where
  "POLICY_DIGEST_DOMAIN = as_bytes ''serctl-policy-ir-v1'' @ [0]"

section \<open>Templates\<close>

definition enforce_count :: "nat \<Rightarrow> nat \<Rightarrow> reason_code + unit" where
  "enforce_count value limit = (if value > limit then Inl PolicyLimitExceeded else Inr ())"

fun template_capabilities :: "base_template \<Rightarrow> capability set" where
  "template_capabilities Green = {ProcessInspect}"
| "template_capabilities Yellow = {ProcessInspect}"
| "template_capabilities Red = {ProcessInspect, ProcessRun}"

datatype identity_ceiling = NobodyOnly | NonRootUidForFixedProcess

fun template_identity_ceiling :: "base_template \<Rightarrow> identity_ceiling" where
  "template_identity_ceiling Green = NobodyOnly"
| "template_identity_ceiling Yellow = NobodyOnly"
| "template_identity_ceiling Red = NonRootUidForFixedProcess"

definition template_allowed_paths :: "base_template \<Rightarrow> normalized_path set" where
  "template_allowed_paths base = {}"

fun capability_uses_path :: "capability \<Rightarrow> bool" where
  "capability_uses_path FsList = True"
| "capability_uses_path FsRead = True"
| "capability_uses_path FsWriteNew = True"
| "capability_uses_path TransferRead = True"
| "capability_uses_path TransferWrite = True"
| "capability_uses_path ProcessInspect = False"
| "capability_uses_path ProcessRun = False"

fun template_programs :: "base_template \<Rightarrow> string set" where
  "template_programs Green = {}"
| "template_programs Yellow = {}"
| "template_programs Red = {''id'', ''true'', ''uname'', ''uptime'', ''whoami''}"

fun template_env_keys :: "base_template \<Rightarrow> string set" where
  "template_env_keys Green = {}"
| "template_env_keys Yellow = {}"
| "template_env_keys Red = {''LANG'', ''LC_ALL'', ''TZ''}"

fun template_limits :: "base_template \<Rightarrow> effective_limits" where
  "template_limits Green =
     \<lparr>max_deadline_ms = 60000, max_bytes = 64 * 1024 * 1024,
      max_output_bytes = 4 * 1024 * 1024, max_parallel = 1, max_operations = 100\<rparr>"
| "template_limits Yellow =
     \<lparr>max_deadline_ms = 300000, max_bytes = 1024 * 1024 * 1024,
      max_output_bytes = 16 * 1024 * 1024, max_parallel = 2, max_operations = 1000\<rparr>"
| "template_limits Red =
     \<lparr>max_deadline_ms = 2100000, max_bytes = 16 * 1024 * 1024 * 1024,
      max_output_bytes = 64 * 1024 * 1024, max_parallel = 4, max_operations = 1000\<rparr>"

definition narrow_limit :: "'a::len word option \<Rightarrow> 'a word \<Rightarrow> reason_code + 'a word" where
  "narrow_limit selected inherited =
     (let selected = (case selected of None \<Rightarrow> inherited | Some v \<Rightarrow> v) in
      if selected < 1 \<or> selected > inherited then Inl PolicyLimitExceeded else Inr selected)"

definition compile_limits ::
  "base_template \<Rightarrow> limits_overlay \<Rightarrow> reason_code + effective_limits" where
  "compile_limits base overlay =
     (let inherited = template_limits base in
      and_then (narrow_limit (ov_max_deadline_ms overlay) (max_deadline_ms inherited)) (\<lambda>d.
      and_then (narrow_limit (ov_max_bytes overlay) (max_bytes inherited)) (\<lambda>b.
      and_then (narrow_limit (ov_max_output_bytes overlay) (max_output_bytes inherited)) (\<lambda>ob.
      and_then (narrow_limit (ov_max_parallel overlay) (max_parallel inherited)) (\<lambda>p.
      and_then (narrow_limit (ov_max_operations overlay) (max_operations inherited)) (\<lambda>n.
      Inr \<lparr>max_deadline_ms = d, max_bytes = b, max_output_bytes = ob,
           max_parallel = p, max_operations = n\<rparr>))))))"

section \<open>Text invariants\<close>

definition validate_plain_text :: "string \<Rightarrow> nat \<Rightarrow> reason_code + unit" where
  "validate_plain_text value limit =
     (if length value > limit then Inl PolicyLimitExceeded
      else if any_control value then Inl InvariantControlCharacter
      else Inr ())"

definition validate_run_as :: "run_as \<Rightarrow> reason_code + run_as" where
  "validate_run_as r =
     (case r of
        Uid value \<Rightarrow> if value = 0 then Inl InvariantRootRunAs else Inr r
      | User name \<Rightarrow>
          and_then (validate_plain_text name MAX_IDENTITY_BYTES) (\<lambda>_.
          if to_ascii_lowercase name = ''root'' \<or> parse_u32 name = Some 0
          then Inl InvariantRootRunAs
          else if name = [] \<or>
                  \<not> list_all (\<lambda>c. is_ascii_alphanumeric c \<or> c \<in> set ''_.-'') name
          then Inl SchemaInvalid
          else Inr r))"

definition normalize_program_identifier :: "string \<Rightarrow> reason_code + string" where
  "normalize_program_identifier program =
     and_then (validate_plain_text program MAX_PROGRAM_BYTES) (\<lambda>_.
     if program = [] \<or> \<not> list_all (\<lambda>c. is_ascii_alphanumeric c \<or> c \<in> set ''._-'') program
     then Inl SchemaInvalid
     else
       (let normalized = to_ascii_lowercase program in
        Inr (case strip_suffix normalized ''.exe'' of
               Some without_suffix \<Rightarrow> without_suffix
             | None \<Rightarrow> normalized)))"

definition is_dangerous_env_key :: "string \<Rightarrow> bool" where
  "is_dangerous_env_key key \<longleftrightarrow>
     key = ''PATH'' \<or> key = ''IFS'' \<or> key = ''ENV'' \<or> key = ''BASH_ENV'' \<or>
     key = ''SHELLOPTS'' \<or> key = ''PYTHONPATH'' \<or>
     starts_with key ''LD_'' \<or> starts_with key ''DYLD_''"

definition normalize_env_key :: "string \<Rightarrow> reason_code + string" where
  "normalize_env_key key =
     and_then (validate_plain_text key MAX_ENV_NAME_BYTES) (\<lambda>_.
     if key = [] \<or>
        \<not> list_all (\<lambda>c. is_ascii_uppercase c \<or> is_ascii_digit c \<or> c = CHR ''_'') key
     then Inl SchemaInvalid
     else if is_dangerous_env_key key then Inl InvariantEnvironmentInjection
     else Inr key)"

definition is_command_interpreter :: "string \<Rightarrow> bool" where
  "is_command_interpreter program \<longleftrightarrow>
     program \<in> set [''sh'', ''bash'', ''dash'', ''zsh'', ''ksh'', ''fish'', ''csh'', ''tcsh'',
       ''cmd'', ''powershell'', ''pwsh'', ''wscript'', ''cscript'', ''mshta'', ''python'',
       ''python3'', ''perl'', ''ruby'', ''node'', ''osascript'']"

definition is_dangerous_program :: "string \<Rightarrow> bool" where
  "is_dangerous_program program \<longleftrightarrow>
     starts_with program ''mkfs.'' \<or>
     program \<in> set [''rm'', ''rmdir'', ''dd'', ''mkfs'', ''fdisk'', ''sfdisk'', ''cfdisk'',
       ''parted'', ''wipefs'', ''shred'', ''chmod'', ''chown'', ''chgrp'', ''setfacl'', ''mount'',
       ''umount'', ''reboot'', ''shutdown'', ''poweroff'', ''halt'', ''init'', ''systemctl'',
       ''sudo'', ''su'', ''doas'', ''pkexec'', ''reg'', ''regedit'', ''sc'', ''net'', ''netsh'',
       ''diskpart'', ''format'', ''bcdedit'', ''cipher'', ''takeown'', ''icacls'']"

definition validate_program_invariant :: "string \<Rightarrow> reason_code + unit" where
  "validate_program_invariant program =
     (if is_command_interpreter program then Inl InvariantCommandInterpreter
      else if is_dangerous_program program then Inl InvariantDangerousProgram
      else Inr ())"

definition is_shell_command_flag :: "string \<Rightarrow> bool" where
  "is_shell_command_flag argument \<longleftrightarrow>
     to_ascii_lowercase argument \<in>
       set [''-c'', ''/c'', ''--command'', ''-command'', ''-encodedcommand'']"

section \<open>Paths\<close>

definition dot_component :: "string \<Rightarrow> bool" where
  "dot_component component \<longleftrightarrow> component = ''.'' \<or> component = ''..''"

text \<open>The loop over the non-empty components of a POSIX path.\<close>

fun posix_components :: "string list \<Rightarrow> reason_code + string list" where
  "posix_components [] = Inr []"
| "posix_components (component # rest) =
     (if dot_component component then Inl InvariantPathTraversal
      else and_then (posix_components rest) (\<lambda>cs. Inr (component # cs)))"

definition normalize_posix_path :: "string \<Rightarrow> reason_code + string" where
  "normalize_posix_path value =
     (if \<not> starts_with value ''/'' then Inl InvariantPathNotAbsolute
      else if CHR 0x5C \<in> set value then Inl InvariantAmbiguousPath
      else and_then (posix_components (filter (\<lambda>c. c \<noteq> []) (split_on CHR ''/'' value)))
        (\<lambda>components.
           if components = [] then Inr ''/''
           else Inr (''/'' @ join_with CHR ''/'' components)))"

definition is_windows_reserved_component :: "string \<Rightarrow> bool" where
  "is_windows_reserved_component component \<longleftrightarrow>
     (let stem = to_ascii_uppercase
            (case split_on CHR ''.'' component of w # _ \<Rightarrow> w | [] \<Rightarrow> component) in
      stem \<in> set [''CON'', ''PRN'', ''AUX'', ''NUL''] \<or>
      (case (case strip_prefix stem ''COM'' of
               Some t \<Rightarrow> Some t | None \<Rightarrow> strip_prefix stem ''LPT'') of
         None \<Rightarrow> False
       | Some t \<Rightarrow> length t = 1 \<and> 49 \<le> char_code (t ! 0) \<and> char_code (t ! 0) \<le> 57))"

fun windows_components :: "string list \<Rightarrow> reason_code + string list" where
  "windows_components [] = Inr []"
| "windows_components (component # rest) =
     (if dot_component component then Inl InvariantPathTraversal
      else if CHR '':'' \<in> set component \<or> ends_with component ''.'' \<or>
              ends_with component '' '' \<or> is_windows_reserved_component component
      then Inl InvariantAmbiguousPath
      else and_then (windows_components rest) (\<lambda>cs. Inr (component # cs)))"

definition normalize_windows_path :: "string \<Rightarrow> reason_code + string" where
  "normalize_windows_path value =
     (let canonical = map (\<lambda>c. if c = CHR 0x5C then CHR ''/'' else c) value in
      if starts_with canonical ''//'' \<or> length canonical < 3
      then Inl InvariantPathNotAbsolute
      else if \<not> is_ascii_alphabetic (canonical ! 0) \<or> canonical ! 1 \<noteq> CHR '':'' \<or>
              canonical ! 2 \<noteq> CHR ''/''
      then Inl InvariantPathNotAbsolute
      else and_then
        (windows_components (filter (\<lambda>c. c \<noteq> []) (split_on CHR ''/'' (drop 3 canonical))))
        (\<lambda>components.
           let drive = upper (canonical ! 0) in
           if components = [] then Inr (drive # '':/'')
           else Inr (drive # '':/'' @ join_with CHR ''/'' components)))"

definition normalize_path :: "path_flavor \<Rightarrow> string \<Rightarrow> reason_code + string" where
  "normalize_path flavor value =
     and_then (validate_plain_text value MAX_PATH_BYTES) (\<lambda>_.
     if CHR ''%'' \<in> set value \<or> 0x2044 \<in> set (chars value) \<or> 0x2215 \<in> set (chars value) \<or>
        0xff0f \<in> set (chars value) \<or> 0xff3c \<in> set (chars value)
     then Inl InvariantAmbiguousPath
     else (case flavor of
             Posix \<Rightarrow> normalize_posix_path value
           | Windows \<Rightarrow> normalize_windows_path value))"

definition path_prefix_matches :: "normalized_path \<Rightarrow> normalized_path \<Rightarrow> bool" where
  "path_prefix_matches pre path \<longleftrightarrow>
     (if np_flavor pre \<noteq> np_flavor path then False
      else
        (let (prefix_value, path_value) =
               (case np_flavor pre of
                  Posix \<Rightarrow> (np_value pre, np_value path)
                | Windows \<Rightarrow>
                    (to_ascii_lowercase (np_value pre), to_ascii_lowercase (np_value path))) in
         if prefix_value = ''/'' \<or> ends_with prefix_value '':/''
         then starts_with path_value prefix_value
         else path_value = prefix_value \<or>
              (case strip_prefix path_value prefix_value of
                 None \<Rightarrow> False
               | Some rest \<Rightarrow> starts_with rest ''/'')))"

section \<open>Compilation\<close>

definition compile_identity_selection ::
  "base_template \<Rightarrow> run_as list \<Rightarrow> reason_code + run_as set" where
  "compile_identity_selection base selected =
     and_then (collect_res validate_run_as selected) (\<lambda>selected.
     if (case template_identity_ceiling base of
           NobodyOnly \<Rightarrow> list_all (\<lambda>identity. identity = User ''nobody'') selected
         | NonRootUidForFixedProcess \<Rightarrow>
             list_all (\<lambda>identity. case identity of Uid value \<Rightarrow> 1 \<le> value | _ \<Rightarrow> False) selected)
     then Inr (set selected)
     else Inl IdentityExpandsBase)"

definition compile_program_selection ::
  "string list option \<Rightarrow> string set \<Rightarrow> reason_code \<Rightarrow> reason_code + string set" where
  "compile_program_selection selected inherited expansion_code =
     (case selected of
        None \<Rightarrow> Inr inherited
      | Some selected \<Rightarrow>
          and_then
            (collect_res (\<lambda>program.
               and_then (normalize_program_identifier program) (\<lambda>normalized.
               and_then (validate_program_invariant normalized) (\<lambda>_. Inr normalized))) selected)
            (\<lambda>selected.
               if set selected \<subseteq> inherited then Inr (set selected) else Inl expansion_code))"

definition compile_env_selection ::
  "string list option \<Rightarrow> string set \<Rightarrow> reason_code + string set" where
  "compile_env_selection selected inherited =
     (case selected of
        None \<Rightarrow> Inr inherited
      | Some selected \<Rightarrow>
          and_then (collect_res normalize_env_key selected) (\<lambda>selected.
            if set selected \<subseteq> inherited then Inr (set selected)
            else Inl EnvironmentExpandsBase))"

definition compile_capability_selection ::
  "capability list option \<Rightarrow> capability set \<Rightarrow> reason_code + capability set" where
  "compile_capability_selection selected base_capabilities =
     (case selected of
        Some selected \<Rightarrow>
          if set selected \<subseteq> base_capabilities then Inr (set selected)
          else Inl CapabilityExpandsBase
      | None \<Rightarrow> Inr base_capabilities)"

text \<open>The loop over the deny rules; its state is the capabilities, the programs and the
  denied path prefixes.\<close>

fun apply_deny_rules ::
  "deny_rule list \<Rightarrow> capability set \<times> string set \<times> normalized_path set \<Rightarrow>
     reason_code + capability set \<times> string set \<times> normalized_path set" where
  "apply_deny_rules [] st = Inr st"
| "apply_deny_rules (rule # rest) (caps, programs, denied) =
     (case rule of
        DenyCapability capability \<Rightarrow>
          apply_deny_rules rest (caps - {capability}, programs, denied)
      | DenyProgram name \<Rightarrow>
          and_then (normalize_program_identifier name) (\<lambda>normalized.
            apply_deny_rules rest (caps, programs - {normalized}, denied))
      | DenyPathPrefix flavor value \<Rightarrow>
          and_then (normalize_path flavor value) (\<lambda>v.
            apply_deny_rules rest
              (caps, programs, insert \<lparr>np_flavor = flavor, np_value = v\<rparr> denied)))"

definition canonical_bytes :: "policy_ext \<Rightarrow> policy_ir \<Rightarrow> reason_code + bytes" where
  "canonical_bytes X ir = ok_or (ir_to_vec X ir) SchemaInvalid"

text \<open>\<open>compile_ir\<close> is the part of \<open>compile_policy\<close> up to the construction of the
  intermediate representation; \<open>compile_policy\<close> adds the digest.\<close>

definition compile_ir :: "policy_document \<Rightarrow> reason_code + policy_ir" where
  "compile_ir document =
     (if doc_schema_version document \<noteq> POLICY_SCHEMA_VERSION then Inl SchemaUnsupported
      else
      and_then (enforce_count
        (case doc_capabilities document of None \<Rightarrow> 0 | Some l \<Rightarrow> length l)
        MAX_POLICY_CAPABILITIES) (\<lambda>_.
      if doc_run_as document = [] then Inl PolicyLimitExceeded
      else
      and_then (enforce_count (length (doc_run_as document)) MAX_POLICY_IDENTITIES) (\<lambda>_.
      and_then (enforce_count (length (doc_deny document)) MAX_POLICY_DENY_RULES) (\<lambda>_.
      and_then (enforce_count
        (case ov_programs (doc_process document) of None \<Rightarrow> 0 | Some l \<Rightarrow> length l)
        MAX_PROCESS_PROGRAMS) (\<lambda>_.
      and_then (enforce_count
        (case ov_env_keys (doc_process document) of None \<Rightarrow> 0 | Some l \<Rightarrow> length l)
        MAX_PROCESS_ENV_KEYS) (\<lambda>_.
      and_then (compile_capability_selection (doc_capabilities document)
        (template_capabilities (doc_base document))) (\<lambda>capabilities.
      and_then (compile_identity_selection (doc_base document) (doc_run_as document)) (\<lambda>run_as.
      and_then (compile_limits (doc_base document) (doc_limits document)) (\<lambda>limits.
      and_then (compile_program_selection (ov_programs (doc_process document))
        (template_programs (doc_base document)) ProgramExpandsBase) (\<lambda>process_programs.
      and_then (compile_env_selection (ov_env_keys (doc_process document))
        (template_env_keys (doc_base document))) (\<lambda>process_env_keys.
      and_then (apply_deny_rules (doc_deny document) (capabilities, process_programs, {}))
        (\<lambda>(capabilities, process_programs, denied_paths).
      let allowed_paths = template_allowed_paths (doc_base document);
          process_programs = (if ProcessRun \<in> capabilities then process_programs else {});
          process_env_keys = (if ProcessRun \<in> capabilities then process_env_keys else {}) in
      if (\<exists>capability\<in>capabilities. capability_uses_path capability) \<and> allowed_paths = {}
      then Inl CapabilityExpandsBase
      else Inr \<lparr>ir_schema_version = POLICY_SCHEMA_VERSION, ir_base = doc_base document,
                ir_capabilities = capabilities, ir_run_as = run_as, ir_limits = limits,
                ir_process_programs = process_programs, ir_process_env_keys = process_env_keys,
                ir_allowed_paths = allowed_paths, ir_denied_paths = denied_paths\<rparr>))))))))))))"

definition compile_policy ::
  "policy_ext \<Rightarrow> policy_document \<Rightarrow> reason_code + compiled_policy" where
  "compile_policy X document =
     and_then (compile_ir document) (\<lambda>ir.
     and_then (canonical_bytes X ir) (\<lambda>canonical.
     Inr \<lparr>cp_ir = ir,
          cp_digest =
            policy_hex_encode X (policy_sha256 X (POLICY_DIGEST_DOMAIN @ canonical))\<rparr>))"

definition compile_policy_json :: "policy_ext \<Rightarrow> bytes \<Rightarrow> reason_code + compiled_policy" where
  "compile_policy_json X bs =
     (if length bs > MAX_POLICY_DOCUMENT_BYTES then Inl PolicyTooLarge
      else and_then (ok_or (document_from_slice X bs) SchemaInvalid) (compile_policy X))"

section \<open>Evaluation\<close>

definition validate_intent_identity :: "run_as \<Rightarrow> reason_code + unit" where
  "validate_intent_identity r = and_then (validate_run_as r) (\<lambda>_. Inr ())"

fun check_arguments :: "string list \<Rightarrow> nat \<Rightarrow> reason_code + nat" where
  "check_arguments [] argument_bytes = Inr argument_bytes"
| "check_arguments (argument # rest) argument_bytes =
     (if length argument > MAX_ARG_BYTES then Inl IntentArgumentLimitExceeded
      else if any_control argument then Inl InvariantControlCharacter
      else if is_shell_command_flag argument then Inl InvariantShellCommandFlag
      else check_arguments rest (usize_saturating_add argument_bytes (length argument)))"

fun check_environment :: "env_var list \<Rightarrow> nat \<Rightarrow> reason_code + nat" where
  "check_environment [] env_bytes = Inr env_bytes"
| "check_environment (variable # rest) env_bytes =
     (if length (ev_name variable) > MAX_ENV_NAME_BYTES \<or>
         length (ev_value variable) > MAX_ENV_VALUE_BYTES
      then Inl IntentEnvironmentLimitExceeded
      else if any_control (ev_name variable) \<or> any_control (ev_value variable)
      then Inl InvariantControlCharacter
      else check_environment rest
        (usize_saturating_add (usize_saturating_add env_bytes (length (ev_name variable)))
           (length (ev_value variable))))"

definition validate_intent_collections :: "typed_intent \<Rightarrow> reason_code + unit" where
  "validate_intent_collections intent =
     (if (case intent_program intent of
            None \<Rightarrow> False | Some program \<Rightarrow> length program > MAX_PROGRAM_BYTES)
      then Inl IntentArgumentLimitExceeded
      else if length (intent_argv intent) > MAX_ARG_COUNT then Inl IntentArgumentLimitExceeded
      else
      and_then (check_arguments (intent_argv intent) 0) (\<lambda>argument_bytes.
      if argument_bytes > MAX_ARG_TOTAL_BYTES then Inl IntentArgumentLimitExceeded
      else if length (intent_env intent) > MAX_ENV_COUNT then Inl IntentEnvironmentLimitExceeded
      else
      and_then (check_environment (intent_env intent) 0) (\<lambda>env_bytes.
      if env_bytes > MAX_ENV_TOTAL_BYTES then Inl IntentEnvironmentLimitExceeded
      else if length (intent_paths intent) > MAX_PATH_COUNT then Inl IntentPathLimitExceeded
      else if list_ex (\<lambda>path. length (ip_value path) > MAX_PATH_BYTES) (intent_paths intent)
      then Inl IntentPathLimitExceeded
      else Inr ())))"

definition validate_intent_shape :: "typed_intent \<Rightarrow> reason_code + unit" where
  "validate_intent_shape intent =
     (case intent_capability intent of
        ProcessInspect \<Rightarrow>
          if intent_program intent \<noteq> None \<or> intent_argv intent \<noteq> [] \<or>
             intent_env intent \<noteq> [] \<or> intent_paths intent \<noteq> []
          then Inl IntentShapeMismatch else Inr ()
      | ProcessRun \<Rightarrow>
          if intent_program intent = None \<or> length (intent_paths intent) > 1
          then Inl IntentShapeMismatch else Inr ()
      | _ \<Rightarrow>
          if intent_program intent \<noteq> None \<or> intent_argv intent \<noteq> [] \<or>
             intent_env intent \<noteq> [] \<or> length (intent_paths intent) \<noteq> 1
          then Inl IntentShapeMismatch else Inr ())"

definition validate_intent_deadline_and_budget ::
  "effective_limits \<Rightarrow> typed_intent \<Rightarrow> reason_code + unit" where
  "validate_intent_deadline_and_budget limits intent =
     (let budget = intent_budget intent in
      if intent_deadline_ms intent = 0 then Inl IntentDeadlineInvalid
      else if intent_deadline_ms intent > max_deadline_ms limits then Inl IntentDeadlineExceeded
      else if budget_parallel budget = 0 \<or> budget_operations budget = 0
      then Inl IntentBudgetInvalid
      else if budget_bytes budget > max_bytes limits \<or>
              budget_output_bytes budget > max_output_bytes limits \<or>
              budget_parallel budget > max_parallel limits \<or>
              budget_operations budget > max_operations limits
      then Inl IntentBudgetExceeded
      else Inr ())"

definition normalize_intent_program :: "string option \<Rightarrow> reason_code + string option" where
  "normalize_intent_program p =
     (case p of
        None \<Rightarrow> Inr None
      | Some program \<Rightarrow>
          and_then (normalize_program_identifier program) (\<lambda>program.
          and_then (validate_program_invariant program) (\<lambda>_. Inr (Some program))))"

fun collect_env_names :: "env_var list \<Rightarrow> string set \<Rightarrow> reason_code + string set" where
  "collect_env_names [] names = Inr names"
| "collect_env_names (variable # rest) names =
     and_then (normalize_env_key (ev_name variable)) (\<lambda>key.
     if key \<in> names then Inl IntentEnvironmentDenied
     else collect_env_names rest (insert key names))"

definition normalize_intent_path :: "intent_path \<Rightarrow> reason_code + normalized_path" where
  "normalize_intent_path path =
     and_then (normalize_path (ip_flavor path) (ip_value path)) (\<lambda>v.
     Inr \<lparr>np_flavor = ip_flavor path, np_value = v\<rparr>)"

fun check_paths :: "policy_ir \<Rightarrow> normalized_path list \<Rightarrow> reason_code + unit" where
  "check_paths ir [] = Inr ()"
| "check_paths ir (normalized # rest) =
     (if \<not> (\<exists>pre\<in>ir_allowed_paths ir. path_prefix_matches pre normalized)
      then Inl IntentPathDenied
      else if \<exists>pre\<in>ir_denied_paths ir. path_prefix_matches pre normalized
      then Inl IntentPathDenied
      else check_paths ir rest)"

definition evaluate_intent :: "policy_ir \<Rightarrow> typed_intent \<Rightarrow> reason_code + unit" where
  "evaluate_intent ir intent =
     (if intent_schema_version intent \<noteq> INTENT_SCHEMA_VERSION then Inl SchemaUnsupported
      else
      and_then (validate_intent_identity (intent_run_as intent)) (\<lambda>_.
      and_then (validate_intent_collections intent) (\<lambda>_.
      and_then (normalize_intent_program (intent_program intent)) (\<lambda>normalized_program.
      and_then (collect_env_names (intent_env intent) {}) (\<lambda>normalized_env_names.
      and_then (collect_res normalize_intent_path (intent_paths intent)) (\<lambda>normalized_paths.
      and_then (validate_intent_shape intent) (\<lambda>_.
      if intent_capability intent \<notin> ir_capabilities ir then Inl IntentCapabilityDenied
      else if intent_run_as intent \<notin> ir_run_as ir then Inl IntentIdentityDenied
      else
      and_then (validate_intent_deadline_and_budget (ir_limits ir) intent) (\<lambda>_.
      if (case normalized_program of
            None \<Rightarrow> False | Some program \<Rightarrow> program \<notin> ir_process_programs ir)
      then Inl IntentProgramDenied
      else if \<not> normalized_env_names \<subseteq> ir_process_env_keys ir
      then Inl IntentEnvironmentDenied
      else check_paths ir normalized_paths))))))))"

definition explain :: "compiled_policy \<Rightarrow> typed_intent \<Rightarrow> explanation" where
  "explain policy intent =
     (case evaluate_intent (cp_ir policy) intent of
        Inr _ \<Rightarrow> \<lparr>ex_allowed = True, ex_reason_code = Allowed,
                  ex_policy_digest = cp_digest policy\<rparr>
      | Inl reason \<Rightarrow> \<lparr>ex_allowed = False, ex_reason_code = reason,
                  ex_policy_digest = cp_digest policy\<rparr>)"

definition dry_run :: "compiled_policy \<Rightarrow> typed_intent \<Rightarrow> explanation" where
  "dry_run policy intent = explain policy intent"

section \<open>Lemmas\<close>

subsection \<open>Success of the compiler's parts\<close>

lemma enforce_count_eq_Inr [result_simps]: "enforce_count v l = Inr x \<longleftrightarrow> v \<le> l"
  by (cases x) (simp add: enforce_count_def)

lemma validate_plain_text_eq_Inr [result_simps]:
  "validate_plain_text s n = Inr x \<longleftrightarrow> length s \<le> n \<and> \<not> any_control s"
  by (cases x) (simp add: validate_plain_text_def)

lemma narrow_limit_eq_Inr [result_simps]:
  "narrow_limit s inh = Inr v \<longleftrightarrow>
     1 \<le> v \<and> v \<le> inh \<and> v = (case s of None \<Rightarrow> inh | Some w \<Rightarrow> w)"
  by (auto simp: narrow_limit_def Let_def word_one_le not_less)

definition limits_le :: "effective_limits \<Rightarrow> effective_limits \<Rightarrow> bool" where
  "limits_le a b \<longleftrightarrow>
     max_deadline_ms a \<le> max_deadline_ms b \<and> max_bytes a \<le> max_bytes b \<and>
     max_output_bytes a \<le> max_output_bytes b \<and> max_parallel a \<le> max_parallel b \<and>
     max_operations a \<le> max_operations b"

definition limits_positive :: "effective_limits \<Rightarrow> bool" where
  "limits_positive a \<longleftrightarrow>
     1 \<le> max_deadline_ms a \<and> 1 \<le> max_bytes a \<and> 1 \<le> max_output_bytes a \<and>
     1 \<le> max_parallel a \<and> 1 \<le> max_operations a"

definition within_ceiling :: "base_template \<Rightarrow> run_as \<Rightarrow> bool" where
  "within_ceiling base r \<longleftrightarrow>
     (case template_identity_ceiling base of
        NobodyOnly \<Rightarrow> r = User ''nobody''
      | NonRootUidForFixedProcess \<Rightarrow> (case r of Uid u \<Rightarrow> u \<noteq> 0 | User _ \<Rightarrow> False))"

lemma compile_limits_bounds:
  "compile_limits base ov = Inr l \<Longrightarrow> limits_le l (template_limits base) \<and> limits_positive l"
  by (auto simp: compile_limits_def Let_def limits_le_def limits_positive_def result_simps)

lemma validate_run_as_eq_Inr: "validate_run_as r = Inr r' \<Longrightarrow> r' = r"
  by (auto simp: validate_run_as_def result_simps split: run_as.splits if_splits)

lemma compile_identity_selection_eq_Inr:
  "compile_identity_selection base rs = Inr R \<longleftrightarrow>
     R = set rs \<and> (\<forall>r\<in>set rs. validate_run_as r = Inr r \<and> within_ceiling base r)"
proof -
  have *: "list_all2 (\<lambda>x y. validate_run_as x = Inr y) rs ys \<longleftrightarrow>
      ys = rs \<and> (\<forall>r\<in>set rs. validate_run_as r = Inr r)" for ys
    using list_all2_id [of validate_run_as rs ys, OF _ validate_run_as_eq_Inr]
    by (auto simp: list_all2_same)
  have "(case template_identity_ceiling base of
           NobodyOnly \<Rightarrow> list_all (\<lambda>identity. identity = User ''nobody'') rs
         | NonRootUidForFixedProcess \<Rightarrow>
             list_all (\<lambda>identity. case identity of Uid value \<Rightarrow> 1 \<le> value | _ \<Rightarrow> False) rs)
      = list_all (within_ceiling base) rs"
    by (cases "template_identity_ceiling base")
      (auto simp: within_ceiling_def list_all_iff word_one_le split: run_as.splits)
  with * show ?thesis
    unfolding compile_identity_selection_def and_then_eq_Inr collect_res_eq_Inr
    by (auto simp: list_all_iff)
qed

lemma compile_program_selection_subset:
  "compile_program_selection sel inh e = Inr P \<Longrightarrow> P \<subseteq> inh"
  by (auto simp: compile_program_selection_def result_simps split: option.splits if_splits)

lemma compile_env_selection_subset:
  "compile_env_selection sel inh = Inr P \<Longrightarrow> P \<subseteq> inh"
  by (auto simp: compile_env_selection_def result_simps split: option.splits if_splits)

lemma compile_capability_selection_subset:
  "compile_capability_selection sel inh = Inr P \<Longrightarrow> P \<subseteq> inh"
  by (auto simp: compile_capability_selection_def split: option.splits if_splits)

text \<open>The deny loop in closed form.\<close>

definition deny_rule_ok :: "deny_rule \<Rightarrow> bool" where
  "deny_rule_ok rule =
     (case rule of
        DenyCapability _ \<Rightarrow> True
      | DenyProgram name \<Rightarrow> \<not> isl (normalize_program_identifier name)
      | DenyPathPrefix flavor value \<Rightarrow> \<not> isl (normalize_path flavor value))"

definition denied_capabilities :: "deny_rule set \<Rightarrow> capability set" where
  "denied_capabilities R = {c. DenyCapability c \<in> R}"

definition denied_programs :: "deny_rule set \<Rightarrow> string set" where
  "denied_programs R = {p. \<exists>n. DenyProgram n \<in> R \<and> normalize_program_identifier n = Inr p}"

definition denied_prefixes :: "deny_rule set \<Rightarrow> normalized_path set" where
  "denied_prefixes R =
     {p. \<exists>v. DenyPathPrefix (np_flavor p) v \<in> R \<and> normalize_path (np_flavor p) v = Inr (np_value p)}"

lemma denied_insert:
  "denied_capabilities (insert (DenyCapability c) R) = insert c (denied_capabilities R)"
  "denied_capabilities (insert (DenyProgram n) R) = denied_capabilities R"
  "denied_capabilities (insert (DenyPathPrefix f v) R) = denied_capabilities R"
  "denied_programs (insert (DenyCapability c) R) = denied_programs R"
  "normalize_program_identifier n = Inr p \<Longrightarrow>
     denied_programs (insert (DenyProgram n) R) = insert p (denied_programs R)"
  "denied_programs (insert (DenyPathPrefix f v) R) = denied_programs R"
  "denied_prefixes (insert (DenyCapability c) R) = denied_prefixes R"
  "denied_prefixes (insert (DenyProgram n) R) = denied_prefixes R"
  "normalize_path f v = Inr w \<Longrightarrow>
     denied_prefixes (insert (DenyPathPrefix f v) R) =
       insert \<lparr>np_flavor = f, np_value = w\<rparr> (denied_prefixes R)"
  by (auto simp: denied_capabilities_def denied_programs_def denied_prefixes_def)

lemma denied_empty:
  "denied_capabilities {} = {}" "denied_programs {} = {}" "denied_prefixes {} = {}"
  by (auto simp: denied_capabilities_def denied_programs_def denied_prefixes_def)

lemma apply_deny_rules_eq_Inr:
  "apply_deny_rules rules (c, p, d) = Inr (c', p', d') \<longleftrightarrow>
     (\<forall>r\<in>set rules. deny_rule_ok r) \<and> c' = c - denied_capabilities (set rules) \<and>
     p' = p - denied_programs (set rules) \<and> d' = d \<union> denied_prefixes (set rules)"
proof (induction rules arbitrary: c p d)
  case Nil
  then show ?case by (auto simp: denied_empty)
next
  case (Cons rule rules)
  show ?case
  proof (cases rule)
    case (DenyCapability x)
    then show ?thesis using Cons.IH by (auto simp: denied_insert deny_rule_ok_def)
  next
    case (DenyProgram n)
    then show ?thesis using Cons.IH
      by (cases "normalize_program_identifier n") (auto simp: denied_insert deny_rule_ok_def)
  next
    case (DenyPathPrefix f v)
    then show ?thesis using Cons.IH
      by (cases "normalize_path f v") (auto simp: denied_insert deny_rule_ok_def)
  qed
qed

subsection \<open>What a compiled policy contains\<close>

lemma compile_ir_eq_Inr:
  assumes "compile_ir doc = Inr ir"
  obtains C R L P E c p d where
    "compile_capability_selection (doc_capabilities doc)
       (template_capabilities (doc_base doc)) = Inr C"
    "compile_identity_selection (doc_base doc) (doc_run_as doc) = Inr R"
    "compile_limits (doc_base doc) (doc_limits doc) = Inr L"
    "compile_program_selection (ov_programs (doc_process doc))
       (template_programs (doc_base doc)) ProgramExpandsBase = Inr P"
    "compile_env_selection (ov_env_keys (doc_process doc))
       (template_env_keys (doc_base doc)) = Inr E"
    "apply_deny_rules (doc_deny doc) (C, P, {}) = Inr (c, p, d)"
    "ir = \<lparr>ir_schema_version = POLICY_SCHEMA_VERSION, ir_base = doc_base doc,
           ir_capabilities = c, ir_run_as = R, ir_limits = L,
           ir_process_programs = (if ProcessRun \<in> c then p else {}),
           ir_process_env_keys = (if ProcessRun \<in> c then E else {}),
           ir_allowed_paths = {}, ir_denied_paths = d\<rparr>"
proof -
  from assms show thesis
    by (simp add: compile_ir_def template_allowed_paths_def Let_def result_simps split_beta)
      (elim conjE exE, rule that, assumption+, erule subst, simp)
qed

lemma compile_ir_Inr:
  assumes "compile_ir doc = Inr ir"
  shows "ir_base ir = doc_base doc"
    and "ir_allowed_paths ir = {}"
    and "ir_denied_paths ir = denied_prefixes (set (doc_deny doc))"
    and "compile_identity_selection (doc_base doc) (doc_run_as doc) = Inr (ir_run_as ir)"
    and "compile_limits (doc_base doc) (doc_limits doc) = Inr (ir_limits ir)"
    and "\<exists>C. compile_capability_selection (doc_capabilities doc)
               (template_capabilities (doc_base doc)) = Inr C \<and>
             ir_capabilities ir = C - denied_capabilities (set (doc_deny doc))"
    and "\<exists>P. compile_program_selection (ov_programs (doc_process doc))
               (template_programs (doc_base doc)) ProgramExpandsBase = Inr P \<and>
             ir_process_programs ir =
               (if ProcessRun \<in> ir_capabilities ir
                then P - denied_programs (set (doc_deny doc)) else {})"
    and "\<exists>E. compile_env_selection (ov_env_keys (doc_process doc))
               (template_env_keys (doc_base doc)) = Inr E \<and>
             ir_process_env_keys ir = (if ProcessRun \<in> ir_capabilities ir then E else {})"
    and "ir_schema_version ir = POLICY_SCHEMA_VERSION"
  by (rule compile_ir_eq_Inr [OF assms], simp add: apply_deny_rules_eq_Inr)+

subsection \<open>What an allowed intent satisfies\<close>

lemma normalize_env_key_eq_Inr:
  "normalize_env_key k = Inr k' \<Longrightarrow> k' = k \<and> \<not> is_dangerous_env_key k"
  by (auto simp: normalize_env_key_def result_simps split: if_splits)

lemma check_arguments_Inr:
  "check_arguments args n = Inr m \<Longrightarrow> a \<in> set args \<Longrightarrow>
     length a \<le> MAX_ARG_BYTES \<and> \<not> any_control a \<and> \<not> is_shell_command_flag a"
  by (induction args n rule: check_arguments.induct) (auto split: if_splits)

lemma collect_env_names_Inr:
  "collect_env_names vs N = Inr M \<Longrightarrow>
     M = N \<union> ev_name ` set vs \<and> distinct (map ev_name vs) \<and> N \<inter> ev_name ` set vs = {} \<and>
     (\<forall>v\<in>set vs. \<not> is_dangerous_env_key (ev_name v))"
proof (induction vs N rule: collect_env_names.induct)
  case (2 v vs N)
  then obtain k where k: "normalize_env_key (ev_name v) = Inr k" "k \<notin> N"
      "collect_env_names vs (insert k N) = Inr M"
    by (auto simp: result_simps split: if_splits)
  from normalize_env_key_eq_Inr [OF k(1)] 2(1) [OF k(2,3)] k(2) show ?case by auto
qed simp

lemma check_paths_eq_Inr [result_simps]:
  "check_paths ir ps = Inr x \<longleftrightarrow>
     (\<forall>p\<in>set ps. (\<exists>pre\<in>ir_allowed_paths ir. path_prefix_matches pre p) \<and>
                 (\<forall>pre\<in>ir_denied_paths ir. \<not> path_prefix_matches pre p))"
  by (cases x, induction ir ps rule: check_paths.induct) auto

lemma normalize_intent_program_Inr:
  "normalize_intent_program p = Inr q \<Longrightarrow>
     (case p of None \<Rightarrow> q = None
      | Some s \<Rightarrow> \<exists>n. normalize_program_identifier s = Inr n \<and> q = Some n \<and>
                  \<not> is_command_interpreter n \<and> \<not> is_dangerous_program n)"
  by (auto simp: normalize_intent_program_def validate_program_invariant_def result_simps
        split: option.splits if_splits)

lemma evaluate_intent_eq_Inr:
  "evaluate_intent ir i = Inr u \<longleftrightarrow>
     intent_schema_version i = INTENT_SCHEMA_VERSION \<and>
     validate_intent_identity (intent_run_as i) = Inr () \<and>
     validate_intent_collections i = Inr () \<and>
     validate_intent_shape i = Inr () \<and>
     intent_capability i \<in> ir_capabilities ir \<and> intent_run_as i \<in> ir_run_as ir \<and>
     validate_intent_deadline_and_budget (ir_limits ir) i = Inr () \<and>
     (\<exists>p. normalize_intent_program (intent_program i) = Inr p \<and>
          (\<forall>n. p = Some n \<longrightarrow> n \<in> ir_process_programs ir)) \<and>
     (\<exists>names. collect_env_names (intent_env i) {} = Inr names \<and> names \<subseteq> ir_process_env_keys ir) \<and>
     (\<exists>ps. collect_res normalize_intent_path (intent_paths i) = Inr ps \<and>
           check_paths ir ps = Inr ())"
  by (cases u) (auto simp: evaluate_intent_def and_then_eq_Inr split: option.splits)

lemma validate_intent_deadline_and_budget_eq_Inr [result_simps]:
  "validate_intent_deadline_and_budget l i = Inr u \<longleftrightarrow>
     0 < intent_deadline_ms i \<and> intent_deadline_ms i \<le> max_deadline_ms l \<and>
     0 < budget_parallel (intent_budget i) \<and> 0 < budget_operations (intent_budget i) \<and>
     budget_bytes (intent_budget i) \<le> max_bytes l \<and>
     budget_output_bytes (intent_budget i) \<le> max_output_bytes l \<and>
     budget_parallel (intent_budget i) \<le> max_parallel l \<and>
     budget_operations (intent_budget i) \<le> max_operations l"
  by (cases u) (auto simp: validate_intent_deadline_and_budget_def Let_def word_neq_0_conv not_less)

text \<open>The narrowing order on intermediate representations, and evaluation is monotone in it.\<close>

definition ir_le :: "policy_ir \<Rightarrow> policy_ir \<Rightarrow> bool" where
  "ir_le a b \<longleftrightarrow>
     ir_capabilities a \<subseteq> ir_capabilities b \<and> ir_run_as a \<subseteq> ir_run_as b \<and>
     limits_le (ir_limits a) (ir_limits b) \<and> ir_process_programs a \<subseteq> ir_process_programs b \<and>
     ir_process_env_keys a \<subseteq> ir_process_env_keys b \<and>
     ir_allowed_paths a \<subseteq> ir_allowed_paths b \<and> ir_denied_paths b \<subseteq> ir_denied_paths a"

lemma limits_mono:
  assumes "limits_le a b" and "validate_intent_deadline_and_budget a i = Inr u"
  shows "validate_intent_deadline_and_budget b i = Inr u"
  using assms unfolding limits_le_def validate_intent_deadline_and_budget_eq_Inr
  by (elim conjE) (intro conjI; (assumption | erule order_trans, assumption))

lemma evaluate_intent_mono:
  assumes le: "ir_le a b" and allowed: "evaluate_intent a i = Inr u"
  shows "evaluate_intent b i = Inr u"
proof -
  from allowed obtain p names ps where
    *: "intent_schema_version i = INTENT_SCHEMA_VERSION"
      "validate_intent_identity (intent_run_as i) = Inr ()"
      "validate_intent_collections i = Inr ()" "validate_intent_shape i = Inr ()"
      "intent_capability i \<in> ir_capabilities a" "intent_run_as i \<in> ir_run_as a"
      "validate_intent_deadline_and_budget (ir_limits a) i = Inr ()"
      "normalize_intent_program (intent_program i) = Inr p"
      "\<forall>n. p = Some n \<longrightarrow> n \<in> ir_process_programs a"
      "collect_env_names (intent_env i) {} = Inr names" "names \<subseteq> ir_process_env_keys a"
      "collect_res normalize_intent_path (intent_paths i) = Inr ps" "check_paths a ps = Inr ()"
    unfolding evaluate_intent_eq_Inr by blast
  from le have limits: "validate_intent_deadline_and_budget (ir_limits b) i = Inr ()"
    by (intro limits_mono [OF _ *(7)]) (simp add: ir_le_def)
  from le *(13) have paths: "check_paths b ps = Inr ()"
    by (fastforce simp: ir_le_def check_paths_eq_Inr)
  from le have "ir_capabilities a \<subseteq> ir_capabilities b" "ir_run_as a \<subseteq> ir_run_as b"
      "ir_process_programs a \<subseteq> ir_process_programs b"
      "ir_process_env_keys a \<subseteq> ir_process_env_keys b"
    by (simp_all add: ir_le_def)
  with * limits paths show ?thesis unfolding evaluate_intent_eq_Inr by blast
qed

subsection \<open>Normalised paths\<close>

definition path_components :: "string \<Rightarrow> string list" where
  "path_components s = filter (\<lambda>c. c \<noteq> []) (split_on CHR ''/'' s)"

definition plain_components :: "string list \<Rightarrow> bool" where
  "plain_components cs \<longleftrightarrow>
     list_all (\<lambda>c. c \<noteq> [] \<and> CHR ''/'' \<notin> set c \<and> \<not> dot_component c) cs"

definition posix_of_components :: "string list \<Rightarrow> string" where
  "posix_of_components cs = CHR ''/'' # join_with CHR ''/'' cs"

lemma path_components_free: "c \<in> set (path_components s) \<Longrightarrow> c \<noteq> [] \<and> CHR ''/'' \<notin> set c"
  by (auto simp: path_components_def dest: split_on_free)

lemma path_components_posix:
  assumes "\<forall>c\<in>set cs. c \<noteq> [] \<and> CHR ''/'' \<notin> set c"
  shows "path_components (posix_of_components cs) = cs"
    and "path_components (join_with CHR ''/'' cs) = cs"
proof -
  have "filter (\<lambda>c. c \<noteq> []) cs = cs" using assms by (simp add: filter_id_conv)
  then show "path_components (posix_of_components cs) = cs"
    and "path_components (join_with CHR ''/'' cs) = cs"
    using assms split_on_join [of cs "CHR ''/''"]
    by (cases "cs = []"; auto simp: path_components_def posix_of_components_def)+
qed

lemma posix_components_eq_Inr [result_simps]:
  "posix_components cs = Inr ds \<longleftrightarrow> ds = cs \<and> (\<forall>c\<in>set cs. \<not> dot_component c)"
  by (induction cs arbitrary: ds) (auto simp: result_simps)

lemma normalize_posix_path_eq_Inr:
  "normalize_posix_path v = Inr w \<longleftrightarrow>
     starts_with v ''/'' \<and> CHR 0x5C \<notin> set v \<and> plain_components (path_components v) \<and>
     w = posix_of_components (path_components v)"
  using path_components_free [of _ v]
  by (auto simp: normalize_posix_path_def result_simps path_components_def [symmetric]
        posix_of_components_def plain_components_def list_all_iff)

lemma windows_components_eq_Inr [result_simps]:
  "windows_components cs = Inr ds \<longleftrightarrow>
     ds = cs \<and> (\<forall>c\<in>set cs. \<not> dot_component c \<and> CHR '':'' \<notin> set c \<and> \<not> ends_with c ''.'' \<and>
        \<not> ends_with c '' '' \<and> \<not> is_windows_reserved_component c)"
  by (induction cs arbitrary: ds) (auto simp: result_simps)

lemma path_components_subset: "c \<in> set (path_components v) \<Longrightarrow> set c \<subseteq> set v"
  by (auto simp: path_components_def dest: set_split_on)

lemma posix_of_components_set:
  "set (posix_of_components (path_components v)) \<subseteq> insert CHR ''/'' (set v)"
  using set_join_with [of "CHR ''/''" "path_components v"] path_components_subset [of _ v]
  by (auto simp: posix_of_components_def)

lemma normalize_posix_path_idem:
  assumes "normalize_posix_path v = Inr w"
  shows "normalize_posix_path w = Inr w"
proof -
  from assms have w: "w = posix_of_components (path_components v)"
    and plain: "plain_components (path_components v)" and "CHR 0x5C \<notin> set v"
    by (auto simp: normalize_posix_path_eq_Inr)
  have "path_components w = path_components v"
    using path_components_posix(1) [of "path_components v"] path_components_free w by simp
  moreover have "CHR 0x5C \<notin> set w"
    using posix_of_components_set [of v] \<open>CHR 0x5C \<notin> set v\<close> w by auto
  ultimately show ?thesis
    using w plain by (simp add: normalize_posix_path_eq_Inr posix_of_components_def starts_with_def)
qed

definition slashes :: "string \<Rightarrow> string" where
  "slashes v = map (\<lambda>c. if c = CHR 0x5C then CHR ''/'' else c) v"

lemma normalize_windows_path_eq_Inr:
  "normalize_windows_path v = Inr w \<longleftrightarrow>
     (\<exists>d rest. slashes v = d # CHR '':'' # CHR ''/'' # rest \<and> is_ascii_alphabetic d \<and>
        windows_components (path_components rest) = Inr (path_components rest) \<and>
        w = upper d # '':/'' @ join_with CHR ''/'' (path_components rest))"
    (is "_ \<longleftrightarrow> ?R")
proof -
  have *: "\<not> starts_with s ''//'' \<and> \<not> length s < 3 \<and> is_ascii_alphabetic (s ! 0) \<and>
       s ! 1 = CHR '':'' \<and> s ! 2 = CHR ''/'' \<longleftrightarrow>
      (\<exists>d rest. s = d # CHR '':'' # CHR ''/'' # rest \<and> is_ascii_alphabetic d)" for s
  proof (cases s)
    case (Cons a s1)
    note s = Cons
    show ?thesis
    proof (cases s1)
      case (Cons b s2)
      with s show ?thesis by (cases s2) (auto simp: starts_with_def)
    qed (use s in auto)
  qed simp
  show ?thesis
    unfolding normalize_windows_path_def Let_def slashes_def [symmetric] if_Inl_eq_Inr
      path_components_def [symmetric]
    using * [of "slashes v"] by (auto simp: result_simps)
qed

lemma normalize_windows_path_idem:
  assumes "normalize_windows_path v = Inr w"
  shows "normalize_windows_path w = Inr w"
proof -
  from assms obtain d rest where d: "slashes v = d # CHR '':'' # CHR ''/'' # rest"
      "is_ascii_alphabetic d"
    and ok: "windows_components (path_components rest) = Inr (path_components rest)"
    and w: "w = upper d # '':/'' @ join_with CHR ''/'' (path_components rest)"
    unfolding normalize_windows_path_eq_Inr by blast
  have no: "CHR 0x5C \<notin> set rest"
  proof -
    have "CHR 0x5C \<notin> set (slashes v)" by (auto simp: slashes_def)
    with d show ?thesis by simp
  qed
  have "is_ascii_alphabetic (upper d)" using d(2) by (rule upper_alphabetic)
  then have "upper d \<noteq> CHR 0x5C"
    by (auto simp: is_ascii_alphabetic_def is_ascii_lowercase_def is_ascii_uppercase_def char_code_def)
  moreover have "CHR 0x5C \<notin> set (join_with CHR ''/'' (path_components rest))"
    using set_join_with [of "CHR ''/''" "path_components rest"] no path_components_subset [of _ rest]
    by auto
  ultimately have "slashes w = w"
    unfolding w slashes_def by (intro map_idI) auto
  moreover have "path_components (join_with CHR ''/'' (path_components rest)) = path_components rest"
    using path_components_posix(2) path_components_free by blast
  ultimately show ?thesis
    using ok w \<open>is_ascii_alphabetic (upper d)\<close> unfolding normalize_windows_path_eq_Inr by simp
qed

lemma not_ends_colon_slash:
  assumes "cs \<noteq> []" "\<forall>c\<in>set cs. c \<noteq> [] \<and> CHR ''/'' \<notin> set c"
  shows "\<not> ends_with (posix_of_components cs) '':/''" and "posix_of_components cs \<noteq> ''/''"
proof -
  have "join_with CHR ''/'' cs \<noteq> [] \<and> last (join_with CHR ''/'' cs) \<in> set (last cs)"
    using assms by (induction "CHR ''/''" cs rule: join_with.induct) auto
  with assms have "join_with CHR ''/'' cs \<noteq> []" "last (join_with CHR ''/'' cs) \<noteq> CHR ''/''"
    by (metis last_in_set)+
  then show "\<not> ends_with (posix_of_components cs) '':/''" "posix_of_components cs \<noteq> ''/''"
    by (auto simp: ends_with_def posix_of_components_def suffix_def)
       (metis append_is_Nil_conv last.simps last_append list.discI)
qed

lemma posix_prefix_matches:
  assumes cs: "\<forall>c\<in>set cs. c \<noteq> [] \<and> CHR ''/'' \<notin> set c"
    and ds: "\<forall>c\<in>set ds. c \<noteq> [] \<and> CHR ''/'' \<notin> set c"
  shows "path_prefix_matches \<lparr>np_flavor = Posix, np_value = posix_of_components cs\<rparr>
           \<lparr>np_flavor = Posix, np_value = posix_of_components ds\<rparr> \<longleftrightarrow> prefix cs ds"
proof (cases "cs = []")
  case True
  then show ?thesis
    by (simp add: path_prefix_matches_def posix_of_components_def starts_with_def)
next
  case False
  let ?p = "join_with CHR ''/'' cs" and ?q = "join_with CHR ''/'' ds"
  have eq: "?p = ?q \<longleftrightarrow> cs = ds"
    by (metis cs ds path_components_posix(2))
  have ext: "(\<exists>r. ?q = ?p @ CHR ''/'' # r) \<longleftrightarrow> (\<exists>e es. ds = cs @ e # es)"
  proof
    assume "\<exists>r. ?q = ?p @ CHR ''/'' # r"
    then obtain r where r: "?q = ?p @ CHR ''/'' # r" by blast
    then have "ds \<noteq> []" by auto
    with ds have "ds = split_on CHR ''/'' ?q" by (intro split_on_join [symmetric]) auto
    also have "\<dots> = cs @ split_on CHR ''/'' r"
      unfolding r using False cs by (intro split_on_join_append) auto
    finally show "\<exists>e es. ds = cs @ e # es" by (metis neq_Nil_conv split_on_not_Nil)
  next
    assume "\<exists>e es. ds = cs @ e # es"
    then show "\<exists>r. ?q = ?p @ CHR ''/'' # r"
      using False by (auto simp: join_with_append)
  qed
  have "prefix cs ds \<longleftrightarrow> cs = ds \<or> (\<exists>e es. ds = cs @ e # es)"
    unfolding prefix_def by (metis append_Nil2 neq_Nil_conv)
  moreover have "path_prefix_matches \<lparr>np_flavor = Posix, np_value = posix_of_components cs\<rparr>
      \<lparr>np_flavor = Posix, np_value = posix_of_components ds\<rparr> \<longleftrightarrow>
      ?q = ?p \<or> (\<exists>r. ?q = ?p @ CHR ''/'' # r)"
    using not_ends_colon_slash [OF False cs]
    by (auto simp: path_prefix_matches_def posix_of_components_def strip_prefix_def prefix_def
          starts_with_def)
  ultimately show ?thesis using eq ext by metis
qed

subsection \<open>The decision, declaratively\<close>

definition argument_ok :: "string \<Rightarrow> bool" where
  "argument_ok a \<longleftrightarrow> length a \<le> MAX_ARG_BYTES \<and> \<not> any_control a \<and> \<not> is_shell_command_flag a"

definition variable_ok :: "env_var \<Rightarrow> bool" where
  "variable_ok v \<longleftrightarrow>
     length (ev_name v) \<le> MAX_ENV_NAME_BYTES \<and> length (ev_value v) \<le> MAX_ENV_VALUE_BYTES \<and>
     \<not> any_control (ev_name v) \<and> \<not> any_control (ev_value v)"

lemma check_arguments_eq_Inr:
  "check_arguments args (min n usize_max) = Inr m \<longleftrightarrow>
     list_all argument_ok args \<and> m = min (n + sum_list (map length args)) usize_max"
proof (induction args arbitrary: n)
  case (Cons a args)
  then show ?case
    by (auto simp: argument_ok_def usize_saturating_add_min add.assoc)
qed auto

lemma check_environment_eq_Inr:
  "check_environment vs (min n usize_max) = Inr m \<longleftrightarrow>
     list_all variable_ok vs \<and>
     m = min (n + (\<Sum>v\<leftarrow>vs. length (ev_name v) + length (ev_value v))) usize_max"
proof (induction vs arbitrary: n)
  case (Cons a args)
  then show ?case
    by (auto simp: variable_ok_def usize_saturating_add_min add.assoc)
qed auto

definition collections_ok :: "typed_intent \<Rightarrow> bool" where
  "collections_ok i \<longleftrightarrow>
     (\<forall>p. intent_program i = Some p \<longrightarrow> length p \<le> MAX_PROGRAM_BYTES) \<and>
     length (intent_argv i) \<le> MAX_ARG_COUNT \<and> list_all argument_ok (intent_argv i) \<and>
     (\<Sum>a\<leftarrow>intent_argv i. length a) \<le> MAX_ARG_TOTAL_BYTES \<and>
     length (intent_env i) \<le> MAX_ENV_COUNT \<and> list_all variable_ok (intent_env i) \<and>
     (\<Sum>v\<leftarrow>intent_env i. length (ev_name v) + length (ev_value v)) \<le> MAX_ENV_TOTAL_BYTES \<and>
     length (intent_paths i) \<le> MAX_PATH_COUNT \<and>
     list_all (\<lambda>p. length (ip_value p) \<le> MAX_PATH_BYTES) (intent_paths i)"

lemma validate_intent_collections_eq_Inr:
  "validate_intent_collections i = Inr u \<longleftrightarrow> collections_ok i"
proof -
  have a: "check_arguments args 0 = Inr m \<longleftrightarrow>
     list_all argument_ok args \<and> m = min (sum_list (map length args)) usize_max" for args m
    using check_arguments_eq_Inr [of args 0 m] by (simp add: usize_max_def)
  have e: "check_environment vs 0 = Inr m \<longleftrightarrow> list_all variable_ok vs \<and>
     m = min (\<Sum>v\<leftarrow>vs. length (ev_name v) + length (ev_value v)) usize_max" for vs m
    using check_environment_eq_Inr [of vs 0 m] by (simp add: usize_max_def)
  have b: "(min x usize_max \<le> MAX_ARG_TOTAL_BYTES) = (x \<le> MAX_ARG_TOTAL_BYTES)"
    "(min x usize_max \<le> MAX_ENV_TOTAL_BYTES) = (x \<le> MAX_ENV_TOTAL_BYTES)" for x
    by (simp_all add: not_less MAX_ARG_TOTAL_BYTES_def MAX_ENV_TOTAL_BYTES_def min_le_iff_disj
          usize_max_def)
  have c: "\<not> list_ex (\<lambda>p. MAX_PATH_BYTES < length (ip_value p)) ps \<longleftrightarrow>
      list_all (\<lambda>p. length (ip_value p) \<le> MAX_PATH_BYTES) ps" for ps
    by (auto simp: list_ex_iff list_all_iff not_less)
  show ?thesis
    unfolding validate_intent_collections_def if_Inl_eq_Inr and_then_eq_Inr a e
    by (cases u) (auto simp: collections_ok_def b c not_less split: option.splits)
qed

definition intent_permitted :: "policy_ir \<Rightarrow> typed_intent \<Rightarrow> bool" where
  "intent_permitted ir i \<longleftrightarrow>
     intent_schema_version i = 1 \<and>
     validate_run_as (intent_run_as i) = Inr (intent_run_as i) \<and>
     collections_ok i \<and> validate_intent_shape i = Inr () \<and>
     intent_capability i \<in> ir_capabilities ir \<and> intent_run_as i \<in> ir_run_as ir \<and>
     validate_intent_deadline_and_budget (ir_limits ir) i = Inr () \<and>
     (\<forall>s. intent_program i = Some s \<longrightarrow>
        (\<exists>n. normalize_program_identifier s = Inr n \<and> n \<in> ir_process_programs ir \<and>
             \<not> is_command_interpreter n \<and> \<not> is_dangerous_program n)) \<and>
     distinct (map ev_name (intent_env i)) \<and>
     (\<forall>v\<in>set (intent_env i). normalize_env_key (ev_name v) = Inr (ev_name v) \<and>
        ev_name v \<in> ir_process_env_keys ir) \<and>
     (\<forall>p\<in>set (intent_paths i). \<exists>w. normalize_path (ip_flavor p) (ip_value p) = Inr w \<and>
        (\<exists>pre\<in>ir_allowed_paths ir.
           path_prefix_matches pre \<lparr>np_flavor = ip_flavor p, np_value = w\<rparr>) \<and>
        (\<forall>pre\<in>ir_denied_paths ir.
           \<not> path_prefix_matches pre \<lparr>np_flavor = ip_flavor p, np_value = w\<rparr>))"

lemma collect_env_names_eq_Inr:
  "collect_env_names vs N = Inr M \<longleftrightarrow>
     (\<forall>v\<in>set vs. normalize_env_key (ev_name v) = Inr (ev_name v)) \<and> distinct (map ev_name vs) \<and>
     N \<inter> ev_name ` set vs = {} \<and> M = N \<union> ev_name ` set vs"
proof (induction vs arbitrary: N)
  case (Cons v vs)
  show ?case
  proof (cases "normalize_env_key (ev_name v)")
    case (Inr k)
    with normalize_env_key_eq_Inr [OF Inr] Cons.IH [of "insert k N"] show ?thesis by auto
  qed simp
qed auto

lemma intent_paths_eq_Inr:
  "(\<exists>ps. collect_res normalize_intent_path xs = Inr ps \<and> check_paths ir ps = Inr ()) \<longleftrightarrow>
     (\<forall>p\<in>set xs. \<exists>w. normalize_path (ip_flavor p) (ip_value p) = Inr w \<and>
        (\<exists>pre\<in>ir_allowed_paths ir.
           path_prefix_matches pre \<lparr>np_flavor = ip_flavor p, np_value = w\<rparr>) \<and>
        (\<forall>pre\<in>ir_denied_paths ir.
           \<not> path_prefix_matches pre \<lparr>np_flavor = ip_flavor p, np_value = w\<rparr>))"
proof (induction xs)
  case (Cons x xs)
  then show ?case
    by (cases "normalize_path (ip_flavor x) (ip_value x)")
      (auto simp: normalize_intent_path_def check_paths_eq_Inr and_then_eq_Inr)
qed auto

lemma evaluate_intent_permitted: "evaluate_intent ir i = Inr u \<longleftrightarrow> intent_permitted ir i"
proof -
  have id: "validate_intent_identity r = Inr () \<longleftrightarrow> validate_run_as r = Inr r" for r
    using validate_run_as_eq_Inr by (auto simp: validate_intent_identity_def and_then_eq_Inr)
  have prog: "(\<exists>p. normalize_intent_program q = Inr p \<and> (\<forall>n. p = Some n \<longrightarrow> n \<in> S)) \<longleftrightarrow>
     (\<forall>s. q = Some s \<longrightarrow> (\<exists>n. normalize_program_identifier s = Inr n \<and> n \<in> S \<and>
         \<not> is_command_interpreter n \<and> \<not> is_dangerous_program n))" for q S
    by (cases q) (auto simp: normalize_intent_program_def validate_program_invariant_def
          and_then_eq_Inr)
  show ?thesis
    unfolding evaluate_intent_eq_Inr intent_permitted_def id prog intent_paths_eq_Inr
      validate_intent_collections_eq_Inr collect_env_names_eq_Inr INTENT_SCHEMA_VERSION_def
    by auto
qed

subsection \<open>Checks that do not depend on the policy\<close>

definition invariant_codes :: "reason_code set" where
  "invariant_codes =
     {InvariantRootRunAs, InvariantCommandInterpreter, InvariantShellCommandFlag,
      InvariantDangerousProgram, InvariantEnvironmentInjection, InvariantControlCharacter,
      InvariantPathTraversal, InvariantPathNotAbsolute, InvariantAmbiguousPath}"

definition intent_prechecks ::
  "typed_intent \<Rightarrow> reason_code + string option \<times> string set \<times> normalized_path list" where
  "intent_prechecks i =
     (if intent_schema_version i \<noteq> INTENT_SCHEMA_VERSION then Inl SchemaUnsupported
      else
      and_then (validate_intent_identity (intent_run_as i)) (\<lambda>_.
      and_then (validate_intent_collections i) (\<lambda>_.
      and_then (normalize_intent_program (intent_program i)) (\<lambda>p.
      and_then (collect_env_names (intent_env i) {}) (\<lambda>names.
      and_then (collect_res normalize_intent_path (intent_paths i)) (\<lambda>ps.
      and_then (validate_intent_shape i) (\<lambda>_. Inr (p, names, ps))))))))"

definition policy_checks ::
  "policy_ir \<Rightarrow> typed_intent \<Rightarrow> string option \<times> string set \<times> normalized_path list \<Rightarrow>
     reason_code + unit" where
  "policy_checks ir i = (\<lambda>(p, names, ps).
      if intent_capability i \<notin> ir_capabilities ir then Inl IntentCapabilityDenied
      else if intent_run_as i \<notin> ir_run_as ir then Inl IntentIdentityDenied
      else
      and_then (validate_intent_deadline_and_budget (ir_limits ir) i) (\<lambda>_.
      if (case p of None \<Rightarrow> False | Some program \<Rightarrow> program \<notin> ir_process_programs ir)
      then Inl IntentProgramDenied
      else if \<not> names \<subseteq> ir_process_env_keys ir then Inl IntentEnvironmentDenied
      else check_paths ir ps))"

lemma evaluate_intent_split:
  "evaluate_intent ir i = and_then (intent_prechecks i) (policy_checks ir i)"
  unfolding evaluate_intent_def intent_prechecks_def policy_checks_def
    and_then_assoc and_then_if and_then_simps prod.case by (rule refl)

lemma check_paths_code: "check_paths ir ps = Inl e \<Longrightarrow> e = IntentPathDenied"
  by (induction ir ps rule: check_paths.induct) (auto split: if_splits)

lemma policy_checks_code: "policy_checks ir i t = Inl e \<Longrightarrow> e \<notin> invariant_codes"
  by (cases t)
    (auto simp: policy_checks_def and_then_def validate_intent_deadline_and_budget_def Let_def
       invariant_codes_def dest: check_paths_code split: if_splits sum.splits option.splits)

lemmas policy_eval =
  POLICY_SCHEMA_VERSION_def INTENT_SCHEMA_VERSION_def MAX_POLICY_DOCUMENT_BYTES_def
  MAX_POLICY_CAPABILITIES_def MAX_POLICY_IDENTITIES_def MAX_POLICY_DENY_RULES_def
  MAX_PROCESS_PROGRAMS_def MAX_PROCESS_ENV_KEYS_def MAX_PROGRAM_BYTES_def MAX_IDENTITY_BYTES_def
  MAX_ENV_NAME_BYTES_def MAX_ENV_VALUE_BYTES_def MAX_ENV_COUNT_def MAX_ENV_TOTAL_BYTES_def
  MAX_ARG_COUNT_def MAX_ARG_BYTES_def MAX_ARG_TOTAL_BYTES_def MAX_PATH_COUNT_def MAX_PATH_BYTES_def

subsection \<open>Documents that differ in order and repetition only\<close>

definition same_content :: "policy_document \<Rightarrow> policy_document \<Rightarrow> bool" where
  "same_content a b \<longleftrightarrow>
     doc_base a = doc_base b \<and>
     map_option set (doc_capabilities a) = map_option set (doc_capabilities b) \<and>
     set (doc_run_as a) = set (doc_run_as b) \<and> doc_limits a = doc_limits b \<and>
     map_option set (ov_programs (doc_process a)) = map_option set (ov_programs (doc_process b)) \<and>
     map_option set (ov_env_keys (doc_process a)) = map_option set (ov_env_keys (doc_process b)) \<and>
     set (doc_deny a) = set (doc_deny b)"

lemma selection_same_content:
  "compile_capability_selection a T = Inr A \<Longrightarrow> compile_capability_selection b T = Inr B \<Longrightarrow>
     map_option set a = map_option set b \<Longrightarrow> A = B"
  "compile_program_selection c T' e = Inr P \<Longrightarrow> compile_program_selection d T' e = Inr Q \<Longrightarrow>
     map_option set c = map_option set d \<Longrightarrow> P = Q"
  "compile_env_selection c T' = Inr P \<Longrightarrow> compile_env_selection d T' = Inr Q \<Longrightarrow>
     map_option set c = map_option set d \<Longrightarrow> P = Q"
  by (auto simp: compile_capability_selection_def compile_program_selection_def
        compile_env_selection_def and_then_eq_Inr split: option.splits if_splits
        dest: collect_res_set)

lemma compile_ir_same_content:
  assumes a: "compile_ir a = Inr ira" and b: "compile_ir b = Inr irb" and same: "same_content a b"
  shows "ira = irb"
proof -
  note A = compile_ir_Inr [OF a] and B = compile_ir_Inr [OF b]
  note same = same [unfolded same_content_def]
  from same have base: "doc_base a = doc_base b" by blast
  from A(6) B(6) same have caps: "ir_capabilities ira = ir_capabilities irb"
    by (metis selection_same_content(1))
  from A(7) B(7) same caps have progs: "ir_process_programs ira = ir_process_programs irb"
    by (metis selection_same_content(2))
  from A(8) B(8) same caps have envs: "ir_process_env_keys ira = ir_process_env_keys irb"
    by (metis selection_same_content(3))
  from A(4) B(4) same have "ir_run_as ira = ir_run_as irb"
    by (simp add: compile_identity_selection_eq_Inr)
  moreover from A(5) B(5) same have "ir_limits ira = ir_limits irb" by simp
  ultimately show ?thesis
    using base caps progs envs A(1,2,3,9) B(1,2,3,9) same by (intro policy_ir.equality) auto
qed

subsection \<open>Adding deny rules\<close>

lemma denied_mono:
  "R \<subseteq> S \<Longrightarrow> denied_capabilities R \<subseteq> denied_capabilities S"
  "R \<subseteq> S \<Longrightarrow> denied_programs R \<subseteq> denied_programs S"
  "R \<subseteq> S \<Longrightarrow> denied_prefixes R \<subseteq> denied_prefixes S"
  by (auto simp: denied_capabilities_def denied_programs_def denied_prefixes_def)

lemma compile_ir_deny_mono:
  assumes a: "compile_ir a = Inr ira" and b: "compile_ir b = Inr irb"
    and ext: "b = a\<lparr>doc_deny := rules\<rparr>" and more: "set (doc_deny a) \<subseteq> set rules"
  shows "ir_le irb ira"
proof -
  note A = compile_ir_Inr [OF a] and B = compile_ir_Inr [OF b, unfolded ext, simplified]
  note mono = denied_mono [OF more]
  from A(6) B(6) mono(1) have caps: "ir_capabilities irb \<subseteq> ir_capabilities ira" by auto
  from A(7) B(7) mono(2) caps have "ir_process_programs irb \<subseteq> ir_process_programs ira"
    by (auto split: if_splits)
  moreover from A(8) B(8) caps have "ir_process_env_keys irb \<subseteq> ir_process_env_keys ira"
    by (auto split: if_splits)
  moreover from A(4,5) B(4,5) have "ir_run_as irb = ir_run_as ira" "ir_limits irb = ir_limits ira"
    by simp_all
  ultimately show ?thesis
    using caps A(2,3) B(2,3) mono(3) by (simp add: ir_le_def limits_le_def)
qed

lemma explain_simps [simp]:
  "ex_allowed (explain p i) \<longleftrightarrow> evaluate_intent (cp_ir p) i = Inr ()"
  "ex_policy_digest (explain p i) = cp_digest p"
  "ex_reason_code (explain p i) =
     (case evaluate_intent (cp_ir p) i of Inl r \<Rightarrow> r | Inr _ \<Rightarrow> Allowed)"
  by (simp_all add: explain_def split: sum.split)

lemma compile_policy_eq_Inr:
  "compile_policy X doc = Inr p \<longleftrightarrow>
     (\<exists>ir canonical. compile_ir doc = Inr ir \<and> ir_to_vec X ir = Some canonical \<and>
        p = \<lparr>cp_ir = ir, cp_digest =
          policy_hex_encode X (policy_sha256 X (POLICY_DIGEST_DOMAIN @ canonical))\<rparr>)"
  by (auto simp: compile_policy_def canonical_bytes_def result_simps)


subsection \<open>Reasons of a denial\<close>

lemma text_reasons:
  "\<not> validate_plain_text s n = Inl Allowed" "\<not> validate_run_as r = Inl Allowed"
  "\<not> normalize_program_identifier s = Inl Allowed" "\<not> normalize_env_key s = Inl Allowed"
  "\<not> validate_program_invariant s = Inl Allowed"
  by (auto simp: validate_plain_text_def validate_run_as_def normalize_program_identifier_def
      normalize_env_key_def validate_program_invariant_def and_then_eq_Inl Let_def
      split: run_as.splits if_splits)

lemma path_reasons: "\<not> normalize_path f s = Inl Allowed"
proof -
  have p: "\<not> posix_components cs = Inl Allowed" for cs
    by (induction cs) (auto simp: and_then_eq_Inl)
  have w: "\<not> windows_components cs = Inl Allowed" for cs
    by (induction cs) (auto simp: and_then_eq_Inl)
  show ?thesis
    by (cases f)
      (simp_all add: normalize_path_def normalize_posix_path_def normalize_windows_path_def Let_def
        and_then_eq_Inl text_reasons p w if_eq_Inl)
qed

lemma intent_reasons:
  "\<not> check_arguments as n = Inl Allowed" "\<not> check_environment vs n = Inl Allowed"
  "\<not> collect_env_names vs N = Inl Allowed" "\<not> check_paths ir ps = Inl Allowed"
  subgoal by (induction "as" n rule: check_arguments.induct) auto
  subgoal by (induction vs n rule: check_environment.induct) auto
  subgoal by (induction vs N rule: collect_env_names.induct) (auto simp: and_then_eq_Inl text_reasons)
  subgoal by (induction ir ps rule: check_paths.induct) auto
  done

lemma evaluate_intent_reason: "\<not> evaluate_intent ir i = Inl Allowed"
proof -
  have "\<not> validate_intent_collections i = Inl Allowed"
    by (auto simp: validate_intent_collections_def and_then_eq_Inl intent_reasons
        split: if_splits option.splits)
  moreover have "\<not> validate_intent_shape i = Inl Allowed"
    by (auto simp: validate_intent_shape_def split: if_splits capability.splits)
  moreover have "\<not> normalize_intent_program p = Inl Allowed" for p
    by (auto simp: normalize_intent_program_def and_then_eq_Inl text_reasons split: option.splits)
  moreover have "\<not> collect_res normalize_intent_path ps = Inl Allowed" for ps
    by (auto simp: normalize_intent_path_def and_then_eq_Inl path_reasons dest!: collect_res_eq_Inl)
  ultimately show ?thesis
    unfolding evaluate_intent_def
    by (auto simp: validate_intent_identity_def validate_intent_deadline_and_budget_def Let_def
        and_then_eq_Inl text_reasons intent_reasons split: if_splits)
qed

subsection \<open>A sample policy\<close>

definition no_limits :: limits_overlay where
  "no_limits = \<lparr>ov_max_deadline_ms = None, ov_max_bytes = None, ov_max_output_bytes = None,
     ov_max_parallel = None, ov_max_operations = None\<rparr>"

definition sample_document :: policy_document where
  "sample_document =
     \<lparr>doc_schema_version = 1, doc_base = Red, doc_capabilities = None,
      doc_run_as = [Uid 1000], doc_limits = no_limits\<lparr>ov_max_deadline_ms := Some 60000\<rparr>,
      doc_process = \<lparr>ov_programs = Some [''WHOAMI.exe'', ''id''], ov_env_keys = None\<rparr>,
      doc_deny = [DenyProgram ''id'', DenyPathPrefix Posix ''/etc//ssh/'']\<rparr>"

definition sample_ir :: policy_ir where
  "sample_ir =
     \<lparr>ir_schema_version = 1, ir_base = Red, ir_capabilities = {ProcessInspect, ProcessRun},
      ir_run_as = {Uid 1000}, ir_limits = (template_limits Red)\<lparr>max_deadline_ms := 60000\<rparr>,
      ir_process_programs = {''whoami''}, ir_process_env_keys = {''LANG'', ''LC_ALL'', ''TZ''},
      ir_allowed_paths = {}, ir_denied_paths = {\<lparr>np_flavor = Posix, np_value = ''/etc/ssh''\<rparr>}\<rparr>"

definition sample_ext :: policy_ext where
  "sample_ext =
     \<lparr>document_from_slice = (\<lambda>_. Some sample_document), ir_to_vec = (\<lambda>_. Some []),
      policy_sha256 = (\<lambda>bs. bs), policy_hex_encode = map char_of_byte\<rparr>"

definition sample_policy :: compiled_policy where
  "sample_policy =
     \<lparr>cp_ir = sample_ir, cp_digest = map char_of_byte (POLICY_DIGEST_DOMAIN @ [])\<rparr>"

definition sample_intent :: typed_intent where
  "sample_intent =
     \<lparr>intent_schema_version = 1, intent_capability = ProcessRun, intent_run_as = Uid 1000,
      intent_program = Some ''whoami'', intent_argv = [''--version''],
      intent_env = [\<lparr>ev_name = ''LANG'', ev_value = ''C''\<rparr>], intent_paths = [],
      intent_budget = \<lparr>budget_bytes = 0, budget_output_bytes = 4096, budget_parallel = 1,
        budget_operations = 1\<rparr>, intent_deadline_ms = 5000\<rparr>"

lemma sample_names:
  "normalize_program_identifier ''WHOAMI.exe'' = Inr ''whoami''"
  "normalize_program_identifier ''whoami'' = Inr ''whoami''"
  "normalize_program_identifier ''id'' = Inr ''id''"
  "normalize_path Posix ''/etc//ssh/'' = Inr ''/etc/ssh''"
  "normalize_env_key ''LANG'' = Inr ''LANG''"
  by (simp_all add: normalize_program_identifier_def validate_plain_text_def policy_eval text_defs
        normalize_path_def normalize_posix_path_def dot_component_def normalize_env_key_def
        is_dangerous_env_key_def)

lemmas compile_eval =
  compile_ir_def no_limits_def enforce_count_def policy_eval compile_capability_selection_def
  compile_identity_selection_def compile_limits_def validate_run_as_def narrow_limit_def
  compile_program_selection_def sample_names validate_program_invariant_def
  is_command_interpreter_def is_dangerous_program_def compile_env_selection_def
  template_allowed_paths_def starts_with_def insert_Diff_if

lemma sample_compile_ir: "compile_ir sample_document = Inr sample_ir"
  by (simp add: compile_eval sample_document_def sample_ir_def)

lemma sample_compile_policy: "compile_policy sample_ext sample_document = Inr sample_policy"
  by (simp add: compile_policy_eq_Inr sample_compile_ir sample_ext_def sample_policy_def)

lemma sample_evaluate: "evaluate_intent sample_ir sample_intent = Inr ()"
  by (simp add: evaluate_intent_def sample_ir_def sample_intent_def policy_eval sample_names
      validate_intent_identity_def validate_run_as_def validate_intent_collections_def
      validate_intent_shape_def validate_intent_deadline_and_budget_def
      normalize_intent_program_def validate_program_invariant_def is_command_interpreter_def
      is_dangerous_program_def is_shell_command_flag_def text_defs usize_saturating_add_def)

section \<open>Properties\<close>

text \<open>C13: compilation only narrows. A compiled policy keeps the base template of its document;
  its capabilities, programs and environment keys are among the template's; every identity is a
  validated one under the template's ceiling; every limit is positive and at most the template's;
  no path is allowed; and no capability or program that a deny rule names, up to normalisation,
  survives, while every denied path prefix is recorded.\<close>

theorem compile_policy_narrows:
  assumes "compile_policy X doc = Inr p"
  shows "ir_base (cp_ir p) = doc_base doc \<and>
    ir_capabilities (cp_ir p) \<subseteq> template_capabilities (doc_base doc) - denied_capabilities (set (doc_deny doc)) \<and>
    ir_process_programs (cp_ir p) \<subseteq> template_programs (doc_base doc) - denied_programs (set (doc_deny doc)) \<and>
    ir_process_env_keys (cp_ir p) \<subseteq> template_env_keys (doc_base doc) \<and>
    (ProcessRun \<notin> ir_capabilities (cp_ir p) \<longrightarrow>
       ir_process_programs (cp_ir p) = {} \<and> ir_process_env_keys (cp_ir p) = {}) \<and>
    (\<forall>r\<in>ir_run_as (cp_ir p). validate_run_as r = Inr r \<and> within_ceiling (doc_base doc) r) \<and>
    limits_le (ir_limits (cp_ir p)) (template_limits (doc_base doc)) \<and>
    limits_positive (ir_limits (cp_ir p)) \<and>
    ir_allowed_paths (cp_ir p) = {} \<and>
    ir_denied_paths (cp_ir p) = denied_prefixes (set (doc_deny doc))"
proof -
  from assms have "compile_ir doc = Inr (cp_ir p)" by (auto simp: compile_policy_eq_Inr)
  note C = compile_ir_Inr [OF this]
  from C(6) have "ir_capabilities (cp_ir p) \<subseteq>
      template_capabilities (doc_base doc) - denied_capabilities (set (doc_deny doc))"
    by (auto dest: compile_capability_selection_subset)
  moreover from C(7) have "ir_process_programs (cp_ir p) \<subseteq>
      template_programs (doc_base doc) - denied_programs (set (doc_deny doc))"
    by (auto dest: compile_program_selection_subset split: if_splits)
  moreover from C(8) have "ir_process_env_keys (cp_ir p) \<subseteq> template_env_keys (doc_base doc)"
    by (auto dest: compile_env_selection_subset split: if_splits)
  moreover have "\<forall>r\<in>ir_run_as (cp_ir p). validate_run_as r = Inr r \<and> within_ceiling (doc_base doc) r"
    using C(4) by (simp add: compile_identity_selection_eq_Inr)
  ultimately show ?thesis
    using C(1,2,3,7,8) compile_limits_bounds [OF C(5)] by auto
qed

theorem compile_policy_narrows_witness:
  "compile_policy sample_ext sample_document = Inr sample_policy \<and>
   ir_process_programs (cp_ir sample_policy) \<subseteq>
     template_programs (doc_base sample_document) - denied_programs (set (doc_deny sample_document))"
  using compile_policy_narrows [OF sample_compile_policy] sample_compile_policy by blast




text \<open>C17: the decision is exactly the declarative predicate, and the explanation carries the
  policy's digest: an intent is allowed if and only if it satisfies every condition of
  \<^const>\<open>intent_permitted\<close>, the reason code is \<open>allowed\<close> exactly then, and \<open>dry_run\<close> gives the
  same answer.\<close>

theorem explain_iff_permitted:
  "(ex_allowed (explain p i) \<longleftrightarrow> intent_permitted (cp_ir p) i) \<and>
   (ex_reason_code (explain p i) = Allowed \<longleftrightarrow> ex_allowed (explain p i)) \<and>
   ex_policy_digest (explain p i) = cp_digest p \<and> dry_run p i = explain p i"
  using evaluate_intent_reason [of "cp_ir p" i] evaluate_intent_permitted [of "cp_ir p" i "()"]
  by (auto simp: dry_run_def split: sum.splits)



text \<open>An intent that violates an invariant is denied with the same reason under every
  policy, so no policy can turn an invariant off.\<close>

theorem invariant_denial_policy_independent:
  assumes "evaluate_intent ir i = Inl e" and "e \<in> invariant_codes"
  shows "evaluate_intent ir' i = Inl e"
  using assms policy_checks_code [of ir i]
  by (auto simp: evaluate_intent_split and_then_eq_Inl)

theorem invariant_denial_policy_independent_witness:
  "evaluate_intent sample_ir (sample_intent\<lparr>intent_run_as := Uid 0\<rparr>) = Inl InvariantRootRunAs \<and>
   evaluate_intent (sample_ir\<lparr>ir_run_as := {Uid 0}\<rparr>) (sample_intent\<lparr>intent_run_as := Uid 0\<rparr>)
     = Inl InvariantRootRunAs"
proof -
  have "evaluate_intent sample_ir (sample_intent\<lparr>intent_run_as := Uid 0\<rparr>) = Inl InvariantRootRunAs"
    by (simp add: evaluate_intent_def sample_intent_def policy_eval validate_intent_identity_def
        validate_run_as_def)
  moreover have "InvariantRootRunAs \<in> invariant_codes" by (simp add: invariant_codes_def)
  ultimately show ?thesis using invariant_denial_policy_independent by blast
qed

text \<open>C19: deny rules only deny. If a document with more deny rules compiles, every intent its
  policy allows is allowed by the policy without the extra rules.\<close>

theorem deny_rules_only_deny:
  assumes "compile_policy X a = Inr p" and "compile_policy X (a\<lparr>doc_deny := rules\<rparr>) = Inr q"
    and "set (doc_deny a) \<subseteq> set rules" and "ex_allowed (explain q i)"
  shows "ex_allowed (explain p i)"
proof -
  from assms(1,2) have "compile_ir a = Inr (cp_ir p)"
      "compile_ir (a\<lparr>doc_deny := rules\<rparr>) = Inr (cp_ir q)"
    by (auto simp: compile_policy_eq_Inr)
  from compile_ir_deny_mono [OF this refl assms(3)] have "ir_le (cp_ir q) (cp_ir p)" .
  from evaluate_intent_mono [OF this] assms(4) show ?thesis by simp
qed

theorem deny_rules_only_deny_witness:
  "\<exists>p. compile_policy sample_ext (sample_document\<lparr>doc_deny := []\<rparr>) = Inr p \<and>
     ex_allowed (explain p sample_intent)"
proof -
  have "\<exists>ir. compile_ir (sample_document\<lparr>doc_deny := []\<rparr>) = Inr ir"
    by (simp add: compile_eval sample_document_def)
  then obtain p where p: "compile_policy sample_ext (sample_document\<lparr>doc_deny := []\<rparr>) = Inr p"
    by (auto simp: compile_policy_eq_Inr sample_ext_def)
  have "compile_policy sample_ext
      (sample_document\<lparr>doc_deny := [], doc_deny := doc_deny sample_document\<rparr>) = Inr sample_policy"
    using sample_compile_policy by (simp add: sample_document_def)
  from deny_rules_only_deny [OF p this, of sample_intent] p show ?thesis
    by (simp add: sample_policy_def sample_evaluate)
qed

text \<open>The compiled policy and its digest do not depend on the order of a document's lists
  or on repetitions in them.\<close>

theorem compile_policy_canonical:
  assumes "compile_policy X a = Inr p" and "compile_policy X b = Inr q" and "same_content a b"
  shows "p = q"
proof -
  from assms obtain ira irb where "compile_ir a = Inr ira" "compile_ir b = Inr irb"
    by (auto simp: compile_policy_eq_Inr)
  from compile_ir_same_content [OF this assms(3)] this assms(1,2) show ?thesis
    by (auto simp: compile_policy_eq_Inr)
qed

theorem compile_policy_canonical_witness:
  "compile_policy sample_ext (sample_document\<lparr>doc_run_as := [Uid 1000, Uid 1000]\<rparr>) = Inr sample_policy"
proof -
  let ?b = "sample_document\<lparr>doc_run_as := [Uid 1000, Uid 1000]\<rparr>"
  have "\<exists>ir. compile_ir ?b = Inr ir"
    by (simp add: compile_eval sample_document_def)
  then obtain q where q: "compile_policy sample_ext ?b = Inr q"
    by (auto simp: compile_policy_eq_Inr sample_ext_def)
  have "same_content sample_document ?b" by (simp add: same_content_def sample_document_def)
  from compile_policy_canonical [OF sample_compile_policy q this] q show ?thesis by simp
qed


text \<open>A normalised path is a fixed point of normalisation, in both flavours: the recorded
  deny prefixes and the paths compared with them are in one canonical form.\<close>

theorem normalize_path_idempotent:
  "(normalize_posix_path v = Inr w \<longrightarrow> normalize_posix_path w = Inr w) \<and>
   (normalize_windows_path v = Inr w \<longrightarrow> normalize_windows_path w = Inr w)"
  using normalize_posix_path_idem normalize_windows_path_idem by blast

theorem normalize_path_idempotent_witness:
  "normalize_windows_path ''c://Users//x/'' = Inr ''C:/Users/x'' \<and>
   normalize_windows_path ''C:/Users/x'' = Inr ''C:/Users/x''"
proof -
  have "normalize_windows_path ''c://Users//x/'' = Inr ''C:/Users/x''"
    by (simp add: normalize_windows_path_def text_defs dot_component_def
        is_windows_reserved_component_def upper_def)
  with normalize_path_idempotent show ?thesis by blast
qed

text \<open>Prefix matching of normalised POSIX paths is the prefix order on their components:
  \<open>/etc\<close> matches \<open>/etc/ssh\<close> and not \<open>/etcetera\<close>.\<close>

theorem posix_prefix_is_component_prefix:
  assumes "normalize_posix_path v = Inr a" and "normalize_posix_path v' = Inr b"
  shows "path_prefix_matches \<lparr>np_flavor = Posix, np_value = a\<rparr> \<lparr>np_flavor = Posix, np_value = b\<rparr>
     \<longleftrightarrow> prefix (path_components v) (path_components v')"
  using assms posix_prefix_matches [of "path_components v" "path_components v'"]
  by (auto simp: normalize_posix_path_eq_Inr dest: path_components_free)

theorem posix_prefix_is_component_prefix_witness:
  "path_prefix_matches \<lparr>np_flavor = Posix, np_value = ''/etc''\<rparr> \<lparr>np_flavor = Posix, np_value = ''/etc/ssh''\<rparr>
     = prefix (path_components ''/etc/'') (path_components ''/etc//ssh/'')"
proof (rule posix_prefix_is_component_prefix)
  show "normalize_posix_path ''/etc/'' = Inr ''/etc''"
    and "normalize_posix_path ''/etc//ssh/'' = Inr ''/etc/ssh''"
    by (simp_all add: normalize_posix_path_def text_defs dot_component_def)
qed

end
