(* ===== verification/Remote_Protocol.thy ===== *)
theory Remote_Protocol
  imports Serctl_Prelude
begin

text \<open>
  The framing crate of the remote helper (crates/serctl_remote_protocol/src/lib.rs): frames, their
  binary encoding and decoding, and the digest of a start request.

  Fixed arrays (\<open>[u8; 16]\<close>, \<open>[u8; 32]\<close>) are byte lists whose length is part of the
  well-formedness of a frame, as it is part of the Rust type, and so is the UTF-8 validity of
  every \<open>String\<close>. Functions that append to an output vector return what they append. A byte
  source (\<open>Read\<close>) is the list of bytes it still delivers. Zeroising on drop has no observable
  result and is omitted; SHA-256 is a parameter.
\<close>

unbundle bit_operations_syntax

section \<open>Data\<close>

type_synonym job_id = bytes
type_synonym profile_id = bytes
type_synonym digest32 = bytes
type_synonym secret32 = bytes

definition MAGIC :: bytes where "MAGIC = as_bytes ''SRRP''"
definition PROTOCOL_VERSION :: u16 where "PROTOCOL_VERSION = 1"
definition HEADER_BYTES :: nat where "HEADER_BYTES = 20"
definition MAX_FRAME_PAYLOAD :: nat where "MAX_FRAME_PAYLOAD = 128 * 1024"
definition MAX_OUTPUT_CHUNK :: nat where "MAX_OUTPUT_CHUNK = 32 * 1024"
definition MAX_POLICY_BYTES :: nat where "MAX_POLICY_BYTES = 64 * 1024"
definition MAX_PROGRAM_BYTES :: nat where "MAX_PROGRAM_BYTES = 128"
definition MAX_ARG_COUNT :: nat where "MAX_ARG_COUNT = 64"
definition MAX_ARG_BYTES :: nat where "MAX_ARG_BYTES = 4 * 1024"
definition MAX_ARG_TOTAL_BYTES :: nat where "MAX_ARG_TOTAL_BYTES = 16 * 1024"
definition MAX_ENV_COUNT :: nat where "MAX_ENV_COUNT = 16"
definition MAX_ENV_NAME_BYTES :: nat where "MAX_ENV_NAME_BYTES = 64"
definition MAX_ENV_VALUE_BYTES :: nat where "MAX_ENV_VALUE_BYTES = 1024"
definition MAX_ENV_TOTAL_BYTES :: nat where "MAX_ENV_TOTAL_BYTES = 8 * 1024"
definition MAX_PATH_BYTES :: nat where "MAX_PATH_BYTES = 4 * 1024"
definition MAX_RECEIPT_BYTES :: nat where "MAX_RECEIPT_BYTES = 4 * 1024"
definition MAX_ERROR_CODE_BYTES :: nat where "MAX_ERROR_CODE_BYTES = 64"
definition MAX_ERROR_MESSAGE_BYTES :: nat where "MAX_ERROR_MESSAGE_BYTES = 2 * 1024"
definition MAX_CANCEL_REASON_BYTES :: nat where "MAX_CANCEL_REASON_BYTES = 256"
definition MAX_OUTPUT_BYTES :: u64 where "MAX_OUTPUT_BYTES = 64 * 1024 * 1024"
definition FEATURE_CANCEL :: u64 where "FEATURE_CANCEL = 1"
definition FEATURE_RECEIPT_QUERY :: u64 where "FEATURE_RECEIPT_QUERY = 2"
definition SUPPORTED_FEATURE_BITS :: u64 where
  "SUPPORTED_FEATURE_BITS = FEATURE_CANCEL OR FEATURE_RECEIPT_QUERY"

datatype frame_kind =
    KHello | KStart | KStdout | KStderr | KHeartbeat | KCancel | KExit | KReceipt | KError
  | KQueryReceipt

datatype io_error = UnexpectedEof

datatype protocol_error =
    Io io_error | BadMagic | UnsupportedVersion u16 | UnknownFrameKind u8 | ReservedFlags u8
  | FrameTooLarge nat | KindPayloadTooLarge frame_kind nat | Truncated | TrailingBytes
  | InvalidUtf8 | InvalidValue string | SequenceMismatch u64 u64 | InvalidState string

fun kind_code :: "frame_kind \<Rightarrow> u8" where
  "kind_code KHello = 1"
| "kind_code KStart = 2"
| "kind_code KStdout = 3"
| "kind_code KStderr = 4"
| "kind_code KHeartbeat = 5"
| "kind_code KCancel = 6"
| "kind_code KExit = 7"
| "kind_code KReceipt = 8"
| "kind_code KError = 9"
| "kind_code KQueryReceipt = 10"

definition kind_try_from :: "u8 \<Rightarrow> protocol_error + frame_kind" where
  "kind_try_from v =
     (if v = 1 then Inr KHello
      else if v = 2 then Inr KStart
      else if v = 3 then Inr KStdout
      else if v = 4 then Inr KStderr
      else if v = 5 then Inr KHeartbeat
      else if v = 6 then Inr KCancel
      else if v = 7 then Inr KExit
      else if v = 8 then Inr KReceipt
      else if v = 9 then Inr KError
      else if v = 10 then Inr KQueryReceipt
      else Inl (UnknownFrameKind v))"

record hello_frame =
  hello_max_frame_payload :: u32
  hello_feature_bits :: u64
  hello_effective_uid :: u32

record env_entry =
  entry_name :: string
  entry_value :: string

record start_frame =
  start_job_id :: job_id
  start_profile_id :: profile_id
  start_profile_generation :: u64
  start_policy_digest :: digest32
  start_input_digest :: digest32
  start_remote_deadline_unix_ms :: u64
  start_relay_deadline_unix_ms :: u64
  start_result_retention_unix_ms :: u64
  start_run_as_uid :: u32
  start_max_output_bytes :: u64
  start_program :: string
  start_argv :: "string list"
  start_env :: "env_entry list"
  start_cwd :: "string option"
  start_policy_json :: bytes
  start_receipt_token :: secret32

record output_frame =
  output_job_id :: job_id
  output_offset :: u64
  output_data :: bytes

record heartbeat_frame =
  heartbeat_job_id :: job_id
  heartbeat_ordinal :: u64
  heartbeat_elapsed_ms :: u64
  heartbeat_stdout_bytes :: u64
  heartbeat_stderr_bytes :: u64

record cancel_frame =
  cancel_job_id :: job_id
  cancel_reason :: string

datatype exit_outcome = Exited i32 | Cancelled | DeadlineExceeded

record exit_frame =
  exit_job_id :: job_id
  exit_outcome :: exit_outcome
  exit_completed_unix_ms :: u64

record receipt_frame =
  receipt_job_id :: job_id
  receipt_bytes :: bytes

record error_frame =
  error_job_id :: "job_id option"
  error_code :: string
  error_message :: string
  error_retryable :: bool

record query_receipt_frame =
  query_job_id :: job_id
  query_profile_id :: profile_id
  query_profile_generation :: u64
  query_policy_digest :: digest32
  query_input_digest :: digest32
  query_receipt_token :: secret32

datatype frame =
    Hello hello_frame
  | Start start_frame
  | Stdout output_frame
  | Stderr output_frame
  | Heartbeat heartbeat_frame
  | Cancel cancel_frame
  | Exit exit_frame
  | Receipt receipt_frame
  | Error error_frame
  | QueryReceipt query_receipt_frame

fun kind_of :: "frame \<Rightarrow> frame_kind" where
  "kind_of (Hello _) = KHello"
| "kind_of (Start _) = KStart"
| "kind_of (Stdout _) = KStdout"
| "kind_of (Stderr _) = KStderr"
| "kind_of (Heartbeat _) = KHeartbeat"
| "kind_of (Cancel _) = KCancel"
| "kind_of (Exit _) = KExit"
| "kind_of (Receipt _) = KReceipt"
| "kind_of (Error _) = KError"
| "kind_of (QueryReceipt _) = KQueryReceipt"

record envelope =
  env_sequence :: u64
  env_frame :: frame

section \<open>The digest of a start request\<close>

text \<open>\<open>hash_length_prefixed\<close> is what it feeds to the hasher; \<open>start_digest_input\<close> is
  everything the hasher has received when it is finalised.\<close>

definition hash_length_prefixed :: "bytes \<Rightarrow> bytes" where
  "hash_length_prefixed bs = be64 (word_of_nat (length bs)) @ bs"

definition start_digest_input :: "start_frame \<Rightarrow> bytes" where
  "start_digest_input start =
     as_bytes ''serctl-remote-start-v1'' @ [0] @ start_job_id start @ start_profile_id start @
     be64 (start_profile_generation start) @ start_policy_digest start @
     be64 (start_remote_deadline_unix_ms start) @ be64 (start_relay_deadline_unix_ms start) @
     be64 (start_result_retention_unix_ms start) @ be32 (start_run_as_uid start) @
     be64 (start_max_output_bytes start) @ hash_length_prefixed (as_bytes (start_program start)) @
     be64 (word_of_nat (length (start_argv start))) @
     concat (map (\<lambda>argument. hash_length_prefixed (as_bytes argument)) (start_argv start)) @
     be64 (word_of_nat (length (start_env start))) @
     concat (map (\<lambda>variable. hash_length_prefixed (as_bytes (entry_name variable)) @
       hash_length_prefixed (as_bytes (entry_value variable))) (start_env start)) @
     (case start_cwd start of
        Some cwd \<Rightarrow> [1] @ hash_length_prefixed (as_bytes cwd)
      | None \<Rightarrow> [0])"

definition compute_start_input_digest :: "(bytes \<Rightarrow> digest32) \<Rightarrow> start_frame \<Rightarrow> digest32" where
  "compute_start_input_digest sha256 start = sha256 (start_digest_input start)"

section \<open>Field checks\<close>

definition validate_range :: "string \<Rightarrow> nat \<Rightarrow> nat \<Rightarrow> nat \<Rightarrow> protocol_error + unit" where
  "validate_range field len minimum maximum =
     (if \<not> (minimum \<le> len \<and> len \<le> maximum) then Inl (InvalidValue field) else Inr ())"

definition validate_text :: "string \<Rightarrow> string \<Rightarrow> nat \<Rightarrow> nat \<Rightarrow> protocol_error + unit" where
  "validate_text field value minimum maximum =
     and_then (validate_range field (length value) minimum maximum) (\<lambda>_.
     if 0 \<in> set (as_bytes value) \<or> any_control value then Inl (InvalidValue field)
     else Inr ())"

definition validate_nonzero :: "string \<Rightarrow> bytes \<Rightarrow> protocol_error + unit" where
  "validate_nonzero field bs =
     (if list_all (\<lambda>byte. byte = 0) bs then Inl (InvalidValue field) else Inr ())"

fun validate_argv :: "string list \<Rightarrow> nat \<Rightarrow> protocol_error + nat" where
  "validate_argv [] argv_bytes = Inr argv_bytes"
| "validate_argv (argument # rest) argv_bytes =
     and_then (validate_text ''argument'' argument 0 MAX_ARG_BYTES) (\<lambda>_.
     validate_argv rest (usize_saturating_add argv_bytes (length argument)))"

fun validate_env :: "env_entry list \<Rightarrow> nat \<Rightarrow> protocol_error + nat" where
  "validate_env [] env_bytes = Inr env_bytes"
| "validate_env (variable # rest) env_bytes =
     and_then (validate_text ''environment name'' (entry_name variable) 1 MAX_ENV_NAME_BYTES) (\<lambda>_.
     and_then (validate_text ''environment value'' (entry_value variable) 0 MAX_ENV_VALUE_BYTES) (\<lambda>_.
     if CHR ''='' \<in> set (entry_name variable) then Inl (InvalidValue ''environment name'')
     else validate_env rest
            (usize_saturating_add (usize_saturating_add env_bytes (length (entry_name variable)))
               (length (entry_value variable)))))"

definition validate_start :: "start_frame \<Rightarrow> protocol_error + unit" where
  "validate_start value =
     and_then (validate_nonzero ''job_id'' (start_job_id value)) (\<lambda>_.
     and_then (validate_nonzero ''profile_id'' (start_profile_id value)) (\<lambda>_.
     and_then (validate_nonzero ''policy_digest'' (start_policy_digest value)) (\<lambda>_.
     and_then (validate_nonzero ''input_digest'' (start_input_digest value)) (\<lambda>_.
     and_then (validate_nonzero ''receipt_token'' (start_receipt_token value)) (\<lambda>_.
     if start_profile_generation value = 0 then Inl (InvalidValue ''profile_generation'')
     else if start_run_as_uid value = 0 then Inl (InvalidValue ''run_as_uid'')
     else if start_remote_deadline_unix_ms value = 0 \<or>
             start_remote_deadline_unix_ms value > start_relay_deadline_unix_ms value \<or>
             start_relay_deadline_unix_ms value > start_result_retention_unix_ms value
     then Inl (InvalidValue ''deadlines'')
     else if start_max_output_bytes value = 0 \<or> start_max_output_bytes value > MAX_OUTPUT_BYTES
     then Inl (InvalidValue ''max_output_bytes'')
     else
     and_then (validate_text ''program'' (start_program value) 1 MAX_PROGRAM_BYTES) (\<lambda>_.
     if length (start_argv value) > MAX_ARG_COUNT then Inl (InvalidValue ''argv count'')
     else
     and_then (validate_argv (start_argv value) 0) (\<lambda>argv_bytes.
     if argv_bytes > MAX_ARG_TOTAL_BYTES then Inl (InvalidValue ''argv bytes'')
     else if length (start_env value) > MAX_ENV_COUNT then Inl (InvalidValue ''environment count'')
     else
     and_then (validate_env (start_env value) 0) (\<lambda>env_bytes.
     if env_bytes > MAX_ENV_TOTAL_BYTES then Inl (InvalidValue ''environment bytes'')
     else
     and_then (case start_cwd value of
                 Some cwd \<Rightarrow> validate_text ''cwd'' cwd 1 MAX_PATH_BYTES
               | None \<Rightarrow> Inr ()) (\<lambda>_.
     validate_range ''policy_json'' (length (start_policy_json value)) 1 MAX_POLICY_BYTES)))))))))"

definition validate_query_receipt :: "query_receipt_frame \<Rightarrow> protocol_error + unit" where
  "validate_query_receipt value =
     and_then (validate_nonzero ''job_id'' (query_job_id value)) (\<lambda>_.
     and_then (validate_nonzero ''profile_id'' (query_profile_id value)) (\<lambda>_.
     and_then (validate_nonzero ''policy_digest'' (query_policy_digest value)) (\<lambda>_.
     and_then (validate_nonzero ''input_digest'' (query_input_digest value)) (\<lambda>_.
     and_then (validate_nonzero ''receipt_token'' (query_receipt_token value)) (\<lambda>_.
     if query_profile_generation value = 0 then Inl (InvalidValue ''profile_generation'')
     else Inr ())))))"

section \<open>Encoding\<close>

definition put_bytes_u32 :: "bytes \<Rightarrow> protocol_error + bytes" where
  "put_bytes_u32 bs =
     (if length bs < 2 ^ 32 then Inr (be32 (word_of_nat (length bs)) @ bs)
      else Inl (FrameTooLarge (length bs)))"

definition put_string_u16 ::
  "string \<Rightarrow> string \<Rightarrow> nat \<Rightarrow> nat \<Rightarrow> protocol_error + bytes" where
  "put_string_u16 field value minimum maximum =
     and_then (validate_text field value minimum maximum) (\<lambda>_.
     if length value < 2 ^ 16 then Inr (be16 (word_of_nat (length value)) @ as_bytes value)
     else Inl (InvalidValue field))"

fun put_argv :: "string list \<Rightarrow> protocol_error + bytes" where
  "put_argv [] = Inr []"
| "put_argv (argument # rest) =
     and_then (put_string_u16 ''argument'' argument 0 MAX_ARG_BYTES) (\<lambda>a.
     and_then (put_argv rest) (\<lambda>b. Inr (a @ b)))"

fun put_env :: "env_entry list \<Rightarrow> protocol_error + bytes" where
  "put_env [] = Inr []"
| "put_env (variable # rest) =
     and_then (put_string_u16 ''environment name'' (entry_name variable) 1 MAX_ENV_NAME_BYTES) (\<lambda>n.
     and_then (put_string_u16 ''environment value'' (entry_value variable) 0 MAX_ENV_VALUE_BYTES) (\<lambda>v.
     and_then (put_env rest) (\<lambda>b. Inr (n @ v @ b))))"

definition encode_start :: "start_frame \<Rightarrow> protocol_error + bytes" where
  "encode_start value =
     and_then (validate_start value) (\<lambda>_.
     and_then (put_string_u16 ''program'' (start_program value) 1 MAX_PROGRAM_BYTES) (\<lambda>program.
     and_then (put_argv (start_argv value)) (\<lambda>argv.
     and_then (put_env (start_env value)) (\<lambda>env.
     and_then (case start_cwd value of
                 Some cwd \<Rightarrow> and_then (put_string_u16 ''cwd'' cwd 1 MAX_PATH_BYTES) (\<lambda>c. Inr (1 # c))
               | None \<Rightarrow> Inr [0]) (\<lambda>cwd.
     and_then (put_bytes_u32 (start_policy_json value)) (\<lambda>policy_json.
     Inr (start_job_id value @ start_profile_id value @ be64 (start_profile_generation value) @
          start_policy_digest value @ start_input_digest value @
          be64 (start_remote_deadline_unix_ms value) @ be64 (start_relay_deadline_unix_ms value) @
          be64 (start_result_retention_unix_ms value) @ be32 (start_run_as_uid value) @
          be64 (start_max_output_bytes value) @ program @
          be16 (word_of_nat (length (start_argv value))) @ argv @
          be16 (word_of_nat (length (start_env value))) @ env @ cwd @ policy_json @
          start_receipt_token value)))))))"

fun put_outcome :: "exit_outcome \<Rightarrow> bytes" where
  "put_outcome (Exited code) = 0 # be32 code"
| "put_outcome Cancelled = 1 # be32 0"
| "put_outcome DeadlineExceeded = 2 # be32 0"

definition hello_ok :: "u32 \<Rightarrow> u64 \<Rightarrow> protocol_error + unit" where
  "hello_ok max_frame_payload feature_bits =
     (if max_frame_payload = 0 \<or> unat max_frame_payload > MAX_FRAME_PAYLOAD
      then Inl (InvalidValue ''hello max_frame_payload'')
      else if feature_bits AND NOT SUPPORTED_FEATURE_BITS \<noteq> 0
      then Inl (InvalidValue ''hello feature_bits'')
      else Inr ())"

definition put_output :: "output_frame \<Rightarrow> protocol_error + bytes" where
  "put_output value =
     and_then (validate_range ''output data'' (length (output_data value)) 0 MAX_OUTPUT_CHUNK) (\<lambda>_.
     Inr (output_job_id value @ be64 (output_offset value) @ output_data value))"

fun encode_payload :: "frame \<Rightarrow> protocol_error + bytes" where
  "encode_payload (Hello value) =
     and_then (hello_ok (hello_max_frame_payload value) (hello_feature_bits value)) (\<lambda>_.
     Inr (be32 (hello_max_frame_payload value) @ be64 (hello_feature_bits value) @
          be32 (hello_effective_uid value)))"
| "encode_payload (Start value) = encode_start value"
| "encode_payload (Stdout value) = put_output value"
| "encode_payload (Stderr value) = put_output value"
| "encode_payload (Heartbeat value) =
     Inr (heartbeat_job_id value @ be64 (heartbeat_ordinal value) @
          be64 (heartbeat_elapsed_ms value) @ be64 (heartbeat_stdout_bytes value) @
          be64 (heartbeat_stderr_bytes value))"
| "encode_payload (Cancel value) =
     and_then (put_string_u16 ''cancel reason'' (cancel_reason value) 1 MAX_CANCEL_REASON_BYTES)
       (\<lambda>reason. Inr (cancel_job_id value @ reason))"
| "encode_payload (Exit value) =
     Inr (exit_job_id value @ put_outcome (exit_outcome value) @
          be64 (exit_completed_unix_ms value))"
| "encode_payload (Receipt value) =
     and_then (validate_range ''receipt'' (length (receipt_bytes value)) 1 MAX_RECEIPT_BYTES) (\<lambda>_.
     and_then (put_bytes_u32 (receipt_bytes value)) (\<lambda>bs. Inr (receipt_job_id value @ bs)))"
| "encode_payload (Error value) =
     and_then (put_string_u16 ''error code'' (error_code value) 1 MAX_ERROR_CODE_BYTES) (\<lambda>ecode.
     and_then (put_string_u16 ''error message'' (error_message value) 1 MAX_ERROR_MESSAGE_BYTES)
       (\<lambda>message.
     Inr ((case error_job_id value of Some job_id \<Rightarrow> 1 # job_id | None \<Rightarrow> [0]) @ ecode @ message @
          [if error_retryable value then 1 else 0])))"
| "encode_payload (QueryReceipt value) =
     and_then (validate_query_receipt value) (\<lambda>_.
     Inr (query_job_id value @ query_profile_id value @ be64 (query_profile_generation value) @
          query_policy_digest value @ query_input_digest value @ query_receipt_token value))"

fun kind_limit :: "frame_kind \<Rightarrow> nat" where
  "kind_limit KHello = 16"
| "kind_limit KStart = MAX_FRAME_PAYLOAD"
| "kind_limit KStdout = 24 + MAX_OUTPUT_CHUNK"
| "kind_limit KStderr = 24 + MAX_OUTPUT_CHUNK"
| "kind_limit KHeartbeat = 48"
| "kind_limit KCancel = 18 + MAX_CANCEL_REASON_BYTES"
| "kind_limit KExit = 29"
| "kind_limit KReceipt = 20 + MAX_RECEIPT_BYTES"
| "kind_limit KError = 24 + MAX_ERROR_CODE_BYTES + MAX_ERROR_MESSAGE_BYTES"
| "kind_limit KQueryReceipt = 136"

definition validate_payload_size :: "frame_kind \<Rightarrow> nat \<Rightarrow> protocol_error + unit" where
  "validate_payload_size kind sz =
     (if sz > MAX_FRAME_PAYLOAD then Inl (FrameTooLarge sz)
      else if sz > kind_limit kind then Inl (KindPayloadTooLarge kind sz)
      else Inr ())"

definition encode :: "envelope \<Rightarrow> protocol_error + bytes" where
  "encode envelope =
     and_then (encode_payload (env_frame envelope)) (\<lambda>payload.
     and_then (validate_payload_size (kind_of (env_frame envelope)) (length payload)) (\<lambda>_.
     if \<not> length payload < 2 ^ 32 then Inl (FrameTooLarge (length payload))
     else Inr (MAGIC @ be16 PROTOCOL_VERSION @ [kind_code (kind_of (env_frame envelope)), 0] @
               be64 (env_sequence envelope) @ be32 (word_of_nat (length payload)) @ payload)))"

definition write_frame_to :: "bytes \<Rightarrow> envelope \<Rightarrow> protocol_error + bytes" where
  "write_frame_to writer envelope =
     and_then (encode envelope) (\<lambda>bs. Inr (writer @ bs))"

section \<open>Decoding\<close>

text \<open>The reader over a payload. A slice is never longer than \<open>usize::MAX\<close>, and both the
  overflow of the cursor and an end beyond the slice are \<open>Truncated\<close>, so \<open>take\<close> has one test.\<close>

record payload_reader =
  pr_bytes :: bytes
  pr_cursor :: nat

definition pr_new :: "bytes \<Rightarrow> payload_reader" where
  "pr_new bs = \<lparr>pr_bytes = bs, pr_cursor = 0\<rparr>"

definition pr_take :: "payload_reader \<Rightarrow> nat \<Rightarrow> protocol_error + bytes \<times> payload_reader" where
  "pr_take r n =
     (if pr_cursor r + n \<le> length (pr_bytes r)
      then Inr (take n (drop (pr_cursor r) (pr_bytes r)), r\<lparr>pr_cursor := pr_cursor r + n\<rparr>)
      else Inl Truncated)"

definition pr_u8 :: "payload_reader \<Rightarrow> protocol_error + u8 \<times> payload_reader" where
  "pr_u8 r = and_then (pr_take r 1) (\<lambda>(v, r). Inr (v ! 0, r))"

definition pr_u16 :: "payload_reader \<Rightarrow> protocol_error + u16 \<times> payload_reader" where
  "pr_u16 r = and_then (pr_take r 2) (\<lambda>(v, r). Inr (word_of_nat (be_value v), r))"

definition pr_u32 :: "payload_reader \<Rightarrow> protocol_error + u32 \<times> payload_reader" where
  "pr_u32 r = and_then (pr_take r 4) (\<lambda>(v, r). Inr (word_of_nat (be_value v), r))"

definition pr_i32 :: "payload_reader \<Rightarrow> protocol_error + i32 \<times> payload_reader" where
  "pr_i32 r = and_then (pr_take r 4) (\<lambda>(v, r). Inr (word_of_nat (be_value v), r))"

definition pr_u64 :: "payload_reader \<Rightarrow> protocol_error + u64 \<times> payload_reader" where
  "pr_u64 r = and_then (pr_take r 8) (\<lambda>(v, r). Inr (word_of_nat (be_value v), r))"

definition pr_job_id :: "payload_reader \<Rightarrow> protocol_error + job_id \<times> payload_reader" where
  "pr_job_id r = pr_take r 16"

definition pr_bytes_u32 ::
  "payload_reader \<Rightarrow> string \<Rightarrow> nat \<Rightarrow> nat \<Rightarrow> protocol_error + bytes \<times> payload_reader" where
  "pr_bytes_u32 r field minimum maximum =
     and_then (pr_u32 r) (\<lambda>(len, r).
     and_then (validate_range field (unat len) minimum maximum) (\<lambda>_.
     pr_take r (unat len)))"

definition pr_string_u16 ::
  "payload_reader \<Rightarrow> string \<Rightarrow> nat \<Rightarrow> nat \<Rightarrow> protocol_error + string \<times> payload_reader" where
  "pr_string_u16 r field minimum maximum =
     and_then (pr_u16 r) (\<lambda>(len, r).
     and_then (validate_range field (unat len) minimum maximum) (\<lambda>_.
     and_then (pr_take r (unat len)) (\<lambda>(v, r).
     and_then (ok_or (from_utf8 v) InvalidUtf8) (\<lambda>value.
     and_then (validate_text field value minimum maximum) (\<lambda>_.
     Inr (value, r))))))"

definition pr_remaining_bounded ::
  "payload_reader \<Rightarrow> nat \<Rightarrow> protocol_error + bytes \<times> payload_reader" where
  "pr_remaining_bounded r maximum =
     (let remaining = length (pr_bytes r) - pr_cursor r in
      and_then (validate_range ''remaining payload'' remaining 0 maximum) (\<lambda>_.
      pr_take r remaining))"

definition pr_finish :: "payload_reader \<Rightarrow> protocol_error + unit" where
  "pr_finish r = (if pr_cursor r = length (pr_bytes r) then Inr () else Inl TrailingBytes)"

fun read_argv ::
  "nat \<Rightarrow> payload_reader \<Rightarrow> nat \<Rightarrow> protocol_error + string list \<times> nat \<times> payload_reader" where
  "read_argv 0 r argv_bytes = Inr ([], argv_bytes, r)"
| "read_argv (Suc n) r argv_bytes =
     and_then (pr_string_u16 r ''argument'' 0 MAX_ARG_BYTES) (\<lambda>(argument, r).
     and_then (read_argv n r (usize_saturating_add argv_bytes (length argument)))
       (\<lambda>(argv, total, r). Inr (argument # argv, total, r)))"

fun read_env ::
  "nat \<Rightarrow> payload_reader \<Rightarrow> nat \<Rightarrow> protocol_error + env_entry list \<times> nat \<times> payload_reader" where
  "read_env 0 r env_bytes = Inr ([], env_bytes, r)"
| "read_env (Suc n) r env_bytes =
     and_then (pr_string_u16 r ''environment name'' 1 MAX_ENV_NAME_BYTES) (\<lambda>(name, r).
     if CHR ''='' \<in> set name then Inl (InvalidValue ''environment name'')
     else
     and_then (pr_string_u16 r ''environment value'' 0 MAX_ENV_VALUE_BYTES) (\<lambda>(value, r).
     and_then (read_env n r
         (usize_saturating_add (usize_saturating_add env_bytes (length name)) (length value)))
       (\<lambda>(env, total, r). Inr (\<lparr>entry_name = name, entry_value = value\<rparr> # env, total, r))))"

definition read_cwd :: "payload_reader \<Rightarrow> protocol_error + string option \<times> payload_reader" where
  "read_cwd r =
     and_then (pr_u8 r) (\<lambda>(presence, r).
     if presence = 0 then Inr (None, r)
     else if presence = 1
     then and_then (pr_string_u16 r ''cwd'' 1 MAX_PATH_BYTES) (\<lambda>(cwd, r). Inr (Some cwd, r))
     else Inl (InvalidValue ''cwd presence''))"

definition decode_start ::
  "payload_reader \<Rightarrow> protocol_error + start_frame \<times> payload_reader" where
  "decode_start r =
     and_then (pr_job_id r) (\<lambda>(job_id, r).
     and_then (pr_take r 16) (\<lambda>(profile_id, r).
     and_then (pr_u64 r) (\<lambda>(profile_generation, r).
     and_then (pr_take r 32) (\<lambda>(policy_digest, r).
     and_then (pr_take r 32) (\<lambda>(input_digest, r).
     and_then (pr_u64 r) (\<lambda>(remote_deadline_unix_ms, r).
     and_then (pr_u64 r) (\<lambda>(relay_deadline_unix_ms, r).
     and_then (pr_u64 r) (\<lambda>(result_retention_unix_ms, r).
     and_then (pr_u32 r) (\<lambda>(run_as_uid, r).
     and_then (pr_u64 r) (\<lambda>(max_output_bytes, r).
     and_then (pr_string_u16 r ''program'' 1 MAX_PROGRAM_BYTES) (\<lambda>(program, r).
     and_then (pr_u16 r) (\<lambda>(argument_count, r).
     if unat argument_count > MAX_ARG_COUNT then Inl (InvalidValue ''argv count'')
     else
     and_then (read_argv (unat argument_count) r 0) (\<lambda>(argv, argv_bytes, r).
     if argv_bytes > MAX_ARG_TOTAL_BYTES then Inl (InvalidValue ''argv bytes'')
     else
     and_then (pr_u16 r) (\<lambda>(environment_count, r).
     if unat environment_count > MAX_ENV_COUNT then Inl (InvalidValue ''environment count'')
     else
     and_then (read_env (unat environment_count) r 0) (\<lambda>(env, env_bytes, r).
     if env_bytes > MAX_ENV_TOTAL_BYTES then Inl (InvalidValue ''environment bytes'')
     else
     and_then (read_cwd r) (\<lambda>(cwd, r).
     and_then (pr_bytes_u32 r ''policy_json'' 1 MAX_POLICY_BYTES) (\<lambda>(policy_json, r).
     and_then (pr_take r 32) (\<lambda>(receipt_token, r).
     let start =
       \<lparr>start_job_id = job_id, start_profile_id = profile_id,
        start_profile_generation = profile_generation, start_policy_digest = policy_digest,
        start_input_digest = input_digest,
        start_remote_deadline_unix_ms = remote_deadline_unix_ms,
        start_relay_deadline_unix_ms = relay_deadline_unix_ms,
        start_result_retention_unix_ms = result_retention_unix_ms,
        start_run_as_uid = run_as_uid, start_max_output_bytes = max_output_bytes,
        start_program = program, start_argv = argv, start_env = env, start_cwd = cwd,
        start_policy_json = policy_json, start_receipt_token = receipt_token\<rparr> in
     and_then (validate_start start) (\<lambda>_. Inr (start, r))))))))))))))))))))"

definition read_outcome :: "payload_reader \<Rightarrow> protocol_error + exit_outcome \<times> payload_reader" where
  "read_outcome r =
     and_then (pr_u8 r) (\<lambda>(kind, r).
     and_then (pr_i32 r) (\<lambda>(code, r).
     if kind = 0 then Inr (Exited code, r)
     else if kind = 1 \<and> code = 0 then Inr (Cancelled, r)
     else if kind = 2 \<and> code = 0 then Inr (DeadlineExceeded, r)
     else Inl (InvalidValue ''exit outcome'')))"

definition read_error_job ::
  "payload_reader \<Rightarrow> protocol_error + job_id option \<times> payload_reader" where
  "read_error_job r =
     and_then (pr_u8 r) (\<lambda>(presence, r).
     if presence = 0 then Inr (None, r)
     else if presence = 1 then and_then (pr_job_id r) (\<lambda>(job_id, r). Inr (Some job_id, r))
     else Inl (InvalidValue ''error job presence''))"

definition read_output :: "payload_reader \<Rightarrow> protocol_error + output_frame \<times> payload_reader" where
  "read_output r =
     and_then (pr_job_id r) (\<lambda>(job_id, r).
     and_then (pr_u64 r) (\<lambda>(offset, r).
     and_then (pr_remaining_bounded r MAX_OUTPUT_CHUNK) (\<lambda>(data, r).
     Inr (\<lparr>output_job_id = job_id, output_offset = offset, output_data = data\<rparr>, r))))"

fun decode_frame :: "frame_kind \<Rightarrow> payload_reader \<Rightarrow> protocol_error + frame \<times> payload_reader" where
  "decode_frame KHello r =
     and_then (pr_u32 r) (\<lambda>(max_frame_payload, r).
     and_then (pr_u64 r) (\<lambda>(feature_bits, r).
     and_then (hello_ok max_frame_payload feature_bits) (\<lambda>_.
     and_then (pr_u32 r) (\<lambda>(effective_uid, r).
     Inr (Hello \<lparr>hello_max_frame_payload = max_frame_payload, hello_feature_bits = feature_bits,
                 hello_effective_uid = effective_uid\<rparr>, r)))))"
| "decode_frame KStart r = and_then (decode_start r) (\<lambda>(start, r). Inr (Start start, r))"
| "decode_frame KStdout r = and_then (read_output r) (\<lambda>(output, r). Inr (Stdout output, r))"
| "decode_frame KStderr r = and_then (read_output r) (\<lambda>(output, r). Inr (Stderr output, r))"
| "decode_frame KHeartbeat r =
     and_then (pr_job_id r) (\<lambda>(job_id, r).
     and_then (pr_u64 r) (\<lambda>(ordinal, r).
     and_then (pr_u64 r) (\<lambda>(elapsed_ms, r).
     and_then (pr_u64 r) (\<lambda>(stdout_bytes, r).
     and_then (pr_u64 r) (\<lambda>(stderr_bytes, r).
     Inr (Heartbeat \<lparr>heartbeat_job_id = job_id, heartbeat_ordinal = ordinal,
       heartbeat_elapsed_ms = elapsed_ms, heartbeat_stdout_bytes = stdout_bytes,
       heartbeat_stderr_bytes = stderr_bytes\<rparr>, r))))))"
| "decode_frame KCancel r =
     and_then (pr_job_id r) (\<lambda>(job_id, r).
     and_then (pr_string_u16 r ''cancel reason'' 1 MAX_CANCEL_REASON_BYTES) (\<lambda>(reason, r).
     Inr (Cancel \<lparr>cancel_job_id = job_id, cancel_reason = reason\<rparr>, r)))"
| "decode_frame KExit r =
     and_then (pr_job_id r) (\<lambda>(job_id, r).
     and_then (read_outcome r) (\<lambda>(outcome, r).
     and_then (pr_u64 r) (\<lambda>(completed_unix_ms, r).
     Inr (Exit \<lparr>exit_job_id = job_id, exit_outcome = outcome,
                exit_completed_unix_ms = completed_unix_ms\<rparr>, r))))"
| "decode_frame KReceipt r =
     and_then (pr_job_id r) (\<lambda>(job_id, r).
     and_then (pr_bytes_u32 r ''receipt'' 1 MAX_RECEIPT_BYTES) (\<lambda>(bs, r).
     Inr (Receipt \<lparr>receipt_job_id = job_id, receipt_bytes = bs\<rparr>, r)))"
| "decode_frame KError r =
     and_then (read_error_job r) (\<lambda>(job_id, r).
     and_then (pr_string_u16 r ''error code'' 1 MAX_ERROR_CODE_BYTES) (\<lambda>(ecode, r).
     and_then (pr_string_u16 r ''error message'' 1 MAX_ERROR_MESSAGE_BYTES) (\<lambda>(message, r).
     and_then (pr_u8 r) (\<lambda>(retryable, r).
     if retryable \<noteq> 0 \<and> retryable \<noteq> 1 then Inl (InvalidValue ''error retryable'')
     else Inr (Error \<lparr>error_job_id = job_id, error_code = ecode, error_message = message,
                      error_retryable = (retryable = 1)\<rparr>, r)))))"
| "decode_frame KQueryReceipt r =
     and_then (pr_job_id r) (\<lambda>(job_id, r).
     and_then (pr_take r 16) (\<lambda>(profile_id, r).
     and_then (pr_u64 r) (\<lambda>(profile_generation, r).
     if profile_generation = 0 then Inl (InvalidValue ''profile_generation'')
     else
     and_then (pr_take r 32) (\<lambda>(policy_digest, r).
     and_then (pr_take r 32) (\<lambda>(input_digest, r).
     and_then (pr_take r 32) (\<lambda>(receipt_token, r).
     let query =
       \<lparr>query_job_id = job_id, query_profile_id = profile_id,
        query_profile_generation = profile_generation, query_policy_digest = policy_digest,
        query_input_digest = input_digest, query_receipt_token = receipt_token\<rparr> in
     and_then (validate_query_receipt query) (\<lambda>_. Inr (QueryReceipt query, r))))))))"

definition decode_payload :: "frame_kind \<Rightarrow> bytes \<Rightarrow> protocol_error + frame" where
  "decode_payload kind payload =
     and_then (decode_frame kind (pr_new payload)) (\<lambda>(frame, r).
     and_then (pr_finish r) (\<lambda>_. Inr frame))"

definition decode_exact :: "bytes \<Rightarrow> protocol_error + envelope" where
  "decode_exact bs =
     (if length bs < HEADER_BYTES then Inl Truncated
      else if take 4 bs \<noteq> MAGIC then Inl BadMagic
      else
        (let version = word_of_nat (be_value [bs ! 4, bs ! 5]) in
         if version \<noteq> PROTOCOL_VERSION then Inl (UnsupportedVersion version)
         else
         and_then (kind_try_from (bs ! 6)) (\<lambda>kind.
         if bs ! 7 \<noteq> 0 then Inl (ReservedFlags (bs ! 7))
         else
           (let sequence = word_of_nat (be_value (take 8 (drop 8 bs)));
                payload_len = be_value (take 4 (drop 16 bs)) in
            and_then (validate_payload_size kind payload_len) (\<lambda>_.
            let expected = HEADER_BYTES + payload_len in
            if length bs < expected then Inl Truncated
            else if length bs \<noteq> expected then Inl TrailingBytes
            else
            and_then (decode_payload kind (drop HEADER_BYTES bs)) (\<lambda>frame.
            Inr \<lparr>env_sequence = sequence, env_frame = frame\<rparr>))))))"

text \<open>\<open>read_exact\<close> on a source with too few bytes left is an \<open>UnexpectedEof\<close> error.\<close>

definition read_exact :: "bytes \<Rightarrow> nat \<Rightarrow> protocol_error + bytes \<times> bytes" where
  "read_exact reader n =
     (if n \<le> length reader then Inr (take n reader, drop n reader) else Inl (Io UnexpectedEof))"

definition read_frame_from :: "bytes \<Rightarrow> protocol_error + (envelope \<times> bytes) option" where
  "read_frame_from reader =
     (case reader of
        [] \<Rightarrow> Inr None
      | first # reader \<Rightarrow>
          and_then (read_exact reader (HEADER_BYTES - 1)) (\<lambda>(rest, reader).
          let header = first # rest in
          if take 4 header \<noteq> MAGIC then Inl BadMagic
          else
            (let version = word_of_nat (be_value [header ! 4, header ! 5]) in
             if version \<noteq> PROTOCOL_VERSION then Inl (UnsupportedVersion version)
             else
             and_then (kind_try_from (header ! 6)) (\<lambda>kind.
             if header ! 7 \<noteq> 0 then Inl (ReservedFlags (header ! 7))
             else
               (let payload_len = be_value (take 4 (drop 16 header)) in
                and_then (validate_payload_size kind payload_len) (\<lambda>_.
                and_then (read_exact reader payload_len) (\<lambda>(payload, reader).
                and_then (decode_exact (header @ payload)) (\<lambda>envelope.
                Inr (Some (envelope, reader))))))))))"

section \<open>Lemmas\<close>

subsection \<open>Readers and the fields they invert\<close>

definition rd :: "bytes \<Rightarrow> bytes \<Rightarrow> payload_reader" where
  "rd pre suf = \<lparr>pr_bytes = pre @ suf, pr_cursor = length pre\<rparr>"

lemma pr_new_rd: "pr_new bs = rd [] bs"
  by (simp add: pr_new_def rd_def)

lemma pr_finish_rd: "pr_finish (rd pre suf) = Inr u \<longleftrightarrow> suf = []"
  by (cases u) (simp add: pr_finish_def rd_def)

lemma pr_take_rd:
  "pr_take (rd pre suf) n = Inr (v, r) \<longleftrightarrow>
     length v = n \<and> (\<exists>s. suf = v @ s \<and> r = rd (pre @ v) s)"
proof
  assume "pr_take (rd pre suf) n = Inr (v, r)"
  then have n: "n \<le> length suf" and v: "v = take n suf"
    and r: "r = \<lparr>pr_bytes = pre @ suf, pr_cursor = length pre + n\<rparr>"
    by (auto simp: pr_take_def rd_def split: if_splits)
  from n v have "length v = n" "suf = v @ drop n suf" by simp_all
  with n r show "length v = n \<and> (\<exists>s. suf = v @ s \<and> r = rd (pre @ v) s)"
    by (auto simp: rd_def intro!: exI [of _ "drop n suf"])
qed (auto simp: pr_take_def rd_def)

lemma pr_remaining_rd:
  "pr_remaining_bounded (rd pre suf) m = Inr (v, r) \<longleftrightarrow>
     length v \<le> m \<and> suf = v \<and> r = rd (pre @ v) []"
  by (auto simp: pr_remaining_bounded_def rd_def pr_take_def validate_range_def Let_def split: if_splits)

interpretation payload_cursor: byte_cursor rd pr_take
  by unfold_locales (rule pr_take_rd)

definition text_ok :: "nat \<Rightarrow> nat \<Rightarrow> string \<Rightarrow> bool" where
  "text_ok minimum maximum s \<longleftrightarrow>
     minimum \<le> length s \<and> length s \<le> maximum \<and> length s < 2 ^ 16 \<and>
     0 \<notin> set (as_bytes s) \<and> \<not> any_control s \<and> valid_utf8 s"

definition text_bytes :: "string \<Rightarrow> bytes" where
  "text_bytes s = be16 (word_of_nat (length s)) @ as_bytes s"

definition blob_ok :: "nat \<Rightarrow> nat \<Rightarrow> bytes \<Rightarrow> bool" where
  "blob_ok minimum maximum bs \<longleftrightarrow>
     minimum \<le> length bs \<and> length bs \<le> maximum \<and> length bs < 2 ^ 32"

definition blob_bytes :: "bytes \<Rightarrow> bytes" where
  "blob_bytes bs = be32 (word_of_nat (length bs)) @ bs"

lemma validate_range_eq_Inr [result_simps]:
  "validate_range f n a b = Inr u \<longleftrightarrow> a \<le> n \<and> n \<le> b"
  by (cases u) (simp add: validate_range_def)

lemma validate_text_eq_Inr [result_simps]:
  "validate_text f s a b = Inr u \<longleftrightarrow>
     a \<le> length s \<and> length s \<le> b \<and> 0 \<notin> set (as_bytes s) \<and> \<not> any_control s"
  by (cases u) (auto simp: validate_text_def result_simps)

interpretation array_field: field_codec rd "\<lambda>r. pr_take r n" "\<lambda>x. x" "\<lambda>x. length x = n"
  by unfold_locales (rule pr_take_rd)

interpretation job_field: field_codec rd pr_job_id "\<lambda>x. x" "\<lambda>x. length x = 16"
  by unfold_locales (simp add: pr_job_id_def pr_take_rd)

interpretation u8_field: field_codec rd pr_u8 "\<lambda>x. [x]" "\<lambda>_. True"
  by unfold_locales (simp only: pr_u8_def payload_cursor.byte_field simp_thms)

interpretation u16_field: field_codec rd pr_u16 be16 "\<lambda>_. True"
  by unfold_locales (simp add: pr_u16_def payload_cursor.integer_fields)

interpretation u32_field: field_codec rd pr_u32 be32 "\<lambda>_. True"
  by unfold_locales (simp add: pr_u32_def payload_cursor.integer_fields)

interpretation i32_field: field_codec rd pr_i32 be32 "\<lambda>_. True"
  by unfold_locales (simp add: pr_i32_def payload_cursor.integer_fields)

interpretation u64_field: field_codec rd pr_u64 be64 "\<lambda>_. True"
  by unfold_locales (simp add: pr_u64_def payload_cursor.integer_fields)

interpretation text_field:
  field_codec rd "\<lambda>r. pr_string_u16 r field minimum maximum" text_bytes "text_ok minimum maximum"
proof unfold_locales
  fix pre suf s r
  have len: "unat (word_of_nat n :: u16) = n" if "n < 2 ^ 16" for n
    using that by (simp add: unat_of_nat)
  have w: "word_of_nat (unat l) = l" for l :: u16 by simp
  show "pr_string_u16 (rd pre suf) field minimum maximum = Inr (s, r) \<longleftrightarrow>
      text_ok minimum maximum s \<and> (\<exists>t. suf = text_bytes s @ t \<and> r = rd (pre @ text_bytes s) t)"
    (is "?L \<longleftrightarrow> ?R")
  proof
    assume ?L
    then obtain l t where "suf = be16 l @ as_bytes s @ t" "length s = unat l"
        "minimum \<le> unat l" "unat l \<le> maximum" "valid_utf8 s"
        "0 \<notin> set (as_bytes s)" "\<not> any_control s" "r = rd (pre @ be16 l @ as_bytes s) t"
      by (auto simp: pr_string_u16_def u16_field.get_iff array_field.get_iff result_simps
          from_utf8_eq_Some)
    then show ?R using unat_less [of l] by (auto simp: text_ok_def text_bytes_def)
  next
    assume ?R
    then obtain t where "suf = be16 (word_of_nat (length s)) @ as_bytes s @ t"
        "r = rd (pre @ text_bytes s) t" and ok: "text_ok minimum maximum s"
      by (auto simp: text_bytes_def)
    then show ?L
      by (simp add: pr_string_u16_def u16_field.get_put array_field.get_put validate_range_def
          validate_text_def text_ok_def text_bytes_def len)
  qed
qed

interpretation blob_field:
  field_codec rd "\<lambda>r. pr_bytes_u32 r field minimum maximum" blob_bytes "blob_ok minimum maximum"
proof unfold_locales
  fix pre suf s r
  have len: "unat (word_of_nat n :: u32) = n" if "n < 2 ^ 32" for n
    using that by (simp add: unat_of_nat)
  show "pr_bytes_u32 (rd pre suf) field minimum maximum = Inr (s, r) \<longleftrightarrow>
      blob_ok minimum maximum s \<and> (\<exists>t. suf = blob_bytes s @ t \<and> r = rd (pre @ blob_bytes s) t)"
    (is "?L \<longleftrightarrow> ?R")
  proof
    assume ?L
    then obtain l t where "suf = be32 l @ s @ t" "length s = unat l"
        "minimum \<le> unat l" "unat l \<le> maximum" "r = rd (pre @ be32 l @ s) t"
      by (auto simp: pr_bytes_u32_def u32_field.get_iff array_field.get_iff result_simps)
    then show ?R using unat_less [of l] by (auto simp: blob_ok_def blob_bytes_def)
  next
    assume ?R
    then obtain t where "suf = be32 (word_of_nat (length s)) @ s @ t"
        "r = rd (pre @ blob_bytes s) t" and ok: "blob_ok minimum maximum s"
      by (auto simp: blob_bytes_def)
    then show ?L
      by (simp add: pr_bytes_u32_def u32_field.get_put array_field.get_put validate_range_def
          blob_ok_def blob_bytes_def len)
  qed
qed

fun cwd_bytes :: "string option \<Rightarrow> bytes" where
  "cwd_bytes None = [0]"
| "cwd_bytes (Some c) = [1] @ text_bytes c"

fun job_option_bytes :: "job_id option \<Rightarrow> bytes" where
  "job_option_bytes None = [0]"
| "job_option_bytes (Some j) = [1] @ j"

lemmas field_gets =
  array_field.get_iff job_field.get_iff u8_field.get_iff u16_field.get_iff u32_field.get_iff
  i32_field.get_iff u64_field.get_iff text_field.get_iff blob_field.get_iff

lemmas field_puts =
  array_field.get_put job_field.get_put u8_field.get_put u16_field.get_put u32_field.get_put
  i32_field.get_put u64_field.get_put text_field.get_put blob_field.get_put
  u8_field.get_put [simplified]
  array_field.get_put_last job_field.get_put_last u8_field.get_put_last u64_field.get_put_last
  u32_field.get_put_last text_field.get_put_last blob_field.get_put_last

lemma if_Inr_cases:
  "(if c then r else s) = Inr x \<longleftrightarrow> c \<and> r = Inr x \<or> \<not> c \<and> s = Inr x"
  by simp

interpretation cwd_field:
  field_codec rd read_cwd cwd_bytes "\<lambda>c. \<forall>s. c = Some s \<longrightarrow> text_ok 1 MAX_PATH_BYTES s"
proof unfold_locales
  fix pre suf c r
  show "read_cwd (rd pre suf) = Inr (c, r) \<longleftrightarrow>
    (\<forall>s. c = Some s \<longrightarrow> text_ok 1 MAX_PATH_BYTES s) \<and>
    (\<exists>s. suf = cwd_bytes c @ s \<and> r = rd (pre @ cwd_bytes c) s)"
    by (cases c) (auto simp: read_cwd_def and_then_eq_Inr field_gets if_Inr_cases)
qed

interpretation outcome_field: field_codec rd read_outcome put_outcome "\<lambda>_. True"
proof unfold_locales
  fix pre suf c r
  show "read_outcome (rd pre suf) = Inr (c, r) \<longleftrightarrow>
    True \<and> (\<exists>s. suf = put_outcome c @ s \<and> r = rd (pre @ put_outcome c) s)"
    by (cases c) (auto simp: read_outcome_def and_then_eq_Inr field_gets if_Inr_cases)
qed

interpretation error_job_field:
  field_codec rd read_error_job job_option_bytes "\<lambda>c. \<forall>j. c = Some j \<longrightarrow> length j = 16"
proof unfold_locales
  fix pre suf c r
  show "read_error_job (rd pre suf) = Inr (c, r) \<longleftrightarrow>
    (\<forall>j. c = Some j \<longrightarrow> length j = 16) \<and>
    (\<exists>s. suf = job_option_bytes c @ s \<and> r = rd (pre @ job_option_bytes c) s)"
    by (cases c) (auto simp: read_error_job_def and_then_eq_Inr field_gets if_Inr_cases)
qed

definition argv_bytes :: "string list \<Rightarrow> bytes" where
  "argv_bytes xs = concat (map text_bytes xs)"

definition entry_ok :: "env_entry \<Rightarrow> bool" where
  "entry_ok v \<longleftrightarrow>
     text_ok 1 MAX_ENV_NAME_BYTES (entry_name v) \<and> text_ok 0 MAX_ENV_VALUE_BYTES (entry_value v) \<and>
     CHR ''='' \<notin> set (entry_name v)"

definition entry_bytes :: "env_entry list \<Rightarrow> bytes" where
  "entry_bytes vs = concat (map (\<lambda>v. text_bytes (entry_name v) @ text_bytes (entry_value v)) vs)"

definition entry_total :: "env_entry list \<Rightarrow> nat" where
  "entry_total vs = (\<Sum>v\<leftarrow>vs. length (entry_name v) + length (entry_value v))"

lemma read_argv_rd:
  "read_argv n (rd pre suf) (min k usize_max) = Inr (xs, t, r) \<longleftrightarrow>
     length xs = n \<and> list_all (text_ok 0 MAX_ARG_BYTES) xs \<and>
     t = min (k + sum_list (map length xs)) usize_max \<and>
     (\<exists>s. suf = argv_bytes xs @ s \<and> r = rd (pre @ argv_bytes xs) s)"
proof (induction n arbitrary: pre suf k xs t r)
  case 0
  then show ?case by (auto simp: argv_bytes_def)
next
  case (Suc n)
  show ?case (is "?L \<longleftrightarrow> ?R")
  proof
    assume ?L
    then show ?R
      by (auto simp: and_then_eq_Inr text_field.get_iff usize_saturating_add_min Suc.IH
          argv_bytes_def add.assoc)
  next
    assume ?R
    then obtain a list where "xs = a # list" "length list = n" by (cases xs) auto
    with \<open>?R\<close> show ?L
      by (elim conjE exE) (simp add: text_field.get_put usize_saturating_add_min and_then_eq_Inr
        Suc.IH argv_bytes_def add.assoc)
  qed
qed

lemma read_env_rd:
  "read_env n (rd pre suf) (min k usize_max) = Inr (xs, t, r) \<longleftrightarrow>
     length xs = n \<and> list_all entry_ok xs \<and> t = min (k + entry_total xs) usize_max \<and>
     (\<exists>s. suf = entry_bytes xs @ s \<and> r = rd (pre @ entry_bytes xs) s)"
proof (induction n arbitrary: pre suf k xs t r)
  case 0
  then show ?case by (auto simp: entry_bytes_def entry_total_def)
next
  case (Suc n)
  have entry: "\<lparr>entry_name = a, entry_value = b\<rparr> = v \<longleftrightarrow> a = entry_name v \<and> b = entry_value v"
    for a b and v :: env_entry by (cases v) auto
  show ?case (is "?L \<longleftrightarrow> ?R")
  proof
    assume ?L
    then show ?R
      by (auto simp: and_then_eq_Inr text_field.get_iff usize_saturating_add_min Suc.IH entry
        entry_bytes_def entry_total_def entry_ok_def add.assoc if_Inl_eq_Inr)
  next
    assume ?R
    then obtain a list where "xs = a # list" "length list = n" by (cases xs) auto
    with \<open>?R\<close> show ?L
      by (elim conjE exE) (simp add: text_field.get_put usize_saturating_add_min and_then_eq_Inr
        Suc.IH entry entry_bytes_def entry_total_def entry_ok_def add.assoc)
  qed
qed

subsection \<open>Start requests\<close>

definition plain_text :: "nat \<Rightarrow> nat \<Rightarrow> string \<Rightarrow> bool" where
  "plain_text minimum maximum s \<longleftrightarrow>
     minimum \<le> length s \<and> length s \<le> maximum \<and> 0 \<notin> set (as_bytes s) \<and> \<not> any_control s"

lemma text_ok_plain:
  "text_ok a b s \<longleftrightarrow> plain_text a b s \<and> length s < 2 ^ 16 \<and> valid_utf8 s"
  by (auto simp: text_ok_def plain_text_def)

lemma validate_text_plain: "validate_text f s a b = Inr u \<longleftrightarrow> plain_text a b s"
  by (simp add: validate_text_eq_Inr plain_text_def)

lemma put_string_u16_eq_Inr:
  "put_string_u16 f s a b = Inr bs \<longleftrightarrow>
     plain_text a b s \<and> length s < 2 ^ 16 \<and> bs = text_bytes s"
  by (auto simp: put_string_u16_def and_then_eq_Inr validate_text_plain text_bytes_def if_Inl_eq_Inr)

lemma text_limits:
  "MAX_PROGRAM_BYTES < 2 ^ 16" "MAX_ARG_BYTES < 2 ^ 16" "MAX_ENV_NAME_BYTES < 2 ^ 16"
  "MAX_ENV_VALUE_BYTES < 2 ^ 16" "MAX_PATH_BYTES < 2 ^ 16" "MAX_CANCEL_REASON_BYTES < 2 ^ 16"
  "MAX_ERROR_CODE_BYTES < 2 ^ 16" "MAX_ERROR_MESSAGE_BYTES < 2 ^ 16"
  by (simp_all add: MAX_PROGRAM_BYTES_def MAX_ARG_BYTES_def MAX_ENV_NAME_BYTES_def
      MAX_ENV_VALUE_BYTES_def MAX_PATH_BYTES_def MAX_CANCEL_REASON_BYTES_def
      MAX_ERROR_CODE_BYTES_def MAX_ERROR_MESSAGE_BYTES_def)

lemma put_text:
  "b < 2 ^ 16 \<Longrightarrow> put_string_u16 f s a b = Inr bs \<longleftrightarrow> plain_text a b s \<and> bs = text_bytes s"
  by (auto simp: put_string_u16_eq_Inr plain_text_def)

lemmas put_texts = text_limits [THEN put_text]

lemma put_bytes_u32_eq_Inr: "put_bytes_u32 v = Inr bs \<longleftrightarrow> length v < 2 ^ 32 \<and> bs = blob_bytes v"
  by (auto simp: put_bytes_u32_def blob_bytes_def)

lemma validate_argv_eq_Inr:
  "validate_argv xs (min k usize_max) = Inr t \<longleftrightarrow>
     list_all (plain_text 0 MAX_ARG_BYTES) xs \<and> t = min (k + sum_list (map length xs)) usize_max"
  by (induction xs arbitrary: k)
    (auto simp: and_then_eq_Inr validate_text_plain usize_saturating_add_min add.assoc)

definition plain_entry :: "env_entry \<Rightarrow> bool" where
  "plain_entry v \<longleftrightarrow>
     plain_text 1 MAX_ENV_NAME_BYTES (entry_name v) \<and>
     plain_text 0 MAX_ENV_VALUE_BYTES (entry_value v) \<and> CHR ''='' \<notin> set (entry_name v)"

lemma validate_env_eq_Inr:
  "validate_env vs (min k usize_max) = Inr t \<longleftrightarrow>
     list_all plain_entry vs \<and> t = min (k + entry_total vs) usize_max"
  by (induction vs arbitrary: k)
    (auto simp: and_then_eq_Inr validate_text_plain usize_saturating_add_min plain_entry_def
      entry_total_def add.assoc)

lemma put_argv_eq_Inr:
  "put_argv xs = Inr bs \<longleftrightarrow> list_all (plain_text 0 MAX_ARG_BYTES) xs \<and> bs = argv_bytes xs"
  by (induction xs arbitrary: bs)
    (auto simp: and_then_eq_Inr put_texts argv_bytes_def)

lemma put_env_eq_Inr:
  "list_all plain_entry vs \<Longrightarrow> put_env vs = Inr bs \<longleftrightarrow> bs = entry_bytes vs"
  by (induction vs arbitrary: bs)
    (auto simp: and_then_eq_Inr put_texts entry_bytes_def plain_entry_def)

definition nonzero_bytes :: "bytes \<Rightarrow> bool" where
  "nonzero_bytes bs \<longleftrightarrow> \<not> list_all (\<lambda>b. b = 0) bs"

lemma validate_nonzero_eq_Inr: "validate_nonzero f bs = Inr u \<longleftrightarrow> nonzero_bytes bs"
  by (cases u) (simp add: validate_nonzero_def nonzero_bytes_def)

definition start_valid :: "start_frame \<Rightarrow> bool" where
  "start_valid s \<longleftrightarrow>
     nonzero_bytes (start_job_id s) \<and> nonzero_bytes (start_profile_id s) \<and>
     nonzero_bytes (start_policy_digest s) \<and> nonzero_bytes (start_input_digest s) \<and>
     nonzero_bytes (start_receipt_token s) \<and>
     start_profile_generation s \<noteq> 0 \<and> start_run_as_uid s \<noteq> 0 \<and>
     start_remote_deadline_unix_ms s \<noteq> 0 \<and>
     start_remote_deadline_unix_ms s \<le> start_relay_deadline_unix_ms s \<and>
     start_relay_deadline_unix_ms s \<le> start_result_retention_unix_ms s \<and>
     start_max_output_bytes s \<noteq> 0 \<and> start_max_output_bytes s \<le> MAX_OUTPUT_BYTES \<and>
     plain_text 1 MAX_PROGRAM_BYTES (start_program s) \<and>
     length (start_argv s) \<le> MAX_ARG_COUNT \<and>
     list_all (plain_text 0 MAX_ARG_BYTES) (start_argv s) \<and>
     (\<Sum>a\<leftarrow>start_argv s. length a) \<le> MAX_ARG_TOTAL_BYTES \<and>
     length (start_env s) \<le> MAX_ENV_COUNT \<and> list_all plain_entry (start_env s) \<and>
     entry_total (start_env s) \<le> MAX_ENV_TOTAL_BYTES \<and>
     (\<forall>c. start_cwd s = Some c \<longrightarrow> plain_text 1 MAX_PATH_BYTES c) \<and>
     1 \<le> length (start_policy_json s) \<and> length (start_policy_json s) \<le> MAX_POLICY_BYTES"

lemma min_usize_le:
  "min n usize_max \<le> MAX_ARG_TOTAL_BYTES \<longleftrightarrow> n \<le> MAX_ARG_TOTAL_BYTES"
  "min n usize_max \<le> MAX_ENV_TOTAL_BYTES \<longleftrightarrow> n \<le> MAX_ENV_TOTAL_BYTES"
  by (simp_all add: min_le_iff_disj usize_max_def MAX_ARG_TOTAL_BYTES_def MAX_ENV_TOTAL_BYTES_def)

lemmas zero_start =
  validate_argv_eq_Inr [of _ 0, simplified] validate_env_eq_Inr [of _ 0, simplified]
  read_argv_rd [of _ _ _ 0, simplified] read_env_rd [of _ _ _ 0, simplified]

lemma validate_start_eq_Inr: "validate_start s = Inr u \<longleftrightarrow> start_valid s"
  unfolding validate_start_def and_then_eq_Inr if_Inl_eq_Inr validate_nonzero_eq_Inr
    validate_text_plain zero_start validate_range_eq_Inr
  by (cases "start_cwd s")
    (auto simp: start_valid_def not_less min_usize_le validate_text_plain)

definition wf_start :: "start_frame \<Rightarrow> bool" where
  "wf_start s \<longleftrightarrow>
     length (start_job_id s) = 16 \<and> length (start_profile_id s) = 16 \<and>
     length (start_policy_digest s) = 32 \<and> length (start_input_digest s) = 32 \<and>
     length (start_receipt_token s) = 32 \<and> valid_utf8 (start_program s) \<and>
     list_all valid_utf8 (start_argv s) \<and>
     list_all (\<lambda>v. valid_utf8 (entry_name v) \<and> valid_utf8 (entry_value v)) (start_env s) \<and>
     (\<forall>c. start_cwd s = Some c \<longrightarrow> valid_utf8 c)"

definition start_bytes :: "start_frame \<Rightarrow> bytes" where
  "start_bytes s =
     start_job_id s @ start_profile_id s @ be64 (start_profile_generation s) @
     start_policy_digest s @ start_input_digest s @
     be64 (start_remote_deadline_unix_ms s) @ be64 (start_relay_deadline_unix_ms s) @
     be64 (start_result_retention_unix_ms s) @ be32 (start_run_as_uid s) @
     be64 (start_max_output_bytes s) @ text_bytes (start_program s) @
     be16 (word_of_nat (length (start_argv s))) @ argv_bytes (start_argv s) @
     be16 (word_of_nat (length (start_env s))) @ entry_bytes (start_env s) @
     cwd_bytes (start_cwd s) @ blob_bytes (start_policy_json s) @ start_receipt_token s"

lemma encode_start_eq_Inr: "encode_start s = Inr bs \<longleftrightarrow> start_valid s \<and> bs = start_bytes s"
proof (cases "start_valid s")
  case True
  have "put_string_u16 ''program'' (start_program s) 1 MAX_PROGRAM_BYTES =
      Inr (text_bytes (start_program s))"
    using True by (simp add: put_texts start_valid_def)
  moreover have "put_argv (start_argv s) = Inr (argv_bytes (start_argv s))"
    "put_env (start_env s) = Inr (entry_bytes (start_env s))"
    "put_bytes_u32 (start_policy_json s) = Inr (blob_bytes (start_policy_json s))"
    using True
    by (simp_all add: start_valid_def put_argv_eq_Inr put_env_eq_Inr put_bytes_u32_eq_Inr
        MAX_POLICY_BYTES_def)
  moreover have "put_string_u16 ''cwd'' c 1 MAX_PATH_BYTES = Inr (text_bytes c)"
    if "start_cwd s = Some c" for c
    using True that
    by (simp add: start_valid_def put_texts)
  moreover have "validate_start s = Inr ()" using True by (simp add: validate_start_eq_Inr)
  ultimately show ?thesis
    using True by (cases "start_cwd s") (auto simp: encode_start_def start_bytes_def)
qed (simp add: encode_start_def and_then_eq_Inr validate_start_eq_Inr)

lemma start_valid_text:
  assumes "start_valid s" "wf_start s"
  shows "text_ok 1 MAX_PROGRAM_BYTES (start_program s)"
    and "list_all (text_ok 0 MAX_ARG_BYTES) (start_argv s)"
    and "list_all entry_ok (start_env s)"
    and "\<forall>c. start_cwd s = Some c \<longrightarrow> text_ok 1 MAX_PATH_BYTES c"
    and "blob_ok 1 MAX_POLICY_BYTES (start_policy_json s)"
    and "unat (word_of_nat (length (start_argv s)) :: u16) = length (start_argv s)"
    and "unat (word_of_nat (length (start_env s)) :: u16) = length (start_env s)"
proof -
  have ok: "text_ok a b t" if "plain_text a b t" "valid_utf8 t" "b < 2 ^ 16" for a b t
    using that by (auto simp: text_ok_plain plain_text_def)
  show "text_ok 1 MAX_PROGRAM_BYTES (start_program s)"
    using assms by (auto simp: start_valid_def wf_start_def intro!: ok text_limits)
  show "list_all (text_ok 0 MAX_ARG_BYTES) (start_argv s)"
    using assms by (auto simp: start_valid_def wf_start_def list_all_iff intro!: ok text_limits)
  show "list_all entry_ok (start_env s)"
    using assms
    by (auto simp: start_valid_def wf_start_def list_all_iff entry_ok_def plain_entry_def
        intro!: ok text_limits)
  show "\<forall>c. start_cwd s = Some c \<longrightarrow> text_ok 1 MAX_PATH_BYTES c"
    using assms by (auto simp: start_valid_def wf_start_def intro!: ok text_limits)
  show "blob_ok 1 MAX_POLICY_BYTES (start_policy_json s)"
    using assms by (simp add: start_valid_def blob_ok_def MAX_POLICY_BYTES_def)
  show "unat (word_of_nat (length (start_argv s)) :: u16) = length (start_argv s)"
    "unat (word_of_nat (length (start_env s)) :: u16) = length (start_env s)"
    using assms by (simp_all add: start_valid_def MAX_ARG_COUNT_def MAX_ENV_COUNT_def unat_of_nat)
qed

lemma start_frame_eta:
  "\<lparr>start_job_id = start_job_id s, start_profile_id = start_profile_id s,
    start_profile_generation = start_profile_generation s,
    start_policy_digest = start_policy_digest s, start_input_digest = start_input_digest s,
    start_remote_deadline_unix_ms = start_remote_deadline_unix_ms s,
    start_relay_deadline_unix_ms = start_relay_deadline_unix_ms s,
    start_result_retention_unix_ms = start_result_retention_unix_ms s,
    start_run_as_uid = start_run_as_uid s, start_max_output_bytes = start_max_output_bytes s,
    start_program = start_program s, start_argv = start_argv s, start_env = start_env s,
    start_cwd = start_cwd s, start_policy_json = start_policy_json s,
    start_receipt_token = start_receipt_token s\<rparr> = (s :: start_frame)"
  by (cases s) simp

lemma decode_start_complete:
  assumes "start_valid s" "wf_start s"
  shows "decode_start (rd pre (start_bytes s @ t)) = Inr (s, rd (pre @ start_bytes s) t)"
proof -
  note texts = start_valid_text [OF assms]
  have loops:
    "read_argv (length (start_argv s)) (rd p (argv_bytes (start_argv s) @ q)) 0 =
       Inr (start_argv s, min (\<Sum>a\<leftarrow>start_argv s. length a) usize_max,
            rd (p @ argv_bytes (start_argv s)) q)"
    "read_env (length (start_env s)) (rd p (entry_bytes (start_env s) @ q)) 0 =
       Inr (start_env s, min (entry_total (start_env s)) usize_max,
            rd (p @ entry_bytes (start_env s)) q)" for p q
    using texts by (simp_all add: zero_start)
  have bounds: "\<not> MAX_ARG_TOTAL_BYTES < (\<Sum>a\<leftarrow>start_argv s. length a)"
    "\<not> MAX_ENV_TOTAL_BYTES < entry_total (start_env s)"
    "\<not> MAX_ARG_COUNT < length (start_argv s)" "\<not> MAX_ENV_COUNT < length (start_env s)"
    using assms by (simp_all add: start_valid_def)
  have valid: "validate_start s = Inr ()" using assms by (simp add: validate_start_eq_Inr)
  have arrays: "length (start_job_id s) = 16" "length (start_profile_id s) = 16"
    "length (start_policy_digest s) = 32" "length (start_input_digest s) = 32"
    "length (start_receipt_token s) = 32"
    using assms by (simp_all add: wf_start_def)
  show ?thesis
    unfolding decode_start_def start_bytes_def
    by (simp add: field_puts cwd_field.get_put texts loops bounds valid arrays
        start_frame_eta Let_def del: One_nat_def)
qed

lemma decode_start_sound:
  assumes "decode_start (rd pre suf) = Inr (s, r)"
  shows "start_valid s \<and> wf_start s \<and>
    (\<exists>t. suf = start_bytes s @ t \<and> r = rd (pre @ start_bytes s) t)"
  using assms unfolding decode_start_def
  apply (clarsimp simp: and_then_eq_Inr if_Inl_eq_Inr Let_def validate_start_eq_Inr field_gets
      cwd_field.get_iff zero_start simp del: One_nat_def)
  apply (rule conjI)
  subgoal by (auto simp: wf_start_def text_ok_def list_all_iff entry_ok_def)
  subgoal by (simp add: start_bytes_def)
  done

interpretation start_field:
  field_codec rd decode_start start_bytes "\<lambda>s. start_valid s \<and> wf_start s"
  by unfold_locales (use decode_start_sound decode_start_complete in blast)

subsection \<open>Frames\<close>

text \<open>What the Rust types guarantee of a frame: the lengths of its arrays and the validity of
  its strings.\<close>

fun wf_frame :: "frame \<Rightarrow> bool" where
  "wf_frame (Hello _) \<longleftrightarrow> True"
| "wf_frame (Start s) \<longleftrightarrow> wf_start s"
| "wf_frame (Stdout f) \<longleftrightarrow> length (output_job_id f) = 16"
| "wf_frame (Stderr f) \<longleftrightarrow> length (output_job_id f) = 16"
| "wf_frame (Heartbeat f) \<longleftrightarrow> length (heartbeat_job_id f) = 16"
| "wf_frame (Cancel f) \<longleftrightarrow> length (cancel_job_id f) = 16 \<and> valid_utf8 (cancel_reason f)"
| "wf_frame (Exit f) \<longleftrightarrow> length (exit_job_id f) = 16"
| "wf_frame (Receipt f) \<longleftrightarrow> length (receipt_job_id f) = 16"
| "wf_frame (Error f) \<longleftrightarrow>
     (\<forall>j. error_job_id f = Some j \<longrightarrow> length j = 16) \<and> valid_utf8 (error_code f) \<and>
     valid_utf8 (error_message f)"
| "wf_frame (QueryReceipt f) \<longleftrightarrow>
     length (query_job_id f) = 16 \<and> length (query_profile_id f) = 16 \<and>
     length (query_policy_digest f) = 32 \<and> length (query_input_digest f) = 32 \<and>
     length (query_receipt_token f) = 32"

lemma read_output_sound:
  "read_output (rd pre suf) = Inr (f, r) \<Longrightarrow> pr_finish r = Inr u \<Longrightarrow>
     length (output_job_id f) = 16 \<and> put_output f = Inr suf"
  by (auto simp: read_output_def put_output_def and_then_eq_Inr field_gets pr_remaining_rd
      pr_finish_rd validate_range_eq_Inr)

lemma read_output_complete:
  "length (output_job_id f) = 16 \<Longrightarrow> put_output f = Inr suf \<Longrightarrow>
     read_output (rd pre suf) = Inr (f, rd (pre @ suf) [])"
  by (auto simp: read_output_def put_output_def and_then_eq_Inr field_puts pr_remaining_rd
      validate_range_eq_Inr)

lemma text_ok_limits:
  "text_ok a MAX_CANCEL_REASON_BYTES s \<longleftrightarrow> plain_text a MAX_CANCEL_REASON_BYTES s \<and> valid_utf8 s"
  "text_ok a MAX_ERROR_CODE_BYTES s \<longleftrightarrow> plain_text a MAX_ERROR_CODE_BYTES s \<and> valid_utf8 s"
  "text_ok a MAX_ERROR_MESSAGE_BYTES s \<longleftrightarrow> plain_text a MAX_ERROR_MESSAGE_BYTES s \<and> valid_utf8 s"
  using text_limits by (auto simp: text_ok_plain plain_text_def)

lemma blob_ok_receipt:
  "blob_ok a MAX_RECEIPT_BYTES b \<longleftrightarrow> a \<le> length b \<and> length b \<le> MAX_RECEIPT_BYTES"
  "length b \<le> MAX_RECEIPT_BYTES \<Longrightarrow> put_bytes_u32 b = Inr (blob_bytes b)"
  by (auto simp: blob_ok_def put_bytes_u32_eq_Inr MAX_RECEIPT_BYTES_def)

lemma decode_payload_rd:
  "decode_payload k p = Inr f \<longleftrightarrow>
     (\<exists>r. decode_frame k (rd [] p) = Inr (f, r) \<and> pr_finish r = Inr ())"
  by (auto simp: decode_payload_def pr_new_rd and_then_eq_Inr)

lemma decode_payload_sound:
  "decode_payload k p = Inr f \<Longrightarrow> kind_of f = k \<and> wf_frame f \<and> encode_payload f = Inr p"
  by (cases k)
    (auto simp: decode_payload_rd and_then_eq_Inr field_gets start_field.get_iff
      outcome_field.get_iff error_job_field.get_iff pr_finish_rd encode_start_eq_Inr text_ok_limits
      put_texts validate_range_eq_Inr blob_ok_receipt if_Inl_eq_Inr Let_def
      dest: read_output_sound split: option.splits)

lemma decode_payload_complete:
  assumes "wf_frame f" and "encode_payload f = Inr p"
  shows "decode_payload (kind_of f) p = Inr f"
proof (cases f)
  case (Start s)
  with assms show ?thesis
    by (auto simp: decode_payload_rd encode_start_eq_Inr start_field.get_put_last pr_finish_rd)
next
  case (Stdout s)
  with assms show ?thesis by (auto simp: decode_payload_rd read_output_complete pr_finish_rd)
next
  case (Stderr s)
  with assms show ?thesis by (auto simp: decode_payload_rd read_output_complete pr_finish_rd)
next
  case (Error s)
  have j: "(case error_job_id s of None \<Rightarrow> [0] | Some job_id \<Rightarrow> 1 # job_id) =
      job_option_bytes (error_job_id s)"
    by (cases "error_job_id s") auto
  from assms Error have p: "p = job_option_bytes (error_job_id s) @ text_bytes (error_code s) @
      text_bytes (error_message s) @ [if error_retryable s then 1 else 0]"
    and "text_ok 1 MAX_ERROR_CODE_BYTES (error_code s)"
    and "text_ok 1 MAX_ERROR_MESSAGE_BYTES (error_message s)"
    by (auto simp: j and_then_eq_Inr put_texts text_ok_limits)
  with assms Error show ?thesis
    by (simp add: decode_payload_rd field_puts error_job_field.get_put pr_finish_rd
        del: One_nat_def)
next
  case (QueryReceipt q)
  with assms have p: "p = query_job_id q @ query_profile_id q @ be64 (query_profile_generation q) @
      query_policy_digest q @ query_input_digest q @ query_receipt_token q"
    and ok: "validate_query_receipt q = Inr ()" "query_profile_generation q \<noteq> 0"
    by (auto simp: and_then_eq_Inr validate_query_receipt_def if_Inl_eq_Inr)
  have eta: "\<lparr>query_job_id = query_job_id q, query_profile_id = query_profile_id q,
      query_profile_generation = query_profile_generation q,
      query_policy_digest = query_policy_digest q, query_input_digest = query_input_digest q,
      query_receipt_token = query_receipt_token q\<rparr> = q" by (cases q) simp
  from assms QueryReceipt p ok show ?thesis
    by (simp add: decode_payload_rd field_puts pr_finish_rd Let_def eta)
qed (use assms in \<open>auto simp: decode_payload_rd field_puts and_then_eq_Inr pr_finish_rd
    text_ok_limits put_texts outcome_field.get_put blob_ok_receipt validate_range_eq_Inr
    simp del: One_nat_def\<close>)

lemma decode_payload_eq_Inr:
  "decode_payload k p = Inr f \<longleftrightarrow> kind_of f = k \<and> wf_frame f \<and> encode_payload f = Inr p"
  using decode_payload_sound decode_payload_complete by blast

subsection \<open>Payload sizes\<close>

lemma length_text_bytes [simp]: "length (text_bytes s) = 2 + length s"
  by (simp add: text_bytes_def)

lemma length_blob_bytes [simp]: "length (blob_bytes s) = 4 + length s"
  by (simp add: blob_bytes_def)

lemma length_argv_bytes: "length (argv_bytes xs) = 2 * length xs + (\<Sum>a\<leftarrow>xs. length a)"
  by (induction xs) (auto simp: argv_bytes_def)

lemma length_entry_bytes: "length (entry_bytes vs) = 4 * length vs + entry_total vs"
  by (induction vs) (auto simp: entry_bytes_def entry_total_def)

lemma length_start_bytes:
  assumes "start_valid s" "wf_start s"
  shows "length (start_bytes s) \<le> 94713"
proof -
  have "length (cwd_bytes (start_cwd s)) \<le> 4099"
    using assms by (cases "start_cwd s") (auto simp: start_valid_def plain_text_def MAX_PATH_BYTES_def)
  moreover have "length (argv_bytes (start_argv s)) \<le> 2 * 64 + 16384"
    "length (entry_bytes (start_env s)) \<le> 4 * 16 + 8192"
    "length (start_program s) \<le> 128" "length (start_policy_json s) \<le> 65536"
    using assms by (simp_all add: start_valid_def length_argv_bytes length_entry_bytes plain_text_def
        MAX_ARG_COUNT_def MAX_ENV_COUNT_def MAX_ARG_TOTAL_BYTES_def MAX_ENV_TOTAL_BYTES_def
        MAX_PROGRAM_BYTES_def MAX_POLICY_BYTES_def)
  ultimately show ?thesis using assms(2) by (simp add: start_bytes_def wf_start_def)
qed

lemma length_put_outcome: "length (put_outcome x) = 5"
  by (cases x) simp_all

lemma kind_limit_le: "kind_limit k \<le> MAX_FRAME_PAYLOAD"
  by (cases k) (simp_all add: MAX_FRAME_PAYLOAD_def MAX_OUTPUT_CHUNK_def MAX_CANCEL_REASON_BYTES_def
      MAX_RECEIPT_BYTES_def MAX_ERROR_CODE_BYTES_def MAX_ERROR_MESSAGE_BYTES_def)

lemma encode_payload_size:
  assumes "wf_frame f" "encode_payload f = Inr p"
  shows "length p \<le> kind_limit (kind_of f)"
proof (cases f)
  case (Start s)
  with assms have "start_valid s" "wf_start s" "p = start_bytes s"
    by (auto simp: encode_start_eq_Inr)
  with length_start_bytes Start show ?thesis by (fastforce simp: MAX_FRAME_PAYLOAD_def)
qed (use assms in \<open>auto simp: and_then_eq_Inr put_output_def validate_range_eq_Inr
    put_string_u16_eq_Inr put_bytes_u32_eq_Inr plain_text_def length_put_outcome
    split: option.splits\<close>)

lemma validate_payload_size_eq_Inr:
  "validate_payload_size k n = Inr u \<longleftrightarrow> n \<le> kind_limit k"
  using kind_limit_le [of k] by (cases u) (auto simp: validate_payload_size_def not_less)

subsection \<open>The header\<close>

definition frame_header :: "frame_kind \<Rightarrow> u64 \<Rightarrow> u32 \<Rightarrow> bytes" where
  "frame_header k s n =
     MAGIC @ be16 PROTOCOL_VERSION @ [kind_code k, 0] @ be64 s @ be32 n"

lemma length_frame_header [simp]: "length (frame_header k s n) = 20"
  by (simp add: frame_header_def MAGIC_def)

lemma kind_try_from_eq_Inr: "kind_try_from v = Inr k \<longleftrightarrow> v = kind_code k"
  by (cases k) (auto simp: kind_try_from_def split: if_splits)

lemma frame_header_fields:
  "take 4 (frame_header k s n @ p) = MAGIC"
  "word_of_nat (be_value [(frame_header k s n @ p) ! 4, (frame_header k s n @ p) ! 5]) = PROTOCOL_VERSION"
  "(frame_header k s n @ p) ! 6 = kind_code k"
  "(frame_header k s n @ p) ! 7 = 0"
  "word_of_nat (be_value (take 8 (drop 8 (frame_header k s n @ p)))) = s"
  "be_value (take 4 (drop 16 (frame_header k s n @ p))) = unat n"
  "drop HEADER_BYTES (frame_header k s n @ p) = p"
proof -
  have m: "MAGIC = [83, 82, 82, 80]"
    by (simp add: MAGIC_def as_bytes_def byte_of_char_def)
  have v: "be16 PROTOCOL_VERSION = [0, 1]"
    by (simp add: be16_def PROTOCOL_VERSION_def numeral_2_eq_2)
  have w: "word_of_nat (be_value [0, 1]) = PROTOCOL_VERSION"
    by (simp add: be_value_def PROTOCOL_VERSION_def)
  have n: "be_value (be32 n) = unat n"
    using unat_less [of n] by (simp add: be32_def be_value_be_bytes)
  show "take 4 (frame_header k s n @ p) = MAGIC"
  "word_of_nat (be_value [(frame_header k s n @ p) ! 4, (frame_header k s n @ p) ! 5]) = PROTOCOL_VERSION"
  "(frame_header k s n @ p) ! 6 = kind_code k"
  "(frame_header k s n @ p) ! 7 = 0"
  "word_of_nat (be_value (take 8 (drop 8 (frame_header k s n @ p)))) = s"
  "be_value (take 4 (drop 16 (frame_header k s n @ p))) = unat n"
  "drop HEADER_BYTES (frame_header k s n @ p) = p"
    by (simp_all add: frame_header_def m v w n nth_append HEADER_BYTES_def)
qed

lemma take_two: "n + 2 \<le> length bs \<Longrightarrow> take 2 (drop n bs) = [bs ! n, bs ! (n + 1)]"
  by (rule nth_equalityI) (auto simp: less_Suc_eq numeral_2_eq_2)

lemma header_inverse:
  assumes "20 \<le> length bs" "take 4 bs = MAGIC"
    "word_of_nat (be_value [bs ! 4, bs ! 5]) = PROTOCOL_VERSION" "bs ! 6 = kind_code k" "bs ! 7 = 0"
  shows "bs = frame_header k (word_of_nat (be_value (take 8 (drop 8 bs))))
      (word_of_nat (be_value (take 4 (drop 16 bs)))) @ drop 20 bs"
proof -
  have "bs = take 4 bs @ take 2 (drop 4 bs) @ take 2 (drop 6 bs) @ take 8 (drop 8 bs) @
      take 4 (drop 16 bs) @ drop 20 bs"
  proof -
    have d: "drop n bs = take k (drop n bs) @ drop m bs" if "n + k = m" for n k m
      using append_take_drop_id [of k "drop n bs"] that by (simp add: add.commute)
    have "drop 4 bs = take 2 (drop 4 bs) @ drop 6 bs" "drop 6 bs = take 2 (drop 6 bs) @ drop 8 bs"
      "drop 8 bs = take 8 (drop 8 bs) @ drop 16 bs" "drop 16 bs = take 4 (drop 16 bs) @ drop 20 bs"
      by (rule d, simp)+
    then show ?thesis by (metis append_take_drop_id)
  qed
  moreover have "take 2 (drop 4 bs) = be16 PROTOCOL_VERSION"
    using assms(1,3) be16_word [of "[bs ! 4, bs ! 5]"] by (simp add: take_two)
  moreover have "take 2 (drop 6 bs) = [kind_code k, 0]"
    using assms(1,4,5) by (simp add: take_two)
  moreover have "take 8 (drop 8 bs) = be64 (word_of_nat (be_value (take 8 (drop 8 bs))))"
    "take 4 (drop 16 bs) = be32 (word_of_nat (be_value (take 4 (drop 16 bs))))"
    using assms(1) by (simp_all add: be64_word be32_word)
  ultimately show ?thesis using assms(2) unfolding frame_header_def by (metis append_assoc)
qed

subsection \<open>Envelopes\<close>

lemma payload_len_word:
  "length p \<le> MAX_FRAME_PAYLOAD \<Longrightarrow> unat (word_of_nat (length p) :: u32) = length p"
  by (simp add: unat_of_nat MAX_FRAME_PAYLOAD_def)

lemma encode_eq_Inr:
  assumes "wf_frame (env_frame e)"
  shows "encode e = Inr bs \<longleftrightarrow>
    (\<exists>p. encode_payload (env_frame e) = Inr p \<and>
         bs = frame_header (kind_of (env_frame e)) (env_sequence e) (word_of_nat (length p)) @ p)"
proof -
  have "length p \<le> kind_limit (kind_of (env_frame e)) \<and> length p < 2 ^ 32"
    if "encode_payload (env_frame e) = Inr p" for p
    using encode_payload_size [OF assms that] kind_limit_le [of "kind_of (env_frame e)"]
    by (simp add: MAX_FRAME_PAYLOAD_def)
  then show ?thesis
    by (auto simp: encode_def and_then_eq_Inr validate_payload_size_eq_Inr frame_header_def
        if_Inl_eq_Inr)
qed

lemma decode_exact_complete:
  assumes "wf_frame (env_frame e)" "encode e = Inr bs"
  shows "decode_exact bs = Inr e"
proof -
  let ?k = "kind_of (env_frame e)"
  from assms obtain p where p: "encode_payload (env_frame e) = Inr p"
    and bs: "bs = frame_header ?k (env_sequence e) (word_of_nat (length p)) @ p"
    by (auto simp: encode_eq_Inr)
  have "length p \<le> kind_limit ?k" by (rule encode_payload_size [OF assms(1) p])
  moreover from this kind_limit_le have "unat (word_of_nat (length p) :: u32) = length p"
    by (intro payload_len_word) (rule order_trans)
  moreover have "kind_try_from (kind_code ?k) = Inr ?k" by (simp add: kind_try_from_eq_Inr)
  moreover from calculation(1) have "validate_payload_size ?k (length p) = Inr ()"
    by (simp add: validate_payload_size_eq_Inr)
  ultimately show ?thesis
    using decode_payload_complete [OF assms(1) p] unfolding bs decode_exact_def frame_header_fields
    by (simp add: HEADER_BYTES_def Let_def)
qed

lemma decode_exact_sound:
  assumes "decode_exact bs = Inr e"
  shows "wf_frame (env_frame e) \<and> encode e = Inr bs"
proof -
  from assms obtain k f where c: "20 \<le> length bs" "take 4 bs = MAGIC"
      "word_of_nat (be_value [bs ! 4, bs ! 5]) = PROTOCOL_VERSION" "bs ! 6 = kind_code k" "bs ! 7 = 0"
    and size: "length bs = 20 + be_value (take 4 (drop 16 bs))"
    and f: "decode_payload k (drop 20 bs) = Inr f"
    and e: "e = \<lparr>env_sequence = word_of_nat (be_value (take 8 (drop 8 bs))), env_frame = f\<rparr>"
    unfolding decode_exact_def HEADER_BYTES_def Let_def if_Inl_eq_Inr and_then_eq_Inr
      kind_try_from_eq_Inr not_less not_not
    by (elim conjE exE) (rule that, assumption+, drule Inr_inject, erule sym)
  from f have k: "kind_of (env_frame e) = k" and wf: "wf_frame (env_frame e)"
    and p: "encode_payload (env_frame e) = Inr (drop 20 bs)"
    by (simp_all add: decode_payload_eq_Inr e)
  have len: "length (drop 20 bs) = be_value (take 4 (drop 16 bs))"
    unfolding length_drop by (subst size) simp
  have "bs = frame_header (kind_of (env_frame e)) (env_sequence e)
      (word_of_nat (length (drop 20 bs))) @ drop 20 bs"
    unfolding k len by (subst e, unfold envelope.select_convs, rule header_inverse [OF c])
  with wf p show ?thesis unfolding encode_eq_Inr [OF wf] by blast
qed

lemma decode_exact_eq_Inr:
  "decode_exact bs = Inr e \<longleftrightarrow> wf_frame (env_frame e) \<and> encode e = Inr bs"
  using decode_exact_sound decode_exact_complete by blast

subsection \<open>Streams\<close>

lemma read_frame_from_short:
  assumes "0 < length r" "length r < 20"
  shows "read_frame_from r = Inl (Io UnexpectedEof)"
  using assms by (cases r) (auto simp: read_frame_from_def read_exact_def HEADER_BYTES_def)

lemma read_frame_from_long:
  assumes "length h = 20"
  shows "read_frame_from (h @ r) =
     (if take 4 h \<noteq> MAGIC then Inl BadMagic
      else if word_of_nat (be_value [h ! 4, h ! 5]) \<noteq> PROTOCOL_VERSION
      then Inl (UnsupportedVersion (word_of_nat (be_value [h ! 4, h ! 5])))
      else
      and_then (kind_try_from (h ! 6)) (\<lambda>kind.
      if h ! 7 \<noteq> 0 then Inl (ReservedFlags (h ! 7))
      else
      and_then (validate_payload_size kind (be_value (take 4 (drop 16 h)))) (\<lambda>_.
      and_then (read_exact r (be_value (take 4 (drop 16 h)))) (\<lambda>(payload, r).
      and_then (decode_exact (h @ payload)) (\<lambda>envelope. Inr (Some (envelope, r)))))))"
proof -
  from assms obtain b t where h: "h = b # t" and t: "length t = 19" by (cases h) auto
  have "read_exact (t @ r) (HEADER_BYTES - 1) = Inr (t, r)"
    using t by (simp add: read_exact_def HEADER_BYTES_def)
  then show ?thesis
    unfolding h append_Cons read_frame_from_def list.case Let_def by (simp only: and_then_simps prod.case)
qed

lemma read_frame_from_header:
  assumes n: "n \<le> kind_limit k"
  shows "read_frame_from (frame_header k s (word_of_nat n) @ rest) =
    (if n \<le> length rest
     then and_then (decode_exact (frame_header k s (word_of_nat n) @ take n rest))
            (\<lambda>envelope. Inr (Some (envelope, drop n rest)))
     else Inl (Io UnexpectedEof))"
proof -
  have "unat (word_of_nat n :: u32) = n"
    using n kind_limit_le [of k] by (simp add: MAX_FRAME_PAYLOAD_def unat_of_nat)
  moreover have "kind_try_from (kind_code k) = Inr k" by (simp add: kind_try_from_eq_Inr)
  moreover from n have "validate_payload_size k n = Inr ()"
    by (simp add: validate_payload_size_eq_Inr)
  ultimately show ?thesis
    unfolding read_frame_from_long [OF length_frame_header]
      frame_header_fields [where p = "[]", unfolded append_Nil2]
    by (simp add: read_exact_def)
qed

lemma read_frame_from_encoded:
  assumes "wf_frame (env_frame e)" "encode e = Inr bs"
  shows "read_frame_from (bs @ rest) = Inr (Some (e, rest))"
    and "k < length bs \<Longrightarrow> 0 < k \<Longrightarrow> read_frame_from (take k bs) = Inl (Io UnexpectedEof)"
proof -
  let ?k = "kind_of (env_frame e)"
  from assms obtain p where p: "encode_payload (env_frame e) = Inr p"
    and bs: "bs = frame_header ?k (env_sequence e) (word_of_nat (length p)) @ p"
    by (auto simp: encode_eq_Inr)
  note limit = encode_payload_size [OF assms(1) p]
  show "read_frame_from (bs @ rest) = Inr (Some (e, rest))"
    using decode_exact_complete [OF assms]
    unfolding bs append_assoc by (simp add: read_frame_from_header [OF limit])
  assume k: "k < length bs" "0 < k"
  show "read_frame_from (take k bs) = Inl (Io UnexpectedEof)"
  proof (cases "k < 20")
    case True
    with k show ?thesis by (intro read_frame_from_short) auto
  next
    case False
    with k bs have "\<not> length p \<le> k - 20" by auto
    with False show ?thesis unfolding bs by (simp add: read_frame_from_header [OF limit])
  qed
qed

lemma decode_exact_truncated:
  assumes "wf_frame (env_frame e)" "encode e = Inr bs" "k < length bs"
  shows "decode_exact (take k bs) = Inl Truncated"
proof (cases "k < 20")
  case False
  let ?k = "kind_of (env_frame e)"
  from assms obtain p where p: "encode_payload (env_frame e) = Inr p"
    and bs: "bs = frame_header ?k (env_sequence e) (word_of_nat (length p)) @ p"
    by (auto simp: encode_eq_Inr)
  have "length p \<le> kind_limit ?k" by (rule encode_payload_size [OF assms(1) p])
  moreover from this kind_limit_le have "unat (word_of_nat (length p) :: u32) = length p"
    by (intro payload_len_word) (rule order_trans)
  moreover have "kind_try_from (kind_code ?k) = Inr ?k" by (simp add: kind_try_from_eq_Inr)
  moreover from calculation(1) have "validate_payload_size ?k (length p) = Inr ()"
    by (simp add: validate_payload_size_eq_Inr)
  moreover have t: "take k bs =
      frame_header ?k (env_sequence e) (word_of_nat (length p)) @ take (k - 20) p"
    using False bs by simp
  moreover have "k - 20 < length p" using False assms(3) bs by simp
  ultimately show ?thesis
    unfolding t decode_exact_def frame_header_fields
    by (simp add: HEADER_BYTES_def Let_def)
qed (use assms in \<open>simp add: decode_exact_def HEADER_BYTES_def\<close>)

interpretation remote_stream:
  framed_stream encode read_frame_from "\<lambda>e. wf_frame (env_frame e)"
proof unfold_locales
  show "read_frame_from [] = Inr None" by (simp add: read_frame_from_def)
qed (rule read_frame_from_encoded(1))


subsection \<open>The input of the start digest\<close>

lemma count_inject:
  assumes "n < 2 ^ 64" "m < 2 ^ 64" "be64 (word_of_nat n) = be64 (word_of_nat m)"
  shows "n = m"
proof -
  from assms(3) have "unat (word_of_nat n :: u64) = unat (word_of_nat m :: u64)" by simp
  with assms(1,2) show ?thesis unfolding unat_of_nat by simp
qed

lemma hash_length_prefixed_inject:
  assumes "length a < 2 ^ 64" "length b < 2 ^ 64"
    and "hash_length_prefixed a @ s = hash_length_prefixed b @ t"
  shows "a = b \<and> s = t"
proof -
  from assms(3) have "be64 (word_of_nat (length a)) = be64 (word_of_nat (length b))"
    and rest: "a @ s = b @ t"
    by (auto simp: hash_length_prefixed_def)
  from count_inject [OF assms(1,2) this(1)] rest show ?thesis by simp
qed

lemma hash_list_inject:
  assumes "\<And>x y s t. P x \<Longrightarrow> P y \<Longrightarrow> f x @ s = f y @ t \<Longrightarrow> x = y \<and> s = t"
    and "list_all P xs" "list_all P ys" "length xs = length ys"
    and "concat (map f xs) @ s = concat (map f ys) @ (t :: bytes)"
  shows "xs = ys \<and> s = t"
  using assms(2-5)
proof (induction xs arbitrary: ys)
  case (Cons x xs)
  then obtain y zs where ys: "ys = y # zs" by (cases ys) auto
  with Cons.prems have "f x @ (concat (map f xs) @ s) = f y @ (concat (map f zs) @ t)"
    "P x" "P y" "list_all P xs" "list_all P zs" "length xs = length zs" by simp_all
  with assms(1) Cons.IH ys show ?case by blast
qed simp

definition digest_sized :: "start_frame \<Rightarrow> bool" where
  "digest_sized s \<longleftrightarrow>
     length (start_job_id s) = 16 \<and> length (start_profile_id s) = 16 \<and>
     length (start_policy_digest s) = 32 \<and> length (start_program s) < 2 ^ 64 \<and>
     length (start_argv s) < 2 ^ 64 \<and> list_all (\<lambda>a. length a < 2 ^ 64) (start_argv s) \<and>
     length (start_env s) < 2 ^ 64 \<and>
     list_all (\<lambda>v. length (entry_name v) < 2 ^ 64 \<and> length (entry_value v) < 2 ^ 64) (start_env s) \<and>
     (\<forall>c. start_cwd s = Some c \<longrightarrow> length c < 2 ^ 64)"

definition same_request :: "start_frame \<Rightarrow> start_frame \<Rightarrow> bool" where
  "same_request s s' \<longleftrightarrow>
     start_job_id s = start_job_id s' \<and> start_profile_id s = start_profile_id s' \<and>
     start_profile_generation s = start_profile_generation s' \<and>
     start_policy_digest s = start_policy_digest s' \<and>
     start_remote_deadline_unix_ms s = start_remote_deadline_unix_ms s' \<and>
     start_relay_deadline_unix_ms s = start_relay_deadline_unix_ms s' \<and>
     start_result_retention_unix_ms s = start_result_retention_unix_ms s' \<and>
     start_run_as_uid s = start_run_as_uid s' \<and>
     start_max_output_bytes s = start_max_output_bytes s' \<and>
     start_program s = start_program s' \<and> start_argv s = start_argv s' \<and>
     start_env s = start_env s' \<and> start_cwd s = start_cwd s'"

lemma hash_text_inject:
  assumes "length x < 2 ^ 64" "length y < 2 ^ 64"
    and "hash_length_prefixed (as_bytes x) @ s = hash_length_prefixed (as_bytes y) @ t"
  shows "x = y \<and> s = t"
  using hash_length_prefixed_inject [OF _ _ assms(3)] assms(1,2) by simp

lemma hash_entry_inject:
  fixes x y :: env_entry
  assumes x: "length (entry_name x) < 2 ^ 64 \<and> length (entry_value x) < 2 ^ 64"
    and y: "length (entry_name y) < 2 ^ 64 \<and> length (entry_value y) < 2 ^ 64"
    and "(hash_length_prefixed (as_bytes (entry_name x)) @
          hash_length_prefixed (as_bytes (entry_value x))) @ s =
         (hash_length_prefixed (as_bytes (entry_name y)) @
          hash_length_prefixed (as_bytes (entry_value y))) @ t"
  shows "x = y \<and> s = t"
proof -
  note assms(3) [unfolded append_assoc]
  from hash_text_inject [OF _ _ this] x y have n: "entry_name x = entry_name y"
    and "hash_length_prefixed (as_bytes (entry_value x)) @ s =
      hash_length_prefixed (as_bytes (entry_value y)) @ t" by simp_all
  from hash_text_inject [OF _ _ this(2)] x y n show ?thesis by simp
qed

lemma start_digest_input_inject:
  assumes "digest_sized s" "digest_sized s'" "start_digest_input s = start_digest_input s'"
  shows "same_request s s'"
proof -
  let ?argv = "\<lambda>s. concat (map (\<lambda>a. hash_length_prefixed (as_bytes a)) (start_argv s))"
  let ?env = "\<lambda>s. concat (map (\<lambda>v. hash_length_prefixed (as_bytes (entry_name v)) @
       hash_length_prefixed (as_bytes (entry_value v))) (start_env s))"
  let ?cwd = "\<lambda>s. case start_cwd s of
        Some cwd \<Rightarrow> [1] @ hash_length_prefixed (as_bytes cwd) | None \<Rightarrow> [0]"
  let ?count = "\<lambda>xs. be64 (word_of_nat (length xs))"
  from assms have fixed: "start_job_id s = start_job_id s'" "start_profile_id s = start_profile_id s'"
     "start_profile_generation s = start_profile_generation s'"
     "start_policy_digest s = start_policy_digest s'"
     "start_remote_deadline_unix_ms s = start_remote_deadline_unix_ms s'"
     "start_relay_deadline_unix_ms s = start_relay_deadline_unix_ms s'"
     "start_result_retention_unix_ms s = start_result_retention_unix_ms s'"
     "start_run_as_uid s = start_run_as_uid s'"
     "start_max_output_bytes s = start_max_output_bytes s'"
    and prog: "hash_length_prefixed (as_bytes (start_program s)) @ ?count (start_argv s) @ ?argv s @
      ?count (start_env s) @ ?env s @ ?cwd s =
      hash_length_prefixed (as_bytes (start_program s')) @ ?count (start_argv s') @ ?argv s' @
      ?count (start_env s') @ ?env s' @ ?cwd s'"
    by (simp_all add: start_digest_input_def digest_sized_def)
  have sized: "length (start_program s) < 2 ^ 64" "length (start_program s') < 2 ^ 64"
    "length (start_argv s) < 2 ^ 64" "length (start_argv s') < 2 ^ 64"
    "list_all (\<lambda>a. length a < 2 ^ 64) (start_argv s)" "list_all (\<lambda>a. length a < 2 ^ 64) (start_argv s')"
    "length (start_env s) < 2 ^ 64" "length (start_env s') < 2 ^ 64"
    "list_all (\<lambda>v. length (entry_name v) < 2 ^ 64 \<and> length (entry_value v) < 2 ^ 64) (start_env s)"
    "list_all (\<lambda>v. length (entry_name v) < 2 ^ 64 \<and> length (entry_value v) < 2 ^ 64) (start_env s')"
    "\<And>c. start_cwd s = Some c \<Longrightarrow> length c < 2 ^ 64" "\<And>c. start_cwd s' = Some c \<Longrightarrow> length c < 2 ^ 64"
    using assms(1,2) by (simp_all add: digest_sized_def)
  from hash_length_prefixed_inject [OF _ _ prog] sized(1,2)
  have p: "start_program s = start_program s'"
    and "?count (start_argv s) @ ?argv s @ ?count (start_env s) @ ?env s @ ?cwd s =
      ?count (start_argv s') @ ?argv s' @ ?count (start_env s') @ ?env s' @ ?cwd s'" by simp_all
  then have "?count (start_argv s) = ?count (start_argv s')"
    and argv: "?argv s @ ?count (start_env s) @ ?env s @ ?cwd s =
      ?argv s' @ ?count (start_env s') @ ?env s' @ ?cwd s'" by simp_all
  from count_inject [OF sized(3,4) this(1)] have "length (start_argv s) = length (start_argv s')" .
  from hash_list_inject [OF hash_text_inject sized(5,6) this argv]
  have a: "start_argv s = start_argv s'"
    and rest: "?count (start_env s) @ ?env s @ ?cwd s = ?count (start_env s') @ ?env s' @ ?cwd s'"
    by blast+
  from rest have "?count (start_env s) = ?count (start_env s')"
    and env: "?env s @ ?cwd s = ?env s' @ ?cwd s'" by simp_all
  from count_inject [OF sized(7,8) this(1)] have n: "length (start_env s) = length (start_env s')" .
  from hash_list_inject [OF hash_entry_inject sized(9,10) n env] have e: "start_env s = start_env s'"
    and cwd: "?cwd s = ?cwd s'" by blast+
  have "start_cwd s = start_cwd s'"
  proof (cases "start_cwd s"; cases "start_cwd s'")
    fix c c' assume "start_cwd s = Some c" "start_cwd s' = Some c'"
    with cwd sized(11,12) hash_length_prefixed_inject [of "as_bytes c" "as_bytes c'" "[]" "[]"]
    show ?thesis by simp
  qed (use cwd in auto)
  with fixed p a e show ?thesis by (simp add: same_request_def)
qed

lemma start_valid_sized: "start_valid s \<Longrightarrow> wf_start s \<Longrightarrow> digest_sized s"
  by (auto simp: start_valid_def wf_start_def digest_sized_def plain_text_def plain_entry_def
      list_all_iff MAX_PROGRAM_BYTES_def MAX_ARG_COUNT_def MAX_ARG_BYTES_def MAX_ENV_COUNT_def
      MAX_ENV_NAME_BYTES_def MAX_ENV_VALUE_BYTES_def MAX_PATH_BYTES_def)

lemma same_request_digest_input: "same_request s s' \<Longrightarrow> start_digest_input s = start_digest_input s'"
  by (simp add: same_request_def start_digest_input_def)

subsection \<open>Sample frames\<close>

definition sample_start :: start_frame where
  "sample_start =
     \<lparr>start_job_id = replicate 16 1, start_profile_id = replicate 16 2,
      start_profile_generation = 1, start_policy_digest = replicate 32 3,
      start_input_digest = replicate 32 4, start_remote_deadline_unix_ms = 1000,
      start_relay_deadline_unix_ms = 2000, start_result_retention_unix_ms = 3000,
      start_run_as_uid = 1000, start_max_output_bytes = 4096, start_program = ''id'',
      start_argv = [''-u''], start_env = [\<lparr>entry_name = ''LANG'', entry_value = ''C''\<rparr>],
      start_cwd = None, start_policy_json = [123, 125], start_receipt_token = replicate 32 5\<rparr>"

definition sample_hello :: envelope where
  "sample_hello =
     \<lparr>env_sequence = 0, env_frame = Hello
        \<lparr>hello_max_frame_payload = 131072, hello_feature_bits = 3, hello_effective_uid = 0\<rparr>\<rparr>"

definition sample_start_envelope :: envelope where
  "sample_start_envelope = \<lparr>env_sequence = 1, env_frame = Start sample_start\<rparr>"

lemma sample_start_valid: "start_valid sample_start" "wf_start sample_start"
  by (simp_all add: start_valid_def wf_start_def sample_start_def nonzero_bytes_def plain_text_def
      plain_entry_def entry_total_def MAX_PROGRAM_BYTES_def MAX_ARG_COUNT_def MAX_ARG_BYTES_def
      MAX_ARG_TOTAL_BYTES_def MAX_ENV_COUNT_def MAX_ENV_NAME_BYTES_def MAX_ENV_VALUE_BYTES_def
      MAX_ENV_TOTAL_BYTES_def MAX_OUTPUT_BYTES_def MAX_POLICY_BYTES_def as_bytes_def
      byte_of_char_def text_defs list_all_iff)

lemma sample_hello_encodes:
  "encode_payload (env_frame sample_hello) = Inr (be32 131072 @ be64 3 @ be32 0)"
  by (simp add: sample_hello_def hello_ok_def MAX_FRAME_PAYLOAD_def SUPPORTED_FEATURE_BITS_def
      FEATURE_CANCEL_def FEATURE_RECEIPT_QUERY_def)

lemma sample_encodes:
  "\<exists>bs. encode sample_hello = Inr bs" "\<exists>bs. encode sample_start_envelope = Inr bs"
  "wf_frame (env_frame sample_hello)" "wf_frame (env_frame sample_start_envelope)"
proof -
  show wf: "wf_frame (env_frame sample_hello)" "wf_frame (env_frame sample_start_envelope)"
    by (simp_all add: sample_hello_def sample_start_envelope_def sample_start_valid)
  show "\<exists>bs. encode sample_hello = Inr bs" "\<exists>bs. encode sample_start_envelope = Inr bs"
    using sample_hello_encodes sample_start_valid
    by (auto simp: encode_eq_Inr wf encode_start_eq_Inr sample_start_envelope_def)
qed

section \<open>Properties\<close>

text \<open>C10: decoding is the exact inverse of encoding. A byte string decodes to an envelope if
  and only if the envelope is well typed and encodes to exactly that byte string, so every frame
  round-trips, and no two byte strings decode to the same envelope: trailing bytes, reserved
  flags, non-canonical lengths and invalid fields are all rejected.\<close>

theorem remote_decode_iff_encode:
  "decode_exact bs = Inr e \<longleftrightarrow> wf_frame (env_frame e) \<and> encode e = Inr bs"
  by (rule decode_exact_eq_Inr)

text \<open>The size limits of the framing never reject a frame whose fields are valid: when the
  payload encodes, so does the envelope, its length is the header plus the payload, and the
  payload is within the limit of its kind and within 128 KiB.\<close>

theorem remote_encode_total:
  assumes "wf_frame f" and "encode_payload f = Inr p"
  shows "\<exists>bs. encode \<lparr>env_sequence = s, env_frame = f\<rparr> = Inr bs \<and>
    length bs = HEADER_BYTES + length p \<and> length p \<le> kind_limit (kind_of f) \<and>
    length p \<le> MAX_FRAME_PAYLOAD"
  using encode_payload_size [OF assms] kind_limit_le [of "kind_of f"] assms
  by (auto simp: encode_eq_Inr HEADER_BYTES_def)

theorem remote_encode_total_witness:
  "\<exists>bs. encode \<lparr>env_sequence = 7, env_frame = Start sample_start\<rparr> = Inr bs \<and>
     length bs = HEADER_BYTES + length (start_bytes sample_start)"
  using remote_encode_total [of "Start sample_start" "start_bytes sample_start" 7]
  by (auto simp: sample_start_valid encode_start_eq_Inr)

text \<open>C20: envelopes written one after another to a stream are read back in order, and the
  stream then ends cleanly, within one read more than there are envelopes.\<close>

theorem remote_stream_round_trip:
  assumes "list_all2 (\<lambda>e bs. encode e = Inr bs) es bss"
    and "list_all (\<lambda>e. wf_frame (env_frame e)) es"
  shows "read_all read_frame_from (Suc (length es)) (concat bss) = Some (Inr es)"
  by (rule remote_stream.read_all_written [OF assms]) simp

theorem remote_stream_round_trip_witness:
  "\<exists>a b. encode sample_hello = Inr a \<and> encode sample_start_envelope = Inr b \<and>
     read_all read_frame_from 3 (concat [a, b]) = Some (Inr [sample_hello, sample_start_envelope])"
proof -
  from sample_encodes obtain a b where ab: "encode sample_hello = Inr a"
      "encode sample_start_envelope = Inr b" by blast
  then have "list_all2 (\<lambda>e bs. encode e = Inr bs) [sample_hello, sample_start_envelope] [a, b]"
    by simp
  from remote_stream_round_trip [OF this] ab sample_encodes(3,4) show ?thesis
    by (simp add: numeral_3_eq_3 del: read_all.simps)
qed

text \<open>A frame cut short is never accepted: every proper prefix of an encoded frame is
  \<open>Truncated\<close> for the exact decoder, and every non-empty one is an unexpected end of file for
  the stream reader.\<close>

theorem remote_truncation_rejected:
  assumes "wf_frame (env_frame e)" and "encode e = Inr bs" and "k < length bs"
  shows "decode_exact (take k bs) = Inl Truncated \<and>
    read_frame_from (take k bs) = (if k = 0 then Inr None else Inl (Io UnexpectedEof))"
  using decode_exact_truncated [OF assms] read_frame_from_encoded(2) [OF assms(1,2) assms(3)]
  by (simp add: read_frame_from_def)

theorem remote_truncation_rejected_witness:
  "\<exists>bs. encode sample_hello = Inr bs \<and> decode_exact (take 19 bs) = Inl Truncated"
proof -
  from sample_encodes obtain bs where bs: "encode sample_hello = Inr bs" by blast
  moreover have "19 < length bs"
    using bs sample_hello_encodes sample_encodes(3) by (auto simp: encode_eq_Inr)
  ultimately show ?thesis
    using remote_truncation_rejected [OF sample_encodes(3), of bs 19] by blast
qed



end
