(* ===== verification/Remote_Session.thy ===== *)
theory Remote_Session
  imports Remote_Protocol
begin

text \<open>
  The two session validators of crates/serctl_remote_protocol/src/lib.rs: controller to helper and
  helper to controller.

  \<open>validate\<close> mutates its receiver and returns a result, so it is a function from a state and an
  envelope to the state afterwards and the result; the state is given on the error branches too.
  A session is a sequence of events, each of which has to be accepted: a received envelope, or the
  caller's \<open>authenticate_receipt\<close>. SHA-256 is a parameter.
\<close>

section \<open>Sequence numbers and offsets\<close>

definition validate_sequence :: "u64 \<Rightarrow> u64 \<Rightarrow> protocol_error + unit" where
  "validate_sequence expected actual =
     (if expected = actual then Inr () else Inl (SequenceMismatch expected actual))"

definition next_sequence :: "u64 \<Rightarrow> protocol_error + u64" where
  "next_sequence current = ok_or (checked_add current 1) (InvalidState ''sequence exhausted'')"

definition advance_output_offset :: "string \<Rightarrow> u64 \<Rightarrow> output_frame \<Rightarrow> protocol_error + u64" where
  "advance_output_offset error expected output =
     (if output_offset output \<noteq> expected then Inl (InvalidState error)
      else ok_or (checked_add expected (word_of_nat (length (output_data output))))
             (InvalidState ''output offset overflow''))"

section \<open>Controller to helper\<close>

datatype controller_phase = CPHello | CPReady | CPRunning | CPTerminal

record controller_session =
  cs_next_sequence :: u64
  cs_phase :: controller_phase
  cs_job_id :: "job_id option"

definition controller_default :: controller_session where
  "controller_default = \<lparr>cs_next_sequence = 0, cs_phase = CPHello, cs_job_id = None\<rparr>"

definition controller_transition ::
  "controller_session \<Rightarrow> frame \<Rightarrow> protocol_error + controller_session" where
  "controller_transition s frame =
     (let illegal = Inl (InvalidState ''illegal controller-to-helper frame transition'') in
      case frame of
        Hello hello \<Rightarrow>
          if cs_phase s = CPHello \<and> hello_effective_uid hello = 0
          then Inr (s\<lparr>cs_phase := CPReady\<rparr>) else illegal
      | Start start \<Rightarrow>
          if cs_phase s = CPReady
          then Inr (s\<lparr>cs_job_id := Some (start_job_id start), cs_phase := CPRunning\<rparr>) else illegal
      | QueryReceipt query \<Rightarrow>
          if cs_phase s = CPReady
          then Inr (s\<lparr>cs_job_id := Some (query_job_id query), cs_phase := CPTerminal\<rparr>) else illegal
      | Cancel cancel \<Rightarrow>
          if cs_phase s = CPRunning \<and> cs_job_id s = Some (cancel_job_id cancel)
          then Inr (s\<lparr>cs_phase := CPTerminal\<rparr>) else illegal
      | _ \<Rightarrow> illegal)"

definition controller_validate ::
  "controller_session \<Rightarrow> envelope \<Rightarrow> protocol_error + controller_session" where
  "controller_validate s envelope =
     and_then (validate_sequence (cs_next_sequence s) (env_sequence envelope)) (\<lambda>_.
     and_then (next_sequence (cs_next_sequence s)) (\<lambda>next.
     and_then (controller_transition s (env_frame envelope)) (\<lambda>s.
     Inr (s\<lparr>cs_next_sequence := next\<rparr>))))"

section \<open>Helper to controller\<close>

datatype helper_mode = JobMode u64 | ReceiptQueryMode

datatype helper_phase =
  HPHello | HPStreaming | HPReceiptAuthenticationPending | HPReceiptAuthenticated | HPTerminal

record authenticated_terminal =
  at_outcome :: exit_outcome
  at_completed_unix_ms :: u64

record helper_session =
  hs_next_sequence :: u64
  hs_phase :: helper_phase
  hs_mode :: helper_mode
  hs_job_id :: job_id
  hs_stdout_offset :: u64
  hs_stderr_offset :: u64
  hs_heartbeat_ordinal :: u64
  hs_heartbeat_elapsed_ms :: u64
  hs_pending_receipt_digest :: "digest32 option"
  hs_authenticated_terminal :: "authenticated_terminal option"

definition helper_new :: "job_id \<Rightarrow> helper_mode \<Rightarrow> helper_session" where
  "helper_new job_id mode =
     \<lparr>hs_next_sequence = 0, hs_phase = HPHello, hs_mode = mode, hs_job_id = job_id,
      hs_stdout_offset = 0, hs_stderr_offset = 0, hs_heartbeat_ordinal = 0,
      hs_heartbeat_elapsed_ms = 0, hs_pending_receipt_digest = None,
      hs_authenticated_terminal = None\<rparr>"

definition for_job :: "job_id \<Rightarrow> u64 \<Rightarrow> protocol_error + helper_session" where
  "for_job job_id max_output_bytes =
     (if max_output_bytes = 0 \<or> max_output_bytes > MAX_OUTPUT_BYTES
      then Inl (InvalidValue ''max_output_bytes'')
      else Inr (helper_new job_id (JobMode max_output_bytes)))"

definition for_receipt_query :: "job_id \<Rightarrow> helper_session" where
  "for_receipt_query job_id = helper_new job_id ReceiptQueryMode"

definition validate_job :: "helper_session \<Rightarrow> job_id \<Rightarrow> protocol_error + unit" where
  "validate_job s job_id =
     (if hs_job_id s = job_id then Inr () else Inl (InvalidState ''job identifier mismatch''))"

definition validate_output_budget :: "helper_session \<Rightarrow> protocol_error + unit" where
  "validate_output_budget s =
     (case hs_mode s of
        JobMode max_output_bytes \<Rightarrow>
          if saturating_add (hs_stdout_offset s) (hs_stderr_offset s) > max_output_bytes
          then Inl (InvalidState ''output budget exceeded'') else Inr ()
      | ReceiptQueryMode \<Rightarrow> Inl (InvalidState ''receipt query emitted output''))"

definition is_job_mode :: "helper_mode \<Rightarrow> bool" where
  "is_job_mode mode \<longleftrightarrow> (case mode of JobMode _ \<Rightarrow> True | ReceiptQueryMode \<Rightarrow> False)"

text \<open>\<open>lift_res s r k\<close> continues with the value of \<open>r\<close>, or returns its error with the state
  \<open>s\<close>.\<close>

definition lift_res ::
  "'s \<Rightarrow> 'e + 'a \<Rightarrow> ('a \<Rightarrow> 's \<times> ('e + 'b)) \<Rightarrow> 's \<times> ('e + 'b)" where
  "lift_res s r k = (case r of Inl e \<Rightarrow> (s, Inl e) | Inr x \<Rightarrow> k x)"

definition helper_transition ::
  "(bytes \<Rightarrow> digest32) \<Rightarrow> helper_session \<Rightarrow> frame \<Rightarrow> helper_session \<times> (protocol_error + unit)" where
  "helper_transition sha256 s frame =
     (let illegal = (s, Inl (InvalidState ''illegal helper-to-controller frame transition'')) in
      case frame of
        Hello hello \<Rightarrow>
          if hs_phase s = HPHello \<and> hello_effective_uid hello \<noteq> 0
          then if hs_mode s = ReceiptQueryMode \<and> hello_feature_bits hello AND FEATURE_RECEIPT_QUERY = 0
               then (s, Inl (InvalidState ''helper does not advertise receipt query support''))
               else (s\<lparr>hs_phase := HPStreaming\<rparr>, Inr ())
          else illegal
      | Stdout output \<Rightarrow>
          if hs_phase s = HPStreaming \<and> is_job_mode (hs_mode s)
          then lift_res s (validate_job s (output_job_id output)) (\<lambda>_.
               lift_res s (advance_output_offset ''stdout offset gap or replay''
                             (hs_stdout_offset s) output) (\<lambda>offset.
               (let s = s\<lparr>hs_stdout_offset := offset\<rparr> in (s, validate_output_budget s))))
          else illegal
      | Stderr output \<Rightarrow>
          if hs_phase s = HPStreaming \<and> is_job_mode (hs_mode s)
          then lift_res s (validate_job s (output_job_id output)) (\<lambda>_.
               lift_res s (advance_output_offset ''stderr offset gap or replay''
                             (hs_stderr_offset s) output) (\<lambda>offset.
               (let s = s\<lparr>hs_stderr_offset := offset\<rparr> in (s, validate_output_budget s))))
          else illegal
      | Heartbeat heartbeat \<Rightarrow>
          if hs_phase s = HPStreaming \<and> is_job_mode (hs_mode s)
          then lift_res s (validate_job s (heartbeat_job_id heartbeat)) (\<lambda>_.
               if heartbeat_ordinal heartbeat \<le> hs_heartbeat_ordinal s \<or>
                  heartbeat_elapsed_ms heartbeat < hs_heartbeat_elapsed_ms s \<or>
                  heartbeat_stdout_bytes heartbeat \<noteq> hs_stdout_offset s \<or>
                  heartbeat_stderr_bytes heartbeat \<noteq> hs_stderr_offset s
               then (s, Inl (InvalidState ''non-monotonic heartbeat''))
               else (s\<lparr>hs_heartbeat_ordinal := heartbeat_ordinal heartbeat,
                       hs_heartbeat_elapsed_ms := heartbeat_elapsed_ms heartbeat\<rparr>, Inr ()))
          else illegal
      | Receipt receipt \<Rightarrow>
          if hs_phase s = HPStreaming
          then lift_res s (validate_job s (receipt_job_id receipt)) (\<lambda>_.
               (s\<lparr>hs_pending_receipt_digest := Some (sha256 (receipt_bytes receipt)),
                  hs_phase := HPReceiptAuthenticationPending\<rparr>, Inr ()))
          else illegal
      | Error error \<Rightarrow>
          if hs_phase s = HPStreaming
          then lift_res s (case error_job_id error of
                             Some job_id \<Rightarrow> validate_job s job_id | None \<Rightarrow> Inr ()) (\<lambda>_.
               (s\<lparr>hs_phase := HPTerminal\<rparr>, Inr ()))
          else illegal
      | Exit exit \<Rightarrow>
          if hs_phase s = HPReceiptAuthenticated
          then lift_res s (validate_job s (exit_job_id exit)) (\<lambda>_.
               if hs_authenticated_terminal s \<noteq>
                  Some \<lparr>at_outcome = exit_outcome exit,
                        at_completed_unix_ms = exit_completed_unix_ms exit\<rparr>
               then (s, Inl (InvalidState ''Exit does not match authenticated receipt''))
               else (s\<lparr>hs_phase := HPTerminal\<rparr>, Inr ()))
          else illegal
      | _ \<Rightarrow> illegal)"

definition helper_validate ::
  "(bytes \<Rightarrow> digest32) \<Rightarrow> helper_session \<Rightarrow> envelope \<Rightarrow>
     helper_session \<times> (protocol_error + unit)" where
  "helper_validate sha256 s envelope =
     lift_res s (validate_sequence (hs_next_sequence s) (env_sequence envelope)) (\<lambda>_.
     lift_res s (next_sequence (hs_next_sequence s)) (\<lambda>next.
     case helper_transition sha256 s (env_frame envelope) of
       (s, Inl e) \<Rightarrow> (s, Inl e)
     | (s, Inr _) \<Rightarrow> (s\<lparr>hs_next_sequence := next\<rparr>, Inr ())))"

definition authenticate_receipt ::
  "(bytes \<Rightarrow> digest32) \<Rightarrow> helper_session \<Rightarrow> bytes \<Rightarrow> authenticated_terminal \<Rightarrow>
     protocol_error + helper_session" where
  "authenticate_receipt sha256 s bs terminal =
     (if hs_phase s \<noteq> HPReceiptAuthenticationPending
      then Inl (InvalidState ''no receipt is pending authentication'')
      else if hs_pending_receipt_digest s \<noteq> Some (sha256 bs)
      then Inl (InvalidState ''authenticated receipt bytes do not match pending frame'')
      else Inr (s\<lparr>hs_pending_receipt_digest := None, hs_authenticated_terminal := Some terminal,
                  hs_phase := HPReceiptAuthenticated\<rparr>))"

section \<open>Sessions\<close>

datatype helper_event = Received envelope | Authenticated bytes authenticated_terminal

fun helper_step ::
  "(bytes \<Rightarrow> digest32) \<Rightarrow> helper_session \<Rightarrow> helper_event \<Rightarrow> protocol_error + helper_session" where
  "helper_step sha256 s (Received envelope) =
     (case helper_validate sha256 s envelope of (s, Inl e) \<Rightarrow> Inl e | (s, Inr _) \<Rightarrow> Inr s)"
| "helper_step sha256 s (Authenticated bs terminal) = authenticate_receipt sha256 s bs terminal"

section \<open>Lemmas\<close>

lemma validate_sequence_eq_Inr [result_simps]: "validate_sequence a b = Inr u \<longleftrightarrow> a = b"
  by (cases u) (simp add: validate_sequence_def)

lemma next_sequence_eq_Inr [result_simps]:
  "next_sequence a = Inr b \<longleftrightarrow> checked_add a 1 = Some b"
  by (simp add: next_sequence_def result_simps)

lemma unat_next_sequence: "next_sequence a = Inr b \<Longrightarrow> unat b = Suc (unat a)"
  by (auto simp: next_sequence_eq_Inr dest: unat_checked_add)

lemma lift_res_eq_Inr:
  "lift_res s r k = (s', Inr y) \<longleftrightarrow> (\<exists>x. r = Inr x \<and> k x = (s', Inr y))"
  by (auto simp: lift_res_def split: sum.splits)

lemma validate_job_eq_Inr: "validate_job s j = Inr u \<longleftrightarrow> hs_job_id s = j"
  by (cases u) (simp add: validate_job_def)

lemma helper_validate_eq_Inr:
  "helper_validate h s e = (s', Inr u) \<longleftrightarrow>
     env_sequence e = hs_next_sequence s \<and>
     (\<exists>n t. next_sequence (hs_next_sequence s) = Inr n \<and>
        helper_transition h s (env_frame e) = (t, Inr ()) \<and> s' = t\<lparr>hs_next_sequence := n\<rparr>)"
proof (cases "helper_transition h s (env_frame e)")
  case (Pair t r)
  then show ?thesis
    by (cases r; cases u) (auto simp: helper_validate_def lift_res_eq_Inr validate_sequence_eq_Inr)
qed

lemma helper_step_Received:
  "helper_step h s (Received e) = Inr s' \<longleftrightarrow> helper_validate h s e = (s', Inr ())"
  by (auto split: prod.splits sum.splits)

lemma controller_validate_eq_Inr:
  "controller_validate s e = Inr s' \<longleftrightarrow>
     env_sequence e = cs_next_sequence s \<and>
     (\<exists>n t. next_sequence (cs_next_sequence s) = Inr n \<and>
        controller_transition s (env_frame e) = Inr t \<and> s' = t\<lparr>cs_next_sequence := n\<rparr>)"
  by (auto simp: controller_validate_def and_then_eq_Inr validate_sequence_eq_Inr)

subsection \<open>Accepted helper events\<close>

fun stdout_of :: "helper_event list \<Rightarrow> bytes" where
  "stdout_of [] = []"
| "stdout_of (Received e # evs) =
     (case env_frame e of Stdout f \<Rightarrow> output_data f | _ \<Rightarrow> []) @ stdout_of evs"
| "stdout_of (Authenticated _ _ # evs) = stdout_of evs"

fun stderr_of :: "helper_event list \<Rightarrow> bytes" where
  "stderr_of [] = []"
| "stderr_of (Received e # evs) =
     (case env_frame e of Stderr f \<Rightarrow> output_data f | _ \<Rightarrow> []) @ stderr_of evs"
| "stderr_of (Authenticated _ _ # evs) = stderr_of evs"

lemma output_of_append:
  "stdout_of (xs @ ys) = stdout_of xs @ stdout_of ys"
  "stderr_of (xs @ ys) = stderr_of xs @ stderr_of ys"
  by (induction xs rule: stdout_of.induct) auto

text \<open>The data of a frame is a vector, whose length fits \<open>usize\<close>.\<close>

fun sized_event :: "helper_event \<Rightarrow> bool" where
  "sized_event (Received e) \<longleftrightarrow>
     (case env_frame e of
        Stdout f \<Rightarrow> length (output_data f) < 2 ^ 64
      | Stderr f \<Rightarrow> length (output_data f) < 2 ^ 64
      | _ \<Rightarrow> True)"
| "sized_event (Authenticated _ _) \<longleftrightarrow> True"

lemma advance_output_offset_eq_Inr:
  "advance_output_offset m a f = Inr b \<longleftrightarrow>
     output_offset f = a \<and> checked_add a (word_of_nat (length (output_data f))) = Some b"
  by (auto simp: advance_output_offset_def result_simps)

lemma advance_unat:
  "advance_output_offset m a f = Inr b \<Longrightarrow> length (output_data f) < 2 ^ 64 \<Longrightarrow>
     unat b = unat a + length (output_data f)"
  by (auto simp: advance_output_offset_eq_Inr unat_of_nat dest: unat_checked_add)

lemma helper_step_eq_Inr:
  "helper_step h s ev = Inr s' \<longleftrightarrow>
     (case ev of
        Received e \<Rightarrow>
          env_sequence e = hs_next_sequence s \<and>
          (\<exists>n t. next_sequence (hs_next_sequence s) = Inr n \<and>
             helper_transition h s (env_frame e) = (t, Inr ()) \<and> s' = t\<lparr>hs_next_sequence := n\<rparr>)
      | Authenticated bs terminal \<Rightarrow> authenticate_receipt h s bs terminal = Inr s')"
  by (cases ev) (auto simp: helper_step_Received helper_validate_eq_Inr simp del: helper_step.simps(1))

lemmas transition_simps =
  helper_transition_def lift_res_eq_Inr validate_job_eq_Inr Let_def authenticate_receipt_def

lemma helper_step_fixed:
  "helper_step h s ev = Inr s' \<Longrightarrow> hs_job_id s' = hs_job_id s \<and> hs_mode s' = hs_mode s"
  by (auto simp: helper_step_eq_Inr transition_simps
      split: helper_event.splits frame.splits if_splits option.splits)

lemma helper_step_offsets:
  assumes "helper_step h s ev = Inr s'" "sized_event ev"
  shows "unat (hs_stdout_offset s') = unat (hs_stdout_offset s) + length (stdout_of [ev]) \<and>
    unat (hs_stderr_offset s') = unat (hs_stderr_offset s) + length (stderr_of [ev])"
  using assms
  by (auto simp: helper_step_eq_Inr transition_simps dest: advance_unat
      split: helper_event.splits frame.splits if_splits option.splits)

definition within_budget :: "helper_session \<Rightarrow> bool" where
  "within_budget s \<longleftrightarrow>
     (case hs_mode s of
        JobMode m \<Rightarrow> m \<le> MAX_OUTPUT_BYTES \<and>
          unat (hs_stdout_offset s) + unat (hs_stderr_offset s) \<le> unat m
      | ReceiptQueryMode \<Rightarrow> hs_stdout_offset s = 0 \<and> hs_stderr_offset s = 0)"

lemma saturated_budget:
  assumes "saturating_add a b \<le> m" and "m \<le> MAX_OUTPUT_BYTES"
  shows "unat a + unat b \<le> unat m"
proof (rule saturating_add_le [OF assms(1)])
  have "MAX_OUTPUT_BYTES < (- 1 :: u64)" by (simp add: MAX_OUTPUT_BYTES_def)
  with assms(2) show "m < - 1" by (rule le_less_trans)
qed

lemma helper_step_budget:
  assumes "within_budget s" "helper_step h s ev = Inr s'"
  shows "within_budget s'"
  using assms
  by (auto simp: within_budget_def helper_step_eq_Inr transition_simps validate_output_budget_def
      is_job_mode_def not_less intro: saturated_budget
      split: helper_event.splits frame.splits if_splits option.splits helper_mode.splits)

interpretation helper_session: message_validator "helper_step h" within_budget
  by unfold_locales (rule helper_step_budget)

interpretation helper_frames:
  sequenced_validator "\<lambda>s e. helper_step h s (Received e)" within_budget hs_next_sequence env_sequence
proof unfold_locales
  show "within_budget s \<Longrightarrow> helper_step h s (Received e) = Inr s' \<Longrightarrow> within_budget s'" for s e s'
    by (rule helper_step_budget)
next
  show "helper_step h s (Received e) = Inr s' \<Longrightarrow>
      env_sequence e = hs_next_sequence s \<and>
      unat (hs_next_sequence s') = Suc (unat (hs_next_sequence s))" for s e s'
    by (auto simp: helper_step_eq_Inr dest: unat_next_sequence simp del: helper_step.simps)
qed

lemma helper_run_offsets:
  assumes "run_steps (helper_step h) s evs = Inr s'" "list_all sized_event evs"
  shows "unat (hs_stdout_offset s') = unat (hs_stdout_offset s) + length (stdout_of evs) \<and>
    unat (hs_stderr_offset s') = unat (hs_stderr_offset s) + length (stderr_of evs)"
  using assms
proof (induction evs arbitrary: s' rule: rev_induct)
  case (snoc ev evs)
  then obtain t where t: "run_steps (helper_step h) s evs = Inr t" "helper_step h t ev = Inr s'"
    by (auto simp: run_steps_snoc)
  with snoc have "unat (hs_stdout_offset t) = unat (hs_stdout_offset s) + length (stdout_of evs) \<and>
      unat (hs_stderr_offset t) = unat (hs_stderr_offset s) + length (stderr_of evs)" by simp
  with helper_step_offsets [OF t(2)] snoc.prems(2) show ?case by (simp add: output_of_append)
qed simp

lemma helper_run_fixed:
  "run_steps (helper_step h) s evs = Inr s' \<Longrightarrow> hs_job_id s' = hs_job_id s \<and> hs_mode s' = hs_mode s"
proof (induction evs arbitrary: s)
  case (Cons ev evs)
  then obtain t where "helper_step h s ev = Inr t" "run_steps (helper_step h) t evs = Inr s'"
    by (auto simp: and_then_eq_Inr)
  with helper_step_fixed Cons.IH show ?case by metis
qed simp

text \<open>Which frame and which authentication a session must have seen in its last two phases.\<close>

lemma helper_step_phases:
  assumes "helper_step h s ev = Inr s'"
  shows "hs_phase s' = HPReceiptAuthenticationPending \<Longrightarrow>
      \<exists>e r. ev = Received e \<and> env_frame e = Receipt r \<and> receipt_job_id r = hs_job_id s \<and>
        hs_pending_receipt_digest s' = Some (h (receipt_bytes r))"
    and "hs_phase s' = HPReceiptAuthenticated \<Longrightarrow>
      \<exists>bs t. ev = Authenticated bs t \<and> hs_phase s = HPReceiptAuthenticationPending \<and>
        hs_pending_receipt_digest s = Some (h bs) \<and> hs_authenticated_terminal s' = Some t"
    and "hs_phase s \<noteq> HPTerminal"
  using assms
  by (auto simp: helper_step_eq_Inr transition_simps
      split: helper_event.splits frame.splits if_splits option.splits)

lemma helper_step_Exit:
  assumes "helper_step h s (Received e) = Inr s'" "env_frame e = Exit x"
  shows "hs_phase s = HPReceiptAuthenticated \<and> hs_phase s' = HPTerminal \<and>
    exit_job_id x = hs_job_id s \<and>
    hs_authenticated_terminal s =
      Some \<lparr>at_outcome = exit_outcome x, at_completed_unix_ms = exit_completed_unix_ms x\<rparr>"
  using assms by (auto simp: helper_step_eq_Inr transition_simps simp del: helper_step.simps
      split: if_splits)

definition receipt_seen ::
  "(bytes \<Rightarrow> digest32) \<Rightarrow> job_id \<Rightarrow> helper_event \<Rightarrow> bytes \<Rightarrow> bool" where
  "receipt_seen h j ev bs \<longleftrightarrow>
     (\<exists>e r. ev = Received e \<and> env_frame e = Receipt r \<and> receipt_job_id r = j \<and>
        h (receipt_bytes r) = h bs)"

lemma run_last:
  assumes "run_steps step s evs = Inr s'" "s' \<noteq> s"
  obtains pre ev t where "evs = pre @ [ev]" "run_steps step s pre = Inr t" "step t ev = Inr s'"
  using assms by (cases evs rule: rev_cases) (auto simp: run_steps_snoc)

lemma helper_run_authenticated:
  assumes run: "run_steps (helper_step h) s evs = Inr s'"
    and fresh: "hs_phase s = HPHello" and phase: "hs_phase s' = HPReceiptAuthenticated"
  shows "\<exists>pre ev bs t. evs = pre @ [ev, Authenticated bs t] \<and> receipt_seen h (hs_job_id s) ev bs \<and>
    hs_authenticated_terminal s' = Some t"
proof -
  from fresh phase have "s' \<noteq> s" by auto
  then obtain pre ev u where pre: "evs = pre @ [ev]" "run_steps (helper_step h) s pre = Inr u"
      "helper_step h u ev = Inr s'" by (rule run_last [OF run])
  from helper_step_phases(2) [OF pre(3) phase] obtain bs t where
    ev: "ev = Authenticated bs t" "hs_phase u = HPReceiptAuthenticationPending"
      "hs_pending_receipt_digest u = Some (h bs)" "hs_authenticated_terminal s' = Some t" by blast
  from fresh ev(2) have "u \<noteq> s" by auto
  then obtain pre' ev' v where pre': "pre = pre' @ [ev']" "run_steps (helper_step h) s pre' = Inr v"
      "helper_step h v ev' = Inr u" by (rule run_last [OF pre(2)])
  from helper_step_phases(1) [OF pre'(3) ev(2)] ev(3) helper_run_fixed [OF pre'(2)]
  have "receipt_seen h (hs_job_id s) ev' bs" by (auto simp: receipt_seen_def)
  with pre(1) pre'(1) ev(1,4) show ?thesis by auto
qed

subsection \<open>Controller sessions\<close>

definition controller_script :: "frame list \<Rightarrow> bool" where
  "controller_script fs \<longleftrightarrow>
     fs = [] \<or>
     (\<exists>h rest. fs = Hello h # rest \<and> hello_effective_uid h = 0 \<and>
        (rest = [] \<or> (\<exists>q. rest = [QueryReceipt q]) \<or> (\<exists>s. rest = [Start s]) \<or>
         (\<exists>s c. rest = [Start s, Cancel c] \<and> cancel_job_id c = start_job_id s)))"

definition controller_phase_ok :: "controller_session \<Rightarrow> bool" where
  "controller_phase_ok s \<longleftrightarrow> (cs_phase s = CPRunning \<longrightarrow> cs_job_id s \<noteq> None)"

interpretation controller_session:
  sequenced_validator controller_validate controller_phase_ok cs_next_sequence env_sequence
proof unfold_locales
  show "controller_phase_ok s \<Longrightarrow> controller_validate s e = Inr s' \<Longrightarrow> controller_phase_ok s'" for s e s'
    by (auto simp: controller_phase_ok_def controller_validate_eq_Inr controller_transition_def
        Let_def split: frame.splits if_splits)
next
  show "controller_validate s e = Inr s' \<Longrightarrow>
      env_sequence e = cs_next_sequence s \<and>
      unat (cs_next_sequence s') = Suc (unat (cs_next_sequence s))" for s e s'
    by (auto simp: controller_validate_eq_Inr controller_transition_def Let_def
        dest: unat_next_sequence split: frame.splits if_splits)
qed

lemma controller_terminal_step: "cs_phase s = CPTerminal \<Longrightarrow> controller_validate s e \<noteq> Inr t"
  by (auto simp: controller_validate_eq_Inr controller_transition_def Let_def split: frame.splits)

lemma controller_terminal:
  "cs_phase s = CPTerminal \<Longrightarrow> run_steps controller_validate s es = Inr s' \<longleftrightarrow> es = [] \<and> s' = s"
  by (cases es) (auto simp: and_then_eq_Inr controller_terminal_step)

lemma controller_steps:
  "controller_validate \<lparr>cs_next_sequence = 0, cs_phase = CPHello, cs_job_id = None\<rparr> e = Inr s \<longleftrightarrow>
     env_sequence e = 0 \<and> (\<exists>h. env_frame e = Hello h \<and> hello_effective_uid h = 0) \<and>
     s = \<lparr>cs_next_sequence = 1, cs_phase = CPReady, cs_job_id = None\<rparr>"
  "controller_validate \<lparr>cs_next_sequence = 1, cs_phase = CPReady, cs_job_id = None\<rparr> e = Inr s \<longleftrightarrow>
     env_sequence e = 1 \<and>
     ((\<exists>f. env_frame e = Start f \<and>
         s = \<lparr>cs_next_sequence = 2, cs_phase = CPRunning, cs_job_id = Some (start_job_id f)\<rparr>) \<or>
      (\<exists>q. env_frame e = QueryReceipt q \<and>
         s = \<lparr>cs_next_sequence = 2, cs_phase = CPTerminal, cs_job_id = Some (query_job_id q)\<rparr>))"
  "controller_validate \<lparr>cs_next_sequence = 2, cs_phase = CPRunning, cs_job_id = Some j\<rparr> e = Inr s \<longleftrightarrow>
     env_sequence e = 2 \<and>
     (\<exists>c. env_frame e = Cancel c \<and> cancel_job_id c = j \<and>
        s = \<lparr>cs_next_sequence = 3, cs_phase = CPTerminal, cs_job_id = Some j\<rparr>)"
  by (cases "env_frame e"; auto simp: controller_validate_eq_Inr controller_transition_def Let_def
      next_sequence_def checked_add_def)+

lemma controller_language:
  "(\<exists>s. run_steps controller_validate controller_default es = Inr s) \<longleftrightarrow>
     controller_script (map env_frame es) \<and>
     map env_sequence es = map word_of_nat [0 ..< length es]"
proof -
  consider "es = []" | e1 where "es = [e1]" | e1 e2 where "es = [e1, e2]"
    | e1 e2 e3 es3 where "es = e1 # e2 # e3 # es3"
    by (metis list.exhaust)
  then show ?thesis
    by cases (auto simp: controller_script_def controller_default_def and_then_eq_Inr
        controller_steps controller_terminal controller_terminal_step)
qed

subsection \<open>Numbering and rejections\<close>

fun received :: "helper_event list \<Rightarrow> envelope list" where
  "received [] = []"
| "received (Received e # evs) = e # received evs"
| "received (Authenticated _ _ # evs) = received evs"

lemma received_append: "received (xs @ ys) = received xs @ received ys"
  by (induction xs rule: received.induct) auto

lemma authenticate_sequence:
  "authenticate_receipt h s bs t = Inr s' \<Longrightarrow> hs_next_sequence s' = hs_next_sequence s"
  by (auto simp: authenticate_receipt_def split: if_splits)

lemma helper_run_sequence:
  assumes "run_steps (helper_step h) s evs = Inr s'"
  shows "unat (hs_next_sequence s') = unat (hs_next_sequence s) + length (received evs) \<and>
    map (unat \<circ> env_sequence) (received evs) = [unat (hs_next_sequence s) ..< unat (hs_next_sequence s')]"
  using assms
proof (induction evs arbitrary: s' rule: rev_induct)
  case (snoc ev evs)
  then obtain t where t: "run_steps (helper_step h) s evs = Inr t" "helper_step h t ev = Inr s'"
    by (auto simp: run_steps_snoc)
  note IH = snoc.IH [OF t(1)]
  show ?case
  proof (cases ev)
    case (Received e)
    with helper_frames.step_sequence [of h t e s'] t(2) IH show ?thesis
      by (simp add: received_append)
  next
    case (Authenticated bs x)
    with t(2) IH show ?thesis by (auto simp: received_append dest: authenticate_sequence)
  qed
qed simp

lemma helper_validate_rejection:
  assumes "helper_validate h s e = (s', Inl err)"
  shows "s' = s \<or> err = InvalidState ''output budget exceeded'' \<and>
    (\<exists>x. s' = s\<lparr>hs_stdout_offset := x\<rparr> \<or> s' = s\<lparr>hs_stderr_offset := x\<rparr>)"
  using assms
  by (auto simp: helper_validate_def helper_transition_def lift_res_def Let_def
      validate_output_budget_def is_job_mode_def
      split: sum.splits prod.splits frame.splits if_splits option.splits helper_mode.splits)

subsection \<open>A sample session\<close>

definition sample_job :: job_id where "sample_job = replicate 16 1"

definition sample_terminal :: authenticated_terminal where
  "sample_terminal = \<lparr>at_outcome = Exited 0, at_completed_unix_ms = 9\<rparr>"

definition sample_events :: "helper_event list" where
  "sample_events =
     [Received \<lparr>env_sequence = 0, env_frame = Hello \<lparr>hello_max_frame_payload = 131072,
        hello_feature_bits = 3, hello_effective_uid = 1000\<rparr>\<rparr>,
      Received \<lparr>env_sequence = 1, env_frame = Stdout \<lparr>output_job_id = sample_job,
        output_offset = 0, output_data = [104, 105]\<rparr>\<rparr>,
      Received \<lparr>env_sequence = 2, env_frame = Receipt \<lparr>receipt_job_id = sample_job,
        receipt_bytes = [7]\<rparr>\<rparr>,
      Authenticated [7] sample_terminal]"

definition sample_exit :: envelope where
  "sample_exit = \<lparr>env_sequence = 3, env_frame = Exit \<lparr>exit_job_id = sample_job,
     exit_outcome = Exited 0, exit_completed_unix_ms = 9\<rparr>\<rparr>"

lemma sample_run:
  "for_job sample_job 4096 = Inr (helper_new sample_job (JobMode 4096))"
  "\<exists>s. run_steps (helper_step (\<lambda>b. b)) (helper_new sample_job (JobMode 4096))
     (sample_events @ [Received sample_exit]) = Inr s"
  by (simp_all add: for_job_def MAX_OUTPUT_BYTES_def helper_new_def sample_events_def sample_exit_def
      sample_terminal_def helper_validate_def lift_res_def validate_sequence_def next_sequence_def
      checked_add_def helper_transition_def validate_job_def advance_output_offset_def Let_def
      validate_output_budget_def saturating_add_def is_job_mode_def authenticate_receipt_def)

lemma sample_sized: "list_all sized_event sample_events"
  by (simp add: sample_events_def)

section \<open>Properties\<close>

text \<open>C22: the controller validator accepts exactly the prefixes of two scripts, numbered from
  zero: a hello with no user id, then a start and optionally one cancellation of that very job, or
  a hello and a receipt query. Nothing can follow a cancellation or a query.\<close>

theorem controller_session_language:
  "(\<exists>s. run_steps controller_validate controller_default es = Inr s) \<longleftrightarrow>
     controller_script (map env_frame es) \<and>
     map env_sequence es = map word_of_nat [0 ..< length es]"
  by (rule controller_language)

text \<open>C14: output accounting. In a session that accepts a sequence of events, the recorded
  offsets are exactly the number of bytes delivered on each stream, each output frame starts where
  the bytes before it end, and the two streams together stay within the budget of the job.\<close>

theorem helper_output_accounted:
  assumes "for_job j m = Inr s0" and "run_steps (helper_step h) s0 evs = Inr s"
    and "list_all sized_event evs"
  shows "unat (hs_stdout_offset s) = length (stdout_of evs) \<and>
    unat (hs_stderr_offset s) = length (stderr_of evs) \<and>
    length (stdout_of evs) + length (stderr_of evs) \<le> unat m \<and>
    (\<forall>pre e post f. evs = pre @ Received e # post \<and> env_frame e = Stdout f \<longrightarrow>
       output_job_id f = j \<and> unat (output_offset f) = length (stdout_of pre)) \<and>
    (\<forall>pre e post f. evs = pre @ Received e # post \<and> env_frame e = Stderr f \<longrightarrow>
       output_job_id f = j \<and> unat (output_offset f) = length (stderr_of pre))"
proof -
  from assms(1) have s0: "s0 = helper_new j (JobMode m)" and m: "m \<le> MAX_OUTPUT_BYTES"
    by (auto simp: for_job_def split: if_splits)
  then have budget: "within_budget s0" by (simp add: within_budget_def helper_new_def)
  have offs: "unat (hs_stdout_offset t) = length (stdout_of pre)"
    "unat (hs_stderr_offset t) = length (stderr_of pre)" "hs_job_id t = j"
    if "run_steps (helper_step h) s0 pre = Inr t" "list_all sized_event pre" for t pre
    using helper_run_offsets [OF that] helper_run_fixed [OF that(1)] s0 by (simp_all add: helper_new_def)
  have "hs_mode s = JobMode m" using helper_run_fixed [OF assms(2)] s0 by (simp add: helper_new_def)
  with helper_session.inv_run [OF budget assms(2)]
  have sum: "unat (hs_stdout_offset s) + unat (hs_stderr_offset s) \<le> unat m"
    by (simp add: within_budget_def)
  have step: "\<exists>t t'. run_steps (helper_step h) s0 pre = Inr t \<and> list_all sized_event pre \<and>
      helper_step h t ev = Inr t'" if "evs = pre @ ev # post" for pre ev post
    using assms(2,3) that by (auto simp: run_steps_append and_then_eq_Inr)
  have frame: "output_job_id f = hs_job_id t \<and> output_offset f = hs_stdout_offset t"
    if "helper_step h t (Received e) = Inr t'" "env_frame e = Stdout f" for t t' e f
    using that by (auto simp: helper_step_eq_Inr transition_simps advance_output_offset_eq_Inr
        simp del: helper_step.simps split: if_splits)
  have frame': "output_job_id f = hs_job_id t \<and> output_offset f = hs_stderr_offset t"
    if "helper_step h t (Received e) = Inr t'" "env_frame e = Stderr f" for t t' e f
    using that by (auto simp: helper_step_eq_Inr transition_simps advance_output_offset_eq_Inr
        simp del: helper_step.simps split: if_splits)
  show ?thesis
    using offs [OF assms(2,3)] sum step frame frame' offs by metis
qed

theorem helper_output_accounted_witness:
  "\<exists>s. run_steps (helper_step (\<lambda>b. b)) (helper_new sample_job (JobMode 4096)) sample_events = Inr s \<and>
     unat (hs_stdout_offset s) = 2"
proof -
  from sample_run(2) obtain s where
    s: "run_steps (helper_step (\<lambda>b. b)) (helper_new sample_job (JobMode 4096)) sample_events = Inr s"
    unfolding run_steps_append and_then_eq_Inr by blast
  moreover have "length (stdout_of sample_events) = 2" by (simp add: sample_events_def)
  ultimately show ?thesis
    using helper_output_accounted [OF sample_run(1) s sample_sized] by metis
qed

text \<open>C11: no exit without an authenticated receipt. If an exit frame is accepted, the two events
  before it were a receipt frame of the same job and the caller's authentication of bytes with the
  same digest, with exactly the outcome and completion time that the exit frame reports, and the
  session is over: no further event is accepted.\<close>

theorem helper_exit_authenticated:
  assumes "s0 = helper_new j mode"
    and "run_steps (helper_step h) s0 (evs @ [Received e]) = Inr s" and "env_frame e = Exit x"
  shows "\<exists>pre ev bs. evs = pre @ [ev, Authenticated bs
        \<lparr>at_outcome = exit_outcome x, at_completed_unix_ms = exit_completed_unix_ms x\<rparr>] \<and>
      receipt_seen h j ev bs \<and> exit_job_id x = j \<and> (\<forall>ev'. \<exists>err. helper_step h s ev' = Inl err)"
proof -
  from assms(2) obtain t where t: "run_steps (helper_step h) s0 evs = Inr t"
      "helper_step h t (Received e) = Inr s" unfolding run_steps_snoc by blast
  note x = helper_step_Exit [OF t(2) assms(3)]
  from assms(1) have fresh: "hs_phase s0 = HPHello" "hs_job_id s0 = j" by (simp_all add: helper_new_def)
  from helper_run_authenticated [OF t(1) fresh(1)] x obtain pre ev bs u where
    "evs = pre @ [ev, Authenticated bs u]" "receipt_seen h j ev bs"
    "hs_authenticated_terminal t = Some u" unfolding fresh(2) by blast
  moreover have "exit_job_id x = j" using x helper_run_fixed [OF t(1)] fresh(2) by simp
  moreover have "\<exists>err. helper_step h s ev' = Inl err" for ev'
    using helper_step_phases(3) [of h s ev'] x by (cases "helper_step h s ev'") auto
  ultimately show ?thesis using x by auto
qed

theorem helper_exit_authenticated_witness:
  "\<exists>pre ev bs. sample_events = pre @ [ev, Authenticated bs sample_terminal] \<and>
     receipt_seen (\<lambda>b. b) sample_job ev bs"
proof -
  have "env_frame sample_exit = Exit \<lparr>exit_job_id = sample_job, exit_outcome = Exited 0,
      exit_completed_unix_ms = 9\<rparr>" by (simp add: sample_exit_def)
  with sample_run(2) helper_exit_authenticated [OF refl, of "\<lambda>b. b" sample_job "JobMode 4096"
      sample_events sample_exit]
  show ?thesis unfolding sample_terminal_def by fastforce
qed

text \<open>The frames a helper session accepts are numbered consecutively from zero, however
  authentications are interleaved with them, and the counter never wraps.\<close>

theorem helper_frames_numbered:
  assumes "run_steps (helper_step h) (helper_new j mode) evs = Inr s"
  shows "map (unat \<circ> env_sequence) (received evs) = [0 ..< length (received evs)] \<and>
    unat (hs_next_sequence s) = length (received evs)"
  using helper_run_sequence [OF assms] by (simp add: helper_new_def)

theorem helper_frames_numbered_witness:
  "map (unat \<circ> env_sequence) (received sample_events) = [0 ..< length (received sample_events)]"
proof -
  from sample_run(2) obtain s where
    "run_steps (helper_step (\<lambda>b. b)) (helper_new sample_job (JobMode 4096)) sample_events = Inr s"
    unfolding run_steps_append and_then_eq_Inr by blast
  from helper_frames_numbered [OF this] show ?thesis by blast
qed



end
