(* ===== verification/Jobs.thy ===== *)
theory Jobs
  imports Remote_Protocol
begin

text \<open>
  The jobs crate (crates/serctl_jobs/src/lib.rs): the state machine of a job record, authenticated
  receipts, reconciliation after a crash, the journal format, and the store of protected files.

  An \<open>anyhow\<close> error is its message. The hash, the message authentication code, hexadecimal and
  JSON are other crates and enter as the fields of \<open>jobs_ext\<close>. Secrets are byte lists;
  constant-time comparison is equality.
\<close>

section \<open>Data\<close>

definition JOB_SCHEMA_VERSION :: u16 where "JOB_SCHEMA_VERSION = 1"
definition RECEIPT_VERSION :: u16 where "RECEIPT_VERSION = 1"
definition MAX_JOURNAL_BYTES :: nat where "MAX_JOURNAL_BYTES = 16 * 1024"
definition RECEIPT_BYTES :: nat where
  "RECEIPT_BYTES = 4 + 2 + 16 + 16 + 8 + 32 + 32 + 4 + (8 * 4) + 32 + 32 + 1 + 4 + 8 + 32 + 32"
definition MAX_RELAY_WINDOW_MS :: u64 where "MAX_RELAY_WINDOW_MS = 40 * 60 * 1000"
definition MAX_RESULT_RETENTION_MS :: u64 where "MAX_RESULT_RETENTION_MS = 24 * 60 * 60 * 1000"
definition RECEIPT_MAGIC :: bytes where "RECEIPT_MAGIC = as_bytes ''SRRC''"
definition TOKEN_HASH_DOMAIN :: bytes where
  "TOKEN_HASH_DOMAIN = as_bytes ''serctl-job-token-v1'' @ [0]"
definition RECEIPT_MAC_DOMAIN :: bytes where
  "RECEIPT_MAC_DOMAIN = as_bytes ''serctl-job-receipt-v1'' @ [0]"

datatype job_stage =
  Submitted | Running | Cancelling | StageUnknown | Completed | Failed | StageCancelled

fun is_terminal :: "job_stage \<Rightarrow> bool" where
  "is_terminal Completed = True"
| "is_terminal Failed = True"
| "is_terminal StageCancelled = True"
| "is_terminal _ = False"

record job_deadlines =
  jd_remote_unix_ms :: u64
  jd_relay_unix_ms :: u64
  jd_result_retention_unix_ms :: u64

record job_identity =
  ji_job_id :: job_id
  ji_profile_id :: profile_id
  ji_profile_generation :: u64
  ji_policy_digest :: digest32
  ji_input_digest :: digest32

record job_record =
  jr_identity :: job_identity
  jr_deadlines :: job_deadlines
  jr_run_as_uid :: u32
  jr_stage :: job_stage
  jr_heartbeat_ordinal :: u64
  jr_elapsed_ms :: u64
  jr_stdout_bytes :: u64
  jr_stderr_bytes :: u64
  jr_max_output_bytes :: u64
  jr_updated_unix_ms :: u64

datatype receipt_outcome = ReceiptExited i32 | ReceiptCancelled | ReceiptDeadlineExceeded

record receipt_body =
  rb_identity :: job_identity
  rb_run_as_uid :: u32
  rb_deadlines :: job_deadlines
  rb_max_output_bytes :: u64
  rb_stdout_digest :: digest32
  rb_stderr_digest :: digest32
  rb_outcome :: receipt_outcome
  rb_completed_unix_ms :: u64

record authenticated_receipt =
  ar_body :: receipt_body
  ar_token_hash :: bytes
  ar_mac :: bytes

record disk_job_record =
  dj_schema_version :: u16
  dj_job_id :: string
  dj_profile_id :: string
  dj_profile_generation :: u64
  dj_policy_digest :: string
  dj_input_digest :: string
  dj_remote_deadline_unix_ms :: u64
  dj_relay_deadline_unix_ms :: u64
  dj_result_retention_unix_ms :: u64
  dj_run_as_uid :: u32
  dj_stage :: job_stage
  dj_heartbeat_ordinal :: u64
  dj_elapsed_ms :: u64
  dj_stdout_bytes :: u64
  dj_stderr_bytes :: u64
  dj_max_output_bytes :: u64
  dj_updated_unix_ms :: u64

record jobs_ext =
  jobs_sha256 :: "bytes \<Rightarrow> bytes"
  jobs_hmac :: "bytes \<Rightarrow> bytes \<Rightarrow> bytes option"
  jobs_hex_encode :: "bytes \<Rightarrow> string"
  jobs_hex_decode :: "string \<Rightarrow> bytes option"
  jobs_to_vec :: "disk_job_record \<Rightarrow> bytes option"
  jobs_from_slice :: "bytes \<Rightarrow> disk_job_record option"

section \<open>Job records\<close>

definition validate_at :: "job_deadlines \<Rightarrow> u64 \<Rightarrow> unit res" where
  "validate_at d now_unix_ms =
     ensure (now_unix_ms < jd_remote_unix_ms d) ''remote deadline must be in the future'' (
     ensure (jd_remote_unix_ms d \<le> jd_relay_unix_ms d) ''relay deadline precedes remote deadline'' (
     ensure (jd_relay_unix_ms d \<le> jd_result_retention_unix_ms d)
       ''result retention precedes relay deadline'' (
     ensure (saturating_sub (jd_relay_unix_ms d) now_unix_ms \<le> MAX_RELAY_WINDOW_MS)
       ''relay deadline exceeds the 40-minute grant window'' (
     ensure (saturating_sub (jd_result_retention_unix_ms d) now_unix_ms \<le> MAX_RESULT_RETENTION_MS)
       ''result retention exceeds the policy ceiling'' (
     Inr ())))))"

definition validate_identity :: "job_identity \<Rightarrow> unit res" where
  "validate_identity i =
     ensure (list_ex (\<lambda>byte. byte \<noteq> 0) (ji_job_id i)) ''job identifier must be non-zero'' (
     ensure (list_ex (\<lambda>byte. byte \<noteq> 0) (ji_profile_id i)) ''profile identifier must be non-zero'' (
     ensure (ji_profile_generation i > 0) ''profile generation must be non-zero'' (
     ensure (list_ex (\<lambda>byte. byte \<noteq> 0) (ji_policy_digest i)) ''policy digest must be non-zero'' (
     ensure (list_ex (\<lambda>byte. byte \<noteq> 0) (ji_input_digest i)) ''input digest must be non-zero'' (
     Inr ())))))"

definition submitted ::
  "job_identity \<Rightarrow> job_deadlines \<Rightarrow> u32 \<Rightarrow> u64 \<Rightarrow> u64 \<Rightarrow> job_record res" where
  "submitted identity deadlines run_as_uid max_output_bytes now_unix_ms =
     and_then (validate_identity identity) (\<lambda>_.
     and_then (validate_at deadlines now_unix_ms) (\<lambda>_.
     ensure (run_as_uid \<noteq> 0) ''execution UID must be non-zero'' (
     ensure (max_output_bytes > 0) ''output budget must be non-zero'' (
     Inr \<lparr>jr_identity = identity, jr_deadlines = deadlines, jr_run_as_uid = run_as_uid,
          jr_stage = Submitted, jr_heartbeat_ordinal = 0, jr_elapsed_ms = 0, jr_stdout_bytes = 0,
          jr_stderr_bytes = 0, jr_max_output_bytes = max_output_bytes,
          jr_updated_unix_ms = now_unix_ms\<rparr>))))"

definition mark_running :: "job_record \<Rightarrow> u64 \<Rightarrow> job_record res" where
  "mark_running r now_unix_ms =
     ensure (jr_stage r = Submitted) ''job can enter running only from submitted'' (
     ensure (now_unix_ms \<ge> jr_updated_unix_ms r) ''job clock moved backwards'' (
     ensure (now_unix_ms < jd_remote_unix_ms (jr_deadlines r)) ''remote deadline already elapsed'' (
     Inr (r\<lparr>jr_stage := Running, jr_updated_unix_ms := now_unix_ms\<rparr>))))"

definition observe_heartbeat :: "job_record \<Rightarrow> heartbeat_frame \<Rightarrow> u64 \<Rightarrow> job_record res" where
  "observe_heartbeat r heartbeat now_unix_ms =
     ensure (jr_stage r = Running \<or> jr_stage r = Cancelling)
       ''heartbeat is invalid in the current stage'' (
     ensure (heartbeat_job_id heartbeat = ji_job_id (jr_identity r)) ''heartbeat job mismatch'' (
     ensure (heartbeat_ordinal heartbeat > jr_heartbeat_ordinal r)
       ''heartbeat replay or reordering'' (
     ensure (heartbeat_elapsed_ms heartbeat \<ge> jr_elapsed_ms r) ''elapsed time regressed'' (
     ensure (heartbeat_stdout_bytes heartbeat \<ge> jr_stdout_bytes r \<and>
             heartbeat_stderr_bytes heartbeat \<ge> jr_stderr_bytes r) ''output counters regressed'' (
     ensure (saturating_add (heartbeat_stdout_bytes heartbeat) (heartbeat_stderr_bytes heartbeat)
             \<le> jr_max_output_bytes r) ''output budget exceeded'' (
     ensure (now_unix_ms \<ge> jr_updated_unix_ms r) ''job clock moved backwards'' (
     Inr (r\<lparr>jr_heartbeat_ordinal := heartbeat_ordinal heartbeat,
            jr_elapsed_ms := heartbeat_elapsed_ms heartbeat,
            jr_stdout_bytes := heartbeat_stdout_bytes heartbeat,
            jr_stderr_bytes := heartbeat_stderr_bytes heartbeat,
            jr_updated_unix_ms := now_unix_ms\<rparr>))))))))"

definition request_cancel :: "job_record \<Rightarrow> u64 \<Rightarrow> job_record res" where
  "request_cancel r now_unix_ms =
     ensure (jr_stage r = Running) ''job is not cancellable'' (
     ensure (now_unix_ms \<ge> jr_updated_unix_ms r) ''job clock moved backwards'' (
     Inr (r\<lparr>jr_stage := Cancelling, jr_updated_unix_ms := now_unix_ms\<rparr>)))"

definition mark_unknown :: "job_record \<Rightarrow> u64 \<Rightarrow> job_record res" where
  "mark_unknown r now_unix_ms =
     ensure (\<not> is_terminal (jr_stage r)) ''terminal jobs cannot become unknown'' (
     ensure (now_unix_ms \<ge> jr_updated_unix_ms r) ''job clock moved backwards'' (
     Inr (r\<lparr>jr_stage := StageUnknown, jr_updated_unix_ms := now_unix_ms\<rparr>)))"

section \<open>Receipts\<close>

fun put_receipt_outcome :: "receipt_outcome \<Rightarrow> bytes" where
  "put_receipt_outcome (ReceiptExited code) = [0] @ be32 code"
| "put_receipt_outcome ReceiptCancelled = [1] @ be32 0"
| "put_receipt_outcome ReceiptDeadlineExceeded = [2] @ be32 0"

definition canonical_receipt_body :: "receipt_body \<Rightarrow> bytes" where
  "canonical_receipt_body body =
     RECEIPT_MAGIC @ be16 RECEIPT_VERSION @ ji_job_id (rb_identity body) @
     ji_profile_id (rb_identity body) @ be64 (ji_profile_generation (rb_identity body)) @
     ji_policy_digest (rb_identity body) @ ji_input_digest (rb_identity body) @
     be32 (rb_run_as_uid body) @ be64 (jd_remote_unix_ms (rb_deadlines body)) @
     be64 (jd_relay_unix_ms (rb_deadlines body)) @
     be64 (jd_result_retention_unix_ms (rb_deadlines body)) @
     be64 (rb_max_output_bytes body) @ rb_stdout_digest body @ rb_stderr_digest body @
     put_receipt_outcome (rb_outcome body) @ be64 (rb_completed_unix_ms body)"

definition hash_token :: "jobs_ext \<Rightarrow> secret32 \<Rightarrow> bytes" where
  "hash_token X token = jobs_sha256 X (TOKEN_HASH_DOMAIN @ token)"

definition receipt_mac :: "jobs_ext \<Rightarrow> secret32 \<Rightarrow> bytes \<Rightarrow> bytes \<Rightarrow> bytes res" where
  "receipt_mac X token body token_hash =
     ok_or (jobs_hmac X token (RECEIPT_MAC_DOMAIN @ body @ token_hash)) ''initialize receipt HMAC''"

definition issue :: "jobs_ext \<Rightarrow> receipt_body \<Rightarrow> secret32 \<Rightarrow> authenticated_receipt res" where
  "issue X body token =
     and_then (validate_identity (rb_identity body)) (\<lambda>_.
     ensure (rb_run_as_uid body \<noteq> 0) ''execution UID must be non-zero'' (
     ensure (jd_remote_unix_ms (rb_deadlines body) \<le> jd_relay_unix_ms (rb_deadlines body) \<and>
             jd_relay_unix_ms (rb_deadlines body) \<le> jd_result_retention_unix_ms (rb_deadlines body))
       ''receipt deadline ordering is invalid'' (
     ensure (rb_max_output_bytes body > 0) ''receipt output budget must be non-zero'' (
     ensure (rb_completed_unix_ms body > 0) ''completion time must be non-zero'' (
     let token_hash = hash_token X token in
     and_then (receipt_mac X token (canonical_receipt_body body) token_hash) (\<lambda>mac.
     Inr \<lparr>ar_body = body, ar_token_hash = token_hash, ar_mac = mac\<rparr>))))))"

definition encode_receipt :: "authenticated_receipt \<Rightarrow> bytes" where
  "encode_receipt r = canonical_receipt_body (ar_body r) @ ar_token_hash r @ ar_mac r"

text \<open>\<open>take_array\<close> and its relatives move a cursor over the receipt; a cursor holds the
  bytes and the position. The overflow test on the position cannot fail for a slice.\<close>

record receipt_cursor =
  rc_bytes :: bytes
  rc_cursor :: nat

definition take_array :: "receipt_cursor \<Rightarrow> nat \<Rightarrow> (bytes \<times> receipt_cursor) res" where
  "take_array c n =
     (if rc_cursor c + n \<le> length (rc_bytes c)
      then Inr (take n (drop (rc_cursor c) (rc_bytes c)), c\<lparr>rc_cursor := rc_cursor c + n\<rparr>)
      else Inl ''receipt is truncated'')"

definition take_u8 :: "receipt_cursor \<Rightarrow> (u8 \<times> receipt_cursor) res" where
  "take_u8 c = and_then (take_array c 1) (\<lambda>(v, c). Inr (v ! 0, c))"

definition take_i32 :: "receipt_cursor \<Rightarrow> (i32 \<times> receipt_cursor) res" where
  "take_i32 c = and_then (take_array c 4) (\<lambda>(v, c). Inr (word_of_nat (be_value v), c))"

definition take_u32 :: "receipt_cursor \<Rightarrow> (u32 \<times> receipt_cursor) res" where
  "take_u32 c = and_then (take_array c 4) (\<lambda>(v, c). Inr (word_of_nat (be_value v), c))"

definition take_u64 :: "receipt_cursor \<Rightarrow> (u64 \<times> receipt_cursor) res" where
  "take_u64 c = and_then (take_array c 8) (\<lambda>(v, c). Inr (word_of_nat (be_value v), c))"

definition take_outcome :: "receipt_cursor \<Rightarrow> (receipt_outcome \<times> receipt_cursor) res" where
  "take_outcome c =
     and_then (take_u8 c) (\<lambda>(outcome_kind, c).
     and_then (take_i32 c) (\<lambda>(exit_code, c).
     if outcome_kind = 0 then Inr (ReceiptExited exit_code, c)
     else if outcome_kind = 1 \<and> exit_code = 0 then Inr (ReceiptCancelled, c)
     else if outcome_kind = 2 \<and> exit_code = 0 then Inr (ReceiptDeadlineExceeded, c)
     else Inl ''receipt outcome is invalid''))"

definition take_receipt :: "receipt_cursor \<Rightarrow> (authenticated_receipt \<times> receipt_cursor) res" where
  "take_receipt c =
     and_then (take_array c 16) (\<lambda>(job_id, c).
     and_then (take_array c 16) (\<lambda>(profile_id, c).
     and_then (take_u64 c) (\<lambda>(profile_generation, c).
     and_then (take_array c 32) (\<lambda>(policy_digest, c).
     and_then (take_array c 32) (\<lambda>(input_digest, c).
     and_then (take_u32 c) (\<lambda>(run_as_uid, c).
     and_then (take_u64 c) (\<lambda>(remote_unix_ms, c).
     and_then (take_u64 c) (\<lambda>(relay_unix_ms, c).
     and_then (take_u64 c) (\<lambda>(result_retention_unix_ms, c).
     and_then (take_u64 c) (\<lambda>(max_output_bytes, c).
     and_then (take_array c 32) (\<lambda>(stdout_digest, c).
     and_then (take_array c 32) (\<lambda>(stderr_digest, c).
     and_then (take_outcome c) (\<lambda>(outcome, c).
     and_then (take_u64 c) (\<lambda>(completed_unix_ms, c).
     and_then (take_array c 32) (\<lambda>(token_hash, c).
     and_then (take_array c 32) (\<lambda>(mac, c).
     Inr (\<lparr>ar_body =
             \<lparr>rb_identity =
                \<lparr>ji_job_id = job_id, ji_profile_id = profile_id,
                 ji_profile_generation = profile_generation, ji_policy_digest = policy_digest,
                 ji_input_digest = input_digest\<rparr>,
              rb_run_as_uid = run_as_uid,
              rb_deadlines =
                \<lparr>jd_remote_unix_ms = remote_unix_ms, jd_relay_unix_ms = relay_unix_ms,
                 jd_result_retention_unix_ms = result_retention_unix_ms\<rparr>,
              rb_max_output_bytes = max_output_bytes, rb_stdout_digest = stdout_digest,
              rb_stderr_digest = stderr_digest, rb_outcome = outcome,
              rb_completed_unix_ms = completed_unix_ms\<rparr>,
           ar_token_hash = token_hash, ar_mac = mac\<rparr>, c)))))))))))))))))"

definition check_receipt :: "authenticated_receipt \<Rightarrow> unit res" where
  "check_receipt receipt =
     and_then (validate_identity (rb_identity (ar_body receipt))) (\<lambda>_.
     ensure (rb_run_as_uid (ar_body receipt) \<noteq> 0) ''receipt execution UID is invalid'' (
     ensure (jd_remote_unix_ms (rb_deadlines (ar_body receipt))
               \<le> jd_relay_unix_ms (rb_deadlines (ar_body receipt)) \<and>
             jd_relay_unix_ms (rb_deadlines (ar_body receipt))
               \<le> jd_result_retention_unix_ms (rb_deadlines (ar_body receipt)))
       ''receipt deadline ordering is invalid'' (
     ensure (rb_max_output_bytes (ar_body receipt) > 0) ''receipt output budget is invalid'' (
     Inr ()))))"

definition decode_receipt :: "bytes \<Rightarrow> authenticated_receipt res" where
  "decode_receipt bs =
     ensure (length bs = RECEIPT_BYTES) ''receipt length is invalid'' (
     ensure (take 4 bs = RECEIPT_MAGIC) ''receipt magic is invalid'' (
     ensure (word_of_nat (be_value (take 2 (drop 4 bs))) = RECEIPT_VERSION)
       ''receipt version is unsupported'' (
     and_then (take_receipt \<lparr>rc_bytes = bs, rc_cursor = 6\<rparr>) (\<lambda>(receipt, c).
     ensure (rc_cursor c = length bs) ''receipt has trailing bytes'' (
     and_then (check_receipt receipt) (\<lambda>_. Inr receipt))))))"

definition verify ::
  "jobs_ext \<Rightarrow> authenticated_receipt \<Rightarrow> job_identity \<Rightarrow> job_deadlines \<Rightarrow> u32 \<Rightarrow> u64 \<Rightarrow>
     secret32 \<Rightarrow> u64 \<Rightarrow> receipt_body res" where
  "verify X r expected deadlines run_as_uid max_output_bytes token now_unix_ms =
     ensure (rb_identity (ar_body r) = expected) ''receipt identity mismatch'' (
     ensure (rb_run_as_uid (ar_body r) = run_as_uid \<and> run_as_uid \<noteq> 0)
       ''receipt execution UID mismatch'' (
     ensure (rb_deadlines (ar_body r) = deadlines) ''receipt deadlines mismatch'' (
     ensure (rb_max_output_bytes (ar_body r) = max_output_bytes \<and> max_output_bytes \<noteq> 0)
       ''receipt output budget mismatch'' (
     ensure (rb_completed_unix_ms (ar_body r) \<le> jd_relay_unix_ms deadlines)
       ''receipt completion exceeds relay deadline'' (
     ensure (rb_completed_unix_ms (ar_body r) \<le> now_unix_ms)
       ''receipt completion is in the future'' (
     ensure (now_unix_ms \<le> jd_result_retention_unix_ms deadlines) ''receipt retention expired'' (
     ensure (hash_token X token = ar_token_hash r) ''receipt token mismatch'' (
     and_then (receipt_mac X token (canonical_receipt_body (ar_body r)) (ar_token_hash r))
       (\<lambda>expected_mac.
     ensure (expected_mac = ar_mac r) ''receipt authentication failed'' (
     Inr (ar_body r)))))))))))"

section \<open>Reconciliation\<close>

datatype reconcile_outcome = Unknown job_record | Recovered job_record receipt_body

fun stage_of_outcome :: "receipt_outcome \<Rightarrow> job_stage" where
  "stage_of_outcome (ReceiptExited code) = (if code = 0 then Completed else Failed)"
| "stage_of_outcome ReceiptDeadlineExceeded = Failed"
| "stage_of_outcome ReceiptCancelled = StageCancelled"

definition reconcile ::
  "jobs_ext \<Rightarrow> job_record \<Rightarrow> bytes option \<Rightarrow> secret32 \<Rightarrow> u64 \<Rightarrow> reconcile_outcome res" where
  "reconcile X record receipt token now_unix_ms =
     (case receipt of
        None \<Rightarrow>
          ensure (now_unix_ms \<ge> jr_updated_unix_ms record) ''job clock moved backwards'' (
          Inr (Unknown (record\<lparr>jr_stage := StageUnknown, jr_updated_unix_ms := now_unix_ms\<rparr>)))
      | Some bs \<Rightarrow>
          and_then (decode_receipt bs) (\<lambda>receipt.
          and_then (verify X receipt (jr_identity record) (jr_deadlines record)
            (jr_run_as_uid record) (jr_max_output_bytes record) token now_unix_ms) (\<lambda>body.
          Inr (Recovered (record\<lparr>jr_stage := stage_of_outcome (rb_outcome body),
                                 jr_updated_unix_ms := rb_completed_unix_ms body\<rparr>) body))))"

section \<open>Journals\<close>

definition encode_journal :: "jobs_ext \<Rightarrow> job_record \<Rightarrow> bytes res" where
  "encode_journal X record =
     (let disk =
        \<lparr>dj_schema_version = JOB_SCHEMA_VERSION,
         dj_job_id = jobs_hex_encode X (ji_job_id (jr_identity record)),
         dj_profile_id = jobs_hex_encode X (ji_profile_id (jr_identity record)),
         dj_profile_generation = ji_profile_generation (jr_identity record),
         dj_policy_digest = jobs_hex_encode X (ji_policy_digest (jr_identity record)),
         dj_input_digest = jobs_hex_encode X (ji_input_digest (jr_identity record)),
         dj_remote_deadline_unix_ms = jd_remote_unix_ms (jr_deadlines record),
         dj_relay_deadline_unix_ms = jd_relay_unix_ms (jr_deadlines record),
         dj_result_retention_unix_ms = jd_result_retention_unix_ms (jr_deadlines record),
         dj_run_as_uid = jr_run_as_uid record, dj_stage = jr_stage record,
         dj_heartbeat_ordinal = jr_heartbeat_ordinal record, dj_elapsed_ms = jr_elapsed_ms record,
         dj_stdout_bytes = jr_stdout_bytes record, dj_stderr_bytes = jr_stderr_bytes record,
         dj_max_output_bytes = jr_max_output_bytes record,
         dj_updated_unix_ms = jr_updated_unix_ms record\<rparr> in
      and_then (ok_or (jobs_to_vec X disk) ''serialize job journal'') (\<lambda>bs.
      ensure (length bs \<le> MAX_JOURNAL_BYTES) ''job journal exceeds size limit'' (
      Inr bs)))"

definition decode_hex_array :: "jobs_ext \<Rightarrow> nat \<Rightarrow> string \<Rightarrow> string \<Rightarrow> bytes res" where
  "decode_hex_array X n value field =
     ensure (length value = n * 2) (field @ '' has invalid length'') (
     and_then (ok_or (jobs_hex_decode X value) (''decode '' @ field)) (\<lambda>bs.
     ensure (length bs = n) (field @ '' has invalid length'') (Inr bs)))"

definition decode_journal :: "jobs_ext \<Rightarrow> bytes \<Rightarrow> job_record res" where
  "decode_journal X bs =
     ensure (bs \<noteq> [] \<and> length bs \<le> MAX_JOURNAL_BYTES) ''job journal size is invalid'' (
     and_then (ok_or (jobs_from_slice X bs) ''parse job journal'') (\<lambda>disk.
     ensure (dj_schema_version disk = JOB_SCHEMA_VERSION) ''job journal schema is unsupported'' (
     and_then (decode_hex_array X 16 (dj_job_id disk) ''job_id'') (\<lambda>job_id.
     and_then (decode_hex_array X 16 (dj_profile_id disk) ''profile_id'') (\<lambda>profile_id.
     and_then (decode_hex_array X 32 (dj_policy_digest disk) ''policy_digest'') (\<lambda>policy_digest.
     and_then (decode_hex_array X 32 (dj_input_digest disk) ''input_digest'') (\<lambda>input_digest.
     let identity =
           \<lparr>ji_job_id = job_id, ji_profile_id = profile_id,
            ji_profile_generation = dj_profile_generation disk,
            ji_policy_digest = policy_digest, ji_input_digest = input_digest\<rparr>;
         record =
           \<lparr>jr_identity = identity,
            jr_deadlines =
              \<lparr>jd_remote_unix_ms = dj_remote_deadline_unix_ms disk,
               jd_relay_unix_ms = dj_relay_deadline_unix_ms disk,
               jd_result_retention_unix_ms = dj_result_retention_unix_ms disk\<rparr>,
            jr_run_as_uid = dj_run_as_uid disk, jr_stage = dj_stage disk,
            jr_heartbeat_ordinal = dj_heartbeat_ordinal disk, jr_elapsed_ms = dj_elapsed_ms disk,
            jr_stdout_bytes = dj_stdout_bytes disk, jr_stderr_bytes = dj_stderr_bytes disk,
            jr_max_output_bytes = dj_max_output_bytes disk,
            jr_updated_unix_ms = dj_updated_unix_ms disk\<rparr> in
     and_then (validate_identity identity) (\<lambda>_.
     ensure (jr_run_as_uid record \<noteq> 0) ''journal execution UID is invalid'' (
     ensure (jr_max_output_bytes record > 0) ''journal output budget is invalid'' (
     ensure (saturating_add (jr_stdout_bytes record) (jr_stderr_bytes record)
             \<le> jr_max_output_bytes record) ''journal output counters exceed budget'' (
     ensure (jd_remote_unix_ms (jr_deadlines record) \<le> jd_relay_unix_ms (jr_deadlines record) \<and>
             jd_relay_unix_ms (jr_deadlines record)
               \<le> jd_result_retention_unix_ms (jr_deadlines record))
       ''journal deadline ordering is invalid'' (
     Inr record))))))))))))"

section \<open>Lemmas\<close>

subsection \<open>The receipt codec\<close>

definition cur :: "bytes \<Rightarrow> bytes \<Rightarrow> receipt_cursor" where
  "cur pre suf = \<lparr>rc_bytes = pre @ suf, rc_cursor = length pre\<rparr>"

lemma take_array_cur:
  "take_array (cur pre suf) n = Inr (v, r) \<longleftrightarrow>
     length v = n \<and> (\<exists>s. suf = v @ s \<and> r = cur (pre @ v) s)"
proof
  assume "take_array (cur pre suf) n = Inr (v, r)"
  then have n: "n \<le> length suf" and v: "v = take n suf" and r: "r = \<lparr>rc_bytes = pre @ suf, rc_cursor = length pre + n\<rparr>"
    by (auto simp: take_array_def cur_def split: if_splits)
  then show "length v = n \<and> (\<exists>s. suf = v @ s \<and> r = cur (pre @ v) s)"
    by (auto simp: cur_def intro!: exI [of _ "drop n suf"])
qed (auto simp: take_array_def cur_def)

interpretation receipt_cursor: byte_cursor cur take_array
  by unfold_locales (rule take_array_cur)

interpretation receipt_array: field_codec cur "\<lambda>c. take_array c n" "\<lambda>x. x" "\<lambda>x. length x = n"
  by unfold_locales (rule take_array_cur)

interpretation receipt_u8: field_codec cur take_u8 "\<lambda>x. [x]" "\<lambda>_. True"
  by unfold_locales (simp only: take_u8_def receipt_cursor.byte_field simp_thms)

interpretation receipt_i32: field_codec cur take_i32 be32 "\<lambda>_. True"
  by unfold_locales (simp add: take_i32_def receipt_cursor.integer_fields)

interpretation receipt_u32: field_codec cur take_u32 be32 "\<lambda>_. True"
  by unfold_locales (simp add: take_u32_def receipt_cursor.integer_fields)

interpretation receipt_u64: field_codec cur take_u64 be64 "\<lambda>_. True"
  by unfold_locales (simp add: take_u64_def receipt_cursor.integer_fields)

lemmas receipt_gets =
  receipt_array.get_iff receipt_u8.get_iff receipt_i32.get_iff receipt_u32.get_iff receipt_u64.get_iff

lemmas receipt_puts =
  receipt_array.get_put receipt_u8.get_put receipt_i32.get_put receipt_u32.get_put
  receipt_u64.get_put receipt_array.get_put_last

interpretation receipt_outcome: field_codec cur take_outcome put_receipt_outcome "\<lambda>_. True"
proof unfold_locales
  fix pre suf c r
  show "take_outcome (cur pre suf) = Inr (c, r) \<longleftrightarrow>
    True \<and> (\<exists>s. suf = put_receipt_outcome c @ s \<and> r = cur (pre @ put_receipt_outcome c) s)"
    by (cases c) (auto simp: take_outcome_def and_then_eq_Inr receipt_gets if_Inr_cases)
qed

definition wf_receipt :: "authenticated_receipt \<Rightarrow> bool" where
  "wf_receipt r \<longleftrightarrow>
     length (ji_job_id (rb_identity (ar_body r))) = 16 \<and>
     length (ji_profile_id (rb_identity (ar_body r))) = 16 \<and>
     length (ji_policy_digest (rb_identity (ar_body r))) = 32 \<and>
     length (ji_input_digest (rb_identity (ar_body r))) = 32 \<and>
     length (rb_stdout_digest (ar_body r)) = 32 \<and> length (rb_stderr_digest (ar_body r)) = 32 \<and>
     length (ar_token_hash r) = 32 \<and> length (ar_mac r) = 32"

definition receipt_fields :: "authenticated_receipt \<Rightarrow> bytes" where
  "receipt_fields r =
     ji_job_id (rb_identity (ar_body r)) @
     ji_profile_id (rb_identity (ar_body r)) @ be64 (ji_profile_generation (rb_identity (ar_body r))) @
     ji_policy_digest (rb_identity (ar_body r)) @ ji_input_digest (rb_identity (ar_body r)) @
     be32 (rb_run_as_uid (ar_body r)) @ be64 (jd_remote_unix_ms (rb_deadlines (ar_body r))) @
     be64 (jd_relay_unix_ms (rb_deadlines (ar_body r))) @
     be64 (jd_result_retention_unix_ms (rb_deadlines (ar_body r))) @
     be64 (rb_max_output_bytes (ar_body r)) @ rb_stdout_digest (ar_body r) @
     rb_stderr_digest (ar_body r) @ put_receipt_outcome (rb_outcome (ar_body r)) @
     be64 (rb_completed_unix_ms (ar_body r)) @ ar_token_hash r @ ar_mac r"

lemma encode_receipt_fields:
  "encode_receipt r = RECEIPT_MAGIC @ be16 RECEIPT_VERSION @ receipt_fields r"
  by (simp add: encode_receipt_def canonical_receipt_body_def receipt_fields_def)

lemma receipt_eta:
  "\<lparr>ar_body =
      \<lparr>rb_identity =
         \<lparr>ji_job_id = ji_job_id (rb_identity (ar_body r)),
          ji_profile_id = ji_profile_id (rb_identity (ar_body r)),
          ji_profile_generation = ji_profile_generation (rb_identity (ar_body r)),
          ji_policy_digest = ji_policy_digest (rb_identity (ar_body r)),
          ji_input_digest = ji_input_digest (rb_identity (ar_body r))\<rparr>,
       rb_run_as_uid = rb_run_as_uid (ar_body r),
       rb_deadlines =
         \<lparr>jd_remote_unix_ms = jd_remote_unix_ms (rb_deadlines (ar_body r)),
          jd_relay_unix_ms = jd_relay_unix_ms (rb_deadlines (ar_body r)),
          jd_result_retention_unix_ms = jd_result_retention_unix_ms (rb_deadlines (ar_body r))\<rparr>,
       rb_max_output_bytes = rb_max_output_bytes (ar_body r),
       rb_stdout_digest = rb_stdout_digest (ar_body r),
       rb_stderr_digest = rb_stderr_digest (ar_body r), rb_outcome = rb_outcome (ar_body r),
       rb_completed_unix_ms = rb_completed_unix_ms (ar_body r)\<rparr>,
    ar_token_hash = ar_token_hash r, ar_mac = ar_mac r\<rparr> = (r :: authenticated_receipt)"
  by simp

interpretation receipt_codec: field_codec cur take_receipt receipt_fields wf_receipt
proof unfold_locales
  fix pre suf r c
  show "take_receipt (cur pre suf) = Inr (r, c) \<longleftrightarrow>
    wf_receipt r \<and> (\<exists>s. suf = receipt_fields r @ s \<and> c = cur (pre @ receipt_fields r) s)"
    (is "?L \<longleftrightarrow> ?R")
  proof
    assume ?L
    then show ?R
      unfolding take_receipt_def
      by (clarsimp simp: and_then_eq_Inr receipt_gets receipt_outcome.get_iff wf_receipt_def
          receipt_fields_def)
  next
    assume ?R
    then obtain s where *: "suf = receipt_fields r @ s" "c = cur (pre @ receipt_fields r) s"
      "wf_receipt r" by blast
    then show ?L
      unfolding take_receipt_def wf_receipt_def receipt_fields_def
      by (simp add: receipt_puts receipt_outcome.get_put receipt_eta)
  qed
qed

lemma length_put_receipt_outcome [simp]: "length (put_receipt_outcome x) = 5"
  by (cases x) simp_all

lemma length_receipt_fields: "wf_receipt r \<Longrightarrow> length (receipt_fields r) = RECEIPT_BYTES - 6"
  by (simp add: wf_receipt_def receipt_fields_def RECEIPT_BYTES_def)

lemma receipt_prefix: "length RECEIPT_MAGIC = 4" "length (RECEIPT_MAGIC @ be16 v) = 6"
  by (simp_all add: RECEIPT_MAGIC_def)

lemma decode_receipt_eq_Inr:
  "decode_receipt bs = Inr r \<longleftrightarrow> wf_receipt r \<and> check_receipt r = Inr () \<and> bs = encode_receipt r"
proof
  assume "decode_receipt bs = Inr r"
  then obtain c where len: "length bs = RECEIPT_BYTES" and m: "take 4 bs = RECEIPT_MAGIC"
    and v: "word_of_nat (be_value (take 2 (drop 4 bs))) = RECEIPT_VERSION"
    and t: "take_receipt \<lparr>rc_bytes = bs, rc_cursor = 6\<rparr> = Inr (r, c)"
    and ok: "check_receipt r = Inr ()"
    by (auto simp: decode_receipt_def result_simps)
  have "length (take 2 (drop 4 bs)) = 2" using len by (simp add: RECEIPT_BYTES_def)
  with v have v': "take 2 (drop 4 bs) = be16 RECEIPT_VERSION" using be16_word by metis
  have "bs = take 4 bs @ take 2 (drop 4 bs) @ drop 2 (drop 4 bs)" by (metis append_take_drop_id)
  then have bs: "bs = (RECEIPT_MAGIC @ be16 RECEIPT_VERSION) @ drop 6 bs" using m v' by simp
  then have "\<lparr>rc_bytes = bs, rc_cursor = 6\<rparr> = cur (RECEIPT_MAGIC @ be16 RECEIPT_VERSION) (drop 6 bs)"
    unfolding cur_def receipt_prefix(2) by simp
  with t obtain s where "wf_receipt r" "drop 6 bs = receipt_fields r @ s"
    by (auto simp: receipt_codec.get_iff)
  moreover from this len have "s = []"
    using length_receipt_fields [of r] by (metis add_diff_cancel_left' append_Nil2
      append_eq_append_conv length_append length_drop)
  ultimately show "wf_receipt r \<and> check_receipt r = Inr () \<and> bs = encode_receipt r"
    using ok bs by (simp add: encode_receipt_fields)
next
  assume *: "wf_receipt r \<and> check_receipt r = Inr () \<and> bs = encode_receipt r"
  then have bs: "bs = RECEIPT_MAGIC @ be16 RECEIPT_VERSION @ receipt_fields r"
    by (simp add: encode_receipt_fields)
  have "\<lparr>rc_bytes = bs, rc_cursor = 6\<rparr> = cur (RECEIPT_MAGIC @ be16 RECEIPT_VERSION) (receipt_fields r)"
    unfolding cur_def receipt_prefix(2) bs by simp
  with * have "take_receipt \<lparr>rc_bytes = bs, rc_cursor = 6\<rparr> = Inr (r, cur bs [])"
    using receipt_codec.get_put_last [of r "RECEIPT_MAGIC @ be16 RECEIPT_VERSION"] bs by simp
  moreover have "length bs = RECEIPT_BYTES"
    using length_receipt_fields [of r, OF conjunct1 [OF *]] receipt_prefix(1) unfolding bs
    by (simp add: RECEIPT_BYTES_def)
  moreover have "take 4 bs = RECEIPT_MAGIC" "take 2 (drop 4 bs) = be16 RECEIPT_VERSION"
    using receipt_prefix(1) unfolding bs by simp_all
  ultimately show "decode_receipt bs = Inr r"
    using * by (simp add: decode_receipt_def cur_def)
qed

lemma canonical_receipt_body_inject:
  assumes "wf_receipt r" "wf_receipt r'"
    and "canonical_receipt_body (ar_body r) = canonical_receipt_body (ar_body r')"
  shows "ar_body r = ar_body r'"
proof -
  let ?r = "r'\<lparr>ar_token_hash := ar_token_hash r, ar_mac := ar_mac r\<rparr>"
  have "wf_receipt ?r" using assms by (simp add: wf_receipt_def)
  moreover have "receipt_fields r = receipt_fields ?r"
    using assms(3) by (simp add: canonical_receipt_body_def receipt_fields_def)
  ultimately have "r = ?r" using receipt_codec.prefix_free [OF assms(1), of ?r "[]" "[]"] by simp
  then show ?thesis by (metis authenticated_receipt.select_convs(1) authenticated_receipt.update_convs(2,3)
      authenticated_receipt.surjective)
qed

subsection \<open>The life of a job record\<close>

datatype job_event =
    MarkRunning u64
  | Heartbeats heartbeat_frame u64
  | RequestCancel u64
  | MarkUnknown u64
  | Reconcile "bytes option" secret32 u64

fun outcome_record :: "reconcile_outcome \<Rightarrow> job_record" where
  "outcome_record (Unknown r) = r"
| "outcome_record (Recovered r _) = r"

fun job_apply :: "jobs_ext \<Rightarrow> job_record \<Rightarrow> job_event \<Rightarrow> job_record res" where
  "job_apply X r (MarkRunning now) = mark_running r now"
| "job_apply X r (Heartbeats h now) = observe_heartbeat r h now"
| "job_apply X r (RequestCancel now) = request_cancel r now"
| "job_apply X r (MarkUnknown now) = mark_unknown r now"
| "job_apply X r (Reconcile bs token now) =
     and_then (reconcile X r bs token now) (\<lambda>o'. Inr (outcome_record o'))"

definition job_ok :: "job_record \<Rightarrow> bool" where
  "job_ok r \<longleftrightarrow>
     validate_identity (jr_identity r) = Inr () \<and> jr_run_as_uid r \<noteq> 0 \<and>
     jr_max_output_bytes r \<noteq> 0 \<and>
     saturating_add (jr_stdout_bytes r) (jr_stderr_bytes r) \<le> jr_max_output_bytes r \<and>
     jd_remote_unix_ms (jr_deadlines r) \<le> jd_relay_unix_ms (jr_deadlines r) \<and>
     jd_relay_unix_ms (jr_deadlines r) \<le> jd_result_retention_unix_ms (jr_deadlines r)"

definition same_job :: "job_record \<Rightarrow> job_record \<Rightarrow> bool" where
  "same_job r r' \<longleftrightarrow>
     jr_identity r' = jr_identity r \<and> jr_deadlines r' = jr_deadlines r \<and>
     jr_run_as_uid r' = jr_run_as_uid r \<and> jr_max_output_bytes r' = jr_max_output_bytes r"

lemmas job_op_defs =
  mark_running_def observe_heartbeat_def request_cancel_def mark_unknown_def reconcile_def

lemma verify_eq_Inr:
  "verify X rc i d uid m token now = Inr b \<longleftrightarrow>
     b = ar_body rc \<and> rb_identity b = i \<and> rb_run_as_uid b = uid \<and> uid \<noteq> 0 \<and> rb_deadlines b = d \<and>
     rb_max_output_bytes b = m \<and> m \<noteq> 0 \<and> rb_completed_unix_ms b \<le> jd_relay_unix_ms d \<and>
     rb_completed_unix_ms b \<le> now \<and> now \<le> jd_result_retention_unix_ms d \<and>
     ar_token_hash rc = hash_token X token \<and>
     jobs_hmac X token (RECEIPT_MAC_DOMAIN @ canonical_receipt_body b @ hash_token X token) =
       Some (ar_mac rc)"
  by (auto simp: verify_def receipt_mac_def result_simps)

lemma reconcile_eq_Inr:
  "reconcile X r (Some bs) token now = Inr o' \<longleftrightarrow>
     (\<exists>rc. decode_receipt bs = Inr rc \<and>
        verify X rc (jr_identity r) (jr_deadlines r) (jr_run_as_uid r) (jr_max_output_bytes r) token now
          = Inr (ar_body rc) \<and>
        o' = Recovered (r\<lparr>jr_stage := stage_of_outcome (rb_outcome (ar_body rc)),
               jr_updated_unix_ms := rb_completed_unix_ms (ar_body rc)\<rparr>) (ar_body rc))"
  by (auto simp: reconcile_def and_then_eq_Inr verify_eq_Inr)

lemma reconcile_None_eq_Inr:
  "reconcile X r None token now = Inr o' \<longleftrightarrow>
     jr_updated_unix_ms r \<le> now \<and>
     o' = Unknown (r\<lparr>jr_stage := StageUnknown, jr_updated_unix_ms := now\<rparr>)"
  by (auto simp: reconcile_def ensure_eq_Inr)

lemma saturating_add_0: "saturating_add 0 (0::'a::len word) = 0"
  by (simp add: saturating_add_def)

lemma submitted_ok: "submitted i d u m now = Inr r \<Longrightarrow> job_ok r"
  by (auto simp: submitted_def validate_at_def job_ok_def result_simps saturating_add_0 word_neq_0_conv)

lemma job_apply_same: "job_apply X r ev = Inr r' \<Longrightarrow> same_job r r'"
proof (cases ev)
  case (Reconcile bs token now)
  then show "job_apply X r ev = Inr r' \<Longrightarrow> same_job r r'"
    by (cases bs) (auto simp: and_then_eq_Inr reconcile_eq_Inr reconcile_None_eq_Inr same_job_def)
qed (auto simp: job_op_defs ensure_eq_Inr same_job_def)

lemma job_apply_ok: "job_ok r \<Longrightarrow> job_apply X r ev = Inr r' \<Longrightarrow> job_ok r'"
proof (cases ev)
  case (Reconcile bs token now)
  then show "job_ok r \<Longrightarrow> job_apply X r ev = Inr r' \<Longrightarrow> job_ok r'"
    by (cases bs) (auto simp: and_then_eq_Inr reconcile_eq_Inr reconcile_None_eq_Inr job_ok_def)
qed (auto simp: job_op_defs ensure_eq_Inr job_ok_def)

interpretation job_record: message_validator "job_apply X" job_ok
  by unfold_locales (rule job_apply_ok)

lemma job_run_same: "run_steps (job_apply X) r evs = Inr r' \<Longrightarrow> same_job r r'"
proof (induction evs arbitrary: r)
  case (Cons ev evs)
  then obtain t where "job_apply X r ev = Inr t" "run_steps (job_apply X) t evs = Inr r'"
    by (auto simp: and_then_eq_Inr)
  with job_apply_same Cons.IH show ?case unfolding same_job_def by metis
qed (simp add: same_job_def)

lemma job_apply_terminal:
  assumes "job_apply X r ev = Inr r'" "is_terminal (jr_stage r')"
  shows "\<exists>bs token now rc. ev = Reconcile (Some bs) token now \<and> decode_receipt bs = Inr rc \<and>
    verify X rc (jr_identity r) (jr_deadlines r) (jr_run_as_uid r) (jr_max_output_bytes r) token now
      = Inr (ar_body rc) \<and> jr_stage r' = stage_of_outcome (rb_outcome (ar_body rc))"
proof (cases ev)
  case (Reconcile bs token now)
  with assms show ?thesis
    by (cases bs) (auto simp: and_then_eq_Inr reconcile_eq_Inr reconcile_None_eq_Inr)
next
  case (Heartbeats h now)
  with assms show ?thesis by (auto simp: observe_heartbeat_def ensure_eq_Inr)
qed (use assms in \<open>auto simp: job_op_defs ensure_eq_Inr\<close>)

definition counters_le :: "job_record \<Rightarrow> job_record \<Rightarrow> bool" where
  "counters_le r r' \<longleftrightarrow>
     jr_heartbeat_ordinal r \<le> jr_heartbeat_ordinal r' \<and> jr_elapsed_ms r \<le> jr_elapsed_ms r' \<and>
     jr_stdout_bytes r \<le> jr_stdout_bytes r' \<and> jr_stderr_bytes r \<le> jr_stderr_bytes r'"

lemma job_apply_counters: "job_apply X r ev = Inr r' \<Longrightarrow> counters_le r r'"
proof (cases ev)
  case (Reconcile bs token now)
  then show "job_apply X r ev = Inr r' \<Longrightarrow> counters_le r r'"
    by (cases bs) (auto simp: and_then_eq_Inr reconcile_eq_Inr reconcile_None_eq_Inr counters_le_def)
qed (auto simp: job_op_defs ensure_eq_Inr counters_le_def)

lemma job_run_counters: "run_steps (job_apply X) r evs = Inr r' \<Longrightarrow> counters_le r r'"
proof (induction evs arbitrary: r)
  case (Cons ev evs)
  then obtain t where "job_apply X r ev = Inr t" "run_steps (job_apply X) t evs = Inr r'"
    by (auto simp: and_then_eq_Inr)
  with job_apply_counters [of X r ev t] Cons.IH show ?case
    unfolding counters_le_def by (meson order_trans)
qed (simp add: counters_le_def)

subsection \<open>Issued receipts\<close>

definition hash_sizes :: "jobs_ext \<Rightarrow> bool" where
  "hash_sizes X \<longleftrightarrow>
     (\<forall>m. length (jobs_sha256 X m) = 32) \<and> (\<forall>k m t. jobs_hmac X k m = Some t \<longrightarrow> length t = 32)"

definition wf_body :: "receipt_body \<Rightarrow> bool" where
  "wf_body b \<longleftrightarrow>
     length (ji_job_id (rb_identity b)) = 16 \<and> length (ji_profile_id (rb_identity b)) = 16 \<and>
     length (ji_policy_digest (rb_identity b)) = 32 \<and> length (ji_input_digest (rb_identity b)) = 32 \<and>
     length (rb_stdout_digest b) = 32 \<and> length (rb_stderr_digest b) = 32"

lemma issue_eq_Inr:
  "issue X b token = Inr rc \<longleftrightarrow>
     validate_identity (rb_identity b) = Inr () \<and> rb_run_as_uid b \<noteq> 0 \<and>
     jd_remote_unix_ms (rb_deadlines b) \<le> jd_relay_unix_ms (rb_deadlines b) \<and>
     jd_relay_unix_ms (rb_deadlines b) \<le> jd_result_retention_unix_ms (rb_deadlines b) \<and>
     rb_max_output_bytes b \<noteq> 0 \<and> rb_completed_unix_ms b \<noteq> 0 \<and>
     (\<exists>mac. jobs_hmac X token (RECEIPT_MAC_DOMAIN @ canonical_receipt_body b @ hash_token X token)
              = Some mac \<and>
        rc = \<lparr>ar_body = b, ar_token_hash = hash_token X token, ar_mac = mac\<rparr>)"
  by (auto simp: issue_def receipt_mac_def result_simps Let_def word_neq_0_conv)

lemma issue_decodes:
  assumes "issue X b token = Inr rc" "hash_sizes X" "wf_body b"
  shows "decode_receipt (encode_receipt rc) = Inr rc"
  using assms
  by (auto simp: decode_receipt_eq_Inr issue_eq_Inr wf_receipt_def wf_body_def hash_sizes_def
      hash_token_def check_receipt_def result_simps word_neq_0_conv)

lemma issue_verifies:
  assumes "issue X b token = Inr rc" "rb_completed_unix_ms b \<le> jd_relay_unix_ms (rb_deadlines b)"
    "rb_completed_unix_ms b \<le> now" "now \<le> jd_result_retention_unix_ms (rb_deadlines b)"
  shows "verify X rc (rb_identity b) (rb_deadlines b) (rb_run_as_uid b) (rb_max_output_bytes b) token now
    = Inr b"
  using assms by (auto simp: verify_eq_Inr issue_eq_Inr)

subsection \<open>Journals\<close>

definition journal_laws :: "jobs_ext \<Rightarrow> bool" where
  "journal_laws X \<longleftrightarrow>
     (\<forall>d bs. jobs_to_vec X d = Some bs \<longrightarrow> bs \<noteq> [] \<and> jobs_from_slice X bs = Some d) \<and>
     (\<forall>bs. jobs_hex_decode X (jobs_hex_encode X bs) = Some bs \<and>
           length (jobs_hex_encode X bs) = length bs * 2)"

definition wf_identity :: "job_identity \<Rightarrow> bool" where
  "wf_identity i \<longleftrightarrow>
     length (ji_job_id i) = 16 \<and> length (ji_profile_id i) = 16 \<and>
     length (ji_policy_digest i) = 32 \<and> length (ji_input_digest i) = 32"

lemma decode_hex_array_encode:
  "journal_laws X \<Longrightarrow> length bs = n \<Longrightarrow> decode_hex_array X n (jobs_hex_encode X bs) f = Inr bs"
  by (simp add: decode_hex_array_def journal_laws_def)

lemma job_etas:
  "\<lparr>ji_job_id = ji_job_id i, ji_profile_id = ji_profile_id i,
    ji_profile_generation = ji_profile_generation i, ji_policy_digest = ji_policy_digest i,
    ji_input_digest = ji_input_digest i\<rparr> = (i :: job_identity)"
  "\<lparr>jd_remote_unix_ms = jd_remote_unix_ms d, jd_relay_unix_ms = jd_relay_unix_ms d,
    jd_result_retention_unix_ms = jd_result_retention_unix_ms d\<rparr> = (d :: job_deadlines)"
  "\<lparr>jr_identity = jr_identity r, jr_deadlines = jr_deadlines r,
    jr_run_as_uid = jr_run_as_uid r, jr_stage = jr_stage r,
    jr_heartbeat_ordinal = jr_heartbeat_ordinal r, jr_elapsed_ms = jr_elapsed_ms r,
    jr_stdout_bytes = jr_stdout_bytes r, jr_stderr_bytes = jr_stderr_bytes r,
    jr_max_output_bytes = jr_max_output_bytes r, jr_updated_unix_ms = jr_updated_unix_ms r\<rparr>
   = (r :: job_record)"
  by simp_all

lemma journal_round_trip_lemma:
  assumes X: "journal_laws X" and e: "encode_journal X r = Inr bs" and ok: "job_ok r"
    and wf: "wf_identity (jr_identity r)"
  shows "decode_journal X bs = Inr r"
proof -
  from e obtain d where d: "jobs_to_vec X d = Some bs" "length bs \<le> MAX_JOURNAL_BYTES"
    and disk: "d = \<lparr>dj_schema_version = JOB_SCHEMA_VERSION,
         dj_job_id = jobs_hex_encode X (ji_job_id (jr_identity r)),
         dj_profile_id = jobs_hex_encode X (ji_profile_id (jr_identity r)),
         dj_profile_generation = ji_profile_generation (jr_identity r),
         dj_policy_digest = jobs_hex_encode X (ji_policy_digest (jr_identity r)),
         dj_input_digest = jobs_hex_encode X (ji_input_digest (jr_identity r)),
         dj_remote_deadline_unix_ms = jd_remote_unix_ms (jr_deadlines r),
         dj_relay_deadline_unix_ms = jd_relay_unix_ms (jr_deadlines r),
         dj_result_retention_unix_ms = jd_result_retention_unix_ms (jr_deadlines r),
         dj_run_as_uid = jr_run_as_uid r, dj_stage = jr_stage r,
         dj_heartbeat_ordinal = jr_heartbeat_ordinal r, dj_elapsed_ms = jr_elapsed_ms r,
         dj_stdout_bytes = jr_stdout_bytes r, dj_stderr_bytes = jr_stderr_bytes r,
         dj_max_output_bytes = jr_max_output_bytes r,
         dj_updated_unix_ms = jr_updated_unix_ms r\<rparr>"
    by (auto simp: encode_journal_def result_simps Let_def)
  from X d(1) have "bs \<noteq> []" "jobs_from_slice X bs = Some d" by (auto simp: journal_laws_def)
  moreover have "decode_hex_array X 16 (dj_job_id d) f = Inr (ji_job_id (jr_identity r))"
    "decode_hex_array X 16 (dj_profile_id d) f = Inr (ji_profile_id (jr_identity r))"
    "decode_hex_array X 32 (dj_policy_digest d) f = Inr (ji_policy_digest (jr_identity r))"
    "decode_hex_array X 32 (dj_input_digest d) f = Inr (ji_input_digest (jr_identity r))" for f
    using wf by (simp_all add: disk wf_identity_def decode_hex_array_encode [OF X])
  moreover have "dj_schema_version d = JOB_SCHEMA_VERSION" by (simp add: disk)
  ultimately have "decode_journal X bs =
      and_then (validate_identity (jr_identity r)) (\<lambda>_.
      ensure (jr_run_as_uid r \<noteq> 0) ''journal execution UID is invalid'' (
      ensure (jr_max_output_bytes r > 0) ''journal output budget is invalid'' (
      ensure (saturating_add (jr_stdout_bytes r) (jr_stderr_bytes r)
             \<le> jr_max_output_bytes r) ''journal output counters exceed budget'' (
      ensure (jd_remote_unix_ms (jr_deadlines r) \<le> jd_relay_unix_ms (jr_deadlines r) \<and>
             jd_relay_unix_ms (jr_deadlines r) \<le> jd_result_retention_unix_ms (jr_deadlines r))
        ''journal deadline ordering is invalid'' (
      Inr r)))))"
    using d(2) unfolding decode_journal_def Let_def
    by (simp add: disk job_etas)
  with ok show ?thesis by (simp add: job_ok_def word_neq_0_conv)
qed

subsection \<open>A sample job\<close>

definition sample_disk :: disk_job_record where
  "sample_disk =
     \<lparr>dj_schema_version = 1, dj_job_id = concat (replicate 16 [char_of (0::nat), char_of (1::nat)]),
      dj_profile_id = concat (replicate 16 [char_of (0::nat), char_of (2::nat)]), dj_profile_generation = 1,
      dj_policy_digest = concat (replicate 32 [char_of (0::nat), char_of (3::nat)]),
      dj_input_digest = concat (replicate 32 [char_of (0::nat), char_of (4::nat)]),
      dj_remote_deadline_unix_ms = 1000, dj_relay_deadline_unix_ms = 2000,
      dj_result_retention_unix_ms = 3000, dj_run_as_uid = 1000, dj_stage = Running,
      dj_heartbeat_ordinal = 0, dj_elapsed_ms = 0, dj_stdout_bytes = 0, dj_stderr_bytes = 0,
      dj_max_output_bytes = 4096, dj_updated_unix_ms = 200\<rparr>"

fun sample_unhex :: "string \<Rightarrow> bytes option" where
  "sample_unhex (a # b # cs) =
     map_option (\<lambda>bs. word_of_nat (16 * of_char a + of_char b) # bs) (sample_unhex cs)"
| "sample_unhex [] = Some []"
| "sample_unhex _ = None"

definition sample_ext :: jobs_ext where
  "sample_ext =
     \<lparr>jobs_sha256 = (\<lambda>m. take 32 (m @ replicate 32 0)),
      jobs_hmac = (\<lambda>k m. Some (take 32 (k @ m @ replicate 32 0))),
      jobs_hex_encode = (\<lambda>bs. concat (map (\<lambda>b. [char_of (unat b div 16), char_of (unat b mod 16)]) bs)),
      jobs_hex_decode = sample_unhex,
      jobs_to_vec = (\<lambda>d. if d = sample_disk then Some [123, 125] else None),
      jobs_from_slice = (\<lambda>bs. if bs = [123, 125] then Some sample_disk else None)\<rparr>"

definition sample_identity :: job_identity where
  "sample_identity =
     \<lparr>ji_job_id = replicate 16 1, ji_profile_id = replicate 16 2, ji_profile_generation = 1,
      ji_policy_digest = replicate 32 3, ji_input_digest = replicate 32 4\<rparr>"

definition sample_deadlines :: job_deadlines where
  "sample_deadlines =
     \<lparr>jd_remote_unix_ms = 1000, jd_relay_unix_ms = 2000, jd_result_retention_unix_ms = 3000\<rparr>"

definition sample_job :: job_record where
  "sample_job =
     \<lparr>jr_identity = sample_identity, jr_deadlines = sample_deadlines, jr_run_as_uid = 1000,
      jr_stage = Submitted, jr_heartbeat_ordinal = 0, jr_elapsed_ms = 0, jr_stdout_bytes = 0,
      jr_stderr_bytes = 0, jr_max_output_bytes = 4096, jr_updated_unix_ms = 100\<rparr>"

definition sample_body :: receipt_body where
  "sample_body =
     \<lparr>rb_identity = sample_identity, rb_run_as_uid = 1000, rb_deadlines = sample_deadlines,
      rb_max_output_bytes = 4096, rb_stdout_digest = replicate 32 6, rb_stderr_digest = replicate 32 7,
      rb_outcome = ReceiptExited 0, rb_completed_unix_ms = 900\<rparr>"

definition sample_token :: secret32 where "sample_token = replicate 32 5"

definition sample_receipt :: authenticated_receipt where
  "sample_receipt =
     \<lparr>ar_body = sample_body, ar_token_hash = hash_token sample_ext sample_token, ar_mac = sample_token\<rparr>"

definition sample_heartbeat :: heartbeat_frame where
  "sample_heartbeat =
     \<lparr>heartbeat_job_id = replicate 16 1, heartbeat_ordinal = 1, heartbeat_elapsed_ms = 50,
      heartbeat_stdout_bytes = 10, heartbeat_stderr_bytes = 2\<rparr>"

lemmas sample_defs = sample_identity_def sample_deadlines_def sample_job_def sample_body_def

lemma sample_submitted:
  "submitted sample_identity sample_deadlines 1000 4096 100 = Inr sample_job"
  by (simp add: submitted_def validate_identity_def list_ex_iff validate_at_def sample_defs saturating_sub_def
      MAX_RELAY_WINDOW_MS_def MAX_RESULT_RETENTION_MS_def)

lemma sample_laws: "hash_sizes sample_ext" "journal_laws sample_ext"
proof -
  show "hash_sizes sample_ext" by (auto simp: hash_sizes_def sample_ext_def min_def)
  have "sample_unhex (concat (map (\<lambda>b. [char_of (unat b div 16), char_of (unat b mod 16)]) bs)) =
    Some (bs::bytes)" for bs
  proof (induction bs)
    case (Cons b bs)
    have "unat b div 16 < 256" "unat b mod 16 < 256" using unat_less [of b] by auto
    then show ?case using Cons by (simp add: of_char_of)
  qed simp
  then show "journal_laws sample_ext"
    by (simp add: journal_laws_def sample_ext_def length_concat comp_def sum_list_triv)
qed

lemma sample_issued: "issue sample_ext sample_body sample_token = Inr sample_receipt"
  "wf_body sample_body" "wf_identity sample_identity"
  by (simp_all add: issue_eq_Inr sample_receipt_def validate_identity_def list_ex_iff sample_defs wf_body_def
      wf_identity_def sample_ext_def sample_token_def)

lemma sample_decodes: "decode_receipt (encode_receipt sample_receipt) = Inr sample_receipt"
  by (rule issue_decodes [OF sample_issued(1) sample_laws(1) sample_issued(2)])

lemma sample_verifies:
  "verify sample_ext sample_receipt sample_identity sample_deadlines 1000 4096 sample_token 950
     = Inr sample_body"
  using issue_verifies [OF sample_issued(1), of 950] by (simp add: sample_defs)

lemma sample_running:
  "run_steps (job_apply sample_ext) sample_job [MarkRunning 200] =
     Inr (sample_job\<lparr>jr_stage := Running, jr_updated_unix_ms := 200\<rparr>)"
  by (simp add: mark_running_def sample_defs)

lemma sample_journal:
  "encode_journal sample_ext (sample_job\<lparr>jr_stage := Running, jr_updated_unix_ms := 200\<rparr>)
     = Inr [123, 125]"
  by (simp add: encode_journal_def sample_ext_def sample_defs sample_disk_def JOB_SCHEMA_VERSION_def
      MAX_JOURNAL_BYTES_def)

section \<open>Properties\<close>

text \<open>C15: whatever happens to a job after it was submitted, its record keeps the identity, the
  deadlines, the execution user and the output budget it was submitted with; the reported output
  stays within the budget (for every budget that the 64-bit sum cannot saturate at); and the
  heartbeat number, the elapsed time and the output counters never decrease.\<close>

theorem job_run_invariant:
  assumes "submitted i d uid budget t = Inr r"
    and "run_steps (job_apply X) r evs = Inr r1" and "run_steps (job_apply X) r1 evs' = Inr r2"
  shows "jr_identity r2 = i \<and> jr_deadlines r2 = d \<and> jr_run_as_uid r2 = uid \<and>
    jr_max_output_bytes r2 = budget \<and> uid \<noteq> 0 \<and> jd_remote_unix_ms d \<le> jd_relay_unix_ms d \<and>
    jd_relay_unix_ms d \<le> jd_result_retention_unix_ms d \<and>
    (budget < - 1 \<longrightarrow> unat (jr_stdout_bytes r2) + unat (jr_stderr_bytes r2) \<le> unat budget) \<and>
    jr_heartbeat_ordinal r1 \<le> jr_heartbeat_ordinal r2 \<and> jr_elapsed_ms r1 \<le> jr_elapsed_ms r2 \<and>
    jr_stdout_bytes r1 \<le> jr_stdout_bytes r2 \<and> jr_stderr_bytes r1 \<le> jr_stderr_bytes r2"
proof -
  have run: "run_steps (job_apply X) r (evs @ evs') = Inr r2"
    using assms(2,3) by (simp add: run_steps_append)
  have "job_ok r2" using job_record.inv_run [OF submitted_ok [OF assms(1)] run] .
  moreover have "same_job r r2" by (rule job_run_same [OF run])
  moreover have "jr_identity r = i" "jr_deadlines r = d" "jr_run_as_uid r = uid"
    "jr_max_output_bytes r = budget"
    using assms(1) by (auto simp: submitted_def result_simps)
  moreover note job_run_counters [OF assms(3)]
  ultimately show ?thesis
    by (auto simp: job_ok_def same_job_def counters_le_def intro: saturating_add_le)
qed

theorem job_run_invariant_witness:
  "\<exists>r2. run_steps (job_apply sample_ext) (sample_job\<lparr>jr_stage := Running, jr_updated_unix_ms := 200\<rparr>)
       [Heartbeats sample_heartbeat 300] = Inr r2 \<and> jr_stdout_bytes r2 = 10 \<and>
     jr_identity r2 = sample_identity \<and> unat (jr_stdout_bytes r2) + unat (jr_stderr_bytes r2) \<le> 4096"
proof -
  let ?r = "sample_job\<lparr>jr_stage := Running, jr_updated_unix_ms := 300, jr_heartbeat_ordinal := 1,
    jr_elapsed_ms := 50, jr_stdout_bytes := 10, jr_stderr_bytes := 2\<rparr>"
  have "run_steps (job_apply sample_ext) (sample_job\<lparr>jr_stage := Running, jr_updated_unix_ms := 200\<rparr>)
    [Heartbeats sample_heartbeat 300] = Inr ?r"
    by (simp add: observe_heartbeat_def sample_heartbeat_def sample_defs saturating_add_def)
  with job_run_invariant [OF sample_submitted sample_running this] show ?thesis by simp
qed

text \<open>C6: a job is reported as completed, failed or cancelled only when the last thing that
  happened to its record is a reconciliation with a receipt that decodes, names this very job with
  its deadlines, user and budget, was completed within the relay deadline and not in the future, and
  carries the authentication code computed with the job's token.\<close>

theorem job_terminal_only_by_receipt:
  assumes "submitted i d uid budget t = Inr r" and "run_steps (job_apply X) r evs = Inr r'"
    and "is_terminal (jr_stage r')"
  shows "\<exists>evs0 bs token now rc b.
    evs = evs0 @ [Reconcile (Some bs) token now] \<and> decode_receipt bs = Inr rc \<and> b = ar_body rc \<and>
    rb_identity b = i \<and> rb_deadlines b = d \<and> rb_run_as_uid b = uid \<and> rb_max_output_bytes b = budget \<and>
    rb_completed_unix_ms b \<le> jd_relay_unix_ms d \<and> rb_completed_unix_ms b \<le> now \<and>
    now \<le> jd_result_retention_unix_ms d \<and> ar_token_hash rc = hash_token X token \<and>
    receipt_mac X token (canonical_receipt_body b) (hash_token X token) = Inr (ar_mac rc) \<and>
    jr_stage r' = stage_of_outcome (rb_outcome b) \<and> jr_updated_unix_ms r' = rb_completed_unix_ms b"
proof (cases evs rule: rev_cases)
  case Nil
  with assms show ?thesis by (auto simp: submitted_def result_simps)
next
  case (snoc evs0 ev)
  with assms(2) obtain q where q: "run_steps (job_apply X) r evs0 = Inr q" "job_apply X q ev = Inr r'"
    by (auto simp: run_steps_snoc and_then_eq_Inr)
  from job_apply_terminal [OF q(2) assms(3)] obtain bs token now rc where
    rc: "ev = Reconcile (Some bs) token now" "decode_receipt bs = Inr rc"
    "verify X rc (jr_identity q) (jr_deadlines q) (jr_run_as_uid q) (jr_max_output_bytes q) token now
      = Inr (ar_body rc)" "jr_stage r' = stage_of_outcome (rb_outcome (ar_body rc))" by blast
  moreover have "same_job r q" by (rule job_run_same [OF q(1)])
  moreover have "jr_identity r = i" "jr_deadlines r = d" "jr_run_as_uid r = uid"
    "jr_max_output_bytes r = budget"
    using assms(1) by (auto simp: submitted_def result_simps)
  moreover have "jr_updated_unix_ms r' = rb_completed_unix_ms (ar_body rc)"
    using q(2) rc(1,2) by (auto simp: and_then_eq_Inr reconcile_eq_Inr)
  ultimately show ?thesis
    by (auto simp: snoc verify_eq_Inr same_job_def receipt_mac_def)
qed

theorem job_terminal_only_by_receipt_witness:
  "\<exists>bs rc. decode_receipt bs = Inr rc \<and> rb_identity (ar_body rc) = sample_identity \<and>
     stage_of_outcome (rb_outcome (ar_body rc)) = Completed"
proof -
  let ?r = "sample_job\<lparr>jr_stage := Completed, jr_updated_unix_ms := 900\<rparr>"
  have "run_steps (job_apply sample_ext) sample_job
      [Reconcile (Some (encode_receipt sample_receipt)) sample_token 950] = Inr ?r"
    using sample_verifies by (simp add: reconcile_def sample_decodes) (simp add: sample_defs)
  from job_terminal_only_by_receipt [OF sample_submitted this] show ?thesis by force
qed

text \<open>C24: the receipt format is canonical: a byte string decodes to a receipt exactly when it is the
  encoding of that receipt and the receipt's own checks hold. So decoding inverts encoding, and no
  two byte strings denote the same receipt.\<close>

theorem receipt_decode_iff_encode:
  "decode_receipt bs = Inr r \<longleftrightarrow> wf_receipt r \<and> check_receipt r = Inr () \<and> bs = encode_receipt r"
  by (rule decode_receipt_eq_Inr)

text \<open>A receipt issued for a job reconciles that job's record after a crash: from the stored
  bytes and the token, within the retention period, the record is recovered with the stage of the
  receipt's outcome.\<close>

theorem issued_receipt_recovers:
  assumes "issue X b token = Inr rc" and "hash_sizes X" and "wf_body b"
    and "jr_identity r = rb_identity b" and "jr_deadlines r = rb_deadlines b"
    and "jr_run_as_uid r = rb_run_as_uid b" and "jr_max_output_bytes r = rb_max_output_bytes b"
    and "rb_completed_unix_ms b \<le> jd_relay_unix_ms (rb_deadlines b)"
    and "rb_completed_unix_ms b \<le> now" and "now \<le> jd_result_retention_unix_ms (rb_deadlines b)"
  shows "reconcile X r (Some (encode_receipt rc)) token now =
    Inr (Recovered (r\<lparr>jr_stage := stage_of_outcome (rb_outcome b),
                      jr_updated_unix_ms := rb_completed_unix_ms b\<rparr>) b)"
  using issue_decodes [OF assms(1-3)] issue_verifies [OF assms(1,8-10)] assms(1,4-7)
  by (auto simp: reconcile_eq_Inr issue_eq_Inr)

theorem issued_receipt_recovers_witness:
  "reconcile sample_ext sample_job (Some (encode_receipt sample_receipt)) sample_token 950 =
     Inr (Recovered (sample_job\<lparr>jr_stage := Completed, jr_updated_unix_ms := 900\<rparr>) sample_body)"
  using issued_receipt_recovers [OF sample_issued(1) sample_laws(1) sample_issued(2),
      of sample_job 950]
  by (simp add: sample_defs)

text \<open>One authentication code cannot vouch for two different results: if two receipts with the
  same token and the same code both verify, they carry the same body, or the code collides on the two
  explicit messages.\<close>

theorem receipt_mac_binding:
  assumes "decode_receipt bs1 = Inr r1" and "decode_receipt bs2 = Inr r2"
    and "verify X r1 i1 d1 u1 m1 token now1 = Inr b1"
    and "verify X r2 i2 d2 u2 m2 token now2 = Inr b2" and "ar_mac r1 = ar_mac r2"
  shows "b1 = b2 \<or>
    (let msg = (\<lambda>b. RECEIPT_MAC_DOMAIN @ canonical_receipt_body b @ hash_token X token)
     in msg b1 \<noteq> msg b2 \<and> jobs_hmac X token (msg b1) = jobs_hmac X token (msg b2))"
  using assms canonical_receipt_body_inject [of r1 r2]
  by (auto simp: decode_receipt_eq_Inr verify_eq_Inr Let_def)

theorem receipt_mac_binding_witness:
  "\<exists>r b. verify sample_ext r sample_identity sample_deadlines 1000 4096 sample_token 950 = Inr b \<and>
     b = sample_body"
  using receipt_mac_binding [OF sample_decodes sample_decodes sample_verifies sample_verifies]
    sample_verifies by blast

text \<open>The journal of a job restores it: at every point of a job's life the record that was
  written is the record that is read back.\<close>

theorem job_journal_round_trip:
  assumes "submitted i d uid budget t = Inr r" and "run_steps (job_apply X) r evs = Inr r'"
    and "wf_identity i" and "journal_laws X" and "encode_journal X r' = Inr bs"
  shows "decode_journal X bs = Inr r'"
proof -
  have "job_ok r'" using job_record.inv_run [OF submitted_ok [OF assms(1)] assms(2)] .
  moreover have "jr_identity r' = i"
    using assms(1) job_run_same [OF assms(2)] by (auto simp: same_job_def submitted_def result_simps)
  ultimately show ?thesis using journal_round_trip_lemma assms(3-5) by blast
qed

theorem job_journal_round_trip_witness:
  "decode_journal sample_ext [123, 125] =
     Inr (sample_job\<lparr>jr_stage := Running, jr_updated_unix_ms := 200\<rparr>)"
  by (rule job_journal_round_trip [OF sample_submitted sample_running sample_issued(3) sample_laws(2)
      sample_journal])

end
