(* ===== verification/Files.thy ===== *)
theory Files
  imports Serctl_Prelude
begin

text \<open>
  The file system as the crates see it through the standard library: one directory, with an optional
  root inode, entries that name inode numbers, and a table of inodes. An open file is its inode
  number. Fallible operations on the directory are functions from the directory to the directory and
  a result, the actions of the prelude.
\<close>

section \<open>The directory\<close>

datatype file_kind = Regular | Directory | Symlink | Special

record inode =
  in_kind :: file_kind
  in_uid :: u32
  in_mode :: u32
  in_bytes :: bytes

record dir_state =
  ds_root :: "inode option"
  ds_entries :: "string \<Rightarrow> nat option"
  ds_inodes :: "nat \<Rightarrow> inode"
  ds_next :: nat

definition lookup :: "dir_state \<Rightarrow> string \<Rightarrow> inode option" where
  "lookup ds name = map_option (ds_inodes ds) (ds_entries ds name)"

definition wf_dir :: "dir_state \<Rightarrow> bool" where
  "wf_dir ds \<longleftrightarrow> (\<forall>name i. ds_entries ds name = Some i \<longrightarrow> i < ds_next ds)"

lemma lookup_root [simp]: "lookup (ds\<lparr>ds_root := x\<rparr>) = lookup ds"
  by (rule ext) (simp add: lookup_def)

lemma wf_dir_root [simp]: "wf_dir (ds\<lparr>ds_root := x\<rparr>) = wf_dir ds"
  by (simp add: wf_dir_def)

section \<open>Atomic replacement\<close>

text \<open>What is documented of an atomic replacement: it puts the whole new file, a fresh one, under its
  name and leaves every other name alone.\<close>

definition replace_laws :: "(dir_state \<Rightarrow> string \<Rightarrow> u32 \<Rightarrow> bytes \<Rightarrow> dir_state res) \<Rightarrow> bool" where
  "replace_laws A \<longleftrightarrow>
     (\<forall>ds path mode bs ds'. A ds path mode bs = Inr ds' \<longrightarrow> wf_dir ds \<longrightarrow>
        wf_dir ds' \<and> ds_root ds' = ds_root ds \<and>
        (\<forall>n. n \<noteq> path \<longrightarrow> ds_entries ds' n = ds_entries ds n \<and> lookup ds' n = lookup ds n \<and>
             (ds_entries ds n = None \<or> ds_entries ds n \<noteq> ds_entries ds' path)) \<and>
        (\<exists>f. lookup ds' path = Some f \<and> in_kind f = Regular \<and> in_mode f = mode \<and> in_bytes f = bs))"

text \<open>A replacement that follows them.\<close>

definition put_file :: "u32 \<Rightarrow> dir_state \<Rightarrow> string \<Rightarrow> u32 \<Rightarrow> bytes \<Rightarrow> dir_state res" where
  "put_file uid ds path mode bs =
     Inr (ds\<lparr>ds_entries := (ds_entries ds)(path \<mapsto> ds_next ds),
             ds_inodes := (ds_inodes ds)(ds_next ds :=
               \<lparr>in_kind = Regular, in_uid = uid, in_mode = mode, in_bytes = bs\<rparr>),
             ds_next := Suc (ds_next ds)\<rparr>)"

lemma put_file_laws: "replace_laws (put_file uid)"
  unfolding replace_laws_def
proof (intro allI impI)
  fix ds path mode bs ds'
  assume r: "put_file uid ds path mode bs = Inr ds'" and wf: "wf_dir ds"
  have "ds_entries ds n \<noteq> Some (ds_next ds)" for n using wf by (force simp: wf_dir_def)
  then have "ds_entries ds' n = ds_entries ds n \<and> lookup ds' n = lookup ds n \<and>
      (ds_entries ds n = None \<or> ds_entries ds n \<noteq> ds_entries ds' path)" if "n \<noteq> path" for n
    using r that by (cases "ds_entries ds n") (auto simp: put_file_def lookup_def)
  moreover have "wf_dir ds'"
    using r wf by (auto simp: put_file_def wf_dir_def split: if_splits) (metis less_SucI)
  moreover have "ds_root ds' = ds_root ds"
    "lookup ds' path = Some \<lparr>in_kind = Regular, in_uid = uid, in_mode = mode, in_bytes = bs\<rparr>"
    using r by (auto simp: put_file_def lookup_def)
  ultimately show "wf_dir ds' \<and> ds_root ds' = ds_root ds \<and>
      (\<forall>n. n \<noteq> path \<longrightarrow> ds_entries ds' n = ds_entries ds n \<and> lookup ds' n = lookup ds n \<and>
        (ds_entries ds n = None \<or> ds_entries ds n \<noteq> ds_entries ds' path)) \<and>
      (\<exists>f. lookup ds' path = Some f \<and> in_kind f = Regular \<and> in_mode f = mode \<and> in_bytes f = bs)"
    by simp
qed

section \<open>Fallible operations on the directory\<close>

type_synonym 'a fs = "(dir_state, 'a) action"

end
