(* ===== verification/Job_Store.thy ===== *)
theory Job_Store
  imports Jobs Files
begin

text \<open>
  The store of protected job files (\<open>JobStore\<close> and the functions below it in
  crates/serctl_jobs/src/lib.rs, the Linux versions).

  The store works on the directory of theory Files; synchronising calls have no effect on it.
  \<open>create_new_private\<close> returns, besides its result, every intermediate
  state a crash can leave behind, partial writes included. Random job ids, the process
  status file and a possible write fault are arguments; the atomic replacement of a file is another
  crate and is a parameter.
\<close>

section \<open>The process\<close>

record process_env =
  pe_euid :: u32
  pe_status :: "string option"
  pe_random_ids :: "job_id list"
  pe_write_fault :: "nat option"
  pe_atomic_replace :: "dir_state \<Rightarrow> string \<Rightarrow> u32 \<Rightarrow> bytes \<Rightarrow> dir_state res"

section \<open>Process identity\<close>

definition is_ascii_whitespace :: "char \<Rightarrow> bool" where
  "is_ascii_whitespace c \<longleftrightarrow> char_code c \<in> {9, 10, 12, 13, 32}"

fun split_ascii_whitespace :: "string \<Rightarrow> string \<Rightarrow> string list" where
  "split_ascii_whitespace acc [] = (if acc = [] then [] else [acc])"
| "split_ascii_whitespace acc (c # cs) =
     (if is_ascii_whitespace c
      then (if acc = [] then [] else [acc]) @ split_ascii_whitespace [] cs
      else split_ascii_whitespace (acc @ [c]) cs)"

definition effective_uid :: "string option \<Rightarrow> u32 res" where
  "effective_uid status =
     and_then (ok_or status ''read process identity'') (\<lambda>status.
     and_then (ok_or (find (\<lambda>line. starts_with line ''Uid:'') (split_on (CHR 0x0A) status))
       ''process UID is unavailable'') (\<lambda>line.
     let fields = split_ascii_whitespace [] (drop 4 line) in
     and_then (if length fields > 1 then Inr (fields ! 1) else Inl ''effective UID is unavailable'')
       (\<lambda>field. ok_or (parse_u32 field) ''parse effective UID'')))"

definition owner_matches_current :: "u32 \<Rightarrow> u32 \<Rightarrow> bool" where
  "owner_matches_current owner_uid euid \<longleftrightarrow> owner_uid = euid"

section \<open>Protected files\<close>

definition ensure_existing_private_regular :: "process_env \<Rightarrow> dir_state \<Rightarrow> string \<Rightarrow> unit res" where
  "ensure_existing_private_regular E ds path =
     and_then (ok_or (lookup ds path) ''inspect protected file'') (\<lambda>metadata.
     ensure (in_kind metadata = Regular) ''protected path is not a regular file'' (
     ensure (in_kind metadata \<noteq> Symlink) ''protected path is a symlink'' (
     and_then (effective_uid (pe_status E)) (\<lambda>uid.
     ensure (owner_matches_current (in_uid metadata) uid) ''protected file owner mismatch'' (
     ensure (in_mode metadata AND 0x3F = 0) ''protected file grants group or other access'' (
     Inr ()))))))"

definition temporary_name :: "job_id \<Rightarrow> string" where
  "temporary_name job_id = ''.serctl-create-'' @ hex_lower job_id"

definition staged :: "process_env \<Rightarrow> dir_state \<Rightarrow> string \<Rightarrow> bytes \<Rightarrow> dir_state" where
  "staged E ds temporary bs =
     ds\<lparr>ds_entries := (ds_entries ds)(temporary := Some (ds_next ds)),
        ds_inodes := (ds_inodes ds)(ds_next ds :=
          \<lparr>in_kind = Regular, in_uid = pe_euid E, in_mode = 0x180, in_bytes = bs\<rparr>),
        ds_next := Suc (ds_next ds)\<rparr>"

definition remove_file :: "dir_state \<Rightarrow> string \<Rightarrow> dir_state" where
  "remove_file ds name = ds\<lparr>ds_entries := (ds_entries ds)(name := None)\<rparr>"

definition hard_link :: "dir_state \<Rightarrow> string \<Rightarrow> string \<Rightarrow> dir_state option" where
  "hard_link ds original link =
     (case (ds_entries ds original, ds_entries ds link) of
        (Some i, None) \<Rightarrow> Some (ds\<lparr>ds_entries := (ds_entries ds)(link := Some i)\<rparr>)
      | _ \<Rightarrow> None)"

definition create_new_private ::
  "process_env \<Rightarrow> dir_state \<Rightarrow> string \<Rightarrow> bytes \<Rightarrow> dir_state list \<times> dir_state \<times> unit res" where
  "create_new_private E ds path bs =
     (case find (\<lambda>candidate. ds_entries ds candidate = None) (map temporary_name (take 4 (pe_random_ids E))) of
        None \<Rightarrow> ([], ds, Inl ''exhausted protected temporary names'')
      | Some temporary \<Rightarrow>
          (let partial = (\<lambda>k. map (\<lambda>n. staged E ds temporary (take n bs)) [0 ..< Suc k]) in
           case pe_write_fault E of
             Some k \<Rightarrow>
               (partial k, remove_file (staged E ds temporary (take k bs)) temporary,
                Inl ''stage protected file'')
           | None \<Rightarrow>
               (let full = staged E ds temporary bs in
                case hard_link full temporary path of
                  None \<Rightarrow>
                    (partial (length bs), remove_file full temporary, Inl ''publish protected file'')
                | Some published \<Rightarrow>
                    if ds_entries published path \<noteq> ds_entries published temporary
                    then (partial (length bs), published,
                          Inl ''published protected file identity mismatch'')
                    else
                      (case ensure_existing_private_regular E published path of
                         Inl e \<Rightarrow> (partial (length bs) @ [published], published, Inl e)
                       | Inr _ \<Rightarrow>
                           (partial (length bs) @ [published], remove_file published temporary,
                            Inr ())))))"

definition write_atomic_private ::
  "process_env \<Rightarrow> dir_state \<Rightarrow> string \<Rightarrow> bytes \<Rightarrow> dir_state \<times> unit res" where
  "write_atomic_private E ds path bs =
     (case pe_atomic_replace E ds path 0x180 bs of
        Inl e \<Rightarrow> (ds, Inl e)
      | Inr ds \<Rightarrow> (ds, ensure_existing_private_regular E ds path))"

definition read_private_bounded ::
  "process_env \<Rightarrow> dir_state \<Rightarrow> string \<Rightarrow> nat \<Rightarrow> bytes res" where
  "read_private_bounded E ds path maximum =
     (case lookup ds path of
        None \<Rightarrow> Inl ''open protected file''
      | Some file \<Rightarrow>
          ensure (in_kind file \<noteq> Symlink) ''open protected file'' (
          ensure (in_kind file = Regular) ''protected path is not a regular file'' (
          and_then (effective_uid (pe_status E)) (\<lambda>uid.
          ensure (owner_matches_current (in_uid file) uid) ''protected file owner mismatch'' (
          ensure (in_mode file AND 0x3F = 0) ''protected file grants group or other access'' (
          ensure (length (in_bytes file) \<le> maximum) ''protected file is too large'' (
          let bs = take (maximum + 1) (in_bytes file) in
          ensure (length bs \<le> maximum) ''protected file is too large'' (
          Inr bs))))))))"

section \<open>The store\<close>

record job_store =
  js_root :: string

definition parent_components :: "string \<Rightarrow> bool" where
  "parent_components root \<longleftrightarrow> ''..'' \<in> set (split_on CHR ''/'' root)"

text \<open>\<open>Path::components\<close> of an absolute path never yields a current-directory component, so of
  the two traversal components only the parent directory can occur.\<close>

definition store_new :: "string \<Rightarrow> job_store res" where
  "store_new root =
     ensure (starts_with root ''/'') ''job store path must be absolute'' (
     ensure (\<not> parent_components root) ''job store path contains traversal components'' (
     ensure (length root \<le> 4096) ''job store path is too long'' (
     Inr \<lparr>js_root = root\<rparr>)))"

text \<open>Files are named relative to the store's root.\<close>

definition journal_path :: "job_id \<Rightarrow> string" where
  "journal_path job_id = hex_lower job_id @ ''.journal''"

definition receipt_path :: "job_id \<Rightarrow> string" where
  "receipt_path job_id = hex_lower job_id @ ''.receipt''"

definition validate_root :: "process_env \<Rightarrow> dir_state \<Rightarrow> unit res" where
  "validate_root E ds =
     and_then (ok_or (ds_root ds) ''inspect job store'') (\<lambda>metadata.
     ensure (in_kind metadata = Directory) ''job store is not a directory'' (
     ensure (in_kind metadata \<noteq> Symlink) ''job store is a symlink'' (
     and_then (effective_uid (pe_status E)) (\<lambda>uid.
     ensure (owner_matches_current (in_uid metadata) uid) ''job store owner mismatch'' (
     ensure (in_mode metadata AND 0x3F = 0) ''job store grants group or other access'' (
     Inr ()))))))"

definition prepare_root :: "process_env \<Rightarrow> dir_state \<Rightarrow> dir_state \<times> unit res" where
  "prepare_root E ds =
     (let ds = (if ds_root ds = None
                then ds\<lparr>ds_root := Some \<lparr>in_kind = Directory, in_uid = pe_euid E, in_mode = 0x1C0,
                                          in_bytes = []\<rparr>\<rparr>
                else ds) in
      case validate_root E ds of
        Inl e \<Rightarrow> (ds, Inl e)
      | Inr _ \<Rightarrow> (ds\<lparr>ds_root := map_option (\<lambda>i. i\<lparr>in_mode := 0x1C0\<rparr>) (ds_root ds)\<rparr>, Inr ()))"

text \<open>Operations that write return the states a crash can leave, the final state and the
  result.\<close>

definition create_journal ::
  "jobs_ext \<Rightarrow> process_env \<Rightarrow> dir_state \<Rightarrow> job_record \<Rightarrow> dir_state list \<times> dir_state \<times> string res" where
  "create_journal X E ds record =
     (case prepare_root E ds of
        (ds, Inl e) \<Rightarrow> ([], ds, Inl e)
      | (ds, Inr _) \<Rightarrow>
          (let path = journal_path (ji_job_id (jr_identity record)) in
           case encode_journal X record of
             Inl e \<Rightarrow> ([], ds, Inl e)
           | Inr bs \<Rightarrow>
               (case create_new_private E ds path bs of
                  (steps, ds, r) \<Rightarrow> (steps, ds, and_then r (\<lambda>_. Inr path)))))"

definition update_journal ::
  "jobs_ext \<Rightarrow> process_env \<Rightarrow> dir_state \<Rightarrow> job_record \<Rightarrow> dir_state \<times> unit res" where
  "update_journal X E ds record =
     (let path = journal_path (ji_job_id (jr_identity record)) in
      case and_then (validate_root E ds) (\<lambda>_.
           and_then (ensure_existing_private_regular E ds path) (\<lambda>_. encode_journal X record)) of
        Inl e \<Rightarrow> (ds, Inl e)
      | Inr bs \<Rightarrow> write_atomic_private E ds path bs)"

definition load_journal ::
  "jobs_ext \<Rightarrow> process_env \<Rightarrow> dir_state \<Rightarrow> job_id \<Rightarrow> job_record res" where
  "load_journal X E ds job_id =
     and_then (validate_root E ds) (\<lambda>_.
     and_then (read_private_bounded E ds (journal_path job_id) MAX_JOURNAL_BYTES) (\<lambda>bs.
     and_then (decode_journal X bs) (\<lambda>record.
     ensure (ji_job_id (jr_identity record) = job_id) ''journal job mismatch'' (
     Inr record))))"

definition persist_receipt ::
  "process_env \<Rightarrow> dir_state \<Rightarrow> authenticated_receipt \<Rightarrow> dir_state list \<times> dir_state \<times> string res" where
  "persist_receipt E ds receipt =
     (case prepare_root E ds of
        (ds, Inl e) \<Rightarrow> ([], ds, Inl e)
      | (ds, Inr _) \<Rightarrow>
          (let path = receipt_path (ji_job_id (rb_identity (ar_body receipt))) in
           case create_new_private E ds path (encode_receipt receipt) of
             (steps, ds, r) \<Rightarrow> (steps, ds, and_then r (\<lambda>_. Inr path))))"

definition load_receipt :: "process_env \<Rightarrow> dir_state \<Rightarrow> job_id \<Rightarrow> bytes res" where
  "load_receipt E ds job_id =
     and_then (validate_root E ds) (\<lambda>_.
     read_private_bounded E ds (receipt_path job_id) RECEIPT_BYTES)"

section \<open>Lemmas\<close>

subsection \<open>File names\<close>

lemma hex_digit_dot: "a < 16 \<Longrightarrow> hex_digit a \<noteq> CHR ''.''"
proof -
  have "\<forall>a\<in>{0..<16}. hex_digit a \<noteq> CHR ''.''"
    by (simp add: hex_digit_def atLeastLessThan_upt upt_rec)
  then show "a < 16 \<Longrightarrow> hex_digit a \<noteq> CHR ''.''" by simp
qed

lemma paths_distinct:
  "journal_path j = journal_path k \<longleftrightarrow> j = k"
  "receipt_path j = receipt_path k \<longleftrightarrow> j = k"
  "journal_path j \<noteq> receipt_path k"
  "receipt_path k \<noteq> journal_path j"
proof -
  have "last (journal_path j) = CHR ''l''" "last (receipt_path k) = CHR ''t''"
    by (simp_all add: journal_path_def receipt_path_def)
  then show "journal_path j \<noteq> receipt_path k" "receipt_path k \<noteq> journal_path j" by auto
qed (simp_all add: journal_path_def receipt_path_def hex_lower_inject)

subsection \<open>Creating a file\<close>

definition private_file :: "process_env \<Rightarrow> bytes \<Rightarrow> inode" where
  "private_file E bs = \<lparr>in_kind = Regular, in_uid = pe_euid E, in_mode = 0x180, in_bytes = bs\<rparr>"

lemma lookup_staged:
  assumes "wf_dir ds"
  shows "lookup (staged E ds t bs) n = (if n = t then Some (private_file E bs) else lookup ds n)"
proof -
  have "ds_entries ds n \<noteq> Some (ds_next ds)" using assms by (force simp: wf_dir_def)
  then show ?thesis
    by (cases "ds_entries ds n") (auto simp: lookup_def staged_def private_file_def)
qed

lemma lookup_remove: "lookup (remove_file ds t) n = (if n = t then None else lookup ds n)"
  by (simp add: lookup_def remove_file_def)

lemma lookup_hard_link:
  "hard_link ds t p = Some ds' \<longleftrightarrow>
     (\<exists>i. ds_entries ds t = Some i \<and> ds_entries ds p = None \<and>
          ds' = ds\<lparr>ds_entries := (ds_entries ds)(p \<mapsto> i)\<rparr>)"
  by (auto simp: hard_link_def split: option.splits)

lemma wf_dir_steps:
  "wf_dir ds \<Longrightarrow> wf_dir (staged E ds t bs)"
  "wf_dir ds \<Longrightarrow> wf_dir (remove_file ds t)"
  "wf_dir ds \<Longrightarrow> hard_link ds t p = Some ds' \<Longrightarrow> wf_dir ds'"
  by (fastforce simp: wf_dir_def staged_def remove_file_def lookup_hard_link split: if_splits)+

text \<open>What a state may show of the directory once a write of \<open>bs\<close> to \<open>path\<close> has begun:
  every file there was is as it was, and \<open>path\<close> is untouched or holds all of \<open>bs\<close>.\<close>

definition crash_ok :: "process_env \<Rightarrow> dir_state \<Rightarrow> string \<Rightarrow> bytes \<Rightarrow> dir_state \<Rightarrow> bool" where
  "crash_ok E ds path bs ds' \<longleftrightarrow>
     ds_root ds' = ds_root ds \<and>
     (\<forall>n f. lookup ds n = Some f \<longrightarrow> lookup ds' n = Some f) \<and>
     lookup ds' path \<in> {lookup ds path, Some (private_file E bs)}"

lemma temporary_name_fresh:
  "temporary_name t \<noteq> journal_path j" "temporary_name t \<noteq> receipt_path j"
proof -
  have "hex_lower j = [] \<or> hd (hex_lower j) \<noteq> CHR ''.''"
  proof (cases j)
    case (Cons b bs)
    have "unat b div 16 < 16" using unat_less [of b] by (simp add: div_less_iff_less_mult)
    with Cons show ?thesis by (simp add: hex_lower_Cons hex_digit_dot)
  qed (simp add: hex_lower_def)
  then show "temporary_name t \<noteq> journal_path j" "temporary_name t \<noteq> receipt_path j"
    by (cases "hex_lower j"; simp add: temporary_name_def journal_path_def receipt_path_def)+
qed

lemma find_candidate:
  "find (\<lambda>c. ds_entries ds c = None) (map temporary_name ids) = Some t \<Longrightarrow>
     lookup ds t = None \<and> t \<in> range temporary_name"
  by (auto simp: find_Some_iff lookup_def)

lemma lookup_published:
  assumes "wf_dir ds" "hard_link (staged E ds t bs) t path = Some pub"
  shows "lookup pub n = (if n = path then Some (private_file E bs) else lookup (staged E ds t bs) n)"
  using assms(2) by (auto simp: lookup_hard_link) (simp_all add: lookup_def staged_def private_file_def)

lemma root_steps:
  "ds_root (staged E ds t bs) = ds_root ds"
  "ds_root (remove_file ds t) = ds_root ds"
  "hard_link ds t p = Some ds' \<Longrightarrow> ds_root ds' = ds_root ds"
  by (auto simp: staged_def remove_file_def lookup_hard_link)

text \<open>The states of a write to \<open>path\<close> staged under the free name \<open>t\<close>.\<close>

lemma crash_ok_steps:
  assumes wf: "wf_dir ds" and t: "lookup ds t = None" "t \<noteq> path"
  shows "crash_ok E ds path bs (staged E ds t cs)"
    and "crash_ok E ds path bs (remove_file (staged E ds t cs) t)"
    and "hard_link (staged E ds t bs) t path = Some pub \<Longrightarrow> crash_ok E ds path bs pub"
    and "hard_link (staged E ds t bs) t path = Some pub \<Longrightarrow>
      crash_ok E ds path bs (remove_file pub t)"
proof -
  show "crash_ok E ds path bs (staged E ds t cs)"
    "crash_ok E ds path bs (remove_file (staged E ds t cs) t)"
    using wf t by (auto simp: crash_ok_def lookup_staged lookup_remove root_steps)
next
  assume pub: "hard_link (staged E ds t bs) t path = Some pub"
  then have "lookup ds path = None"
    using t(2) by (auto simp: lookup_hard_link lookup_def staged_def)
  with pub show "crash_ok E ds path bs pub" "crash_ok E ds path bs (remove_file pub t)"
    using wf t by (auto simp: crash_ok_def lookup_staged lookup_remove root_steps
        lookup_published [OF wf pub])
qed

lemma hard_link_taken:
  "path \<noteq> t \<Longrightarrow> lookup ds path = Some f \<Longrightarrow> hard_link (staged E ds t bs) t path = None"
  by (auto simp: hard_link_def staged_def lookup_def split: option.splits)

lemma hard_link_free:
  assumes "path \<noteq> t" "hard_link (staged E ds t bs) t path = Some pub"
  shows "lookup ds path = None" "ds_entries pub path = ds_entries pub t"
  using assms by (auto simp: lookup_hard_link staged_def lookup_def)

lemma create_new_private_cases:
  assumes "create_new_private E ds path bs = (steps, ds', r)"
  obtains (exhausted) e where "steps = []" "ds' = ds" "r = Inl e"
    "find (\<lambda>c. ds_entries ds c = None) (map temporary_name (take 4 (pe_random_ids E))) = None"
  | (withdrawn) t e cs where "lookup ds t = None" "t \<in> range temporary_name"
      "set steps \<subseteq> range (staged E ds t)"
      "ds' = remove_file (staged E ds t cs) t" "r = Inl e"
  | (mismatch) t e pub where "lookup ds t = None" "t \<in> range temporary_name"
      "hard_link (staged E ds t bs) t path = Some pub"
      "set steps \<subseteq> insert pub (range (staged E ds t))"
      "ds' = pub" "r = Inl e"
  | (published) t pub where "lookup ds t = None" "t \<in> range temporary_name"
      "hard_link (staged E ds t bs) t path = Some pub"
      "set steps \<subseteq> insert pub (range (staged E ds t))"
      "ds' = remove_file pub t" "r = Inr ()" "ensure_existing_private_regular E pub path = Inr ()"
proof (cases "find (\<lambda>c. ds_entries ds c = None) (map temporary_name (take 4 (pe_random_ids E)))")
  case None
  with assms exhausted show ?thesis by (auto simp: create_new_private_def)
next
  case (Some t)
  note t = find_candidate [OF Some]
  let ?full = "staged E ds t bs"
  show ?thesis
  proof (cases "pe_write_fault E")
    case (Some k)
    then show ?thesis
      using assms t \<open>find _ _ = Some t\<close>
      by (intro withdrawn [of t "take k bs"]) (auto simp: create_new_private_def Let_def)
  next
    case None
    note c = assms [unfolded create_new_private_def Let_def \<open>find _ _ = Some t\<close> None, simplified]
    show ?thesis
    proof (cases "hard_link ?full t path")
      case None
      with c t show ?thesis by (intro withdrawn [of t bs]) auto
    next
      case (Some pub)
      show ?thesis
      proof (cases "ds_entries pub path = ds_entries pub t \<and>
          ensure_existing_private_regular E pub path = Inr ()")
        case True
        with c Some t show ?thesis by (intro published [of t pub]) auto
      next
        case False
        with c Some t have "set steps \<subseteq> insert pub (range (staged E ds t)) \<and> ds' = pub \<and> isl r"
          by (cases "ensure_existing_private_regular E pub path") (auto split: if_splits dest: sym)
        with Some t show ?thesis by (intro mismatch [of t pub "projl r"]) auto
      qed
    qed
  qed
qed

lemma create_new_private_spec:
  assumes wf: "wf_dir ds" and c: "create_new_private E ds path bs = (steps, ds', r)"
    and path: "path \<notin> range temporary_name"
  shows "list_all (crash_ok E ds path bs) (steps @ [ds'])"
    and "wf_dir ds'"
    and "r = Inr u \<Longrightarrow> lookup ds path = None \<and>
      (\<forall>n. lookup ds' n = (if n = path then Some (private_file E bs) else lookup ds n))"
    and "lookup ds path = Some f \<Longrightarrow> (\<exists>e. r = Inl e) \<and> (\<forall>n. lookup ds' n = lookup ds n)"
proof -
  have ok: "crash_ok E ds path bs ds" by (simp add: crash_ok_def)
  from c show "list_all (crash_ok E ds path bs) (steps @ [ds'])"
    by (cases rule: create_new_private_cases)
      (use wf path ok in \<open>auto simp: list_all_iff intro: crash_ok_steps\<close>)
  from c show "wf_dir ds'"
    by (cases rule: create_new_private_cases) (use wf in \<open>auto intro: wf_dir_steps(1,2) wf_dir_steps(3) [OF wf_dir_steps(1)]\<close>)
  from c show "r = Inr u \<Longrightarrow> lookup ds path = None \<and>
      (\<forall>n. lookup ds' n = (if n = path then Some (private_file E bs) else lookup ds n))"
    by (cases rule: create_new_private_cases)
      (use wf path in \<open>auto simp: lookup_remove lookup_published lookup_staged
         dest: hard_link_free(1) [rotated]\<close>)
  from c show "lookup ds path = Some f \<Longrightarrow> (\<exists>e. r = Inl e) \<and> (\<forall>n. lookup ds' n = lookup ds n)"
    by (cases rule: create_new_private_cases)
      (use wf path in \<open>auto simp: lookup_remove lookup_staged dest: hard_link_free(1) [rotated]\<close>)
qed

subsection \<open>The store's operations\<close>

definition root_ok :: "process_env \<Rightarrow> dir_state \<Rightarrow> bool" where
  "root_ok E ds \<longleftrightarrow>
     (\<exists>i. ds_root ds = Some i \<and> in_kind i = Directory \<and> in_mode i AND 0x3F = 0 \<and>
          effective_uid (pe_status E) = Inr (in_uid i))"

lemma validate_root_eq_Inr: "validate_root E ds = Inr () \<longleftrightarrow> root_ok E ds"
  by (cases "ds_root ds")
    (auto simp: validate_root_def root_ok_def owner_matches_current_def result_simps)

lemma prepare_root_files:
  assumes "prepare_root E ds = (ds1, r)"
  shows "lookup ds1 = lookup ds" "wf_dir ds1 \<longleftrightarrow> wf_dir ds"
  using assms by (auto simp: prepare_root_def Let_def split: sum.splits if_splits)

lemma prepare_root_keeps:
  assumes "prepare_root E ds = (ds1, r)" "root_ok E' ds"
  shows "root_ok E' ds1"
  using assms
  by (auto simp: prepare_root_def Let_def root_ok_def split: sum.splits if_splits)

lemma prepare_root_ok:
  assumes "prepare_root E ds = (ds1, Inr u)"
  shows "root_ok E ds1"
  using assms
  by (auto simp: prepare_root_def Let_def validate_root_eq_Inr root_ok_def split: sum.splits if_splits)

lemma prepare_root_total:
  assumes "ds_root ds = None \<or> root_ok E ds" "effective_uid (pe_status E) = Inr (pe_euid E)"
  shows "\<exists>ds1. prepare_root E ds = (ds1, Inr ())"
proof -
  let ?d = "if ds_root ds = None
                then ds\<lparr>ds_root := Some \<lparr>in_kind = Directory, in_uid = pe_euid E, in_mode = 0x1C0,
                                          in_bytes = []\<rparr>\<rparr>
                else ds"
  have "root_ok E ?d" using assms by (auto simp: root_ok_def)
  then have "validate_root E ?d = Inr ()" by (simp only: validate_root_eq_Inr)
  then show ?thesis by (simp add: prepare_root_def Let_def)
qed

lemma read_private_bounded_eq_Inr:
  "read_private_bounded E ds path n = Inr bs \<longleftrightarrow>
     (\<exists>f. lookup ds path = Some f \<and> in_kind f = Regular \<and> in_mode f AND 0x3F = 0 \<and>
          effective_uid (pe_status E) = Inr (in_uid f) \<and> length (in_bytes f) \<le> n \<and>
          bs = in_bytes f)"
  by (cases "lookup ds path")
    (auto simp: read_private_bounded_def owner_matches_current_def result_simps Let_def)

lemma ensure_existing_eq_Inr:
  "ensure_existing_private_regular E ds path = Inr () \<longleftrightarrow>
     (\<exists>f. lookup ds path = Some f \<and> in_kind f = Regular \<and> in_mode f AND 0x3F = 0 \<and>
          effective_uid (pe_status E) = Inr (in_uid f))"
  by (cases "lookup ds path")
    (auto simp: ensure_existing_private_regular_def owner_matches_current_def result_simps)

lemma create_states_wf:
  assumes "wf_dir ds" "create_new_private E ds path bs = (steps, ds', r)" "s \<in> set (steps @ [ds'])"
  shows "wf_dir s"
  using assms(2)
proof (cases rule: create_new_private_cases)
  case exhausted
  then show ?thesis using assms by simp
qed (use assms in \<open>auto intro: wf_dir_steps(1,2) wf_dir_steps(3) [OF wf_dir_steps(1)]\<close>)

lemma create_keeps:
  assumes "wf_dir ds" "create_new_private E ds path bs = (steps, ds', r)" "s \<in> set (steps @ [ds'])"
    and "path \<notin> range temporary_name"
  shows "ds_root s = ds_root ds" "lookup ds n = Some f \<Longrightarrow> lookup s n = Some f"
    "lookup s path = Some f \<Longrightarrow> lookup ds path = Some f \<or> f = private_file E bs"
  using create_new_private_spec(1) [OF assms(1,2,4)] assms(3)
  by (auto simp: list_all_iff crash_ok_def)

lemma path_names: "journal_path j \<notin> range temporary_name" "receipt_path j \<notin> range temporary_name"
  using temporary_name_fresh by (metis imageE)+

lemma create_journal_cases:
  assumes "create_journal X E ds record = (states, ds', r)"
  obtains (early) r1 e where "prepare_root E ds = (ds', r1)" "states = []" "r = Inl e"
  | (written) ds1 bs r1 where "prepare_root E ds = (ds1, Inr ())" "encode_journal X record = Inr bs"
      "create_new_private E ds1 (journal_path (ji_job_id (jr_identity record))) bs = (states, ds', r1)"
      "r = and_then r1 (\<lambda>_. Inr (journal_path (ji_job_id (jr_identity record))))"
  using assms by (auto simp: create_journal_def Let_def split: prod.splits sum.splits)

lemma persist_receipt_cases:
  assumes "persist_receipt E ds receipt = (states, ds', r)"
  obtains (early) r1 e where "prepare_root E ds = (ds', r1)" "states = []" "r = Inl e"
  | (written) ds1 r1 where "prepare_root E ds = (ds1, Inr ())"
      "create_new_private E ds1 (receipt_path (ji_job_id (rb_identity (ar_body receipt))))
         (encode_receipt receipt) = (states, ds', r1)"
      "r = and_then r1 (\<lambda>_. Inr (receipt_path (ji_job_id (rb_identity (ar_body receipt)))))"
  using assms by (auto simp: persist_receipt_def Let_def split: prod.splits sum.splits)

subsection \<open>Steps of the store\<close>

text \<open>One operation of the store, run to its end or cut short by a crash. Every operation may run in
  its own process; only the replacement primitive \<open>A\<close> is the same.\<close>

inductive store_step ::
  "jobs_ext \<Rightarrow> (dir_state \<Rightarrow> string \<Rightarrow> u32 \<Rightarrow> bytes \<Rightarrow> dir_state res) \<Rightarrow> dir_state \<Rightarrow> dir_state \<Rightarrow> bool"
  for X A where
  step_create_journal: "create_journal X E ds record = (states, ds', r) \<Longrightarrow> s \<in> set (states @ [ds']) \<Longrightarrow>
    store_step X A ds s"
| step_update_journal: "pe_atomic_replace E = A \<Longrightarrow> update_journal X E ds record = (s, r) \<Longrightarrow>
    store_step X A ds s"
| step_persist_receipt: "persist_receipt E ds receipt = (states, ds', r) \<Longrightarrow>
    s \<in> set (states @ [ds']) \<Longrightarrow> store_step X A ds s"

text \<open>Both creating operations leave, in every state they pass through, all earlier files and the
  protection of the root.\<close>

lemma written_keeps:
  assumes p: "prepare_root E ds = (ds1, u)" and wf: "wf_dir ds"
    and c: "create_new_private E ds1 path bs = (states, ds', r)" and s: "s \<in> set (states @ [ds'])"
    and path: "path \<notin> range temporary_name"
  shows "wf_dir s" "lookup ds n = Some f \<Longrightarrow> lookup s n = Some f" "root_ok E' ds \<Longrightarrow> root_ok E' s"
    "lookup s path = Some f \<Longrightarrow> lookup ds path = Some f \<or> f = private_file E bs"
proof -
  have wf1: "wf_dir ds1" using wf prepare_root_files(2) [OF p] by simp
  show "wf_dir s" by (rule create_states_wf [OF wf1 c s])
  show "lookup ds n = Some f \<Longrightarrow> lookup s n = Some f"
    using create_keeps(2) [OF wf1 c s path] prepare_root_files(1) [OF p] by simp
  show "root_ok E' ds \<Longrightarrow> root_ok E' s"
    using create_keeps(1) [OF wf1 c s path] prepare_root_keeps [OF p] by (simp add: root_ok_def)
  show "lookup s path = Some f \<Longrightarrow> lookup ds path = Some f \<or> f = private_file E bs"
    using create_keeps(3) [OF wf1 c s path] prepare_root_files(1) [OF p] by simp
qed

lemma update_journal_keeps:
  assumes "update_journal X E ds record = (s, r)" "replace_laws (pe_atomic_replace E)" "wf_dir ds"
  shows "wf_dir s" "ds_root s = ds_root ds"
    "n \<noteq> journal_path (ji_job_id (jr_identity record)) \<Longrightarrow> lookup s n = lookup ds n"
  using assms
  by (auto simp: update_journal_def write_atomic_private_def Let_def replace_laws_def split: sum.splits)

lemma store_step_keeps:
  assumes "store_step X A ds s" "wf_dir ds" "replace_laws A"
  shows "wf_dir s \<and> (root_ok E ds \<longrightarrow> root_ok E s) \<and>
    (\<forall>j f. lookup ds (receipt_path j) = Some f \<longrightarrow> lookup s (receipt_path j) = Some f)"
  using assms
proof (induction rule: store_step.induct)
  case (step_create_journal E' ds jr states ds' r s)
  from step_create_journal(1) show ?case
  proof (cases rule: create_journal_cases)
    case early
    with step_create_journal prepare_root_keeps [OF early(1)] show ?thesis
      by (simp add: prepare_root_files [OF early(1)])
  next
    case written
    with step_create_journal written_keeps [OF written(1) _ written(3) _ path_names(1)] show ?thesis by blast
  qed
next
  case (step_update_journal E' ds jr s r)
  then show ?case using update_journal_keeps [of X E' ds jr s r]
    by (simp add: paths_distinct root_ok_def)
next
  case (step_persist_receipt E' ds receipt states ds' r s)
  from step_persist_receipt(1) show ?case
  proof (cases rule: persist_receipt_cases)
    case early
    with step_persist_receipt prepare_root_keeps [OF early(1)] show ?thesis
      by (simp add: prepare_root_files [OF early(1)])
  next
    case written
    with step_persist_receipt written_keeps [OF written(1) _ written(2) _ path_names(2)] show ?thesis by blast
  qed
qed

text \<open>A store whose entries, once visible, stay: what its clients may rely on over any number of
  steps.\<close>

locale write_once_store =
  fixes step :: "'s \<Rightarrow> 's \<Rightarrow> bool" and inv :: "'s \<Rightarrow> bool" and entry :: "'s \<Rightarrow> 'k \<Rightarrow> 'v option"
  assumes step_inv: "inv s \<Longrightarrow> step s t \<Longrightarrow> inv t"
    and step_entry: "inv s \<Longrightarrow> step s t \<Longrightarrow> entry s k = Some v \<Longrightarrow> entry t k = Some v"
begin

lemma reach_inv: "step\<^sup>*\<^sup>* s t \<Longrightarrow> inv s \<Longrightarrow> inv t"
  by (induction rule: rtranclp_induct) (auto intro: step_inv)

lemma reach_entry: "step\<^sup>*\<^sup>* s t \<Longrightarrow> inv s \<Longrightarrow> entry s k = Some v \<Longrightarrow> entry t k = Some v"
  by (induction rule: rtranclp_induct) (auto intro: step_entry reach_inv)

end

lemma load_receipt_eq_Inr:
  "load_receipt E ds j = Inr bs \<longleftrightarrow>
     root_ok E ds \<and> read_private_bounded E ds (receipt_path j) RECEIPT_BYTES = Inr bs"
  by (simp add: load_receipt_def and_then_eq_Inr validate_root_eq_Inr)

definition receipt_entry :: "process_env \<Rightarrow> dir_state \<Rightarrow> job_id \<Rightarrow> bytes option" where
  "receipt_entry E ds j = (case load_receipt E ds j of Inl _ \<Rightarrow> None | Inr bs \<Rightarrow> Some bs)"

lemma receipt_entry_eq_Some: "receipt_entry E ds j = Some bs \<longleftrightarrow> load_receipt E ds j = Inr bs"
  by (auto simp: receipt_entry_def split: sum.splits)

interpretation receipt_store: write_once_store
  "\<lambda>s t. store_step X A s t \<and> replace_laws A" wf_dir "receipt_entry E"
proof unfold_locales
  fix ds s
  assume wf: "wf_dir ds" and step: "store_step X A ds s \<and> replace_laws A"
  note k = store_step_keeps [OF conjunct1 [OF step] wf conjunct2 [OF step]]
  show "wf_dir s" using k by blast
  fix j bs
  assume "receipt_entry E ds j = Some bs"
  with k show "receipt_entry E s j = Some bs"
    by (auto simp: receipt_entry_eq_Some load_receipt_eq_Inr read_private_bounded_eq_Inr)
qed

lemma create_success_uid:
  assumes "wf_dir ds" "create_new_private E ds path bs = (steps, ds', Inr u)"
  shows "effective_uid (pe_status E) = Inr (pe_euid E)"
  using assms(2)
proof (cases rule: create_new_private_cases)
  case (published t pub)
  then show ?thesis
    using lookup_published [OF assms(1) published(3)]
    by (auto simp: ensure_existing_eq_Inr private_file_def)
qed simp_all

lemma created_file:
  assumes p: "prepare_root E ds = (ds1, Inr u)" and wf: "wf_dir ds"
    and c: "create_new_private E ds1 path bs = (states, ds', Inr v)"
    and path: "path \<notin> range temporary_name"
  shows "root_ok E ds'" "lookup ds path = None"
    "lookup ds' n = (if n = path then Some (private_file E bs) else lookup ds n)"
    "length bs \<le> m \<Longrightarrow> read_private_bounded E ds' path m = Inr bs"
proof -
  have wf1: "wf_dir ds1" using wf prepare_root_files(2) [OF p] by simp
  note spec = create_new_private_spec(3) [OF wf1 c path refl]
  show "root_ok E ds'"
    using prepare_root_ok [OF p] create_keeps(1) [OF wf1 c _ path, of ds'] by (simp add: root_ok_def)
  show "lookup ds path = None"
    "lookup ds' n = (if n = path then Some (private_file E bs) else lookup ds n)"
    using spec by (simp_all add: prepare_root_files(1) [OF p])
  show "length bs \<le> m \<Longrightarrow> read_private_bounded E ds' path m = Inr bs"
    using spec create_success_uid [OF wf1 c]
    by (simp add: read_private_bounded_eq_Inr private_file_def)
qed

lemma create_new_private_total:
  assumes wf: "wf_dir ds" and t: "find (\<lambda>c. ds_entries ds c = None) (map temporary_name (take 4 (pe_random_ids E))) = Some t"
    and "pe_write_fault E = None" and free: "ds_entries ds path = None" "path \<notin> range temporary_name"
    and uid: "effective_uid (pe_status E) = Inr (pe_euid E)"
  shows "\<exists>steps ds'. create_new_private E ds path bs = (steps, ds', Inr ())"
proof -
  have ne: "path \<noteq> t" using find_candidate [OF t] free(2) by auto
  obtain pub where pub: "hard_link (staged E ds t bs) t path = Some pub"
    using ne free(1) by (auto simp: hard_link_def staged_def)
  have "ensure_existing_private_regular E pub path = Inr ()"
    using uid by (simp add: ensure_existing_eq_Inr lookup_published [OF wf pub] private_file_def)
  moreover have "ds_entries pub path = ds_entries pub t" by (rule hard_link_free(2) [OF ne pub])
  ultimately show ?thesis using assms pub by (simp add: create_new_private_def Let_def)
qed

lemma length_encode_receipt: "wf_receipt r \<Longrightarrow> length (encode_receipt r) = RECEIPT_BYTES"
  using length_receipt_fields [of r] receipt_prefix
  by (simp add: encode_receipt_fields RECEIPT_BYTES_def)

lemma store_reach:
  "replace_laws A \<Longrightarrow> (store_step X A)\<^sup>*\<^sup>* s t \<Longrightarrow> (\<lambda>s t. store_step X A s t \<and> replace_laws A)\<^sup>*\<^sup>* s t"
  by (erule rtranclp_mono [THEN predicate2D, rotated]) blast

lemma load_journal_eq_Inr:
  "load_journal X E ds j = Inr r \<longleftrightarrow>
     root_ok E ds \<and> (\<exists>bs. read_private_bounded E ds (journal_path j) MAX_JOURNAL_BYTES = Inr bs \<and>
       decode_journal X bs = Inr r \<and> ji_job_id (jr_identity r) = j)"
  by (auto simp: load_journal_def and_then_eq_Inr validate_root_eq_Inr ensure_eq_Inr)

lemma encode_journal_bound: "encode_journal X r = Inr bs \<Longrightarrow> length bs \<le> MAX_JOURNAL_BYTES"
  by (auto simp: encode_journal_def Let_def result_simps)

lemma prepared_create_total:
  assumes "wf_dir ds" "ds_root ds = None \<or> validate_root E ds = Inr ()"
    "effective_uid (pe_status E) = Inr (pe_euid E)" "pe_write_fault E = None"
    "\<exists>i \<in> set (take 4 (pe_random_ids E)). ds_entries ds (temporary_name i) = None"
    "ds_entries ds path = None" "path \<notin> range temporary_name"
  shows "\<exists>ds1 states ds'. prepare_root E ds = (ds1, Inr ()) \<and>
    create_new_private E ds1 path bs = (states, ds', Inr ())"
proof -
  obtain ds1 where p: "prepare_root E ds = (ds1, Inr ())"
    using prepare_root_total assms(2,3) by (auto simp: validate_root_eq_Inr)
  have e: "ds_entries ds1 = ds_entries ds"
    using p by (auto simp: prepare_root_def Let_def split: sum.splits if_splits)
  obtain t where "find (\<lambda>c. ds_entries ds1 c = None) (map temporary_name (take 4 (pe_random_ids E))) = Some t"
    using assms(5) by (cases "find (\<lambda>c. ds_entries ds c = None) (map temporary_name (take 4 (pe_random_ids E)))")
      (auto simp: find_None_iff e)
  then have "\<exists>states ds'. create_new_private E ds1 path bs = (states, ds', Inr ())"
    using create_new_private_total [OF _ _ assms(4) _ assms(7,3), of ds1 t]
      assms(1,6) prepare_root_files(2) [OF p] e by metis
  with p show ?thesis by blast
qed

subsection \<open>A sample store\<close>

definition empty_dir :: dir_state where
  "empty_dir =
     \<lparr>ds_root = None, ds_entries = (\<lambda>_. None),
      ds_inodes = (\<lambda>_. \<lparr>in_kind = Regular, in_uid = 0, in_mode = 0, in_bytes = []\<rparr>), ds_next = 0\<rparr>"

definition sample_env :: process_env where
  "sample_env =
     \<lparr>pe_euid = 0,
      pe_status = Some (''Name:'' @ [CHR 0x09] @ ''serctl'' @ [CHR 0x0A] @ ''Uid:'' @ [CHR 0x09] @ ''0'' @
        [CHR 0x09] @ ''0'' @ [CHR 0x0A]),
      pe_random_ids = [replicate 16 9], pe_write_fault = None, pe_atomic_replace = put_file 0\<rparr>"

lemma sample_env_ok:
  "effective_uid (pe_status sample_env) = Inr (pe_euid sample_env)" "pe_write_fault sample_env = None"
  "wf_dir empty_dir" "lookup empty_dir n = None" "ds_root empty_dir = None" "ds_entries empty_dir n = None"
  "pe_atomic_replace sample_env = put_file 0"
proof -
  show "effective_uid (pe_status sample_env) = Inr (pe_euid sample_env)"
    by (simp add: sample_env_def effective_uid_def Let_def starts_with_def is_ascii_whitespace_def
        parse_u32_def char_code_def text_defs)
qed (simp_all add: sample_env_def empty_dir_def wf_dir_def lookup_def)

lemma sample_created:
  "path \<notin> range temporary_name \<Longrightarrow> \<exists>ds1 states ds'. prepare_root sample_env empty_dir = (ds1, Inr ()) \<and>
     create_new_private sample_env ds1 path bs = (states, ds', Inr ())"
  by (rule prepared_create_total) (simp_all add: sample_env_ok, simp add: sample_env_def)

lemma sample_persisted:
  "\<exists>states ds'. persist_receipt sample_env empty_dir sample_receipt =
     (states, ds', Inr (receipt_path (replicate 16 1))) \<and> wf_dir ds' \<and>
     lookup ds' (receipt_path (replicate 16 1)) = Some (private_file sample_env (encode_receipt sample_receipt)) \<and>
     load_receipt sample_env ds' (replicate 16 1) = Inr (encode_receipt sample_receipt)"
proof -
  have id: "ji_job_id (rb_identity (ar_body sample_receipt)) = replicate 16 1"
    by (simp add: sample_receipt_def sample_defs)
  obtain ds1 states ds' where p: "prepare_root sample_env empty_dir = (ds1, Inr ())"
    and c: "create_new_private sample_env ds1 (receipt_path (replicate 16 1))
      (encode_receipt sample_receipt) = (states, ds', Inr ())"
    using sample_created [OF path_names(2)] by blast
  note made = created_file [OF p sample_env_ok(3) c path_names(2)]
  have "wf_receipt sample_receipt" using sample_decodes by (simp add: decode_receipt_eq_Inr)
  with made p c show ?thesis
    using written_keeps(1) [OF p sample_env_ok(3) c _ path_names(2), of ds']
    by (simp add: persist_receipt_def Let_def id load_receipt_eq_Inr length_encode_receipt)
qed

section \<open>Properties\<close>

text \<open>C7: receipts are durable and immutable. Once a receipt can be loaded, every later load of that
  job's receipt returns the same bytes, whatever journals and receipts the store is asked to write
  afterwards, by whichever process, and wherever any of those writes is cut off by a crash.\<close>

theorem receipt_durable:
  assumes "(store_step X A)\<^sup>*\<^sup>* ds ds'" and "wf_dir ds" and "replace_laws A"
    and "load_receipt E ds j = Inr bs"
  shows "load_receipt E ds' j = Inr bs"
  using receipt_store.reach_entry [OF store_reach [OF assms(3,1)] assms(2)] assms(4)
  by (simp add: receipt_entry_eq_Some)

theorem receipt_durable_witness:
  "\<exists>ds ds'. store_step sample_ext (put_file 0) ds ds' \<and>
     load_receipt sample_env ds' (replicate 16 1) = Inr (encode_receipt sample_receipt)"
proof -
  obtain ds where ds: "wf_dir ds"
    "load_receipt sample_env ds (replicate 16 1) = Inr (encode_receipt sample_receipt)"
    using sample_persisted by blast
  obtain states ds' r where "persist_receipt sample_env ds sample_receipt = (states, ds', r)"
    by (cases "persist_receipt sample_env ds sample_receipt")
  then have "store_step sample_ext (put_file 0) ds ds'" by (auto intro: step_persist_receipt)
  with receipt_durable [OF r_into_rtranclp ds(1) put_file_laws ds(2)] show ?thesis by blast
qed

text \<open>C25: writing a receipt is atomic. In every state the write passes through, a crash at any byte
  included, what can be loaded for the receipt's job is the whole receipt or what was there before,
  and every file that existed is unchanged.\<close>

theorem persist_receipt_crash_atomic:
  assumes "persist_receipt E ds receipt = (states, ds', r)" and "wf_dir ds"
    and "s \<in> set (states @ [ds'])"
  shows "(\<forall>n f. lookup ds n = Some f \<longrightarrow> lookup s n = Some f) \<and>
    (load_receipt E' s (ji_job_id (rb_identity (ar_body receipt))) = Inr bs \<longrightarrow>
       bs = encode_receipt receipt \<or>
       (\<exists>f. lookup ds (receipt_path (ji_job_id (rb_identity (ar_body receipt)))) = Some f \<and>
            in_bytes f = bs))"
  using assms(1)
proof (cases rule: persist_receipt_cases)
  case early
  with assms(3) show ?thesis
    by (auto simp: prepare_root_files(1) [OF early(1)] load_receipt_eq_Inr read_private_bounded_eq_Inr)
next
  case written
  show ?thesis
    using written_keeps(2,4) [OF written(1) assms(2) written(2) assms(3) path_names(2)]
    by (auto simp: load_receipt_eq_Inr read_private_bounded_eq_Inr private_file_def)
qed

theorem persist_receipt_crash_atomic_witness:
  "\<exists>states ds'. persist_receipt sample_env empty_dir sample_receipt =
       (states, ds', Inr (receipt_path (replicate 16 1))) \<and>
     (\<forall>bs. load_receipt sample_env ds' (replicate 16 1) = Inr bs \<longrightarrow> bs = encode_receipt sample_receipt)"
proof -
  have id: "ji_job_id (rb_identity (ar_body sample_receipt)) = replicate 16 1"
    by (simp add: sample_receipt_def sample_defs)
  obtain states ds' where p: "persist_receipt sample_env empty_dir sample_receipt =
      (states, ds', Inr (receipt_path (replicate 16 1)))"
    using sample_persisted by blast
  from p persist_receipt_crash_atomic [OF p sample_env_ok(3), of ds'] show ?thesis
    by (simp add: id sample_env_ok)
qed

text \<open>A receipt that was written is the receipt that is loaded, and it was written under a name
  that was free.\<close>

theorem persist_then_load:
  assumes "persist_receipt E ds receipt = (states, ds', Inr path)" and "wf_dir ds" and "wf_receipt receipt"
  shows "lookup ds path = None \<and>
    load_receipt E ds' (ji_job_id (rb_identity (ar_body receipt))) = Inr (encode_receipt receipt)"
  using assms(1)
proof (cases rule: persist_receipt_cases)
  case (written ds1 r1)
  then have "r1 = Inr ()" "path = receipt_path (ji_job_id (rb_identity (ar_body receipt)))"
    by (cases r1; simp)+
  with created_file [OF written(1) assms(2) _ path_names(2)] written(2) show ?thesis
    by (simp add: load_receipt_eq_Inr length_encode_receipt [OF assms(3)])
qed simp

theorem persist_then_load_witness:
  "\<exists>ds'. load_receipt sample_env ds' (ji_job_id (rb_identity (ar_body sample_receipt))) =
     Inr (encode_receipt sample_receipt)"
proof -
  obtain states ds' where p: "persist_receipt sample_env empty_dir sample_receipt =
      (states, ds', Inr (receipt_path (replicate 16 1)))"
    using sample_persisted by blast
  have "wf_receipt sample_receipt" using sample_decodes by (simp add: decode_receipt_eq_Inr)
  from persist_then_load [OF p sample_env_ok(3) this] show ?thesis by blast
qed

text \<open>An existing receipt is never overwritten: writing another one for the same job fails and
  leaves every file as it was.\<close>

theorem persist_receipt_refuses_existing:
  assumes "persist_receipt E ds receipt = (states, ds', r)" and "wf_dir ds"
    and "lookup ds (receipt_path (ji_job_id (rb_identity (ar_body receipt)))) = Some f"
  shows "(\<exists>e. r = Inl e) \<and> (\<forall>n. lookup ds' n = lookup ds n)"
  using assms(1)
proof (cases rule: persist_receipt_cases)
  case early
  then show ?thesis by (simp add: prepare_root_files(1) [OF early(1)])
next
  case (written ds1 r1)
  have "wf_dir ds1" using assms(2) prepare_root_files(2) [OF written(1)] by simp
  from create_new_private_spec(4) [OF this written(2) path_names(2)] written assms(3) show ?thesis
    by (auto simp: prepare_root_files(1) [OF written(1)])
qed

theorem persist_receipt_refuses_existing_witness:
  "\<exists>ds e. lookup ds (receipt_path (replicate 16 1)) \<noteq> None \<and>
     snd (snd (persist_receipt sample_env ds sample_receipt)) = Inl e"
proof -
  have id: "ji_job_id (rb_identity (ar_body sample_receipt)) = replicate 16 1"
    by (simp add: sample_receipt_def sample_defs)
  obtain ds f where ds: "wf_dir ds" "lookup ds (receipt_path (replicate 16 1)) = Some f"
    using sample_persisted by blast
  obtain states ds' r where "persist_receipt sample_env ds sample_receipt = (states, ds', r)"
    by (cases "persist_receipt sample_env ds sample_receipt")
  with persist_receipt_refuses_existing [OF this ds(1)] ds(2) show ?thesis by (auto simp: id)
qed

text \<open>C26: writing a receipt succeeds whenever the store's root is absent or properly protected, the
  process runs as the user it reports, one of the four temporary names is free, the receipt's name
  is free and no write fails.\<close>

theorem persist_receipt_succeeds:
  assumes "wf_dir ds" and "ds_root ds = None \<or> validate_root E ds = Inr ()"
    and "effective_uid (pe_status E) = Inr (pe_euid E)" and "pe_write_fault E = None"
    and "\<exists>i \<in> set (take 4 (pe_random_ids E)). ds_entries ds (temporary_name i) = None"
    and "ds_entries ds (receipt_path (ji_job_id (rb_identity (ar_body receipt)))) = None"
  shows "\<exists>states ds'. persist_receipt E ds receipt =
    (states, ds', Inr (receipt_path (ji_job_id (rb_identity (ar_body receipt)))))"
  using prepared_create_total [OF assms path_names(2), of "encode_receipt receipt"]
  by (auto simp: persist_receipt_def Let_def)

theorem persist_receipt_succeeds_witness:
  "\<exists>states ds'. persist_receipt sample_env empty_dir sample_receipt =
     (states, ds', Inr (receipt_path (ji_job_id (rb_identity (ar_body sample_receipt)))))"
  by (rule persist_receipt_succeeds) (simp_all add: sample_env_ok, simp add: sample_env_def)

text \<open>A journal that was created or updated is the journal that is loaded, and an update touches
  no other file.\<close>

theorem journal_store_round_trip:
  assumes "create_journal X E ds r = (states, ds', Inr path) \<or> update_journal X E ds r = (ds', Inr ())"
    and "wf_dir ds" and "replace_laws (pe_atomic_replace E)" and "journal_laws X"
    and "job_ok r" and "wf_identity (jr_identity r)"
  shows "load_journal X E ds' (ji_job_id (jr_identity r)) = Inr r \<and>
    (\<forall>n. n \<noteq> journal_path (ji_job_id (jr_identity r)) \<longrightarrow> lookup ds' n = lookup ds n)"
  using assms(1)
proof
  assume "create_journal X E ds r = (states, ds', Inr path)"
  then show ?thesis
  proof (cases rule: create_journal_cases)
    case (written ds1 bs r1)
    then have "r1 = Inr ()" by (cases r1) simp_all
    with created_file [OF written(1) assms(2) _ path_names(1)] written(2,3) show ?thesis
      using journal_round_trip_lemma [OF assms(4) written(2) assms(5,6)] encode_journal_bound
      by (auto simp: load_journal_eq_Inr)
  qed simp
next
  assume u: "update_journal X E ds r = (ds', Inr ())"
  then obtain bs where bs: "root_ok E ds" "encode_journal X r = Inr bs"
    and rep: "pe_atomic_replace E ds (journal_path (ji_job_id (jr_identity r))) 0x180 bs = Inr ds'"
    and ex: "ensure_existing_private_regular E ds' (journal_path (ji_job_id (jr_identity r))) = Inr ()"
    by (auto simp: update_journal_def write_atomic_private_def Let_def and_then_eq_Inr
        validate_root_eq_Inr split: sum.splits)
  from assms(2,3) rep obtain f where "lookup ds' (journal_path (ji_job_id (jr_identity r))) = Some f"
    "in_bytes f = bs" unfolding replace_laws_def by blast
  with ex encode_journal_bound [OF bs(2)]
  have "read_private_bounded E ds' (journal_path (ji_job_id (jr_identity r))) MAX_JOURNAL_BYTES = Inr bs"
    by (simp add: ensure_existing_eq_Inr read_private_bounded_eq_Inr)
  with bs(1) update_journal_keeps(2,3) [OF u assms(3,2)]
    journal_round_trip_lemma [OF assms(4) bs(2) assms(5,6)] show ?thesis
    by (simp add: load_journal_eq_Inr root_ok_def)
qed

theorem journal_store_round_trip_witness:
  "\<exists>ds'. load_journal sample_ext sample_env ds' (replicate 16 1) =
     Inr (sample_job\<lparr>jr_stage := Running, jr_updated_unix_ms := 200\<rparr>)"
proof -
  let ?r = "sample_job\<lparr>jr_stage := Running, jr_updated_unix_ms := 200\<rparr>"
  have id: "ji_job_id (jr_identity ?r) = replicate 16 1" "wf_identity (jr_identity ?r)" "job_ok ?r"
    using job_record.inv_run [OF submitted_ok [OF sample_submitted] sample_running] sample_issued(3)
    by (simp_all add: sample_defs)
  obtain ds1 states ds' where p: "prepare_root sample_env empty_dir = (ds1, Inr ())"
    "create_new_private sample_env ds1 (journal_path (replicate 16 1)) [123, 125] = (states, ds', Inr ())"
    using sample_created [OF path_names(1)] by blast
  then have "create_journal sample_ext sample_env empty_dir ?r =
      (states, ds', Inr (journal_path (replicate 16 1)))"
    using sample_journal id(1) by (simp add: create_journal_def Let_def)
  with journal_store_round_trip [OF disjI1 [OF this] sample_env_ok(3) _ sample_laws(2) id(3,2)]
  show ?thesis using id(1) put_file_laws by (auto simp: sample_env_ok(7))
qed

end
