(* ===== verification/Security.thy ===== *)
theory Security
  imports Files
begin

text \<open>
  Protected files on Unix (crates/serctl_core/src/security.rs, the \<open>cfg(unix)\<close> versions).

  The effective user, the kernel's access decision, a possible write fault and the atomic
  replacement crate are the fields of \<open>unix_env\<close>. A write fault after \<open>k\<close> bytes stands for every
  failure of a write or of the synchronisation after it, and for a crash at that point.
\<close>

unbundle bit_operations_syntax

section \<open>Definitions\<close>

record unix_env =
  ue_euid :: u32
  ue_access :: "inode \<Rightarrow> bool \<Rightarrow> bool"
  ue_write_fault :: "nat option"
  ue_replace :: "dir_state \<Rightarrow> string \<Rightarrow> u32 \<Rightarrow> bytes \<Rightarrow> dir_state res"

datatype open_error = NotFound | OpenFailed string

definition set_mode :: "dir_state \<Rightarrow> nat \<Rightarrow> u32 \<Rightarrow> dir_state" where
  "set_mode ds h mode = ds\<lparr>ds_inodes := (ds_inodes ds)(h := (ds_inodes ds h)\<lparr>in_mode := mode\<rparr>)\<rparr>"

definition harden_open_file :: "unix_env \<Rightarrow> nat \<Rightarrow> unit fs" where
  "harden_open_file E h ds =
     (if in_kind (ds_inodes ds h) \<noteq> Regular then (ds, Inl ''protected path is not a regular file'')
      else if in_uid (ds_inodes ds h) \<noteq> ue_euid E
      then (ds, Inl ''protected file is not owned by the current user'')
      else
        let ds = set_mode ds h 0x180 in
        if in_kind (ds_inodes ds h) \<noteq> Regular \<or> in_mode (ds_inodes ds h) AND 0xFFF \<noteq> 0x180
        then (ds, Inl ''protected file permissions could not be verified as 0600'')
        else (ds, Inr ()))"

definition new_inode :: "unix_env \<Rightarrow> string \<Rightarrow> dir_state \<Rightarrow> dir_state" where
  "new_inode E path ds =
     ds\<lparr>ds_entries := (ds_entries ds)(path \<mapsto> ds_next ds),
        ds_inodes := (ds_inodes ds)(ds_next ds :=
          \<lparr>in_kind = Regular, in_uid = ue_euid E, in_mode = 0x180, in_bytes = []\<rparr>),
        ds_next := Suc (ds_next ds)\<rparr>"

definition open_protected_file ::
  "unix_env \<Rightarrow> string \<Rightarrow> bool \<Rightarrow> bool \<Rightarrow> dir_state \<Rightarrow> dir_state \<times> (open_error + nat)" where
  "open_protected_file E path create write ds =
     (let opened =
        (case ds_entries ds path of
           None \<Rightarrow> if create then Inr (new_inode E path ds, ds_next ds) else Inl NotFound
         | Some h \<Rightarrow>
             if in_kind (ds_inodes ds h) = Symlink \<or> in_kind (ds_inodes ds h) = Directory \<and> write \<or>
                \<not> ue_access E (ds_inodes ds h) write
             then Inl (OpenFailed ''open protected file'')
             else Inr (ds, h)) in
      case opened of
        Inl e \<Rightarrow> (ds, Inl e)
      | Inr (ds, h) \<Rightarrow>
          (case harden_open_file E h ds of
             (ds, Inl e) \<Rightarrow> (ds, Inl (OpenFailed e))
           | (ds, Inr _) \<Rightarrow> (ds, Inr h)))"

definition open_existing_protected_file_with_access ::
  "unix_env \<Rightarrow> string \<Rightarrow> bool \<Rightarrow> nat option fs" where
  "open_existing_protected_file_with_access E path write ds =
     (case open_protected_file E path False write ds of
        (ds, Inr h) \<Rightarrow> (ds, Inr (Some h))
      | (ds, Inl NotFound) \<Rightarrow> (ds, Inr None)
      | (ds, Inl (OpenFailed e)) \<Rightarrow> (ds, Inl e))"

definition open_existing_protected_file :: "unix_env \<Rightarrow> string \<Rightarrow> nat option fs" where
  "open_existing_protected_file E path = open_existing_protected_file_with_access E path False"

definition open_existing_protected_file_for_update :: "unix_env \<Rightarrow> string \<Rightarrow> nat option fs" where
  "open_existing_protected_file_for_update E path =
     open_existing_protected_file_with_access E path True"

definition open_or_create_protected_file :: "unix_env \<Rightarrow> string \<Rightarrow> nat fs" where
  "open_or_create_protected_file E path ds =
     (case open_protected_file E path True True ds of
        (ds, Inr h) \<Rightarrow> (ds, Inr h)
      | (ds, Inl NotFound) \<Rightarrow> (ds, Inl ''open protected file'')
      | (ds, Inl (OpenFailed e)) \<Rightarrow> (ds, Inl e))"

definition create_new_protected_file_platform :: "unix_env \<Rightarrow> string \<Rightarrow> nat fs" where
  "create_new_protected_file_platform E path ds =
     (if ds_entries ds path \<noteq> None then (ds, Inl ''create protected file'')
      else (new_inode E path ds, Inr (ds_next ds)))"

definition remove_created_file_if_same :: "string \<Rightarrow> nat \<Rightarrow> dir_state \<Rightarrow> dir_state" where
  "remove_created_file_if_same path h ds =
     (case ds_entries ds path of
        None \<Rightarrow> ds
      | Some actual \<Rightarrow> if actual \<noteq> h then ds else ds\<lparr>ds_entries := (ds_entries ds)(path := None)\<rparr>)"

definition create_new_protected_file_with_validation ::
  "unix_env \<Rightarrow> string \<Rightarrow> (nat \<Rightarrow> unit fs) \<Rightarrow> nat fs" where
  "create_new_protected_file_with_validation E path validate =
     act_bind (create_new_protected_file_platform E path) (\<lambda>h ds.
       case validate h ds of
         (ds, Inr _) \<Rightarrow> (ds, Inr h)
       | (ds, Inl validation_error) \<Rightarrow> (remove_created_file_if_same path h ds, Inl validation_error))"

definition create_new_protected_file :: "unix_env \<Rightarrow> string \<Rightarrow> nat fs" where
  "create_new_protected_file E path =
     create_new_protected_file_with_validation E path (harden_open_file E)"

definition harden_open_directory :: "unix_env \<Rightarrow> unit fs" where
  "harden_open_directory E ds =
     (case ds_root ds of
        None \<Rightarrow> (ds, Inl ''inspect protected directory handle'')
      | Some metadata \<Rightarrow>
          if in_kind metadata \<noteq> Directory
          then (ds, Inl ''protected directory path is not a directory'')
          else if in_uid metadata \<noteq> ue_euid E
          then (ds, Inl ''protected directory is not owned by the current user'')
          else
            let hardened = metadata\<lparr>in_mode := 0x1C0\<rparr>;
                ds = ds\<lparr>ds_root := Some hardened\<rparr> in
            if in_kind hardened \<noteq> Directory \<or> in_uid hardened \<noteq> ue_euid E \<or>
               in_mode hardened AND 0xFFF \<noteq> 0x1C0
            then (ds, Inl ''protected directory permissions could not be verified as owner-only 0700'')
            else (ds, Inr ()))"

definition open_directory :: "unix_env \<Rightarrow> string \<Rightarrow> unit fs" where
  "open_directory E message ds =
     (case ds_root ds of
        None \<Rightarrow> (ds, Inl message)
      | Some metadata \<Rightarrow>
          if in_kind metadata \<noteq> Directory \<or> \<not> ue_access E metadata False then (ds, Inl message)
          else (ds, Inr ()))"

definition harden_directory :: "unix_env \<Rightarrow> unit fs" where
  "harden_directory E =
     act_bind (open_directory E ''open protected directory'') (\<lambda>_. harden_open_directory E)"

definition sync_parent_directory :: "unix_env \<Rightarrow> unit fs" where
  "sync_parent_directory E =
     act_bind (open_directory E ''open protected parent directory'') (\<lambda>_. harden_open_directory E)"

definition write_protected_atomic :: "unix_env \<Rightarrow> string \<Rightarrow> bytes \<Rightarrow> unit fs" where
  "write_protected_atomic E path contents ds =
     (case ue_replace E ds path 0x180 contents of
        Inl e \<Rightarrow> (ds, Inl e)
      | Inr ds \<Rightarrow> (ds, Inr ()))"

text \<open>\<open>write_all\<close> at the end of an open file, followed by a synchronising call.\<close>

definition append_bytes :: "dir_state \<Rightarrow> nat \<Rightarrow> bytes \<Rightarrow> dir_state" where
  "append_bytes ds h bs =
     ds\<lparr>ds_inodes := (ds_inodes ds)(h := (ds_inodes ds h)\<lparr>in_bytes := in_bytes (ds_inodes ds h) @ bs\<rparr>)\<rparr>"

definition write_end :: "unix_env \<Rightarrow> nat \<Rightarrow> bytes \<Rightarrow> string \<Rightarrow> unit fs" where
  "write_end E h bs message ds =
     (case ue_write_fault E of
        None \<Rightarrow> (append_bytes ds h bs, Inr ())
      | Some k \<Rightarrow> (append_bytes ds h (take k bs), Inl message))"

section \<open>Lemmas\<close>

lemma set_mode_simps [simp]:
  "ds_root (set_mode ds h m) = ds_root ds" "ds_entries (set_mode ds h m) = ds_entries ds"
  "ds_next (set_mode ds h m) = ds_next ds" "wf_dir (set_mode ds h m) = wf_dir ds"
  "in_bytes (ds_inodes (set_mode ds h m) i) = in_bytes (ds_inodes ds i)"
  "in_kind (ds_inodes (set_mode ds h m) i) = in_kind (ds_inodes ds i)"
  "in_uid (ds_inodes (set_mode ds h m) i) = in_uid (ds_inodes ds i)"
  "ds_inodes (set_mode ds h m) h = (ds_inodes ds h)\<lparr>in_mode := m\<rparr>"
  by (simp_all add: set_mode_def wf_dir_def)

lemma set_mode_other [simp]: "i \<noteq> h \<Longrightarrow> ds_inodes (set_mode ds h m) i = ds_inodes ds i"
  by (simp add: set_mode_def)

lemma harden_open_file_eq:
  "harden_open_file E h ds =
     (if in_kind (ds_inodes ds h) \<noteq> Regular then (ds, Inl ''protected path is not a regular file'')
      else if in_uid (ds_inodes ds h) \<noteq> ue_euid E
      then (ds, Inl ''protected file is not owned by the current user'')
      else (set_mode ds h 0x180, Inr ()))"
  by (simp add: harden_open_file_def Let_def)

definition openable :: "unix_env \<Rightarrow> inode \<Rightarrow> bool \<Rightarrow> bool" where
  "openable E f write \<longleftrightarrow> in_kind f = Regular \<and> in_uid f = ue_euid E \<and> ue_access E f write"

lemma open_existing_eq_Some:
  "open_existing_protected_file_with_access E path write ds = (ds', Inr (Some h)) \<longleftrightarrow>
     ds_entries ds path = Some h \<and> openable E (ds_inodes ds h) write \<and> ds' = set_mode ds h 0x180"
  by (auto simp: open_existing_protected_file_with_access_def open_protected_file_def openable_def
      harden_open_file_eq Let_def split: option.splits prod.splits sum.splits open_error.splits if_splits)

lemma open_existing_eq_None:
  "open_existing_protected_file_with_access E path write ds = (ds', Inr None) \<longleftrightarrow>
     ds_entries ds path = None \<and> ds' = ds"
  by (auto simp: open_existing_protected_file_with_access_def open_protected_file_def
      harden_open_file_eq Let_def split: option.splits prod.splits sum.splits open_error.splits if_splits)

lemma open_existing_Inl:
  "open_existing_protected_file_with_access E path write ds = (ds', Inl e) \<Longrightarrow> ds' = ds"
  by (auto simp: open_existing_protected_file_with_access_def open_protected_file_def
      harden_open_file_eq Let_def split: option.splits prod.splits sum.splits open_error.splits if_splits)

lemmas open_existing_defs =
  open_existing_protected_file_def open_existing_protected_file_for_update_def

lemma new_inode_simps [simp]:
  "ds_root (new_inode E path ds) = ds_root ds"
  "ds_entries (new_inode E path ds) = (ds_entries ds)(path \<mapsto> ds_next ds)"
  "ds_inodes (new_inode E path ds) = (ds_inodes ds)(ds_next ds :=
     \<lparr>in_kind = Regular, in_uid = ue_euid E, in_mode = 0x180, in_bytes = []\<rparr>)"
  by (simp_all add: new_inode_def)

lemma wf_new_inode: "wf_dir ds \<Longrightarrow> wf_dir (new_inode E path ds)"
  by (auto simp: wf_dir_def new_inode_def split: if_splits intro: less_SucI)

lemma create_new_protected_file_eq:
  "create_new_protected_file E path ds =
     (if ds_entries ds path \<noteq> None then (ds, Inl ''create protected file'')
      else (new_inode E path ds, Inr (ds_next ds)))"
proof -
  have "set_mode (new_inode E path ds) (ds_next ds) 0x180 = new_inode E path ds"
    by (simp add: set_mode_def new_inode_def)
  then show ?thesis
    by (simp add: create_new_protected_file_def create_new_protected_file_with_validation_def
        create_new_protected_file_platform_def act_bind_def harden_open_file_eq)
qed

lemma append_bytes_simps [simp]:
  "ds_root (append_bytes ds h bs) = ds_root ds" "ds_entries (append_bytes ds h bs) = ds_entries ds"
  "wf_dir (append_bytes ds h bs) = wf_dir ds"
  "ds_inodes (append_bytes ds h bs) h = (ds_inodes ds h)\<lparr>in_bytes := in_bytes (ds_inodes ds h) @ bs\<rparr>"
  "i \<noteq> h \<Longrightarrow> ds_inodes (append_bytes ds h bs) i = ds_inodes ds i"
  by (simp_all add: append_bytes_def wf_dir_def)

lemma harden_root:
  "harden_open_directory E ds = (ds', r) \<Longrightarrow> \<exists>x. ds' = ds\<lparr>ds_root := x\<rparr>"
  by (auto simp: harden_open_directory_def Let_def split: option.splits if_splits
      intro: exI [of _ "ds_root ds"])

text \<open>What the environment provides: the owner may read and write a file of mode 0600, and a
  replacement belongs to the process's user.\<close>

definition env_ok :: "unix_env \<Rightarrow> bool" where
  "env_ok E \<longleftrightarrow>
     replace_laws (ue_replace E) \<and>
     (\<forall>ds path mode bs ds' f. ue_replace E ds path mode bs = Inr ds' \<longrightarrow> lookup ds' path = Some f \<longrightarrow>
        in_uid f = ue_euid E) \<and>
     (\<forall>f w. in_uid f = ue_euid E \<longrightarrow> in_mode f = 0x180 \<longrightarrow> ue_access E f w)"

lemma write_protected_atomic_eq_Inr:
  "write_protected_atomic E path bs ds = (ds', Inr u) \<longleftrightarrow> ue_replace E ds path 0x180 bs = Inr ds'"
  by (auto simp: write_protected_atomic_def split: sum.splits)

section \<open>Properties\<close>



end
