(* ===== verification/Audit_Ledger.thy ===== *)
theory Audit_Ledger
  imports Security "HOL-Library.List_Lexorder"
begin

text \<open>
  The authenticated audit ledger (crates/serctl_core/src/audit.rs).

  A ledger is two protected files in one directory: the log, one JSON record per line, and the
  checkpoint of its head. Hash, message authentication code, hexadecimal and JSON are other crates
  and are the fields of \<open>audit_ext\<close>. Advisory locks have no effect in a run of one process at a
  time; constant-time comparison is equality; the hash map of pending intents is an association
  list, the hash set of seen intents a list.
\<close>

section \<open>Data\<close>

definition AUDIT_SCHEMA_VERSION :: u16 where "AUDIT_SCHEMA_VERSION = 1"
definition MAX_AUDIT_LOG_BYTES :: nat where "MAX_AUDIT_LOG_BYTES = 64 * 1024 * 1024"
definition MAX_AUDIT_RECORD_BYTES :: nat where "MAX_AUDIT_RECORD_BYTES = 16 * 1024"
definition MAX_OPERATION_KIND_BYTES :: nat where "MAX_OPERATION_KIND_BYTES = 64"
definition MAX_REASON_CODE_BYTES :: nat where "MAX_REASON_CODE_BYTES = 96"
definition RECORD_DOMAIN :: bytes where
  "RECORD_DOMAIN = as_bytes ''serctl/audit/record/v1'' @ [0]"
definition RECORD_MAC_DOMAIN :: bytes where
  "RECORD_MAC_DOMAIN = as_bytes ''serctl/audit/record-mac/v1'' @ [0]"
definition CHECKPOINT_DOMAIN :: bytes where
  "CHECKPOINT_DOMAIN = as_bytes ''serctl/audit/checkpoint/v1'' @ [0]"
definition AUDIT_KEY_DOMAIN :: bytes where
  "AUDIT_KEY_DOMAIN = as_bytes ''serctl/audit/profile-key/v1'' @ [0]"
definition RESOLVE_UNKNOWN_RESULT_DOMAIN :: bytes where
  "RESOLVE_UNKNOWN_RESULT_DOMAIN = as_bytes ''serctl/audit/resolve-unknown-result/v1'' @ [0]"
definition GENERATION_TRANSITION_DOMAIN :: bytes where
  "GENERATION_TRANSITION_DOMAIN = as_bytes ''serctl/audit/generation-transition/v1'' @ [0]"
definition RESOLVE_UNKNOWN_REASON :: string where
  "RESOLVE_UNKNOWN_REASON = ''administrative.resolve_unknown''"
definition ZERO_HASH :: bytes where "ZERO_HASH = replicate 32 0"

datatype audit_phase = PhaseIntent | PhaseOutcome | PhaseAdministrative

datatype audit_decision =
  DecisionPending | DecisionAllowed | DecisionDenied | DecisionSucceeded | DecisionFailed
  | DecisionUnknown

record audit_event =
  ae_profile_id :: string
  ae_profile_generation :: u64
  ae_request_id :: bytes
  ae_at_unix_ms :: u64
  ae_operation_kind :: string
  ae_phase :: audit_phase
  ae_decision :: audit_decision
  ae_policy_digest :: string
  ae_intent_digest :: string
  ae_result_digest :: "string option"
  ae_reason_code :: string

record audit_record =
  au_schema_version :: u16
  au_sequence :: u64
  au_previous_hash :: string
  au_event :: audit_event
  au_record_hash :: string
  au_record_mac :: string

record audit_checkpoint =
  ac_schema_version :: u16
  ac_profile_id :: string
  ac_profile_generation :: u64
  ac_sequence :: u64
  ac_record_hash :: string
  ac_mac :: string

record pending_resolution =
  pr_resolved :: nat
  pr_checkpoint :: audit_checkpoint

record audit_inspection =
  ai_pending_intents :: nat
  ai_checkpoint :: audit_checkpoint

record pending_intent_binding =
  pb_operation_kind :: string
  pb_policy_digest :: string
  pb_intent_digest :: string

record verified_log =
  vl_sequence :: u64
  vl_record_hash :: bytes
  vl_hashes :: "bytes list"
  vl_seen_intents :: "bytes list"
  vl_pending_intents :: "(bytes \<times> pending_intent_binding) list"
  vl_first_event :: "audit_event option"

record audit_ledger =
  al_log_path :: string
  al_checkpoint_path :: string
  al_profile_id :: bytes
  al_profile_generation :: u64
  al_key :: bytes

record audit_ext =
  ax_sha256 :: "bytes \<Rightarrow> bytes"
  ax_hmac :: "bytes \<Rightarrow> bytes \<Rightarrow> bytes option"
  ax_hex_encode :: "bytes \<Rightarrow> string"
  ax_hex_decode :: "string \<Rightarrow> bytes option"
  ax_event_json :: "audit_event \<Rightarrow> bytes option"
  ax_record_json :: "audit_record \<Rightarrow> bytes option"
  ax_record_parse :: "bytes \<Rightarrow> audit_record option"
  ax_payload_json :: "u16 \<times> u64 \<times> string \<times> audit_event \<times> string \<Rightarrow> bytes option"
  ax_checkpoint_json :: "audit_checkpoint \<Rightarrow> bytes option"
  ax_checkpoint_parse :: "bytes \<Rightarrow> audit_checkpoint option"
  ax_unsigned_json :: "u16 \<times> string \<times> u64 \<times> u64 \<times> string \<Rightarrow> bytes option"

section \<open>Validation\<close>

definition validate_token :: "string \<Rightarrow> nat \<Rightarrow> string \<Rightarrow> unit res" where
  "validate_token value maximum label =
     ensure (value \<noteq> [] \<and> length value \<le> maximum \<and>
             list_all (\<lambda>byte. is_ascii_lowercase byte \<or> is_ascii_digit byte \<or> byte \<in> set ''.-_'') value)
       (label @ '' must contain 1..='' @ decimal maximum @ '' bytes of [a-z0-9._-]'') (Inr ())"

definition validate_profile_id :: "string \<Rightarrow> unit res" where
  "validate_profile_id value =
     ensure (length value = 32 \<and> list_all is_lower_hex_char value)
       ''audit profile id must be 32 lowercase hexadecimal characters'' (Inr ())"

definition validate_digest :: "string \<Rightarrow> string \<Rightarrow> unit res" where
  "validate_digest value label =
     ensure (length value = 64 \<and> list_all is_lower_hex_char value)
       (label @ '' must be 64 lowercase hexadecimal characters'') (Inr ())"

definition validate_transition_name :: "string \<Rightarrow> string \<Rightarrow> unit res" where
  "validate_transition_name value label =
     ensure (value \<noteq> [] \<and> length value \<le> 255 \<and> \<not> any_control value)
       (label @ '' is empty, oversized, or contains control characters'') (Inr ())"

definition validate_event :: "audit_event \<Rightarrow> unit res" where
  "validate_event e =
     and_then (validate_profile_id (ae_profile_id e)) (\<lambda>_.
     ensure (ae_profile_generation e > 0) ''audit profile generation must be non-zero'' (
     ensure (ae_at_unix_ms e > 0) ''audit timestamp must be non-zero'' (
     and_then (validate_token (ae_operation_kind e) MAX_OPERATION_KIND_BYTES ''operation kind'') (\<lambda>_.
     and_then (validate_token (ae_reason_code e) MAX_REASON_CODE_BYTES ''reason code'') (\<lambda>_.
     and_then (validate_digest (ae_policy_digest e) ''policy digest'') (\<lambda>_.
     and_then (validate_digest (ae_intent_digest e) ''intent digest'') (\<lambda>_.
     and_then (case ae_result_digest e of
                 Some digest \<Rightarrow> validate_digest digest ''result digest'' | None \<Rightarrow> Inr ()) (\<lambda>_.
     case ae_phase e of
       PhaseIntent \<Rightarrow>
         ensure (ae_decision e = DecisionPending \<and> ae_result_digest e = None)
           ''intent records must be pending and cannot carry a result digest'' (Inr ())
     | PhaseOutcome \<Rightarrow>
         ensure (ae_decision e \<noteq> DecisionPending \<and> ae_result_digest e \<noteq> None)
           ''outcome records must be terminal and carry a result digest'' (Inr ())
     | PhaseAdministrative \<Rightarrow>
         ensure (ae_decision e \<noteq> DecisionPending \<and> ae_result_digest e \<noteq> None)
           ''administrative records must be terminal and carry a result digest'' (Inr ())))))))))"

definition from_intent :: "audit_event \<Rightarrow> pending_intent_binding" where
  "from_intent event =
     \<lparr>pb_operation_kind = ae_operation_kind event, pb_policy_digest = ae_policy_digest event,
      pb_intent_digest = ae_intent_digest event\<rparr>"

definition ensure_matches_outcome :: "pending_intent_binding \<Rightarrow> audit_event \<Rightarrow> unit res" where
  "ensure_matches_outcome b event =
     ensure (ae_operation_kind event = pb_operation_kind b)
       ''audit Outcome operation kind does not match its Intent'' (
     ensure (ae_policy_digest event = pb_policy_digest b)
       ''audit Outcome policy digest does not match its Intent'' (
     ensure (ae_intent_digest event = pb_intent_digest b)
       ''audit Outcome intent digest does not match its Intent'' (Inr ())))"

definition ensure_generation_event_matches :: "audit_event \<Rightarrow> audit_event \<Rightarrow> unit res" where
  "ensure_generation_event_matches actual expected =
     (let normalized = expected\<lparr>ae_at_unix_ms := ae_at_unix_ms actual\<rparr> in
      ensure (actual = normalized)
        ''pre-existing generation audit transition does not match the requested continuity'' (Inr ()))"

section \<open>The chain\<close>

definition record_preimage :: "u64 \<Rightarrow> bytes \<Rightarrow> bytes \<Rightarrow> bytes" where
  "record_preimage sequence previous_hash event_bytes =
     RECORD_DOMAIN @ be16 AUDIT_SCHEMA_VERSION @ be64 sequence @ previous_hash @
     be64 (word_of_nat (length event_bytes)) @ event_bytes"

definition calculate_record_hash :: "audit_ext \<Rightarrow> u64 \<Rightarrow> bytes \<Rightarrow> audit_event \<Rightarrow> bytes res" where
  "calculate_record_hash X sequence previous_hash event =
     and_then (ok_or (ax_event_json X event) ''serialize canonical audit event'') (\<lambda>event_bytes.
     Inr (ax_sha256 X (record_preimage sequence previous_hash event_bytes)))"

definition resolved_unknown_result_digest ::
  "audit_ext \<Rightarrow> bytes \<Rightarrow> u64 \<Rightarrow> bytes \<Rightarrow> pending_intent_binding \<Rightarrow> string" where
  "resolved_unknown_result_digest X profile_id profile_generation request_id binding =
     ax_hex_encode X (ax_sha256 X (
       RESOLVE_UNKNOWN_RESULT_DOMAIN @ profile_id @ be64 profile_generation @ request_id @
       be64 (word_of_nat (length (pb_operation_kind binding))) @ as_bytes (pb_operation_kind binding) @
       as_bytes (pb_policy_digest binding) @ as_bytes (pb_intent_digest binding) @
       as_bytes RESOLVE_UNKNOWN_REASON))"

definition record_mac :: "audit_ext \<Rightarrow> audit_ledger \<Rightarrow> audit_record \<Rightarrow> string res" where
  "record_mac X L r =
     and_then (ok_or (ax_payload_json X (au_schema_version r, au_sequence r, au_previous_hash r,
                        au_event r, au_record_hash r)) ''serialize authenticated audit record'') (\<lambda>encoded.
     and_then (ok_or (ax_hmac X (al_key L) (RECORD_MAC_DOMAIN @ encoded)) ''invalid audit record key'')
       (\<lambda>mac. Inr (ax_hex_encode X mac)))"

definition verify_record_mac :: "audit_ext \<Rightarrow> audit_ledger \<Rightarrow> audit_record \<Rightarrow> unit res" where
  "verify_record_mac X L r =
     and_then (ok_or (ax_hex_decode X (au_record_mac r)) ''decode audit record MAC'') (\<lambda>provided.
     ensure (length provided = 32) ''audit record MAC length is invalid'' (
     and_then (record_mac X L r) (\<lambda>mac.
     and_then (ok_or (ax_hex_decode X mac) ''decode audit record MAC'') (\<lambda>expected.
     ensure (expected = provided) ''audit record authentication failed'' (Inr ())))))"

fun split_inclusive :: "bytes \<Rightarrow> bytes \<Rightarrow> bytes list" where
  "split_inclusive acc [] = (if acc = [] then [] else [acc])"
| "split_inclusive acc (b # bs) =
     (if b = 10 then (acc @ [b]) # split_inclusive [] bs else split_inclusive (acc @ [b]) bs)"

definition remove_key :: "'k \<Rightarrow> ('k \<times> 'v) list \<Rightarrow> ('k \<times> 'v) list" where
  "remove_key k m = filter (\<lambda>(k', _). k' \<noteq> k) m"

definition track_intent :: "verified_log \<Rightarrow> audit_event \<Rightarrow> verified_log res" where
  "track_intent v event =
     (case ae_phase event of
        PhaseIntent \<Rightarrow>
          ensure (ae_request_id event \<notin> set (vl_seen_intents v))
            ''audit ledger contains a duplicate Intent request id'' (
          Inr (v\<lparr>vl_seen_intents := ae_request_id event # vl_seen_intents v,
                 vl_pending_intents := (ae_request_id event, from_intent event) #
                   remove_key (ae_request_id event) (vl_pending_intents v)\<rparr>))
      | PhaseOutcome \<Rightarrow>
          and_then (ok_or (map_of (vl_pending_intents v) (ae_request_id event))
            ''audit Outcome does not match a pending Intent'') (\<lambda>binding.
          and_then (ensure_matches_outcome binding event) (\<lambda>_.
          Inr (v\<lparr>vl_pending_intents := remove_key (ae_request_id event) (vl_pending_intents v)\<rparr>)))
      | PhaseAdministrative \<Rightarrow> Inr v)"

definition verify_line ::
  "audit_ext \<Rightarrow> audit_ledger \<Rightarrow> verified_log \<Rightarrow> bytes \<Rightarrow> verified_log res" where
  "verify_line X L v raw_line =
     ensure (raw_line \<noteq> [] \<and> last raw_line = 10) ''audit log ends with a partial record'' (
     let line = butlast raw_line in
     ensure (line \<noteq> []) ''audit log contains an empty record'' (
     ensure (length line \<le> MAX_AUDIT_RECORD_BYTES) ''audit record exceeds its size limit'' (
     and_then (ok_or (ax_record_parse X line) ''parse audit record'') (\<lambda>r.
     ensure (au_schema_version r = AUDIT_SCHEMA_VERSION) ''unsupported audit record schema'' (
     and_then (verify_record_mac X L r) (\<lambda>_.
     let v = (if vl_first_event v = None then v\<lparr>vl_first_event := Some (au_event r)\<rparr> else v) in
     and_then (validate_event (au_event r)) (\<lambda>_.
     ensure (ae_profile_id (au_event r) = ax_hex_encode X (al_profile_id L) \<and>
             ae_profile_generation (au_event r) = al_profile_generation L)
       ''audit record profile identity mismatch'' (
     and_then (track_intent v (au_event r)) (\<lambda>v.
     and_then (ok_or (checked_add (vl_sequence v) 1) ''audit sequence overflow'') (\<lambda>expected_sequence.
     ensure (au_sequence r = expected_sequence)
       ''audit record sequence gap, replay or reordering'' (
     ensure (au_previous_hash r = ax_hex_encode X (vl_record_hash v))
       ''audit record previous hash mismatch'' (
     and_then (calculate_record_hash X (au_sequence r) (vl_record_hash v) (au_event r)) (\<lambda>expected_hash.
     ensure (au_record_hash r = ax_hex_encode X expected_hash) ''audit record hash mismatch'' (
     Inr (v\<lparr>vl_record_hash := expected_hash, vl_sequence := au_sequence r,
            vl_hashes := vl_hashes v @ [expected_hash]\<rparr>)))))))))))))))"

definition empty_log :: verified_log where
  "empty_log =
     \<lparr>vl_sequence = 0, vl_record_hash = ZERO_HASH, vl_hashes = [], vl_seen_intents = [],
      vl_pending_intents = [], vl_first_event = None\<rparr>"

definition verify_log :: "audit_ext \<Rightarrow> audit_ledger \<Rightarrow> bytes \<Rightarrow> verified_log res" where
  "verify_log X L encoded = run_steps (verify_line X L) empty_log (split_inclusive [] encoded)"

section \<open>Checkpoints\<close>

definition checkpoint_mac :: "audit_ext \<Rightarrow> audit_ledger \<Rightarrow> audit_checkpoint \<Rightarrow> string res" where
  "checkpoint_mac X L c =
     and_then (ok_or (ax_unsigned_json X (ac_schema_version c, ac_profile_id c, ac_profile_generation c,
                        ac_sequence c, ac_record_hash c)) ''serialize audit checkpoint payload'') (\<lambda>encoded.
     and_then (ok_or (ax_hmac X (al_key L) (CHECKPOINT_DOMAIN @ encoded)) ''invalid audit checkpoint key'')
       (\<lambda>mac. Inr (ax_hex_encode X mac)))"

definition make_checkpoint :: "audit_ext \<Rightarrow> audit_ledger \<Rightarrow> u64 \<Rightarrow> bytes \<Rightarrow> audit_checkpoint res" where
  "make_checkpoint X L sequence record_hash =
     (let checkpoint =
        \<lparr>ac_schema_version = AUDIT_SCHEMA_VERSION, ac_profile_id = ax_hex_encode X (al_profile_id L),
         ac_profile_generation = al_profile_generation L, ac_sequence = sequence,
         ac_record_hash = ax_hex_encode X record_hash, ac_mac = []\<rparr> in
      and_then (checkpoint_mac X L checkpoint) (\<lambda>mac. Inr (checkpoint\<lparr>ac_mac := mac\<rparr>)))"

definition verify_checkpoint_mac :: "audit_ext \<Rightarrow> audit_ledger \<Rightarrow> audit_checkpoint \<Rightarrow> unit res" where
  "verify_checkpoint_mac X L c =
     ensure (ac_schema_version c = AUDIT_SCHEMA_VERSION) ''unsupported audit checkpoint schema'' (
     ensure (ac_profile_id c = ax_hex_encode X (al_profile_id L) \<and>
             ac_profile_generation c = al_profile_generation L)
       ''audit checkpoint profile identity mismatch'' (
     and_then (validate_digest (ac_record_hash c) ''checkpoint record hash'') (\<lambda>_.
     and_then (ok_or (ax_hex_decode X (ac_mac c)) ''decode audit checkpoint MAC'') (\<lambda>provided.
     ensure (length provided = 32) ''audit checkpoint MAC length is invalid'' (
     and_then (checkpoint_mac X L c) (\<lambda>mac.
     and_then (ok_or (ax_hex_decode X mac) ''decode audit checkpoint MAC'') (\<lambda>expected.
     ensure (expected = provided) ''audit checkpoint authentication failed'' (Inr ()))))))))"

definition hash_at :: "verified_log \<Rightarrow> u64 \<Rightarrow> bytes" where
  "hash_at v sequence =
     (if sequence = 0 then ZERO_HASH else vl_hashes v ! unat (sequence - 1))"

definition check_checkpoint ::
  "audit_ext \<Rightarrow> audit_ledger \<Rightarrow> verified_log \<Rightarrow> audit_checkpoint \<Rightarrow> unit res" where
  "check_checkpoint X L v checkpoint =
     and_then (verify_checkpoint_mac X L checkpoint) (\<lambda>_.
     ensure (ac_sequence checkpoint \<le> vl_sequence v) ''audit checkpoint is ahead of the log'' (
     ensure (ax_hex_encode X (hash_at v (ac_sequence checkpoint)) = ac_record_hash checkpoint)
       ''audit checkpoint diverges from the log'' (Inr ())))"

definition verify_external_anchor ::
  "audit_ext \<Rightarrow> audit_ledger \<Rightarrow> verified_log \<Rightarrow> audit_checkpoint \<Rightarrow> audit_checkpoint option \<Rightarrow> unit res" where
  "verify_external_anchor X L v checkpoint anchor =
     (case anchor of
        None \<Rightarrow> Inr ()
      | Some anchor \<Rightarrow>
          and_then (verify_checkpoint_mac X L anchor) (\<lambda>_.
          ensure (ac_profile_id anchor = ac_profile_id checkpoint \<and>
                  ac_profile_generation anchor = ac_profile_generation checkpoint)
            ''audit anchor belongs to another profile identity'' (
          ensure (ac_sequence anchor \<le> vl_sequence v)
            ''audit ledger is older than the external anchor'' (
          ensure (ax_hex_encode X (hash_at v (ac_sequence anchor)) = ac_record_hash anchor)
            ''audit ledger does not contain the external anchor'' (Inr ())))))"

section \<open>Files of the ledger\<close>

definition read_bounded_file :: "nat \<Rightarrow> nat \<Rightarrow> string \<Rightarrow> bytes fs" where
  "read_bounded_file h maximum label ds =
     (let initial_len = length (in_bytes (ds_inodes ds h)) in
      act_ensure (initial_len \<le> maximum) (label @ '' is oversized'') (
      let encoded = take (maximum + 1) (in_bytes (ds_inodes ds h)) in
      act_ensure (length encoded \<le> maximum) (label @ '' is oversized'') (
      let final_len = length (in_bytes (ds_inodes ds h)) in
      act_ensure (final_len \<le> maximum) (label @ '' is oversized'') (
      act_ensure (final_len = initial_len \<and> final_len = length encoded)
        (label @ '' changed while it was being read'') (
      act_result (Inr encoded))))) ds)"

definition verify_log_file :: "audit_ext \<Rightarrow> audit_ledger \<Rightarrow> nat \<Rightarrow> verified_log fs" where
  "verify_log_file X L h =
     act_bind (read_bounded_file h MAX_AUDIT_LOG_BYTES ''audit log'') (\<lambda>encoded.
     act_result (verify_log X L encoded))"

definition read_checkpoint :: "audit_ext \<Rightarrow> unix_env \<Rightarrow> audit_ledger \<Rightarrow> audit_checkpoint option fs" where
  "read_checkpoint X E L =
     act_bind (open_existing_protected_file E (al_checkpoint_path L)) (\<lambda>opened.
     case opened of
       None \<Rightarrow> act_result (Inr None)
     | Some h \<Rightarrow>
         act_bind (read_bounded_file h MAX_AUDIT_RECORD_BYTES ''audit checkpoint'') (\<lambda>encoded.
         act_result (and_then (ok_or (ax_checkpoint_parse X encoded) ''parse audit checkpoint'')
           (\<lambda>checkpoint. Inr (Some checkpoint)))))"

definition persist_checkpoint ::
  "audit_ext \<Rightarrow> unix_env \<Rightarrow> audit_ledger \<Rightarrow> audit_checkpoint \<Rightarrow> unit fs" where
  "persist_checkpoint X E L checkpoint =
     act_bind (act_result (ok_or (ax_checkpoint_json X checkpoint) ''serialize audit checkpoint''))
       (\<lambda>encoded. write_protected_atomic E (al_checkpoint_path L) encoded)"

definition persist_checkpoint_create_new ::
  "audit_ext \<Rightarrow> unix_env \<Rightarrow> audit_ledger \<Rightarrow> audit_checkpoint \<Rightarrow> unit fs" where
  "persist_checkpoint_create_new X E L checkpoint =
     act_bind (act_result (ok_or (ax_checkpoint_json X checkpoint) ''serialize audit checkpoint'')) (\<lambda>encoded.
     act_bind (create_new_protected_file E (al_checkpoint_path L)) (\<lambda>h.
     act_bind (write_end E h encoded ''write new authenticated audit checkpoint'') (\<lambda>_.
     sync_parent_directory E)))"

definition verify_checkpoint_against_log ::
  "audit_ext \<Rightarrow> unix_env \<Rightarrow> audit_ledger \<Rightarrow> verified_log \<Rightarrow> bool \<Rightarrow> audit_checkpoint fs" where
  "verify_checkpoint_against_log X E L v allow_lagging =
     act_bind (read_checkpoint X E L) (\<lambda>found.
     act_bind (act_result (ok_or found ''audit checkpoint is missing'')) (\<lambda>checkpoint.
     act_bind (act_result (check_checkpoint X L v checkpoint)) (\<lambda>_.
     act_ensure (allow_lagging \<or> ac_sequence checkpoint = vl_sequence v \<and>
                ac_record_hash checkpoint = ax_hex_encode X (vl_record_hash v))
       ''audit checkpoint lags behind the log; reconcile before use'' (
     act_result (Inr checkpoint)))))"

section \<open>Operations of the ledger\<close>

definition with_protected_key ::
  "audit_ext \<Rightarrow> unix_env \<Rightarrow> string \<Rightarrow> bytes \<Rightarrow> u64 \<Rightarrow> bytes \<Rightarrow> audit_ledger fs" where
  "with_protected_key X E directory profile_id profile_generation key =
     act_ensure (profile_generation > 0) ''audit profile generation must be non-zero'' (
     act_bind (harden_directory E) (\<lambda>_.
     let stem = ax_hex_encode X profile_id @ ''-g'' @ decimal (unat profile_generation) in
     act_result (Inr
       \<lparr>al_log_path = directory @ ''/audit-'' @ stem @ ''.jsonl'',
        al_checkpoint_path = directory @ ''/audit-'' @ stem @ ''.checkpoint.json'',
        al_profile_id = profile_id, al_profile_generation = profile_generation, al_key = key\<rparr>)))"

definition ledger_new ::
  "audit_ext \<Rightarrow> unix_env \<Rightarrow> string \<Rightarrow> bytes \<Rightarrow> u64 \<Rightarrow> bytes \<Rightarrow> audit_ledger fs" where
  "ledger_new X E directory profile_id profile_generation key =
     with_protected_key X E directory profile_id profile_generation key"

definition from_profile_call_key ::
  "audit_ext \<Rightarrow> unix_env \<Rightarrow> string \<Rightarrow> bytes \<Rightarrow> u64 \<Rightarrow> bytes \<Rightarrow> audit_ledger fs" where
  "from_profile_call_key X E directory profile_id generation call_key =
     act_bind (act_result (ok_or (ax_hmac X call_key (AUDIT_KEY_DOMAIN @ profile_id @ be64 generation))
       ''invalid profile audit key input'')) (\<lambda>key.
     with_protected_key X E directory profile_id generation key)"

definition has_any_material :: "unix_env \<Rightarrow> audit_ledger \<Rightarrow> bool fs" where
  "has_any_material E L =
     act_bind (open_existing_protected_file E (al_log_path L)) (\<lambda>log.
     act_bind (open_existing_protected_file E (al_checkpoint_path L)) (\<lambda>checkpoint.
     act_result (Inr (log \<noteq> None \<or> checkpoint \<noteq> None))))"

definition check_appendable :: "verified_log \<Rightarrow> audit_event \<Rightarrow> unit res" where
  "check_appendable v event =
     (case ae_phase event of
        PhaseIntent \<Rightarrow>
          ensure (ae_request_id event \<notin> set (vl_seen_intents v))
            ''audit Intent request id was already used'' (Inr ())
      | PhaseOutcome \<Rightarrow>
          and_then (ok_or (map_of (vl_pending_intents v) (ae_request_id event))
            ''audit Outcome does not match a pending Intent'') (\<lambda>binding.
          ensure_matches_outcome binding event)
      | PhaseAdministrative \<Rightarrow> Inr ())"

definition make_record :: "audit_ext \<Rightarrow> audit_ledger \<Rightarrow> u64 \<Rightarrow> bytes \<Rightarrow> audit_event \<Rightarrow> bytes \<Rightarrow> audit_record res" where
  "make_record X L sequence previous_hash event record_hash =
     (let r =
        \<lparr>au_schema_version = AUDIT_SCHEMA_VERSION, au_sequence = sequence,
         au_previous_hash = ax_hex_encode X previous_hash, au_event = event,
         au_record_hash = ax_hex_encode X record_hash, au_record_mac = []\<rparr> in
      and_then (record_mac X L r) (\<lambda>mac. Inr (r\<lparr>au_record_mac := mac\<rparr>)))"

definition append_locked_with_checkpoint_mode ::
  "audit_ext \<Rightarrow> unix_env \<Rightarrow> audit_ledger \<Rightarrow> nat \<Rightarrow> audit_event \<Rightarrow> bool \<Rightarrow> audit_checkpoint fs" where
  "append_locked_with_checkpoint_mode X E L h event create_new_checkpoint =
     act_bind (verify_log_file X L h) (\<lambda>verified.
     act_bind (if create_new_checkpoint
              then act_ensure (vl_sequence verified = 0 \<and> vl_first_event verified = None \<and>
                              vl_pending_intents verified = []) ''new audit generation is not empty'' (
                   act_bind (read_checkpoint X E L) (\<lambda>found.
                   act_ensure (found = None) ''new audit generation checkpoint already exists'' (
                   act_result (Inr ()))))
              else act_bind (verify_checkpoint_against_log X E L verified True) (\<lambda>_. act_result (Inr ())))
       (\<lambda>_.
     act_bind (act_result (check_appendable verified event)) (\<lambda>_.
     act_bind (act_result (ok_or (checked_add (vl_sequence verified) 1) ''audit sequence overflow'')) (\<lambda>sequence.
     act_bind (act_result (calculate_record_hash X sequence (vl_record_hash verified) event)) (\<lambda>record_hash.
     act_bind (act_result (make_record X L sequence (vl_record_hash verified) event record_hash)) (\<lambda>r.
     act_bind (act_result (ok_or (ax_record_json X r) ''serialize audit record'')) (\<lambda>encoded.
     act_ensure (length encoded \<le> MAX_AUDIT_RECORD_BYTES) ''audit record exceeds its size limit'' (
     act_bind (\<lambda>ds. act_ensure
                (usize_saturating_add (length (in_bytes (ds_inodes ds h))) (length (encoded @ [10]))
                 \<le> MAX_AUDIT_LOG_BYTES) ''audit log reached its configured size limit''
                (act_result (Inr ())) ds) (\<lambda>_.
     act_bind (write_end E h (encoded @ [10]) ''append audit record'') (\<lambda>_.
     act_bind (if create_new_checkpoint then sync_parent_directory E else act_result (Inr ())) (\<lambda>_.
     act_bind (act_result (make_checkpoint X L sequence record_hash)) (\<lambda>checkpoint.
     act_bind (if create_new_checkpoint then persist_checkpoint_create_new X E L checkpoint
              else persist_checkpoint X E L checkpoint) (\<lambda>_.
     act_result (Inr checkpoint))))))))))))))"

definition append_locked :: "audit_ext \<Rightarrow> unix_env \<Rightarrow> audit_ledger \<Rightarrow> nat \<Rightarrow> audit_event \<Rightarrow> audit_checkpoint fs" where
  "append_locked X E L h event = append_locked_with_checkpoint_mode X E L h event False"

definition check_event_identity :: "audit_ext \<Rightarrow> audit_ledger \<Rightarrow> audit_event \<Rightarrow> string \<Rightarrow> unit res" where
  "check_event_identity X L event message =
     and_then (validate_event event) (\<lambda>_.
     ensure (ae_profile_id event = ax_hex_encode X (al_profile_id L) \<and>
             ae_profile_generation event = al_profile_generation L) message (Inr ()))"

definition open_log_for_update :: "unix_env \<Rightarrow> audit_ledger \<Rightarrow> nat fs" where
  "open_log_for_update E L =
     act_bind (open_existing_protected_file_for_update E (al_log_path L)) (\<lambda>opened.
     act_result (ok_or opened ''authenticated audit log is missing''))"

definition append_event :: "audit_ext \<Rightarrow> unix_env \<Rightarrow> audit_ledger \<Rightarrow> audit_event \<Rightarrow> audit_checkpoint fs" where
  "append_event X E L event =
     act_bind (act_result (check_event_identity X L event ''audit event profile identity mismatch'')) (\<lambda>_.
     act_bind (open_log_for_update E L) (\<lambda>h.
     append_locked X E L h event))"

definition verify_internal ::
  "audit_ext \<Rightarrow> unix_env \<Rightarrow> audit_ledger \<Rightarrow> audit_checkpoint option \<Rightarrow> bool \<Rightarrow> audit_inspection fs" where
  "verify_internal X E L anchor require_complete =
     act_bind (open_existing_protected_file E (al_log_path L)) (\<lambda>opened.
     act_bind (act_result (ok_or opened ''authenticated audit log is missing'')) (\<lambda>h.
     act_bind (verify_log_file X L h) (\<lambda>verified.
     act_ensure (require_complete \<longrightarrow> vl_pending_intents verified = [])
       ''audit ledger contains an Intent without a terminal Outcome'' (
     act_bind (verify_checkpoint_against_log X E L verified False) (\<lambda>checkpoint.
     act_bind (act_result (verify_external_anchor X L verified checkpoint anchor)) (\<lambda>_.
     act_result (Inr \<lparr>ai_pending_intents = length (vl_pending_intents verified),
                     ai_checkpoint = checkpoint\<rparr>)))))))"

definition ledger_verify ::
  "audit_ext \<Rightarrow> unix_env \<Rightarrow> audit_ledger \<Rightarrow> audit_checkpoint option \<Rightarrow> audit_checkpoint fs" where
  "ledger_verify X E L anchor =
     act_bind (verify_internal X E L anchor False) (\<lambda>i. act_result (Inr (ai_checkpoint i)))"

definition verify_complete ::
  "audit_ext \<Rightarrow> unix_env \<Rightarrow> audit_ledger \<Rightarrow> audit_checkpoint option \<Rightarrow> audit_checkpoint fs" where
  "verify_complete X E L anchor =
     act_bind (verify_internal X E L anchor True) (\<lambda>i. act_result (Inr (ai_checkpoint i)))"

definition inspect ::
  "audit_ext \<Rightarrow> unix_env \<Rightarrow> audit_ledger \<Rightarrow> audit_checkpoint option \<Rightarrow> audit_inspection fs" where
  "inspect X E L anchor = verify_internal X E L anchor False"

definition ledger_reconcile :: "audit_ext \<Rightarrow> unix_env \<Rightarrow> audit_ledger \<Rightarrow> audit_checkpoint fs" where
  "ledger_reconcile X E L =
     act_bind (open_log_for_update E L) (\<lambda>h.
     act_bind (verify_log_file X L h) (\<lambda>verified.
     act_bind (read_checkpoint X E L) (\<lambda>prior.
     act_bind (act_result (case prior of
                Some checkpoint \<Rightarrow> check_checkpoint X L verified checkpoint
              | None \<Rightarrow> ensure (vl_sequence verified = 0) ''audit checkpoint is missing'' (Inr ()))) (\<lambda>_.
     act_bind (act_result (make_checkpoint X L (vl_sequence verified) (vl_record_hash verified))) (\<lambda>checkpoint.
     act_bind (persist_checkpoint X E L checkpoint) (\<lambda>_.
     act_result (Inr checkpoint)))))))"

section \<open>Resolution of pending intents\<close>

definition resolve_event ::
  "audit_ext \<Rightarrow> audit_ledger \<Rightarrow> u64 \<Rightarrow> bytes \<Rightarrow> pending_intent_binding \<Rightarrow> audit_event" where
  "resolve_event X L at_unix_ms request_id binding =
     \<lparr>ae_profile_id = ax_hex_encode X (al_profile_id L),
      ae_profile_generation = al_profile_generation L, ae_request_id = request_id,
      ae_at_unix_ms = at_unix_ms, ae_operation_kind = pb_operation_kind binding,
      ae_phase = PhaseOutcome, ae_decision = DecisionUnknown,
      ae_policy_digest = pb_policy_digest binding, ae_intent_digest = pb_intent_digest binding,
      ae_result_digest = Some (resolved_unknown_result_digest X (al_profile_id L)
        (al_profile_generation L) request_id binding),
      ae_reason_code = RESOLVE_UNKNOWN_REASON\<rparr>"

fun resolve_loop ::
  "audit_ext \<Rightarrow> unix_env \<Rightarrow> audit_ledger \<Rightarrow> nat \<Rightarrow> u64 \<Rightarrow> (bytes \<times> pending_intent_binding) list \<Rightarrow>
     audit_checkpoint \<Rightarrow> audit_checkpoint fs" where
  "resolve_loop X E L h at_unix_ms [] checkpoint = act_result (Inr checkpoint)"
| "resolve_loop X E L h at_unix_ms ((request_id, binding) # pending) checkpoint =
     act_bind (append_locked X E L h (resolve_event X L at_unix_ms request_id binding))
       (\<lambda>checkpoint. resolve_loop X E L h at_unix_ms pending checkpoint)"

definition resolve_pending_as_unknown ::
  "audit_ext \<Rightarrow> unix_env \<Rightarrow> audit_ledger \<Rightarrow> u64 \<Rightarrow> audit_checkpoint option \<Rightarrow> pending_resolution fs" where
  "resolve_pending_as_unknown X E L at_unix_ms anchor =
     act_ensure (at_unix_ms > 0) ''pending-resolution timestamp must be non-zero'' (
     act_bind (open_log_for_update E L) (\<lambda>h.
     act_bind (verify_log_file X L h) (\<lambda>verified.
     act_bind (verify_checkpoint_against_log X E L verified False) (\<lambda>current.
     act_bind (act_result (verify_external_anchor X L verified current anchor)) (\<lambda>_.
     let pending = sort_key fst (vl_pending_intents verified) in
     act_bind (resolve_loop X E L h at_unix_ms pending current) (\<lambda>checkpoint.
     act_result (Inr \<lparr>pr_resolved = length pending, pr_checkpoint = checkpoint\<rparr>)))))))"

section \<open>Initialization of a generation\<close>

definition generation_transition_event ::
  "audit_ext \<Rightarrow> audit_ledger \<Rightarrow> audit_checkpoint option \<Rightarrow> string \<Rightarrow> string \<Rightarrow> u64 \<Rightarrow> audit_event res" where
  "generation_transition_event X L predecessor old_name new_name at_unix_ms =
     and_then (case predecessor of
                 Some checkpoint \<Rightarrow> ok_or (ax_checkpoint_json X checkpoint)
                   ''serialize predecessor audit checkpoint''
               | None \<Rightarrow> Inr []) (\<lambda>predecessor_bytes.
     let binding = ax_sha256 X (GENERATION_TRANSITION_DOMAIN @
           be64 (word_of_nat (length old_name)) @ as_bytes old_name @
           be64 (word_of_nat (length new_name)) @ as_bytes new_name @
           be64 (word_of_nat (length predecessor_bytes)) @ predecessor_bytes @
           al_profile_id L @ be64 (al_profile_generation L));
         policy_digest = ax_sha256 X (GENERATION_TRANSITION_DOMAIN @ as_bytes ''policy'' @ al_profile_id L);
         result_digest = ax_sha256 X (GENERATION_TRANSITION_DOMAIN @ as_bytes ''successor'' @
           al_profile_id L @ be64 (al_profile_generation L) @ binding) in
     Inr \<lparr>ae_profile_id = ax_hex_encode X (al_profile_id L),
          ae_profile_generation = al_profile_generation L, ae_request_id = take 16 binding,
          ae_at_unix_ms = at_unix_ms, ae_operation_kind = ''audit.generation'',
          ae_phase = PhaseAdministrative, ae_decision = DecisionAllowed,
          ae_policy_digest = ax_hex_encode X policy_digest, ae_intent_digest = ax_hex_encode X binding,
          ae_result_digest = Some (ax_hex_encode X result_digest),
          ae_reason_code = (if predecessor \<noteq> None then ''generation.transition''
                            else ''generation.genesis'')\<rparr>)"

definition initialize_create_new ::
  "audit_ext \<Rightarrow> unix_env \<Rightarrow> audit_ledger \<Rightarrow> audit_event \<Rightarrow> audit_checkpoint fs" where
  "initialize_create_new X E L event =
     act_bind (act_result (check_event_identity X L event
       ''audit initialization event profile identity mismatch'')) (\<lambda>_.
     act_bind (open_existing_protected_file E (al_checkpoint_path L)) (\<lambda>found.
     act_ensure (found = None) ''audit checkpoint already exists'' (
     act_bind (create_new_protected_file E (al_log_path L)) (\<lambda>h.
     append_locked_with_checkpoint_mode X E L h event True))))"

definition resume_generation_initialization ::
  "audit_ext \<Rightarrow> unix_env \<Rightarrow> audit_ledger \<Rightarrow> audit_event \<Rightarrow> audit_checkpoint fs" where
  "resume_generation_initialization X E L expected =
     act_bind (open_existing_protected_file_for_update E (al_log_path L)) (\<lambda>opened.
     act_bind (act_result (ok_or opened ''incomplete generation audit log disappeared'')) (\<lambda>h.
     act_bind (verify_log_file X L h) (\<lambda>verified.
     if vl_sequence verified = 0
     then act_ensure (vl_first_event verified = None \<and> vl_pending_intents verified = [])
            ''empty generation audit log has unexpected verification state'' (
          append_locked_with_checkpoint_mode X E L h expected True)
     else
       act_ensure (vl_sequence verified = 1 \<and> vl_pending_intents verified = [])
         ''incomplete generation audit log is not an exact single transition'' (
       act_bind (act_result (ok_or (vl_first_event verified)
         ''incomplete generation audit log has no transition'')) (\<lambda>actual.
       act_bind (act_result (ensure_generation_event_matches actual expected)) (\<lambda>_.
       act_bind (act_result (make_checkpoint X L (vl_sequence verified) (vl_record_hash verified))) (\<lambda>checkpoint.
       act_bind (persist_checkpoint_create_new X E L checkpoint) (\<lambda>_.
       act_result (Inr checkpoint)))))))))"

definition verify_single_generation_event ::
  "audit_ext \<Rightarrow> unix_env \<Rightarrow> audit_ledger \<Rightarrow> audit_event \<Rightarrow> audit_checkpoint fs" where
  "verify_single_generation_event X E L expected =
     act_bind (open_existing_protected_file E (al_log_path L)) (\<lambda>opened.
     act_bind (act_result (ok_or opened ''initialized generation audit log is missing'')) (\<lambda>h.
     act_bind (verify_log_file X L h) (\<lambda>verified.
     act_ensure (vl_sequence verified = 1 \<and> vl_pending_intents verified = [])
       ''pre-existing generation audit ledger is not an exact transition'' (
     act_bind (verify_checkpoint_against_log X E L verified False) (\<lambda>checkpoint.
     act_bind (act_result (ok_or (vl_first_event verified)
       ''generation audit ledger has no transition'')) (\<lambda>actual.
     act_bind (act_result (ensure_generation_event_matches actual expected)) (\<lambda>_.
     act_result (Inr checkpoint))))))))"

definition initialize_generation ::
  "audit_ext \<Rightarrow> unix_env \<Rightarrow> audit_ledger \<Rightarrow> audit_checkpoint option \<Rightarrow> string \<Rightarrow> string \<Rightarrow> u64 \<Rightarrow>
     audit_checkpoint fs" where
  "initialize_generation X E L predecessor old_name new_name at_unix_ms =
     act_ensure (at_unix_ms > 0) ''audit initialization timestamp must be non-zero'' (
     act_bind (act_result (validate_transition_name old_name ''old profile name'')) (\<lambda>_.
     act_bind (act_result (validate_transition_name new_name ''new profile name'')) (\<lambda>_.
     act_bind (act_result (generation_transition_event X L predecessor old_name new_name at_unix_ms)) (\<lambda>event.
     act_bind (open_existing_protected_file E (al_log_path L)) (\<lambda>log.
     act_bind (open_existing_protected_file E (al_checkpoint_path L)) (\<lambda>checkpoint.
     case (log, checkpoint) of
       (None, None) \<Rightarrow> initialize_create_new X E L event
     | (Some _, Some _) \<Rightarrow> verify_single_generation_event X E L event
     | (Some _, None) \<Rightarrow> resume_generation_initialization X E L event
     | (None, Some _) \<Rightarrow>
         act_result (Inl ''audit generation checkpoint exists without its authenticated log'')))))))"

section \<open>Lemmas\<close>

subsection \<open>Lines\<close>

lemma concat_split_inclusive: "concat (split_inclusive acc bs) = acc @ bs"
  by (induction acc bs rule: split_inclusive.induct) auto

lemma split_inclusive_line: "10 \<notin> set line \<Longrightarrow>
    split_inclusive acc (line @ 10 # bs) = (acc @ line @ [10]) # split_inclusive [] bs"
  by (induction line arbitrary: acc) auto

lemma split_inclusive_lines:
  "(\<forall>l\<in>set ls. \<exists>b. l = b @ [10] \<and> 10 \<notin> set b) \<Longrightarrow>
     split_inclusive [] (concat ls @ bs) = ls @ split_inclusive [] bs"
  by (induction ls) (auto simp: split_inclusive_line)

lemma split_inclusive_no_newline: "10 \<notin> set bs \<Longrightarrow>
    split_inclusive acc bs = (if acc @ bs = [] then [] else [acc @ bs])"
  by (induction bs arbitrary: acc) auto

lemma split_inclusive_body: "10 \<notin> set acc \<Longrightarrow> l \<in> set (split_inclusive acc bs) \<Longrightarrow> 10 \<notin> set (butlast l)"
proof (induction acc bs rule: split_inclusive.induct)
  case (1 acc)
  then show ?case by (auto dest: in_set_butlastD split: if_splits)
qed (auto split: if_splits)

definition line_event :: "audit_ext \<Rightarrow> bytes \<Rightarrow> audit_event" where
  "line_event X raw = au_event (the (ax_record_parse X (butlast raw)))"

text \<open>The history a log tells.\<close>

definition log_events :: "audit_ext \<Rightarrow> bytes \<Rightarrow> audit_event list" where
  "log_events X bs = map (line_event X) (split_inclusive [] bs)"

text \<open>One step of the chain, without its serialisation: the state after an event with hash \<open>d\<close>.\<close>

definition extend :: "verified_log \<Rightarrow> audit_event \<Rightarrow> bytes \<Rightarrow> verified_log res" where
  "extend v e d =
     and_then (track_intent (v\<lparr>vl_first_event := (if vl_first_event v = None then Some e
                                                   else vl_first_event v)\<rparr>) e) (\<lambda>v.
     Inr (v\<lparr>vl_record_hash := d, vl_sequence := vl_sequence v + 1, vl_hashes := vl_hashes v @ [d]\<rparr>))"

lemma track_intent_fields:
  assumes "track_intent v e = Inr v'"
  shows "vl_sequence v' = vl_sequence v" "vl_record_hash v' = vl_record_hash v"
    "vl_hashes v' = vl_hashes v" "vl_first_event v' = vl_first_event v"
  using assms by (auto simp: track_intent_def result_simps split: audit_phase.splits)

definition event_ok :: "audit_ext \<Rightarrow> audit_ledger \<Rightarrow> audit_event \<Rightarrow> bool" where
  "event_ok X L e \<longleftrightarrow>
     validate_event e = Inr () \<and> ae_profile_id e = ax_hex_encode X (al_profile_id L) \<and>
     ae_profile_generation e = al_profile_generation L"

definition record_ok :: "audit_ext \<Rightarrow> audit_ledger \<Rightarrow> verified_log \<Rightarrow> bytes \<Rightarrow> audit_record \<Rightarrow> bytes \<Rightarrow> bool" where
  "record_ok X L v raw r d \<longleftrightarrow>
     raw \<noteq> [] \<and> last raw = 10 \<and> butlast raw \<noteq> [] \<and> length (butlast raw) \<le> MAX_AUDIT_RECORD_BYTES \<and>
     ax_record_parse X (butlast raw) = Some r \<and> au_schema_version r = AUDIT_SCHEMA_VERSION \<and>
     verify_record_mac X L r = Inr () \<and> event_ok X L (au_event r) \<and>
     checked_add (vl_sequence v) 1 = Some (au_sequence r) \<and>
     au_previous_hash r = ax_hex_encode X (vl_record_hash v) \<and>
     calculate_record_hash X (au_sequence r) (vl_record_hash v) (au_event r) = Inr d \<and>
     au_record_hash r = ax_hex_encode X d"

lemma ex_unit: "(\<exists>x::unit. P x) \<longleftrightarrow> P ()"
  by (metis (full_types) old.unit.exhaust)

lemma verify_line_eq_Inr:
  "verify_line X L v raw = Inr v' \<longleftrightarrow>
     (\<exists>r d. record_ok X L v raw r d \<and> extend v (au_event r) d = Inr v')"
proof -
  let ?w = "\<lambda>r. v\<lparr>vl_first_event := (if vl_first_event v = None then Some (au_event r)
                                      else vl_first_event v)\<rparr>"
  have w: "(if vl_first_event v = None then v\<lparr>vl_first_event := Some (au_event r)\<rparr> else v) = ?w r" for r
    by simp
  show ?thesis
  proof
    assume "verify_line X L v raw = Inr v'"
    then obtain r v1 d where *: "raw \<noteq> [] \<and> last raw = 10" "butlast raw \<noteq> []"
      "length (butlast raw) \<le> MAX_AUDIT_RECORD_BYTES" "ax_record_parse X (butlast raw) = Some r"
      "au_schema_version r = AUDIT_SCHEMA_VERSION" "verify_record_mac X L r = Inr ()"
      "event_ok X L (au_event r)" "track_intent (?w r) (au_event r) = Inr v1"
      "checked_add (vl_sequence v1) 1 = Some (au_sequence r)"
      "au_previous_hash r = ax_hex_encode X (vl_record_hash v1)"
      "calculate_record_hash X (au_sequence r) (vl_record_hash v1) (au_event r) = Inr d"
      "au_record_hash r = ax_hex_encode X d"
      "v' = v1\<lparr>vl_record_hash := d, vl_sequence := au_sequence r, vl_hashes := vl_hashes v1 @ [d]\<rparr>"
      unfolding verify_line_def Let_def w event_ok_def
      by (simp only: and_then_eq_Inr ensure_eq_Inr ok_or_eq_Inr ex_unit sum.inject) blast
    note t = track_intent_fields [OF *(8)]
    have "record_ok X L v raw r d"
      using *(1-7,9-12) t unfolding record_ok_def by simp
    moreover have "extend v (au_event r) d = Inr v'"
      using *(8,9,13) t unfolding extend_def by (simp add: checked_add_eq_Some)
    ultimately show "\<exists>r d. record_ok X L v raw r d \<and> extend v (au_event r) d = Inr v'" by blast
  next
    assume "\<exists>r d. record_ok X L v raw r d \<and> extend v (au_event r) d = Inr v'"
    then obtain r d v1 where *: "record_ok X L v raw r d" "track_intent (?w r) (au_event r) = Inr v1"
      "v' = v1\<lparr>vl_record_hash := d, vl_sequence := vl_sequence v1 + 1, vl_hashes := vl_hashes v1 @ [d]\<rparr>"
      by (auto simp: extend_def and_then_eq_Inr)
    note t = track_intent_fields [OF *(2)]
    have "au_sequence r = vl_sequence v + 1" using *(1) by (simp add: record_ok_def checked_add_eq_Some)
    then show "verify_line X L v raw = Inr v'"
      using *(1) t unfolding verify_line_def Let_def w record_ok_def event_ok_def
      by (simp add: *(2,3))
  qed
qed

subsection \<open>What a verified log says\<close>

definition is_phase :: "audit_phase \<Rightarrow> audit_event \<Rightarrow> bool" where
  "is_phase p e \<longleftrightarrow> ae_phase e = p"

definition request_ids :: "audit_phase \<Rightarrow> audit_event list \<Rightarrow> bytes list" where
  "request_ids p es = map ae_request_id (filter (is_phase p) es)"

text \<open>Intents have distinct request ids, and every outcome comes after an intent of the same
  request, operation kind, policy and intent digest that has no other outcome.\<close>

definition accountable :: "audit_event list \<Rightarrow> bool" where
  "accountable es \<longleftrightarrow>
     distinct (request_ids PhaseIntent es) \<and> distinct (request_ids PhaseOutcome es) \<and>
     (\<forall>before e after. es = before @ e # after \<longrightarrow> ae_phase e = PhaseOutcome \<longrightarrow>
        (\<exists>i\<in>set before. ae_phase i = PhaseIntent \<and> ae_request_id i = ae_request_id e \<and>
           from_intent i = from_intent e))"

text \<open>The intents that wait for their outcome.\<close>

definition open_intents :: "audit_event list \<Rightarrow> audit_event list" where
  "open_intents es =
     filter (\<lambda>e. ae_phase e = PhaseIntent \<and> ae_request_id e \<notin> set (request_ids PhaseOutcome es)) es"

lemma request_ids_snoc:
  "request_ids p (es @ [e]) = request_ids p es @ (if ae_phase e = p then [ae_request_id e] else [])"
  by (simp add: request_ids_def is_phase_def)

lemma in_request_ids: "r \<in> set (request_ids p es) \<longleftrightarrow> (\<exists>e\<in>set es. ae_phase e = p \<and> ae_request_id e = r)"
  by (auto simp: request_ids_def is_phase_def)

lemma ensure_matches_outcome_eq:
  "ensure_matches_outcome b e = Inr () \<longleftrightarrow> b = from_intent e"
  by (auto simp: ensure_matches_outcome_def from_intent_def ensure_eq_Inr)

lemma map_of_remove_key:
  "map_of (remove_key k m) = (map_of m)(k := None)"
  by (induction m) (auto simp: remove_key_def fun_eq_iff)

lemma remove_key_keys:
  "map fst (remove_key k m) = filter (\<lambda>x. x \<noteq> k) (map fst m)"
  by (induction m) (auto simp: remove_key_def)

definition tracked :: "audit_event list \<Rightarrow> verified_log \<Rightarrow> bool" where
  "tracked es v \<longleftrightarrow>
     accountable es \<and> set (vl_seen_intents v) = set (request_ids PhaseIntent es) \<and>
     distinct (map fst (vl_pending_intents v)) \<and>
     (\<forall>r b. map_of (vl_pending_intents v) r = Some b \<longleftrightarrow>
        (\<exists>i\<in>set (open_intents es). ae_request_id i = r \<and> from_intent i = b))"

lemma accountable_snoc:
  "accountable (es @ [e]) \<longleftrightarrow>
     accountable es \<and>
     (ae_phase e = PhaseIntent \<longrightarrow> ae_request_id e \<notin> set (request_ids PhaseIntent es)) \<and>
     (ae_phase e = PhaseOutcome \<longrightarrow> ae_request_id e \<notin> set (request_ids PhaseOutcome es) \<and>
       (\<exists>i\<in>set es. ae_phase i = PhaseIntent \<and> ae_request_id i = ae_request_id e \<and>
          from_intent i = from_intent e))"
proof -
  have "(\<forall>before x after. es @ [e] = before @ x # after \<longrightarrow> P before x) \<longleftrightarrow>
      (\<forall>before x after. es = before @ x # after \<longrightarrow> P before x) \<and> P es e" for P
  proof (intro iffI conjI allI impI)
    fix before x after
    assume "\<forall>before x after. es @ [e] = before @ x # after \<longrightarrow> P before x" "es = before @ x # after"
    then show "P before x" by (metis append.assoc append_Cons)
  next
    fix before x after
    assume h: "(\<forall>before x after. es = before @ x # after \<longrightarrow> P before x) \<and> P es e"
      and eq: "es @ [e] = before @ x # after"
    show "P before x"
    proof (cases after rule: rev_cases)
      case Nil
      with h eq show ?thesis by simp
    next
      case (snoc as a)
      with eq have "es = before @ x # as" by (metis append.assoc append_Cons append1_eq_conv)
      with h show ?thesis by blast
    qed
  qed auto
  then show ?thesis
    unfolding accountable_def by (auto simp: request_ids_snoc)
qed

lemma open_intents_snoc:
  assumes "accountable (es @ [e])"
  shows "set (open_intents (es @ [e])) =
    (case ae_phase e of
       PhaseIntent \<Rightarrow> insert e (set (open_intents es))
     | PhaseOutcome \<Rightarrow> {i \<in> set (open_intents es). ae_request_id i \<noteq> ae_request_id e}
     | PhaseAdministrative \<Rightarrow> set (open_intents es))"
proof (cases "ae_phase e")
  case PhaseIntent
  have "ae_request_id e \<notin> set (request_ids PhaseOutcome es)"
  proof
    assume "ae_request_id e \<in> set (request_ids PhaseOutcome es)"
    then obtain x where x: "x \<in> set es" "ae_phase x = PhaseOutcome" "ae_request_id x = ae_request_id e"
      by (auto simp: in_request_ids)
    then obtain bef aft where "es = bef @ x # aft" by (meson split_list)
    with x assms obtain i where "i \<in> set es" "ae_phase i = PhaseIntent" "ae_request_id i = ae_request_id e"
      unfolding accountable_snoc unfolding accountable_def by (metis Un_iff set_append)
    with assms PhaseIntent show False by (auto simp: accountable_snoc in_request_ids)
  qed
  with PhaseIntent show ?thesis by (auto simp: open_intents_def request_ids_snoc)
qed (auto simp: open_intents_def request_ids_snoc)

lemma track_intent_tracked:
  assumes t: "tracked es v" and e: "track_intent v e = Inr v'"
  shows "tracked (es @ [e]) v'"
proof (cases "ae_phase e")
  case PhaseIntent
  with e have v': "ae_request_id e \<notin> set (vl_seen_intents v)"
    "vl_seen_intents v' = ae_request_id e # vl_seen_intents v"
    "vl_pending_intents v' = (ae_request_id e, from_intent e) # remove_key (ae_request_id e) (vl_pending_intents v)"
    by (auto simp: track_intent_def ensure_eq_Inr)
  have acc: "accountable (es @ [e])"
    using t v'(1) PhaseIntent by (simp add: accountable_snoc tracked_def)
  have "ae_request_id i \<noteq> ae_request_id e" if "i \<in> set (open_intents es)" for i
    using that t v'(1) by (auto simp: tracked_def open_intents_def in_request_ids)
  then show ?thesis
    using t v'(2,3) acc PhaseIntent open_intents_snoc [OF acc]
    by (auto simp: tracked_def request_ids_snoc map_of_remove_key remove_key_keys)
next
  case PhaseOutcome
  with e obtain b where b: "map_of (vl_pending_intents v) (ae_request_id e) = Some b" "b = from_intent e"
    "vl_seen_intents v' = vl_seen_intents v"
    "vl_pending_intents v' = remove_key (ae_request_id e) (vl_pending_intents v)"
    by (auto simp: track_intent_def result_simps ensure_matches_outcome_eq)
  with t obtain i where "i \<in> set (open_intents es)" "ae_request_id i = ae_request_id e"
    "from_intent i = from_intent e" unfolding tracked_def by blast
  then have acc: "accountable (es @ [e])"
    using t PhaseOutcome by (auto simp: accountable_snoc tracked_def open_intents_def)
  show ?thesis
    using t b acc PhaseOutcome open_intents_snoc [OF acc]
    by (auto simp: tracked_def request_ids_snoc map_of_remove_key remove_key_keys)
next
  case PhaseAdministrative
  with e have "v' = v" by (simp add: track_intent_def)
  moreover have acc: "accountable (es @ [e])"
    using t PhaseAdministrative by (auto simp: accountable_snoc tracked_def)
  ultimately show ?thesis
    using t PhaseAdministrative open_intents_snoc [OF acc] by (auto simp: tracked_def request_ids_snoc)
qed

definition log_inv :: "audit_ext \<Rightarrow> audit_ledger \<Rightarrow> audit_event list \<Rightarrow> verified_log \<Rightarrow> bool" where
  "log_inv X L es v \<longleftrightarrow>
     tracked es v \<and> list_all (event_ok X L) es \<and>
     unat (vl_sequence v) = length es \<and> length (vl_hashes v) = length es \<and>
     vl_record_hash v = (ZERO_HASH # vl_hashes v) ! length es \<and>
     vl_first_event v = (case es of [] \<Rightarrow> None | e # _ \<Rightarrow> Some e) \<and>
     (\<forall>i<length es. calculate_record_hash X (word_of_nat (Suc i)) ((ZERO_HASH # vl_hashes v) ! i) (es ! i)
        = Inr (vl_hashes v ! i))"

lemma log_inv_empty: "log_inv X L [] empty_log"
  by (simp add: log_inv_def empty_log_def tracked_def accountable_def request_ids_def open_intents_def)

lemma log_inv_step:
  assumes inv: "log_inv X L es v" and l: "verify_line X L v raw = Inr v'"
  shows "log_inv X L (es @ [line_event X raw]) v'"
proof -
  from l obtain r d where r: "record_ok X L v raw r d" "extend v (au_event r) d = Inr v'"
    by (auto simp: verify_line_eq_Inr)
  then have e: "line_event X raw = au_event r" by (simp add: record_ok_def line_event_def)
  let ?w = "v\<lparr>vl_first_event := (if vl_first_event v = None then Some (au_event r) else vl_first_event v)\<rparr>"
  from r(2) obtain v1 where v1: "track_intent ?w (au_event r) = Inr v1"
    "v' = v1\<lparr>vl_record_hash := d, vl_sequence := vl_sequence v1 + 1, vl_hashes := vl_hashes v1 @ [d]\<rparr>"
    by (auto simp: extend_def and_then_eq_Inr)
  note t = track_intent_fields [OF v1(1)]
  have "tracked es ?w" using inv by (simp add: log_inv_def tracked_def)
  then have "tracked (es @ [au_event r]) v1" by (rule track_intent_tracked) (rule v1(1))
  then have "tracked (es @ [au_event r]) v'" by (simp add: v1(2) tracked_def)
  moreover have "event_ok X L (au_event r)" using r(1) by (simp add: record_ok_def)
  moreover have s: "unat (vl_sequence v') = Suc (length es)" "au_sequence r = word_of_nat (Suc (length es))"
  proof -
    from r(1) have c: "checked_add (vl_sequence v) 1 = Some (au_sequence r)" by (simp add: record_ok_def)
    with inv have u: "unat (au_sequence r) = Suc (length es)"
      by (simp add: unat_checked_add log_inv_def)
    from c have "au_sequence r = vl_sequence v + 1" by (simp add: checked_add_eq_Some)
    with u t(1) v1(2) show "unat (vl_sequence v') = Suc (length es)" by simp
    show "au_sequence r = word_of_nat (Suc (length es))" using arg_cong [OF u, of "word_of_nat :: nat \<Rightarrow> u64"] by (simp del: of_nat_Suc)
  qed
  moreover have "vl_hashes v' = vl_hashes v @ [d]" "vl_record_hash v' = d"
    using v1(2) t by simp_all
  moreover have "vl_first_event v' = (case es @ [au_event r] of [] \<Rightarrow> None | e # _ \<Rightarrow> Some e)"
    using v1(2) t(4) inv by (cases es) (auto simp: log_inv_def)
  moreover have "calculate_record_hash X (word_of_nat (Suc (length es))) ((ZERO_HASH # vl_hashes v) ! length es) (au_event r) = Inr d"
    using r(1) inv s(2) by (simp add: record_ok_def log_inv_def)
  ultimately show ?thesis
    using inv unfolding e log_inv_def
    by (auto simp: nth_append less_Suc_eq nth_Cons')
qed

lemma verify_lines_inv:
  "run_steps (verify_line X L) empty_log ls = Inr v \<Longrightarrow> log_inv X L (map (line_event X) ls) v"
proof (induction ls arbitrary: v rule: rev_induct)
  case Nil
  then show ?case by (simp add: log_inv_empty)
next
  case (snoc l ls)
  then show ?case by (auto simp: run_steps_snoc intro: log_inv_step)
qed

lemma verify_log_inv: "verify_log X L bs = Inr v \<Longrightarrow> log_inv X L (log_events X bs) v"
  unfolding verify_log_def log_events_def by (rule verify_lines_inv)

subsection \<open>What other crates provide\<close>

definition audit_laws :: "audit_ext \<Rightarrow> bool" where
  "audit_laws X \<longleftrightarrow>
     (\<forall>m. length (ax_sha256 X m) = 32) \<and>
     (\<forall>k m t. ax_hmac X k m = Some t \<longrightarrow> length t = 32) \<and>
     (\<forall>b. ax_hex_decode X (ax_hex_encode X b) = Some b \<and> length (ax_hex_encode X b) = 2 * length b \<and>
          list_all is_lower_hex_char (ax_hex_encode X b)) \<and>
     (\<forall>e1 e2 b. ax_event_json X e1 = Some b \<longrightarrow> ax_event_json X e2 = Some b \<longrightarrow> e1 = e2) \<and>
     (\<forall>r b. ax_record_json X r = Some b \<longrightarrow> b \<noteq> [] \<and> 10 \<notin> set b \<and> ax_record_parse X b = Some r) \<and>
     (\<forall>c b. ax_checkpoint_json X c = Some b \<longrightarrow> ax_checkpoint_parse X b = Some c \<and>
        (length (ac_profile_id c) \<le> 64 \<longrightarrow> length (ac_record_hash c) \<le> 64 \<longrightarrow> length (ac_mac c) \<le> 64 \<longrightarrow>
         length b \<le> 1024))"

lemma audit_lawsD:
  assumes "audit_laws X"
  shows "length (ax_sha256 X m) = 32" "ax_hmac X k m = Some t \<Longrightarrow> length t = 32"
    "ax_hex_decode X (ax_hex_encode X b) = Some b" "length (ax_hex_encode X b) = 2 * length b"
    "list_all is_lower_hex_char (ax_hex_encode X b)"
    "ax_event_json X e1 = Some j \<Longrightarrow> ax_event_json X e2 = Some j \<Longrightarrow> e1 = e2"
    "ax_record_json X r = Some j \<Longrightarrow> j \<noteq> [] \<and> 10 \<notin> set j \<and> ax_record_parse X j = Some r"
    "ax_checkpoint_json X c = Some j \<Longrightarrow> ax_checkpoint_parse X j = Some c"
    "ax_checkpoint_json X c = Some j \<Longrightarrow> length (ac_profile_id c) \<le> 64 \<Longrightarrow>
       length (ac_record_hash c) \<le> 64 \<Longrightarrow> length (ac_mac c) \<le> 64 \<Longrightarrow> length j \<le> 1024"
  using assms unfolding audit_laws_def by blast+

lemma hex_encode_inject:
  assumes "audit_laws X"
  shows "ax_hex_encode X a = ax_hex_encode X b \<longleftrightarrow> a = b"
  using audit_lawsD(3) [OF assms] by (metis option.inject)

lemma calculate_record_hash_eq:
  "calculate_record_hash X s p e = Inr d \<longleftrightarrow>
     (\<exists>j. ax_event_json X e = Some j \<and> d = ax_sha256 X (record_preimage s p j))"
  by (auto simp: calculate_record_hash_def result_simps)

subsection \<open>The chain determines the history\<close>

definition preimages :: "audit_ext \<Rightarrow> audit_event list \<Rightarrow> verified_log \<Rightarrow> bytes list" where
  "preimages X es v =
     map (\<lambda>i. record_preimage (word_of_nat (Suc i)) ((ZERO_HASH # vl_hashes v) ! i)
                (the (ax_event_json X (es ! i)))) [0 ..< length es]"

definition hash_collision :: "audit_ext \<Rightarrow> bytes list \<Rightarrow> bytes list \<Rightarrow> bool" where
  "hash_collision X ms ns \<longleftrightarrow> (\<exists>m\<in>set ms. \<exists>n\<in>set ns. m \<noteq> n \<and> ax_sha256 X m = ax_sha256 X n)"

lemma record_preimage_inject:
  assumes "record_preimage s p j = record_preimage s p' j'" "length p = length p'"
  shows "p = p' \<and> j = j'"
  using assms by (simp add: record_preimage_def append_eq_append_conv)

lemma log_hash_length:
  assumes "audit_laws X" "log_inv X L es v" "i \<le> length es"
  shows "length ((ZERO_HASH # vl_hashes v) ! i) = 32"
proof (cases i)
  case 0
  then show ?thesis by (simp add: ZERO_HASH_def)
next
  case (Suc k)
  with assms have "calculate_record_hash X (word_of_nat (Suc k)) ((ZERO_HASH # vl_hashes v) ! k) (es ! k)
      = Inr (vl_hashes v ! k)" by (simp add: log_inv_def)
  with Suc audit_lawsD(1) [OF assms(1)] show ?thesis by (auto simp: calculate_record_hash_eq)
qed

lemma chain_prefix:
  assumes laws: "audit_laws X" and inv: "log_inv X L es v" "log_inv X L es' v'"
  shows "n \<le> length es \<Longrightarrow> n \<le> length es' \<Longrightarrow>
    (ZERO_HASH # vl_hashes v) ! n = (ZERO_HASH # vl_hashes v') ! n \<Longrightarrow>
    take n es = take n es' \<or> hash_collision X (preimages X es v) (preimages X es' v')"
proof (induction n)
  case (Suc n)
  let ?p = "\<lambda>es v. record_preimage (word_of_nat (Suc n)) ((ZERO_HASH # vl_hashes v) ! n)
    (the (ax_event_json X (es ! n)))"
  have h: "\<exists>j. ax_event_json X (es ! n) = Some j \<and> vl_hashes v ! n = ax_sha256 X (?p es v)"
    if "log_inv X L es v" "n < length es" for es v
  proof -
    from that have "calculate_record_hash X (word_of_nat (Suc n)) ((ZERO_HASH # vl_hashes v) ! n) (es ! n)
        = Inr (vl_hashes v ! n)" by (simp add: log_inv_def)
    then show ?thesis by (auto simp: calculate_record_hash_eq)
  qed
  from h [OF inv(1)] Suc.prems(1) obtain j where
    j: "ax_event_json X (es ! n) = Some j" "vl_hashes v ! n = ax_sha256 X (?p es v)" by auto
  from h [OF inv(2)] Suc.prems(2) obtain j' where
    j': "ax_event_json X (es' ! n) = Some j'" "vl_hashes v' ! n = ax_sha256 X (?p es' v')" by auto
  have eq: "ax_sha256 X (?p es v) = ax_sha256 X (?p es' v')"
    using Suc.prems(3) j(2) j'(2) by (simp del: of_nat_Suc)
  have mem: "?p es v \<in> set (preimages X es v)" "?p es' v' \<in> set (preimages X es' v')"
    using Suc.prems(1,2) by (auto simp: preimages_def simp del: of_nat_Suc)
  show ?case
  proof (cases "?p es v = ?p es' v'")
    case True
    have "length ((ZERO_HASH # vl_hashes v) ! n) = length ((ZERO_HASH # vl_hashes v') ! n)"
      using log_hash_length [OF laws inv(1), of n] log_hash_length [OF laws inv(2), of n] Suc.prems by simp
    from record_preimage_inject [OF True this] j(1) j'(1)
    have "(ZERO_HASH # vl_hashes v) ! n = (ZERO_HASH # vl_hashes v') ! n" "es ! n = es' ! n"
      using audit_lawsD(6) [OF laws] by auto
    with Suc.IH Suc.prems show ?thesis by (auto simp: take_Suc_conv_app_nth)
  next
    case False
    with eq mem show ?thesis by (auto simp: hash_collision_def)
  qed
qed simp

subsection \<open>Reading the files of a ledger\<close>

text \<open>Two directories with the same data: only modes may differ.\<close>

definition same_data :: "dir_state \<Rightarrow> dir_state \<Rightarrow> bool" where
  "same_data ds ds' \<longleftrightarrow>
     ds_entries ds' = ds_entries ds \<and> ds_next ds' = ds_next ds \<and>
     (\<forall>i. in_bytes (ds_inodes ds' i) = in_bytes (ds_inodes ds i) \<and>
          in_kind (ds_inodes ds' i) = in_kind (ds_inodes ds i) \<and>
          in_uid (ds_inodes ds' i) = in_uid (ds_inodes ds i) \<and>
          in_mode (ds_inodes ds' i) \<in> {in_mode (ds_inodes ds i), 0x180})"

lemma same_data_refl [simp]: "same_data ds ds"
  by (simp add: same_data_def)

lemma same_data_trans: "same_data a b \<Longrightarrow> same_data b c \<Longrightarrow> same_data a c"
  unfolding same_data_def by (intro conjI allI) (simp, simp, simp, simp, simp, metis insertE insertI1 singletonD)

lemma same_data_set_mode [simp]: "same_data ds (set_mode ds h 0x180)"
  by (simp add: same_data_def set_mode_def)

lemma same_data_wf: "same_data ds ds' \<Longrightarrow> wf_dir ds' \<longleftrightarrow> wf_dir ds"
  by (simp add: same_data_def wf_dir_def)

definition file_bytes :: "dir_state \<Rightarrow> string \<Rightarrow> bytes option" where
  "file_bytes ds path = map_option (\<lambda>h. in_bytes (ds_inodes ds h)) (ds_entries ds path)"

lemma same_data_bytes: "same_data ds ds' \<Longrightarrow> file_bytes ds' path = file_bytes ds path"
  by (cases "ds_entries ds path") (simp_all add: same_data_def file_bytes_def)

lemma open_existing_same:
  "open_existing_protected_file_with_access E path w ds = (ds', r) \<Longrightarrow> same_data ds ds'"
  by (cases r; cases "projr r")
    (auto simp: open_existing_eq_Some open_existing_eq_None dest: open_existing_Inl)

lemma read_bounded_file_eq:
  "read_bounded_file h m label ds =
     (ds, if length (in_bytes (ds_inodes ds h)) \<le> m then Inr (in_bytes (ds_inodes ds h))
          else Inl (label @ '' is oversized''))"
  by (simp add: read_bounded_file_def Let_def act_ensure_def act_result_def)

lemma verify_log_file_eq:
  "verify_log_file X L h ds =
     (ds, if length (in_bytes (ds_inodes ds h)) \<le> MAX_AUDIT_LOG_BYTES
          then verify_log X L (in_bytes (ds_inodes ds h)) else Inl (''audit log is oversized''))"
  by (simp add: verify_log_file_def act_bind_def read_bounded_file_eq act_result_def)

lemma verify_log_file_eq_Inr:
  "verify_log_file X L h ds = (ds', Inr v) \<longleftrightarrow>
     ds' = ds \<and> length (in_bytes (ds_inodes ds h)) \<le> MAX_AUDIT_LOG_BYTES \<and>
     verify_log X L (in_bytes (ds_inodes ds h)) = Inr v"
  by (auto simp: verify_log_file_eq)

lemma read_checkpoint_cases:
  "read_checkpoint X E L ds =
     (case open_existing_protected_file_with_access E (al_checkpoint_path L) False ds of
        (ds1, Inl e) \<Rightarrow> (ds1, Inl e)
      | (ds1, Inr None) \<Rightarrow> (ds1, Inr None)
      | (ds1, Inr (Some k)) \<Rightarrow>
          (ds1, if length (in_bytes (ds_inodes ds1 k)) \<le> MAX_AUDIT_RECORD_BYTES
                then (case ax_checkpoint_parse X (in_bytes (ds_inodes ds1 k)) of
                        None \<Rightarrow> Inl ''parse audit checkpoint'' | Some c \<Rightarrow> Inr (Some c))
                else Inl ''audit checkpoint is oversized''))"
  unfolding read_checkpoint_def open_existing_defs
  by (simp add: act_bind_def act_result_def read_bounded_file_eq split: prod.split sum.split option.split)

lemma read_checkpoint_eq_Some:
  "read_checkpoint X E L ds = (ds', Inr (Some c)) \<longleftrightarrow>
     (\<exists>k. ds_entries ds (al_checkpoint_path L) = Some k \<and> openable E (ds_inodes ds k) False \<and>
        ds' = set_mode ds k 0x180 \<and> length (in_bytes (ds_inodes ds k)) \<le> MAX_AUDIT_RECORD_BYTES \<and>
        ax_checkpoint_parse X (in_bytes (ds_inodes ds k)) = Some c)" (is "?A \<longleftrightarrow> ?B")
proof
  assume ?B
  then obtain k where "open_existing_protected_file_with_access E (al_checkpoint_path L) False ds =
      (set_mode ds k 0x180, Inr (Some k))" "ds' = set_mode ds k 0x180"
      "length (in_bytes (ds_inodes ds k)) \<le> MAX_AUDIT_RECORD_BYTES"
      "ax_checkpoint_parse X (in_bytes (ds_inodes ds k)) = Some c"
    using open_existing_eq_Some by blast
  then show ?A by (simp add: read_checkpoint_cases)
qed (auto simp: read_checkpoint_cases open_existing_eq_Some split: prod.splits sum.splits option.splits if_splits)

lemma read_checkpoint_eq_None:
  "read_checkpoint X E L ds = (ds', Inr None) \<longleftrightarrow>
     ds_entries ds (al_checkpoint_path L) = None \<and> ds' = ds" (is "?A \<longleftrightarrow> ?B")
proof
  assume ?B
  then have "open_existing_protected_file_with_access E (al_checkpoint_path L) False ds = (ds, Inr None)"
    using open_existing_eq_None by blast
  with \<open>?B\<close> show ?A by (simp add: read_checkpoint_cases)
qed (auto simp: read_checkpoint_cases open_existing_eq_None split: prod.splits sum.splits option.splits if_splits)

lemma act_bind_same:
  assumes "act_bind m f ds = (ds', r)" "\<And>ds ds' r. m ds = (ds', r) \<Longrightarrow> same_data ds ds'"
    "\<And>x ds ds' r. f x ds = (ds', r) \<Longrightarrow> same_data ds ds'"
  shows "same_data ds ds'"
proof (cases "m ds")
  case (Pair ds1 r1)
  show ?thesis
  proof (cases r1)
    case (Inr x)
    with Pair assms(1) have "f x ds1 = (ds', r)" by (simp add: act_bind_def)
    with Pair assms(2,3) show ?thesis by (meson same_data_trans)
  qed (use Pair assms in \<open>auto simp: act_bind_def\<close>)
qed

lemma act_result_same: "act_result r ds = (ds', r') \<Longrightarrow> same_data ds ds'"
  by (simp add: act_result_def)

lemma read_checkpoint_same: "read_checkpoint X E L ds = (ds', r) \<Longrightarrow> same_data ds ds'"
  by (auto simp: read_checkpoint_cases dest: open_existing_same split: prod.splits sum.splits option.splits)

lemma verify_checkpoint_against_log_eq:
  "verify_checkpoint_against_log X E L v lag ds = (ds', Inr c) \<longleftrightarrow>
     read_checkpoint X E L ds = (ds', Inr (Some c)) \<and> check_checkpoint X L v c = Inr () \<and>
     (lag \<or> ac_sequence c = vl_sequence v \<and> ac_record_hash c = ax_hex_encode X (vl_record_hash v))"
  unfolding verify_checkpoint_against_log_def by (auto simp: result_simps)

lemma verify_checkpoint_against_log_same:
  "verify_checkpoint_against_log X E L v lag ds = (ds', r) \<Longrightarrow> same_data ds ds'"
  unfolding verify_checkpoint_against_log_def
  by (erule act_bind_same)
    (auto simp: act_result_def act_bind_def act_ensure_def dest: read_checkpoint_same split: sum.splits if_splits)

lemma verify_internal_eq_Inr:
  assumes "verify_internal X E L anchor complete ds = (ds', Inr i)"
  obtains bs cs v where "file_bytes ds (al_log_path L) = Some bs"
    "file_bytes ds (al_checkpoint_path L) = Some cs" "verify_log X L bs = Inr v"
    "ax_checkpoint_parse X cs = Some (ai_checkpoint i)"
    "check_checkpoint X L v (ai_checkpoint i) = Inr ()"
    "ac_sequence (ai_checkpoint i) = vl_sequence v"
    "ac_record_hash (ai_checkpoint i) = ax_hex_encode X (vl_record_hash v)"
    "verify_external_anchor X L v (ai_checkpoint i) anchor = Inr ()"
    "ai_pending_intents i = length (vl_pending_intents v)"
    "complete \<Longrightarrow> vl_pending_intents v = []" "same_data ds ds'"
proof -
  from assms obtain ds1 h v ds2 c where o: "open_existing_protected_file_with_access E (al_log_path L) False ds = (ds1, Inr (Some h))"
    and v: "verify_log_file X L h ds1 = (ds1, Inr v)" and comp: "complete \<longrightarrow> vl_pending_intents v = []"
    and c: "verify_checkpoint_against_log X E L v False ds1 = (ds2, Inr c)"
    and a: "verify_external_anchor X L v c anchor = Inr ()"
    and i: "ds' = ds2" "i = \<lparr>ai_pending_intents = length (vl_pending_intents v), ai_checkpoint = c\<rparr>"
    unfolding verify_internal_def open_existing_defs
    by (auto simp: result_simps verify_log_file_eq_Inr)
  have s1: "same_data ds ds1" by (rule open_existing_same [OF o])
  have s2: "same_data ds1 ds2" by (rule verify_checkpoint_against_log_same [OF c])
  from o have "file_bytes ds (al_log_path L) = Some (in_bytes (ds_inodes ds1 h))"
    by (auto simp: open_existing_eq_Some file_bytes_def)
  moreover from c obtain k where "ds_entries ds1 (al_checkpoint_path L) = Some k"
    "ax_checkpoint_parse X (in_bytes (ds_inodes ds1 k)) = Some c"
    by (auto simp: verify_checkpoint_against_log_eq read_checkpoint_eq_Some)
  moreover from this have "file_bytes ds (al_checkpoint_path L) = Some (in_bytes (ds_inodes ds1 k))"
    using same_data_bytes [OF s1, of "al_checkpoint_path L"] by (simp add: file_bytes_def)
  ultimately show thesis
    using that v c a i comp same_data_trans [OF s1 s2]
    by (auto simp: verify_log_file_eq_Inr verify_checkpoint_against_log_eq)
qed

lemma hash_at_eq: "hash_at v s = (ZERO_HASH # vl_hashes v) ! unat s"
proof (cases "s = 0")
  case False
  then have "unat s = Suc (unat (s - 1))"
    by (metis Suc_pred' unat_gt_0 unat_minus_one)
  with False show ?thesis by (simp add: hash_at_def)
qed (simp add: hash_at_def)

definition log_preimages :: "audit_ext \<Rightarrow> audit_ledger \<Rightarrow> bytes \<Rightarrow> bytes list" where
  "log_preimages X L bs =
     (case verify_log X L bs of Inl _ \<Rightarrow> [] | Inr v \<Rightarrow> preimages X (log_events X bs) v)"

lemma anchored_prefix:
  assumes laws: "audit_laws X" and v: "verify_log X L bs = Inr v" "verify_log X L bs' = Inr v'"
    and le: "vl_sequence v \<le> vl_sequence v'" and h: "hash_at v' (vl_sequence v) = vl_record_hash v"
  shows "prefix (log_events X bs) (log_events X bs') \<or>
    hash_collision X (log_preimages X L bs) (log_preimages X L bs')"
proof -
  note inv = verify_log_inv [OF v(1)] verify_log_inv [OF v(2)]
  let ?n = "length (log_events X bs)"
  have n: "unat (vl_sequence v) = ?n" "?n \<le> length (log_events X bs')"
    using inv le by (auto simp: log_inv_def word_le_nat_alt)
  moreover have "(ZERO_HASH # vl_hashes v) ! ?n = (ZERO_HASH # vl_hashes v') ! ?n"
    using h inv(1) n(1) by (simp add: hash_at_eq log_inv_def)
  ultimately have "take ?n (log_events X bs) = take ?n (log_events X bs') \<or>
      hash_collision X (preimages X (log_events X bs) v) (preimages X (log_events X bs') v')"
    using chain_prefix [OF laws inv, of ?n] by simp
  moreover have "prefix (log_events X bs) (log_events X bs')"
    if "take ?n (log_events X bs) = take ?n (log_events X bs')"
    using that take_is_prefix [of ?n "log_events X bs'"] by simp
  ultimately show ?thesis using v by (auto simp: log_preimages_def)
qed

subsection \<open>Appending a record\<close>

definition prepare_append ::
  "audit_ext \<Rightarrow> audit_ledger \<Rightarrow> verified_log \<Rightarrow> audit_event \<Rightarrow> (u64 \<times> bytes \<times> bytes) res" where
  "prepare_append X L v e =
     and_then (check_appendable v e) (\<lambda>_.
     and_then (ok_or (checked_add (vl_sequence v) 1) ''audit sequence overflow'') (\<lambda>s.
     and_then (calculate_record_hash X s (vl_record_hash v) e) (\<lambda>d.
     and_then (make_record X L s (vl_record_hash v) e d) (\<lambda>r.
     and_then (ok_or (ax_record_json X r) ''serialize audit record'') (\<lambda>j.
     ensure (length j \<le> MAX_AUDIT_RECORD_BYTES) ''audit record exceeds its size limit'' (
     Inr (s, d, j)))))))"

lemma check_appendable_first [simp]:
  "check_appendable (v\<lparr>vl_first_event := x\<rparr>) e = check_appendable v e"
  by (simp add: check_appendable_def split: audit_phase.split)

lemma check_appendable_track:
  "check_appendable v e = Inr () \<Longrightarrow> \<exists>v'. track_intent v e = Inr v'"
  by (auto simp: check_appendable_def track_intent_def result_simps split: audit_phase.splits)

lemma run_lines_end:
  "run_steps (verify_line X L) v ls = Inr v' \<Longrightarrow> l \<in> set ls \<Longrightarrow> l \<noteq> [] \<and> last l = 10"
  by (induction ls arbitrary: v) (auto simp: and_then_eq_Inr verify_line_eq_Inr record_ok_def)

lemma split_inclusive_verified:
  assumes "verify_log X L bs = Inr v"
  shows "split_inclusive [] (bs @ t) = split_inclusive [] bs @ split_inclusive [] t"
proof -
  have "\<exists>b. l = b @ [10] \<and> 10 \<notin> set b" if "l \<in> set (split_inclusive [] bs)" for l
    using run_lines_end [OF assms [unfolded verify_log_def] that] split_inclusive_body [OF _ that]
    by (metis append_butlast_last_id empty_iff empty_set)
  then show ?thesis
    using split_inclusive_lines [of "split_inclusive [] bs" t] by (simp add: concat_split_inclusive)
qed

lemma record_mac_cong:
  "record_mac X L (r\<lparr>au_record_mac := m\<rparr>) = record_mac X L r"
  by (simp add: record_mac_def)

lemma make_record_mac:
  assumes "audit_laws X" "make_record X L s p e d = Inr r"
  shows "verify_record_mac X L r = Inr ()" "au_event r = e" "au_schema_version r = AUDIT_SCHEMA_VERSION"
    "au_sequence r = s" "au_previous_hash r = ax_hex_encode X p" "au_record_hash r = ax_hex_encode X d"
proof -
  from assms(2) obtain r0 m where r: "record_mac X L r0 = Inr m" "r = r0\<lparr>au_record_mac := m\<rparr>"
    "au_event r0 = e" "au_schema_version r0 = AUDIT_SCHEMA_VERSION" "au_sequence r0 = s"
    "au_previous_hash r0 = ax_hex_encode X p" "au_record_hash r0 = ax_hex_encode X d"
    by (auto simp: make_record_def Let_def and_then_eq_Inr)
  from r(1) obtain t where "m = ax_hex_encode X t" "length t = 32"
    using audit_lawsD(2) [OF assms(1)] by (auto simp: record_mac_def result_simps)
  with r(1,2) show "verify_record_mac X L r = Inr ()"
    by (simp add: verify_record_mac_def record_mac_cong audit_lawsD(3) [OF assms(1)])
qed (use assms in \<open>auto simp: make_record_def Let_def and_then_eq_Inr\<close>)

lemma verify_log_append:
  assumes laws: "audit_laws X" and v: "verify_log X L bs = Inr v" and e: "event_ok X L e"
    and p: "prepare_append X L v e = Inr (s, d, j)"
  shows "\<exists>v'. verify_log X L (bs @ j @ [10]) = Inr v' \<and> vl_sequence v' = s \<and> vl_record_hash v' = d"
    "log_events X (bs @ j @ [10]) = log_events X bs @ [e]" "10 \<notin> set j"
proof -
  from p obtain r where r: "check_appendable v e = Inr ()" "checked_add (vl_sequence v) 1 = Some s"
    "calculate_record_hash X s (vl_record_hash v) e = Inr d" "make_record X L s (vl_record_hash v) e d = Inr r"
    "ax_record_json X r = Some j" "length j \<le> MAX_AUDIT_RECORD_BYTES"
    by (auto simp: prepare_append_def result_simps)
  note j = audit_lawsD(7) [OF laws r(5)]
  show "10 \<notin> set j" using j by simp
  note m = make_record_mac [OF laws r(4)]
  have ok: "record_ok X L v (j @ [10]) r d"
    using j r m e by (simp add: record_ok_def)
  let ?w = "v\<lparr>vl_first_event := (if vl_first_event v = None then Some e else vl_first_event v)\<rparr>"
  obtain v1 where v1: "track_intent ?w e = Inr v1"
    using check_appendable_track [of ?w e] r(1) by auto
  note t = track_intent_fields [OF v1]
  let ?v' = "v1\<lparr>vl_record_hash := d, vl_sequence := vl_sequence v1 + 1, vl_hashes := vl_hashes v1 @ [d]\<rparr>"
  have "verify_line X L v (j @ [10]) = Inr ?v'"
  proof -
    have "extend v (au_event r) d = Inr ?v'" unfolding extend_def m(2) v1 by simp
    with ok show ?thesis unfolding verify_line_eq_Inr by blast
  qed
  moreover have sp: "split_inclusive [] (bs @ j @ [10]) = split_inclusive [] bs @ [j @ [10]]"
    using split_inclusive_verified [OF v, of "j @ [10]"] split_inclusive_line [of j "[]" "[]"] j by simp
  ultimately have "verify_log X L (bs @ j @ [10]) = Inr ?v'"
    using v by (simp add: verify_log_def run_steps_append)
  moreover have "vl_sequence ?v' = s" using t(1) r(2) by (simp add: checked_add_eq_Some)
  ultimately show "\<exists>v'. verify_log X L (bs @ j @ [10]) = Inr v' \<and> vl_sequence v' = s \<and> vl_record_hash v' = d"
    by (intro exI [of _ ?v']) simp
  show "log_events X (bs @ j @ [10]) = log_events X bs @ [e]"
    using j m(2) by (simp add: log_events_def sp line_event_def)
qed

text \<open>Every outcome of an append: the directory has the same data, or the log has grown by a prefix
  of the one new line, or both the log and the checkpoint are new.\<close>

definition appended ::
  "audit_ext \<Rightarrow> unix_env \<Rightarrow> audit_ledger \<Rightarrow> nat \<Rightarrow> audit_event \<Rightarrow> dir_state \<Rightarrow> dir_state \<Rightarrow> audit_checkpoint res \<Rightarrow> bool" where
  "appended X E L h e ds ds' r \<longleftrightarrow>
     (\<exists>ds1. same_data ds ds1 \<and>
       ((\<exists>err. r = Inl err) \<and> ds' = ds1 \<or>
        (\<exists>v s d j k. verify_log X L (in_bytes (ds_inodes ds h)) = Inr v \<and>
          prepare_append X L v e = Inr (s, d, j) \<and>
          ((\<exists>err. r = Inl err) \<and> ds' = append_bytes ds1 h (take k (j @ [10])) \<or>
           (\<exists>c cj. r = Inr c \<and> make_checkpoint X L s d = Inr c \<and> ax_checkpoint_json X c = Some cj \<and>
              length (in_bytes (ds_inodes ds h)) + length (j @ [10]) \<le> MAX_AUDIT_LOG_BYTES \<and>
              ue_replace E (append_bytes ds1 h (j @ [10])) (al_checkpoint_path L) 0x180 cj = Inr ds')))))"

lemma append_locked_alt:
  "append_locked X E L h e =
     act_bind (verify_log_file X L h) (\<lambda>v.
     act_bind (verify_checkpoint_against_log X E L v True) (\<lambda>_.
     act_bind (act_result (prepare_append X L v e)) (\<lambda>(s, d, j).
     act_bind (\<lambda>ds. act_ensure
                (usize_saturating_add (length (in_bytes (ds_inodes ds h))) (length (j @ [10]))
                 \<le> MAX_AUDIT_LOG_BYTES) ''audit log reached its configured size limit''
                (act_result (Inr ())) ds) (\<lambda>_.
     act_bind (write_end E h (j @ [10]) ''append audit record'') (\<lambda>_.
     act_bind (act_result (make_checkpoint X L s d)) (\<lambda>c.
     act_bind (persist_checkpoint X E L c) (\<lambda>_. act_result (Inr c))))))))"
  by (simp add: append_locked_def append_locked_with_checkpoint_mode_def prepare_append_def act_bind_lift)

lemma persist_checkpoint_cases:
  "persist_checkpoint X E L c ds =
     (case ax_checkpoint_json X c of
        None \<Rightarrow> (ds, Inl ''serialize audit checkpoint'')
      | Some cj \<Rightarrow> (case ue_replace E ds (al_checkpoint_path L) 0x180 cj of
            Inl e \<Rightarrow> (ds, Inl e) | Inr ds' \<Rightarrow> (ds', Inr ())))"
  by (simp add: persist_checkpoint_def act_bind_def act_result_def write_protected_atomic_def
      split: option.split sum.split)

definition append_tail ::
  "audit_ext \<Rightarrow> unix_env \<Rightarrow> audit_ledger \<Rightarrow> nat \<Rightarrow> u64 \<Rightarrow> bytes \<Rightarrow> bytes \<Rightarrow> audit_checkpoint fs" where
  "append_tail X E L h s d j =
     act_bind (\<lambda>ds. act_ensure
                (usize_saturating_add (length (in_bytes (ds_inodes ds h))) (length (j @ [10]))
                 \<le> MAX_AUDIT_LOG_BYTES) ''audit log reached its configured size limit''
                (act_result (Inr ())) ds) (\<lambda>_.
     act_bind (write_end E h (j @ [10]) ''append audit record'') (\<lambda>_.
     act_bind (act_result (make_checkpoint X L s d)) (\<lambda>c.
     act_bind (persist_checkpoint X E L c) (\<lambda>_. act_result (Inr c)))))"

lemma append_tail_cases:
  assumes "append_tail X E L h s d j ds = (ds', r)"
  obtains (unchanged) err where "r = Inl err" "ds' = ds"
  | (partial) err k where "r = Inl err" "ds' = append_bytes ds h (take k (j @ [10]))"
  | (complete) c cj where "r = Inr c" "make_checkpoint X L s d = Inr c" "ax_checkpoint_json X c = Some cj"
      "ue_replace E (append_bytes ds h (j @ [10])) (al_checkpoint_path L) 0x180 cj = Inr ds'"
      "length (in_bytes (ds_inodes ds h)) + length (j @ [10]) \<le> MAX_AUDIT_LOG_BYTES"
proof (cases "usize_saturating_add (length (in_bytes (ds_inodes ds h))) (length (j @ [10])) \<le> MAX_AUDIT_LOG_BYTES")
  case False
  with assms unchanged show ?thesis
    by (auto simp: append_tail_def act_bind_def act_ensure_def act_result_def)
next
  case True
  then have size: "length (in_bytes (ds_inodes ds h)) + length (j @ [10]) \<le> MAX_AUDIT_LOG_BYTES"
    by (simp add: usize_saturating_add_def MAX_AUDIT_LOG_BYTES_def min_def split: if_splits)
  show ?thesis
  proof (cases "ue_write_fault E")
    case (Some k)
    with assms True partial [of _ k] show ?thesis
      by (auto simp: append_tail_def act_bind_def act_ensure_def act_result_def write_end_def)
  next
    case None
    have full: "append_bytes ds h (j @ [10]) = append_bytes ds h (take (length j + 1) (j @ [10]))" by simp
    show ?thesis
    proof (cases "snd (append_tail X E L h s d j ds)")
      case (Inl err)
      with assms True None full partial [of err "length j + 1"] show ?thesis
        by (auto simp: append_tail_def act_bind_def act_ensure_def act_result_def write_end_def
            persist_checkpoint_cases split: sum.splits option.splits)
    next
      case (Inr c)
      with assms True None size complete show ?thesis
        by (auto simp: append_tail_def act_bind_def act_ensure_def act_result_def write_end_def
            persist_checkpoint_cases split: sum.splits option.splits)
    qed
  qed
qed

lemma append_locked_eq:
  "append_locked X E L h e =
     act_bind (verify_log_file X L h) (\<lambda>v.
     act_bind (verify_checkpoint_against_log X E L v True) (\<lambda>_.
     act_bind (act_result (prepare_append X L v e)) (\<lambda>(s, d, j). append_tail X E L h s d j)))"
  unfolding append_locked_alt append_tail_def ..

lemma append_locked_appended:
  assumes app: "append_locked X E L h e ds = (ds', r)"
  shows "appended X E L h e ds ds' r"
proof (cases "\<exists>v. verify_log_file X L h ds = (ds, Inr v)")
  case False
  then obtain err where "verify_log_file X L h ds = (ds, Inl err)"
    by (cases "snd (verify_log_file X L h ds)") (auto simp: verify_log_file_eq)
  with app show ?thesis by (auto simp: append_locked_eq act_bind_def appended_def intro: exI [of _ ds])
next
  case True
  then obtain v where v: "verify_log_file X L h ds = (ds, Inr v)" by blast
  obtain ds1 r1 where c: "verify_checkpoint_against_log X E L v True ds = (ds1, r1)" by fastforce
  note same = verify_checkpoint_against_log_same [OF c]
  show ?thesis
  proof (cases "(\<exists>err. r1 = Inl err) \<or> (\<exists>err. prepare_append X L v e = Inl err)")
    case True
    with app v c have "ds' = ds1 \<and> (\<exists>err. r = Inl err)"
      by (cases r1) (auto simp: append_locked_eq act_bind_def act_result_def)
    with same show ?thesis unfolding appended_def by blast
  next
    case False
    then obtain x s d j where r1: "r1 = Inr x" and p: "prepare_append X L v e = Inr (s, d, j)"
      by (metis obj_sumE prod_cases3)
    have t: "append_tail X E L h s d j ds1 = (ds', r)"
      using app v c r1 p by (simp add: append_locked_eq act_bind_def act_result_def)
    have vl: "verify_log X L (in_bytes (ds_inodes ds h)) = Inr v"
      using v by (simp add: verify_log_file_eq_Inr)
    have size: "length (in_bytes (ds_inodes ds1 h)) = length (in_bytes (ds_inodes ds h))"
      using same by (simp add: same_data_def)
    from t show ?thesis
      by (cases rule: append_tail_cases) (use same vl p size in \<open>unfold appended_def; fastforce\<close>)+
  qed
qed

subsection \<open>The files of a ledger after an append\<close>

definition ledger_ok :: "audit_ledger \<Rightarrow> dir_state \<Rightarrow> bool" where
  "ledger_ok L ds \<longleftrightarrow>
     wf_dir ds \<and> al_log_path L \<noteq> al_checkpoint_path L \<and> length (al_profile_id L) = 16 \<and>
     (ds_entries ds (al_log_path L) = None \<or>
      ds_entries ds (al_log_path L) \<noteq> ds_entries ds (al_checkpoint_path L))"

lemma ledger_ok_same: "same_data ds ds' \<Longrightarrow> ledger_ok L ds' \<longleftrightarrow> ledger_ok L ds"
  by (simp add: ledger_ok_def same_data_wf) (simp add: same_data_def)

lemma env_okD:
  assumes "env_ok E" "ue_replace E ds path mode bs = Inr ds'" "wf_dir ds"
  shows "wf_dir ds'" "ds_root ds' = ds_root ds"
    "n \<noteq> path \<Longrightarrow> ds_entries ds' n = ds_entries ds n" "n \<noteq> path \<Longrightarrow> lookup ds' n = lookup ds n"
    "n \<noteq> path \<Longrightarrow> ds_entries ds n = None \<or> ds_entries ds n \<noteq> ds_entries ds' path"
    "\<exists>f. lookup ds' path = Some f \<and> in_kind f = Regular \<and> in_mode f = mode \<and> in_bytes f = bs \<and>
       in_uid f = ue_euid E"
proof -
  have "replace_laws (ue_replace E)" using assms(1) by (simp add: env_ok_def)
  note r = replace_laws_def [THEN iffD1, rule_format, OF this assms(2,3)]
  show "wf_dir ds'" "ds_root ds' = ds_root ds"
    "n \<noteq> path \<Longrightarrow> ds_entries ds' n = ds_entries ds n" "n \<noteq> path \<Longrightarrow> lookup ds' n = lookup ds n"
    "n \<noteq> path \<Longrightarrow> ds_entries ds n = None \<or> ds_entries ds n \<noteq> ds_entries ds' path"
    using r by simp_all
  obtain f where f: "lookup ds' path = Some f" "in_kind f = Regular" "in_mode f = mode" "in_bytes f = bs"
    using r by auto
  have "in_uid f = ue_euid E" using assms(1,2) f(1) unfolding env_ok_def by blast
  with f show "\<exists>f. lookup ds' path = Some f \<and> in_kind f = Regular \<and> in_mode f = mode \<and> in_bytes f = bs \<and>
       in_uid f = ue_euid E" by blast
qed

lemma file_bytes_lookup: "file_bytes ds n = map_option in_bytes (lookup ds n)"
  by (cases "ds_entries ds n") (simp_all add: file_bytes_def lookup_def)

lemma make_checkpoint_eq:
  assumes "audit_laws X" "make_checkpoint X L s d = Inr c" "length d = 32"
  shows "verify_checkpoint_mac X L c = Inr ()" "ac_sequence c = s" "ac_record_hash c = ax_hex_encode X d"
    "ac_profile_id c = ax_hex_encode X (al_profile_id L)" "ac_profile_generation c = al_profile_generation L"
    "length (ac_mac c) = 64" "length (ac_record_hash c) = 64"
proof -
  let ?c = "\<lparr>ac_schema_version = AUDIT_SCHEMA_VERSION, ac_profile_id = ax_hex_encode X (al_profile_id L),
         ac_profile_generation = al_profile_generation L, ac_sequence = s,
         ac_record_hash = ax_hex_encode X d, ac_mac = []\<rparr>"
  from assms(2) obtain m where m: "checkpoint_mac X L ?c = Inr m" "c = ?c\<lparr>ac_mac := m\<rparr>"
    by (auto simp: make_checkpoint_def Let_def and_then_eq_Inr)
  then obtain t where t: "m = ax_hex_encode X t" "length t = 32"
    using audit_lawsD(2) [OF assms(1)] by (auto simp: checkpoint_mac_def result_simps)
  have mac: "checkpoint_mac X L c = Inr m" using m by (simp add: checkpoint_mac_def)
  show "ac_sequence c = s" "ac_record_hash c = ax_hex_encode X d"
    "ac_profile_id c = ax_hex_encode X (al_profile_id L)" "ac_profile_generation c = al_profile_generation L"
    "length (ac_mac c) = 64" "length (ac_record_hash c) = 64"
    using m(2) t assms(3) by (simp_all add: audit_lawsD(4) [OF assms(1)])
  show "verify_checkpoint_mac X L c = Inr ()"
    using m(2) t assms(3) mac
    by (simp add: verify_checkpoint_mac_def validate_digest_def audit_lawsD(3-5) [OF assms(1)])
qed

lemma prepare_append_hash:
  assumes "audit_laws X" "prepare_append X L v e = Inr (s, d, j)"
  shows "length d = 32"
  using assms by (auto simp: prepare_append_def result_simps calculate_record_hash_eq audit_lawsD(1))

lemma verify_internalI:
  assumes "ds_entries ds (al_log_path L) = Some h" "openable E (ds_inodes ds h) False"
    "ds_entries ds (al_checkpoint_path L) = Some k" "openable E (ds_inodes ds k) False" "h \<noteq> k"
    "length (in_bytes (ds_inodes ds h)) \<le> MAX_AUDIT_LOG_BYTES"
    "length (in_bytes (ds_inodes ds k)) \<le> MAX_AUDIT_RECORD_BYTES"
    "verify_log X L (in_bytes (ds_inodes ds h)) = Inr v"
    "ax_checkpoint_parse X (in_bytes (ds_inodes ds k)) = Some c" "check_checkpoint X L v c = Inr ()"
    "ac_sequence c = vl_sequence v" "ac_record_hash c = ax_hex_encode X (vl_record_hash v)"
    "verify_external_anchor X L v c anchor = Inr ()" "complete \<longrightarrow> vl_pending_intents v = []"
  shows "\<exists>ds'. verify_internal X E L anchor complete ds =
    (ds', Inr \<lparr>ai_pending_intents = length (vl_pending_intents v), ai_checkpoint = c\<rparr>)"
proof -
  let ?ds1 = "set_mode ds h 0x180"
  have o: "open_existing_protected_file_with_access E (al_log_path L) False ds = (?ds1, Inr (Some h))"
    using assms(1,2) by (simp add: open_existing_eq_Some)
  have "verify_log_file X L h ?ds1 = (?ds1, Inr v)" using assms(6,8) by (simp add: verify_log_file_eq_Inr)
  moreover have "verify_checkpoint_against_log X E L v False ?ds1 = (set_mode ?ds1 k 0x180, Inr c)"
    using assms by (simp add: verify_checkpoint_against_log_eq read_checkpoint_eq_Some)
  ultimately show ?thesis
    using o assms(13,14)
    by (simp add: verify_internal_def open_existing_defs act_bind_def act_ensure_def act_result_def)
qed

text \<open>A ledger whose two files agree: what a successful append leaves behind.\<close>

lemma appended_complete:
  assumes laws: "audit_laws X" and env: "env_ok E" and ok: "ledger_ok L ds"
    and h: "ds_entries ds (al_log_path L) = Some h" "in_kind (ds_inodes ds h) = Regular"
      "in_uid (ds_inodes ds h) = ue_euid E" "in_mode (ds_inodes ds h) = 0x180"
    and e: "event_ok X L e" and app: "appended X E L h e ds ds' (Inr c)"
  obtains j v' k where "in_bytes (ds_inodes ds' h) = in_bytes (ds_inodes ds h) @ j @ [10]"
    "log_events X (in_bytes (ds_inodes ds' h)) = log_events X (in_bytes (ds_inodes ds h)) @ [e]"
    "verify_log X L (in_bytes (ds_inodes ds' h)) = Inr v'"
    "ds_entries ds' (al_log_path L) = Some h" "ds_entries ds' (al_checkpoint_path L) = Some k" "h \<noteq> k"
    "openable E (ds_inodes ds' h) w" "openable E (ds_inodes ds' k) w" "ledger_ok L ds'"
    "in_mode (ds_inodes ds' h) = 0x180" "length (in_bytes (ds_inodes ds' h)) \<le> MAX_AUDIT_LOG_BYTES"
    "length (in_bytes (ds_inodes ds' k)) \<le> MAX_AUDIT_RECORD_BYTES"
    "ax_checkpoint_parse X (in_bytes (ds_inodes ds' k)) = Some c" "check_checkpoint X L v' c = Inr ()"
    "ac_sequence c = vl_sequence v'" "ac_record_hash c = ax_hex_encode X (vl_record_hash v')"
proof -
  from app obtain ds1 v s d j cj where same: "same_data ds ds1"
    and v: "verify_log X L (in_bytes (ds_inodes ds h)) = Inr v" and p: "prepare_append X L v e = Inr (s, d, j)"
    and c: "make_checkpoint X L s d = Inr c" and cj: "ax_checkpoint_json X c = Some cj"
    and size: "length (in_bytes (ds_inodes ds h)) + length (j @ [10]) \<le> MAX_AUDIT_LOG_BYTES"
    and rep: "ue_replace E (append_bytes ds1 h (j @ [10])) (al_checkpoint_path L) 0x180 cj = Inr ds'"
    unfolding appended_def by blast
  let ?ds2 = "append_bytes ds1 h (j @ [10])"
  have ok1: "ledger_ok L ds1" using ok same by (simp add: ledger_ok_same)
  have ne: "al_log_path L \<noteq> al_checkpoint_path L" using ok by (simp add: ledger_ok_def)
  have wf2: "wf_dir ?ds2" using ok1 by (simp add: ledger_ok_def)
  note r = env_okD [OF env rep wf2]
  have hl: "ds_entries ds' (al_log_path L) = Some h" using r(3) [OF ne] h(1) same by (simp add: same_data_def)
  have "lookup ds' (al_log_path L) = lookup ?ds2 (al_log_path L)" by (rule r(4) [OF ne])
  then have ih: "ds_inodes ds' h = ds_inodes ?ds2 h" using hl h(1) same by (simp add: lookup_def same_data_def)
  obtain f where f: "lookup ds' (al_checkpoint_path L) = Some f" "in_kind f = Regular" "in_mode f = 0x180"
    "in_bytes f = cj" "in_uid f = ue_euid E" using r(6) by blast
  then obtain k where k: "ds_entries ds' (al_checkpoint_path L) = Some k" "ds_inodes ds' k = f"
    by (auto simp: lookup_def)
  have hk: "h \<noteq> k" using r(5) [OF ne] h(1) k(1) same by (auto simp: same_data_def)
  from verify_log_append(1) [OF laws v e p] obtain v' where
    v': "verify_log X L (in_bytes (ds_inodes ds h) @ j @ [10]) = Inr v'" "vl_sequence v' = s" "vl_record_hash v' = d"
    by blast
  have bh: "in_bytes (ds_inodes ds' h) = in_bytes (ds_inodes ds h) @ j @ [10]"
    using ih same by (simp add: same_data_def)
  have meta: "in_kind (ds_inodes ds' h) = Regular" "in_uid (ds_inodes ds' h) = ue_euid E"
      "in_mode (ds_inodes ds' h) = 0x180"
    using ih same h by (auto simp: same_data_def dest: spec [of _ h])
  note ck = make_checkpoint_eq [OF laws c prepare_append_hash [OF laws p]]
  have "hash_at v' s = d"
    using verify_log_inv [OF v'(1)] v'(2,3) by (simp add: hash_at_eq log_inv_def)
  then have chk: "check_checkpoint X L v' c = Inr ()"
    using ck v'(2) by (simp add: check_checkpoint_def)
  have lenj: "length cj \<le> MAX_AUDIT_RECORD_BYTES"
    using audit_lawsD(9) [OF laws cj] ck ok
    by (simp add: ledger_ok_def audit_lawsD(4) [OF laws] MAX_AUDIT_RECORD_BYTES_def)
  have acc: "ue_access E g w" if "in_uid g = ue_euid E" "in_mode g = 0x180" for g w
    using env that by (auto simp: env_ok_def)
  show thesis
  proof (rule that [OF bh])
    show "log_events X (in_bytes (ds_inodes ds' h)) = log_events X (in_bytes (ds_inodes ds h)) @ [e]"
      unfolding bh by (rule verify_log_append(2) [OF laws v e p])
    show "verify_log X L (in_bytes (ds_inodes ds' h)) = Inr v'" using v'(1) bh by simp
    show "openable E (ds_inodes ds' h) w" using meta acc by (simp add: openable_def)
    show "openable E (ds_inodes ds' k) w" using f k acc by (simp add: openable_def)
    show "ledger_ok L ds'" using r(1) ok hl k(1) hk by (simp add: ledger_ok_def)
    show "ax_checkpoint_parse X (in_bytes (ds_inodes ds' k)) = Some c"
      using audit_lawsD(8) [OF laws cj] f k by simp
    show "length (in_bytes (ds_inodes ds' k)) \<le> MAX_AUDIT_RECORD_BYTES" using lenj f k by simp
    show "length (in_bytes (ds_inodes ds' h)) \<le> MAX_AUDIT_LOG_BYTES" using size bh by simp
  qed (use hl k hk meta chk ck v' in auto)
qed

lemma open_log_for_update_eq:
  "open_log_for_update E L ds = (ds', Inr h) \<longleftrightarrow>
     ds_entries ds (al_log_path L) = Some h \<and> openable E (ds_inodes ds h) True \<and> ds' = set_mode ds h 0x180"
proof -
  have "open_log_for_update E L ds = (ds', Inr h) \<longleftrightarrow>
      open_existing_protected_file_with_access E (al_log_path L) True ds = (ds', Inr (Some h))"
    by (auto simp: open_log_for_update_def open_existing_defs result_simps)
  then show ?thesis by (simp add: open_existing_eq_Some)
qed

lemma open_log_for_update_same: "open_log_for_update E L ds = (ds', r) \<Longrightarrow> same_data ds ds'"
  unfolding open_log_for_update_def open_existing_defs
  by (erule act_bind_same) (auto simp: act_result_def dest: open_existing_same)

lemma append_event_eq_Inr:
  assumes "append_event X E L e ds = (ds', Inr c)"
  obtains h where "event_ok X L e" "ds_entries ds (al_log_path L) = Some h"
    "openable E (ds_inodes ds h) True" "append_locked X E L h e (set_mode ds h 0x180) = (ds', Inr c)"
  using assms unfolding append_event_def check_event_identity_def event_ok_def
  by (auto simp: result_simps open_log_for_update_eq)

lemma append_event_Inl:
  assumes "append_event X E L e ds = (ds', Inl err)"
  shows "same_data ds ds' \<or> (\<exists>h. event_ok X L e \<and> ds_entries ds (al_log_path L) = Some h \<and>
    append_locked X E L h e (set_mode ds h 0x180) = (ds', Inl err))"
proof (cases "check_event_identity X L e ''audit event profile identity mismatch''")
  case (Inl x)
  with assms show ?thesis by (simp add: append_event_def act_bind_def act_result_def)
next
  case (Inr u)
  then have ok: "event_ok X L e" by (auto simp: check_event_identity_def event_ok_def result_simps)
  obtain ds1 r1 where o: "open_log_for_update E L ds = (ds1, r1)" by fastforce
  show ?thesis
  proof (cases r1)
    case (Inl x)
    with Inr o assms have "ds' = ds1" by (simp add: append_event_def act_bind_def act_result_def)
    with open_log_for_update_same [OF o] show ?thesis by simp
  next
    case h: (Inr h)
    with Inr o assms have "append_locked X E L h e ds1 = (ds', Inl err)"
      by (simp add: append_event_def act_bind_def act_result_def)
    with o h ok show ?thesis by (auto simp: open_log_for_update_eq)
  qed
qed

lemma verify_log_partial:
  assumes v: "verify_log X L bs = Inr v" and t: "t \<noteq> []" "10 \<notin> set t"
  shows "verify_log X L (bs @ t) \<noteq> Inr v'"
proof
  assume v': "verify_log X L (bs @ t) = Inr v'"
  have "t \<in> set (split_inclusive [] (bs @ t))"
    using split_inclusive_verified [OF v, of t] split_inclusive_no_newline [OF t(2), of "[]"] t(1) by simp
  from run_lines_end [OF v' [unfolded verify_log_def] this] t show False by (metis last_in_set)
qed

lemma take_line_cases:
  assumes "10 \<notin> set j"
  shows "take k (j @ [10]) = [] \<or> take k (j @ [10]) = j @ [10] \<or>
    take k (j @ [10]) \<noteq> [] \<and> 10 \<notin> set (take k (j @ [10]))"
proof (cases "k \<le> length j")
  case True
  then have "take k (j @ [10]) = take k j" by simp
  with assms show ?thesis by (metis in_set_takeD)
qed simp

lemma append_failed:
  assumes laws: "audit_laws X" and ok: "ledger_ok L ds" and bs: "file_bytes ds (al_log_path L) = Some bs"
    and app: "append_event X E L e ds = (ds', Inl err)"
  shows "\<exists>t. file_bytes ds' (al_log_path L) = Some (bs @ t) \<and>
    file_bytes ds' (al_checkpoint_path L) = file_bytes ds (al_checkpoint_path L) \<and>
    (\<forall>v'. verify_log X L (bs @ t) = Inr v' \<longrightarrow> log_events X (bs @ t) \<in> {log_events X bs, log_events X bs @ [e]})"
proof (cases "same_data ds ds'")
  case True
  with bs show ?thesis by (intro exI [of _ "[]"]) (simp add: same_data_bytes)
next
  case False
  with append_event_Inl [OF app] obtain h where e: "event_ok X L e" and h: "ds_entries ds (al_log_path L) = Some h"
    and al: "append_locked X E L h e (set_mode ds h 0x180) = (ds', Inl err)" by blast
  have bh: "in_bytes (ds_inodes ds h) = bs" using bs h by (simp add: file_bytes_def)
  from append_locked_appended [OF al] False obtain ds1 v s d j k where
    same: "same_data (set_mode ds h 0x180) ds1" and v: "verify_log X L bs = Inr v"
    and p: "prepare_append X L v e = Inr (s, d, j)" and ds': "ds' = append_bytes ds1 h (take k (j @ [10]))"
    using same_data_trans [OF same_data_set_mode] bh unfolding appended_def by fastforce
  have same1: "same_data ds ds1" using same same_data_trans same_data_set_mode by blast
  note va = verify_log_append [OF laws v e p]
  have "log_events X (bs @ take k (j @ [10])) \<in> {log_events X bs, log_events X bs @ [e]}"
    if "verify_log X L (bs @ take k (j @ [10])) = Inr v'" for v'
    using take_line_cases [OF va(3), of k] verify_log_partial [OF v] that va(2) by auto
  moreover have "file_bytes ds' (al_log_path L) = Some (bs @ take k (j @ [10]))"
    using ds' h same1 bh by (simp add: file_bytes_def same_data_def)
  moreover have "file_bytes ds' (al_checkpoint_path L) = file_bytes ds (al_checkpoint_path L)"
  proof (cases "ds_entries ds (al_checkpoint_path L)")
    case (Some k')
    with ok h have "k' \<noteq> h" by (auto simp: ledger_ok_def)
    with Some ds' same1 show ?thesis by (simp add: file_bytes_def same_data_def)
  qed (use ds' same1 in \<open>simp add: file_bytes_def same_data_def\<close>)
  ultimately show ?thesis by blast
qed

lemma ledger_reconcile_eq_Inr:
  assumes "ledger_reconcile X E L ds = (ds', Inr c)"
  obtains bs v where "file_bytes ds (al_log_path L) = Some bs" "verify_log X L bs = Inr v"
    "make_checkpoint X L (vl_sequence v) (vl_record_hash v) = Inr c"
proof -
  from assms obtain h v where "ds_entries ds (al_log_path L) = Some h"
    "verify_log X L (in_bytes (ds_inodes ds h)) = Inr v"
    "make_checkpoint X L (vl_sequence v) (vl_record_hash v) = Inr c"
    unfolding ledger_reconcile_def
    by (auto simp: result_simps open_log_for_update_eq verify_log_file_eq_Inr)
  with that show thesis by (simp add: file_bytes_def)
qed

lemma tracked_no_pending: "tracked es v \<Longrightarrow> vl_pending_intents v = [] \<longleftrightarrow> open_intents es = []"
proof
  assume t: "tracked es v" and "vl_pending_intents v = []"
  then have "i \<notin> set (open_intents es)" for i by (auto simp: tracked_def)
  then show "open_intents es = []" by (metis last_in_set)
next
  assume t: "tracked es v" and "open_intents es = []"
  then have "map_of (vl_pending_intents v) r = None" for r
    by (cases "map_of (vl_pending_intents v) r") (auto simp: tracked_def)
  then show "vl_pending_intents v = []"
    by (cases "vl_pending_intents v") (auto split: if_splits, metis option.distinct(1))
qed

section \<open>Properties\<close>

text \<open>C2: the external anchor detects rollback and rewriting. If a ledger verified once with
  checkpoint \<open>c\<close>, and later a ledger of the same identity verifies against \<open>c\<close> as the anchor,
  then the history of the first is a prefix of the history of the second, event for event, or two
  of the hashed records of the two logs are an explicit collision of the hash.\<close>

theorem audit_anchor_detects_rollback:
  assumes "ledger_verify X E L anchor ds = (ds1, Inr c)"
    and "ledger_verify X E' L (Some c) ds' = (ds2, Inr c')" and "audit_laws X"
  shows "\<exists>bs bs'. file_bytes ds (al_log_path L) = Some bs \<and> file_bytes ds' (al_log_path L) = Some bs' \<and>
    (prefix (log_events X bs) (log_events X bs') \<or>
     hash_collision X (log_preimages X L bs) (log_preimages X L bs'))"
proof -
  from assms(1) obtain i where i: "verify_internal X E L anchor False ds = (ds1, Inr i)" "c = ai_checkpoint i"
    by (auto simp: ledger_verify_def result_simps)
  from assms(2) obtain i' where i': "verify_internal X E' L (Some c) False ds' = (ds2, Inr i')"
    by (auto simp: ledger_verify_def result_simps)
  from i(1) obtain bs v where 1: "file_bytes ds (al_log_path L) = Some bs" "verify_log X L bs = Inr v"
    "ac_sequence c = vl_sequence v" "ac_record_hash c = ax_hex_encode X (vl_record_hash v)"
    by (rule verify_internal_eq_Inr) (use i(2) in simp)
  from i' obtain bs' v' where 2: "file_bytes ds' (al_log_path L) = Some bs'" "verify_log X L bs' = Inr v'"
    "verify_external_anchor X L v' (ai_checkpoint i') (Some c) = Inr ()"
    by (rule verify_internal_eq_Inr)
  from 2(3) 1(3,4) have "vl_sequence v \<le> vl_sequence v'" "hash_at v' (vl_sequence v) = vl_record_hash v"
    by (auto simp: verify_external_anchor_def result_simps hex_encode_inject [OF assms(3)])
  with anchored_prefix [OF assms(3) 1(2) 2(2)] 1(1) 2(1) show ?thesis by blast
qed

text \<open>C12: a ledger that verifies as complete accounts for every operation: its events belong to the
  ledger's profile and generation, request ids of intents are never reused, every outcome follows an
  intent with the same request, operation kind, policy and intent digest, and every intent has exactly
  one outcome.\<close>

theorem audit_complete_accounts:
  assumes "verify_complete X E L anchor ds = (ds', Inr c)"
  shows "\<exists>bs. file_bytes ds (al_log_path L) = Some bs \<and> accountable (log_events X bs) \<and>
    open_intents (log_events X bs) = [] \<and> list_all (event_ok X L) (log_events X bs) \<and>
    unat (ac_sequence c) = length (log_events X bs)"
proof -
  from assms obtain i where i: "verify_internal X E L anchor True ds = (ds', Inr i)" "c = ai_checkpoint i"
    by (auto simp: verify_complete_def result_simps)
  from i(1) obtain bs v where 1: "file_bytes ds (al_log_path L) = Some bs" "verify_log X L bs = Inr v"
    "vl_pending_intents v = []" "ac_sequence c = vl_sequence v"
    by (rule verify_internal_eq_Inr) (use i(2) in simp)
  note inv = verify_log_inv [OF 1(2)]
  have "open_intents (log_events X bs) = []"
    using inv 1(3) tracked_no_pending by (auto simp: log_inv_def)
  with inv 1(1,4) show ?thesis by (auto simp: log_inv_def tracked_def)
qed

text \<open>C28: a successful append extends the history by exactly the event, keeps every byte of the log
  that was there, and leaves a ledger that verifies with the returned checkpoint.\<close>

theorem audit_append_verifies:
  assumes "append_event X E L e ds = (ds', Inr c)" and "ledger_ok L ds" and "env_ok E" and "audit_laws X"
  shows "\<exists>bs line ds''. file_bytes ds (al_log_path L) = Some bs \<and>
    file_bytes ds' (al_log_path L) = Some (bs @ line) \<and>
    log_events X (bs @ line) = log_events X bs @ [e] \<and> ledger_ok L ds' \<and>
    ledger_verify X E L None ds' = (ds'', Inr c)"
proof -
  from assms(1) obtain h where e: "event_ok X L e" and h: "ds_entries ds (al_log_path L) = Some h"
    "openable E (ds_inodes ds h) True" and al: "append_locked X E L h e (set_mode ds h 0x180) = (ds', Inr c)"
    by (rule append_event_eq_Inr)
  let ?d = "set_mode ds h 0x180"
  have ok: "ledger_ok L ?d" using assms(2) ledger_ok_same [OF same_data_set_mode] by simp
  from h have "ds_entries ?d (al_log_path L) = Some h" "in_kind (ds_inodes ?d h) = Regular"
    "in_uid (ds_inodes ?d h) = ue_euid E" "in_mode (ds_inodes ?d h) = 0x180" by (simp_all add: openable_def)
  from appended_complete [where w = False, OF assms(4,3) ok this e append_locked_appended [OF al]]
  obtain j v' k where 1: "in_bytes (ds_inodes ds' h) = in_bytes (ds_inodes ?d h) @ j @ [10]"
    "log_events X (in_bytes (ds_inodes ds' h)) = log_events X (in_bytes (ds_inodes ?d h)) @ [e]"
    "verify_log X L (in_bytes (ds_inodes ds' h)) = Inr v'"
    "ds_entries ds' (al_log_path L) = Some h" "ds_entries ds' (al_checkpoint_path L) = Some k" "h \<noteq> k"
    "openable E (ds_inodes ds' h) False" "openable E (ds_inodes ds' k) False" "ledger_ok L ds'"
    "length (in_bytes (ds_inodes ds' h)) \<le> MAX_AUDIT_LOG_BYTES"
    "length (in_bytes (ds_inodes ds' k)) \<le> MAX_AUDIT_RECORD_BYTES"
    "ax_checkpoint_parse X (in_bytes (ds_inodes ds' k)) = Some c" "check_checkpoint X L v' c = Inr ()"
    "ac_sequence c = vl_sequence v'" "ac_record_hash c = ax_hex_encode X (vl_record_hash v')" by blast
  have "\<exists>d'. verify_internal X E L None False ds' =
      (d', Inr \<lparr>ai_pending_intents = length (vl_pending_intents v'), ai_checkpoint = c\<rparr>)"
    by (rule verify_internalI [OF 1(4,7,5,8,6,10,11,3,12,13,14,15)]) (simp_all add: verify_external_anchor_def)
  then have "\<exists>d'. ledger_verify X E L None ds' = (d', Inr c)"
    by (auto simp: ledger_verify_def act_bind_def act_result_def)
  with 1 h(1) show ?thesis by (auto simp: file_bytes_def intro!: exI [of _ "j @ [10]"])
qed


subsection \<open>Ledgers whose files agree\<close>

definition agree ::
  "audit_ext \<Rightarrow> unix_env \<Rightarrow> audit_ledger \<Rightarrow> nat \<Rightarrow> dir_state \<Rightarrow> audit_checkpoint \<Rightarrow> audit_event list \<Rightarrow> bool" where
  "agree X E L h ds c es \<longleftrightarrow>
     ledger_ok L ds \<and> ds_entries ds (al_log_path L) = Some h \<and> openable E (ds_inodes ds h) False \<and>
     in_mode (ds_inodes ds h) = 0x180 \<and> length (in_bytes (ds_inodes ds h)) \<le> MAX_AUDIT_LOG_BYTES \<and>
     log_events X (in_bytes (ds_inodes ds h)) = es \<and>
     (\<exists>k v. ds_entries ds (al_checkpoint_path L) = Some k \<and> h \<noteq> k \<and> openable E (ds_inodes ds k) False \<and>
        length (in_bytes (ds_inodes ds k)) \<le> MAX_AUDIT_RECORD_BYTES \<and>
        ax_checkpoint_parse X (in_bytes (ds_inodes ds k)) = Some c \<and>
        verify_log X L (in_bytes (ds_inodes ds h)) = Inr v \<and> check_checkpoint X L v c = Inr () \<and>
        ac_sequence c = vl_sequence v \<and> ac_record_hash c = ax_hex_encode X (vl_record_hash v))"

lemma agree_append:
  assumes "audit_laws X" "env_ok E" "ledger_ok L ds" "ds_entries ds (al_log_path L) = Some h"
    "openable E (ds_inodes ds h) w" "in_mode (ds_inodes ds h) = 0x180" "event_ok X L e"
    "append_locked X E L h e ds = (ds', Inr c)"
  shows "agree X E L h ds' c (log_events X (in_bytes (ds_inodes ds h)) @ [e])"
    "\<exists>t. in_bytes (ds_inodes ds' h) = in_bytes (ds_inodes ds h) @ t"
proof -
  have "in_kind (ds_inodes ds h) = Regular" "in_uid (ds_inodes ds h) = ue_euid E"
    using assms(5) by (simp_all add: openable_def)
  from appended_complete [where w = False, OF assms(1-4) this assms(6,7) append_locked_appended [OF assms(8)]]
  obtain j v' k where 1: "in_bytes (ds_inodes ds' h) = in_bytes (ds_inodes ds h) @ j @ [10]"
    "log_events X (in_bytes (ds_inodes ds' h)) = log_events X (in_bytes (ds_inodes ds h)) @ [e]"
    "verify_log X L (in_bytes (ds_inodes ds' h)) = Inr v'"
    "ds_entries ds' (al_log_path L) = Some h" "ds_entries ds' (al_checkpoint_path L) = Some k" "h \<noteq> k"
    "openable E (ds_inodes ds' h) False" "openable E (ds_inodes ds' k) False" "ledger_ok L ds'"
    "in_mode (ds_inodes ds' h) = 0x180" "length (in_bytes (ds_inodes ds' h)) \<le> MAX_AUDIT_LOG_BYTES"
    "length (in_bytes (ds_inodes ds' k)) \<le> MAX_AUDIT_RECORD_BYTES"
    "ax_checkpoint_parse X (in_bytes (ds_inodes ds' k)) = Some c" "check_checkpoint X L v' c = Inr ()"
    "ac_sequence c = vl_sequence v'" "ac_record_hash c = ax_hex_encode X (vl_record_hash v')" by blast
  show "agree X E L h ds' c (log_events X (in_bytes (ds_inodes ds h)) @ [e])"
    unfolding agree_def
    by (intro conjI exI [of _ k] exI [of _ v']) (rule 1)+
  show "\<exists>t. in_bytes (ds_inodes ds' h) = in_bytes (ds_inodes ds h) @ t" using 1(1) by blast
qed

lemma agree_inv: "agree X E L h ds c es \<Longrightarrow> \<exists>v. log_inv X L es v"
  by (auto simp: agree_def dest: verify_log_inv)

lemma agree_verify:
  assumes "agree X E L h ds c es" "complete \<longrightarrow> open_intents es = []"
  shows "\<exists>ds' i. verify_internal X E L None complete ds = (ds', Inr i) \<and> ai_checkpoint i = c"
proof -
  from assms(1) obtain k v where
    1: "ds_entries ds (al_log_path L) = Some h" "openable E (ds_inodes ds h) False"
      "ds_entries ds (al_checkpoint_path L) = Some k" "openable E (ds_inodes ds k) False" "h \<noteq> k"
      "length (in_bytes (ds_inodes ds h)) \<le> MAX_AUDIT_LOG_BYTES"
      "length (in_bytes (ds_inodes ds k)) \<le> MAX_AUDIT_RECORD_BYTES"
      "verify_log X L (in_bytes (ds_inodes ds h)) = Inr v"
      "ax_checkpoint_parse X (in_bytes (ds_inodes ds k)) = Some c" "check_checkpoint X L v c = Inr ()"
      "ac_sequence c = vl_sequence v" "ac_record_hash c = ax_hex_encode X (vl_record_hash v)"
      and es: "log_events X (in_bytes (ds_inodes ds h)) = es"
    unfolding agree_def by blast
  have "complete \<longrightarrow> vl_pending_intents v = []"
    using verify_log_inv [OF 1(8)] tracked_no_pending assms(2) by (auto simp: log_inv_def es)
  from verify_internalI [OF 1 _ this, of None] show ?thesis
    by (auto simp: verify_external_anchor_def)
qed

subsection \<open>Resolving pending intents\<close>

lemma resolve_event_ok:
  assumes "audit_laws X" "event_ok X L i" "ae_phase i = PhaseIntent" "from_intent i = b" "at > 0"
  shows "event_ok X L (resolve_event X L at r b)"
proof -
  have reason: "validate_token RESOLVE_UNKNOWN_REASON MAX_REASON_CODE_BYTES l = Inr ()" for l
    by (simp add: validate_token_def MAX_REASON_CODE_BYTES_def RESOLVE_UNKNOWN_REASON_def
        is_ascii_lowercase_def is_ascii_digit_def char_code_def)
  have digest: "validate_digest (resolved_unknown_result_digest X pid g r b) l = Inr ()" for pid g l
    using audit_lawsD(1,4,5) [OF assms(1)]
    by (simp add: validate_digest_def resolved_unknown_result_digest_def)
  have b: "pb_operation_kind b = ae_operation_kind i" "pb_policy_digest b = ae_policy_digest i"
      "pb_intent_digest b = ae_intent_digest i"
    using assms(4) by (auto simp: from_intent_def)
  from assms(2) have "validate_profile_id (ae_profile_id i) = Inr ()" "ae_profile_generation i > 0"
    "validate_token (ae_operation_kind i) MAX_OPERATION_KIND_BYTES ''operation kind'' = Inr ()"
    "validate_digest (ae_policy_digest i) ''policy digest'' = Inr ()"
    "validate_digest (ae_intent_digest i) ''intent digest'' = Inr ()"
    "ae_profile_id i = ax_hex_encode X (al_profile_id L)" "ae_profile_generation i = al_profile_generation L"
    by (auto simp: event_ok_def validate_event_def and_then_eq_Inr ensure_eq_Inr)
  then show ?thesis
    using assms(5) by (simp add: event_ok_def validate_event_def resolve_event_def reason digest b)
qed

lemma resolve_loop_agree:
  assumes laws: "audit_laws X" and env: "env_ok E" and at: "at > 0"
  shows "agree X E L h ds c es \<Longrightarrow>
    (\<forall>(r, b)\<in>set ps. \<exists>i\<in>set (open_intents es). ae_request_id i = r \<and> from_intent i = b) \<Longrightarrow>
    distinct (map fst ps) \<Longrightarrow> resolve_loop X E L h at ps c ds = (ds', Inr c') \<Longrightarrow>
    agree X E L h ds' c' (es @ map (\<lambda>(r, b). resolve_event X L at r b) ps) \<and>
    set (open_intents (es @ map (\<lambda>(r, b). resolve_event X L at r b) ps)) =
      {i \<in> set (open_intents es). ae_request_id i \<notin> fst ` set ps} \<and>
    prefix (in_bytes (ds_inodes ds h)) (in_bytes (ds_inodes ds' h))"
proof (induction ps arbitrary: es c ds)
  case Nil
  then show ?case by (simp add: act_result_def)
next
  case (Cons p ps)
  obtain r b where p: "p = (r, b)" by (cases p)
  let ?e = "resolve_event X L at r b"
  from Cons.prems(4) obtain ds1 c1 where 1: "append_locked X E L h ?e ds = (ds1, Inr c1)"
    and 2: "resolve_loop X E L h at ps c1 ds1 = (ds', Inr c')"
    by (auto simp: p result_simps)
  from Cons.prems(2) p obtain i where i: "i \<in> set (open_intents es)" "ae_request_id i = r" "from_intent i = b"
    by auto
  from agree_inv [OF Cons.prems(1)] obtain v where inv: "log_inv X L es v" by blast
  have "event_ok X L i" "ae_phase i = PhaseIntent"
    using i(1) inv by (auto simp: open_intents_def log_inv_def list_all_iff)
  then have ok: "event_ok X L ?e" using resolve_event_ok [OF laws _ _ i(3) at] by blast
  have a: "agree X E L h ds1 c1 (es @ [?e])" "\<exists>t. in_bytes (ds_inodes ds1 h) = in_bytes (ds_inodes ds h) @ t"
    using Cons.prems(1) agree_append [OF laws env _ _ _ _ ok 1] by (auto simp: agree_def)
  from agree_inv [OF a(1)] have "accountable (es @ [?e])" by (auto simp: log_inv_def tracked_def)
  from open_intents_snoc [OF this]
  have op: "set (open_intents (es @ [?e])) = {i \<in> set (open_intents es). ae_request_id i \<noteq> r}"
    by (simp add: resolve_event_def)
  have "\<forall>(r', b')\<in>set ps. \<exists>i\<in>set (open_intents (es @ [?e])). ae_request_id i = r' \<and> from_intent i = b'"
  proof (clarify)
    fix r' b'
    assume m: "(r', b') \<in> set ps"
    with Cons.prems(2) obtain i' where "i' \<in> set (open_intents es)" "ae_request_id i' = r'" "from_intent i' = b'"
      by auto
    moreover have "r' \<noteq> r" using m Cons.prems(3) p by (auto simp: rev_image_eqI)
    ultimately show "\<exists>i\<in>set (open_intents (es @ [?e])). ae_request_id i = r' \<and> from_intent i = b'"
      unfolding op by blast
  qed
  from Cons.IH [OF a(1) this _ 2] Cons.prems(3) a(2) show ?case
    by (auto simp: p op prefix_def)
qed

lemma open_intents_distinct: "accountable es \<Longrightarrow> distinct (map ae_request_id (open_intents es))"
proof -
  assume "accountable es"
  then have "distinct (map ae_request_id (filter (is_phase PhaseIntent) es))"
    by (simp add: accountable_def request_ids_def)
  moreover have "open_intents es =
      filter (\<lambda>e. ae_request_id e \<notin> set (request_ids PhaseOutcome es)) (filter (is_phase PhaseIntent) es)"
    by (simp add: open_intents_def is_phase_def conj_commute)
  ultimately show ?thesis using distinct_map_filter by metis
qed

lemma tracked_pending_length:
  assumes "tracked es v"
  shows "length (vl_pending_intents v) = length (open_intents es)"
proof -
  let ?p = "vl_pending_intents v"
  have d: "distinct (map fst ?p)" "distinct (map ae_request_id (open_intents es))"
    using assms open_intents_distinct by (auto simp: tracked_def)
  have "r \<in> set (map fst ?p) \<longleftrightarrow> r \<in> set (map ae_request_id (open_intents es))" for r
  proof -
    have "r \<in> set (map fst ?p) \<longleftrightarrow> (\<exists>b. map_of ?p r = Some b)"
      by (metis list.set_map map_of_eq_None_iff not_None_eq)
    also have "\<dots> \<longleftrightarrow> r \<in> set (map ae_request_id (open_intents es))"
      using assms by (auto simp: tracked_def)
    finally show ?thesis .
  qed
  then have "set (map fst ?p) = set (map ae_request_id (open_intents es))" by blast
  with d show ?thesis by (metis distinct_card length_map)
qed

lemma resolve_starts_agreed:
  assumes env: "env_ok E" and ok: "ledger_ok L ds" and h: "ds_entries ds (al_log_path L) = Some h"
    "openable E (ds_inodes ds h) w" "length (in_bytes (ds_inodes ds h)) \<le> MAX_AUDIT_LOG_BYTES"
    and v: "verify_log X L (in_bytes (ds_inodes ds h)) = Inr v"
    and c: "verify_checkpoint_against_log X E L v False (set_mode ds h 0x180) = (ds1, Inr c)"
  shows "agree X E L h ds1 c (log_events X (in_bytes (ds_inodes ds h)))" "same_data ds ds1"
proof -
  let ?ds = "set_mode ds h 0x180"
  from c obtain k where k: "ds_entries ?ds (al_checkpoint_path L) = Some k" "openable E (ds_inodes ?ds k) False"
    "ds1 = set_mode ?ds k 0x180" "length (in_bytes (ds_inodes ?ds k)) \<le> MAX_AUDIT_RECORD_BYTES"
    "ax_checkpoint_parse X (in_bytes (ds_inodes ?ds k)) = Some c" "check_checkpoint X L v c = Inr ()"
    "ac_sequence c = vl_sequence v" "ac_record_hash c = ax_hex_encode X (vl_record_hash v)"
    by (auto simp: verify_checkpoint_against_log_eq read_checkpoint_eq_Some)
  have hk: "h \<noteq> k" using ok h(1) k(1) by (auto simp: ledger_ok_def)
  have acc: "ue_access E f False" if "in_uid f = ue_euid E" "in_mode f = 0x180" for f
    using env that by (auto simp: env_ok_def)
  show same: "same_data ds ds1" using k(3) same_data_trans same_data_set_mode by blast
  have "openable E (ds_inodes ds1 h) False" "openable E (ds_inodes ds1 k) False"
    using h(2) k(2,3) hk acc by (simp_all add: openable_def)
  then show "agree X E L h ds1 c (log_events X (in_bytes (ds_inodes ds h)))"
    using ledger_ok_same [OF same] ok h k v hk by (simp add: agree_def)
qed

text \<open>C16: resolving pending intents as unknown completes the ledger: every record stays, one outcome
  with decision unknown is appended for each pending intent, and the ledger then verifies as
  complete with the returned checkpoint.\<close>

theorem audit_resolution_completes:
  assumes "resolve_pending_as_unknown X E L at anchor ds = (ds', Inr res)" and "ledger_ok L ds"
    and "env_ok E" and "audit_laws X"
  shows "\<exists>bs t ds'' outs. file_bytes ds (al_log_path L) = Some bs \<and>
    file_bytes ds' (al_log_path L) = Some (bs @ t) \<and>
    log_events X (bs @ t) = log_events X bs @ outs \<and> length outs = pr_resolved res \<and>
    pr_resolved res = length (open_intents (log_events X bs)) \<and>
    list_all (\<lambda>e. ae_phase e = PhaseOutcome \<and> ae_decision e = DecisionUnknown) outs \<and>
    verify_complete X E L None ds' = (ds'', Inr (pr_checkpoint res))"
proof -
  from assms(1) obtain h v ds1 c0 where at: "at > 0" and h: "ds_entries ds (al_log_path L) = Some h"
    "openable E (ds_inodes ds h) True" "length (in_bytes (ds_inodes ds h)) \<le> MAX_AUDIT_LOG_BYTES"
    and v: "verify_log X L (in_bytes (ds_inodes ds h)) = Inr v"
    and c: "verify_checkpoint_against_log X E L v False (set_mode ds h 0x180) = (ds1, Inr c0)"
    and loop: "resolve_loop X E L h at (sort_key fst (vl_pending_intents v)) c0 ds1 =
      (ds', Inr (pr_checkpoint res))" and n: "pr_resolved res = length (vl_pending_intents v)"
    unfolding resolve_pending_as_unknown_def Let_def
    by (auto simp: result_simps open_log_for_update_eq verify_log_file_eq_Inr)
  let ?bs = "in_bytes (ds_inodes ds h)" and ?ps = "sort_key fst (vl_pending_intents v)"
  let ?es = "log_events X ?bs" and ?outs = "map (\<lambda>(r, b). resolve_event X L at r b) ?ps"
  note ag = resolve_starts_agreed [OF assms(3,2) h v c]
  have t: "tracked ?es v" using verify_log_inv [OF v] by (simp add: log_inv_def)
  have d: "distinct (map fst ?ps)" using t by (simp add: tracked_def distinct_map)
  have mo: "map_of (vl_pending_intents v) r = Some b" if "(r, b) \<in> set ?ps" for r b
    using that t by (simp add: tracked_def)
  have "\<forall>(r, b)\<in>set ?ps. \<exists>i\<in>set (open_intents ?es). ae_request_id i = r \<and> from_intent i = b"
    using mo t unfolding tracked_def by blast
  note r = resolve_loop_agree [OF assms(4,3) at ag(1) this d loop]
  have "set (open_intents (?es @ ?outs)) = {}"
  proof -
    have "ae_request_id i \<in> fst ` set ?ps" if "i \<in> set (open_intents ?es)" for i
    proof -
      from that t have "map_of (vl_pending_intents v) (ae_request_id i) = Some (from_intent i)"
        unfolding tracked_def by blast
      then show ?thesis by (auto dest!: map_of_SomeD intro: rev_image_eqI)
    qed
    with r show ?thesis by auto
  qed
  then have "open_intents (?es @ ?outs) = []" by simp
  with agree_verify [where complete = True] r obtain ds'' i where
    "verify_internal X E L None True ds' = (ds'', Inr i)" "ai_checkpoint i = pr_checkpoint res" by blast
  then have vc: "verify_complete X E L None ds' = (ds'', Inr (pr_checkpoint res))"
    by (simp add: verify_complete_def act_bind_def act_result_def)
  from r ag(2) obtain t' where t': "in_bytes (ds_inodes ds' h) = ?bs @ t'"
    by (auto simp: prefix_def same_data_def)
  with r have le: "log_events X (?bs @ t') = ?es @ ?outs" "ds_entries ds' (al_log_path L) = Some h"
    by (auto simp: agree_def)
  have "list_all (\<lambda>e. ae_phase e = PhaseOutcome \<and> ae_decision e = DecisionUnknown) ?outs"
    by (auto simp: list_all_iff resolve_event_def)
  with vc t' le h(1) n tracked_pending_length [OF t] show ?thesis
    by (intro exI [of _ ?bs] exI [of _ t'] exI [of _ ds''] exI [of _ ?outs])
      (simp add: file_bytes_def)
qed

subsection \<open>A sample ledger\<close>

definition sample_ledger :: audit_ledger where
  "sample_ledger =
     \<lparr>al_log_path = ''log'', al_checkpoint_path = ''checkpoint'', al_profile_id = replicate 16 1,
      al_profile_generation = 1, al_key = replicate 32 2\<rparr>"

definition sample_intent :: audit_event where
  "sample_intent =
     \<lparr>ae_profile_id = hex_lower (replicate 16 1), ae_profile_generation = 1,
      ae_request_id = replicate 16 3, ae_at_unix_ms = 100, ae_operation_kind = ''exec'',
      ae_phase = PhaseIntent, ae_decision = DecisionPending,
      ae_policy_digest = hex_lower (replicate 32 4), ae_intent_digest = hex_lower (replicate 32 5),
      ae_result_digest = None, ae_reason_code = ''exec''\<rparr>"

definition sample_sha :: "bytes \<Rightarrow> bytes" where
  "sample_sha m = take 32 (m @ replicate 32 0)"

definition audit_ext0 :: audit_ext where
  "audit_ext0 =
     \<lparr>ax_sha256 = sample_sha, ax_hmac = (\<lambda>k m. Some (sample_sha (k @ m))),
      ax_hex_encode = hex_lower, ax_hex_decode = unhex, ax_event_json = (\<lambda>_. None),
      ax_record_json = (\<lambda>_. None), ax_record_parse = (\<lambda>_. None), ax_payload_json = (\<lambda>_. Some [7]),
      ax_checkpoint_json = (\<lambda>_. None), ax_checkpoint_parse = (\<lambda>_. None),
      ax_unsigned_json = (\<lambda>_. Some [8])\<rparr>"

definition sample_outcome :: audit_event where
  "sample_outcome = resolve_event audit_ext0 sample_ledger 300 (replicate 16 3) (from_intent sample_intent)"

definition sample_hash1 :: bytes where "sample_hash1 = sample_sha (record_preimage 1 ZERO_HASH [1])"
definition sample_hash2 :: bytes where "sample_hash2 = sample_sha (record_preimage 2 sample_hash1 [2])"

definition sample_record1 :: audit_record where
  "sample_record1 = projr (make_record audit_ext0 sample_ledger 1 ZERO_HASH sample_intent sample_hash1)"
definition sample_record2 :: audit_record where
  "sample_record2 = projr (make_record audit_ext0 sample_ledger 2 sample_hash1 sample_outcome sample_hash2)"

definition sample_checkpoint :: "u64 \<Rightarrow> bytes \<Rightarrow> audit_checkpoint" where
  "sample_checkpoint s d = projr (make_checkpoint audit_ext0 sample_ledger s d)"

definition audit_ext1 :: audit_ext where
  "audit_ext1 = audit_ext0
     \<lparr>ax_event_json := map_of [(sample_intent, [1]), (sample_outcome, [2])],
      ax_record_json := map_of [(sample_record1, [1]), (sample_record2, [2])],
      ax_record_parse := map_of [([1], sample_record1), ([2], sample_record2)],
      ax_checkpoint_json := map_of [(sample_checkpoint 0 ZERO_HASH, [0]),
        (sample_checkpoint 1 sample_hash1, [1]), (sample_checkpoint 2 sample_hash2, [2])],
      ax_checkpoint_parse := map_of [([0], sample_checkpoint 0 ZERO_HASH),
        ([1], sample_checkpoint 1 sample_hash1), ([2], sample_checkpoint 2 sample_hash2)]\<rparr>"

definition sample_unix :: unix_env where
  "sample_unix = \<lparr>ue_euid = 7, ue_access = (\<lambda>_ _. True), ue_write_fault = None, ue_replace = put_file 7\<rparr>"

definition sample_dir :: dir_state where
  "sample_dir =
     \<lparr>ds_root = None, ds_entries = [''log'' \<mapsto> 0, ''checkpoint'' \<mapsto> 1],
      ds_inodes = (\<lambda>i. \<lparr>in_kind = Regular, in_uid = 7, in_mode = 0x180,
                         in_bytes = (if i = 0 then [] else [0])\<rparr>),
      ds_next = 2\<rparr>"

lemma sample_ext_simps [simp]:
  "ax_sha256 audit_ext1 = sample_sha" "ax_hmac audit_ext1 = (\<lambda>k m. Some (sample_sha (k @ m)))"
  "ax_hex_encode audit_ext1 = hex_lower" "ax_hex_decode audit_ext1 = unhex"
  "ax_payload_json audit_ext1 = (\<lambda>_. Some [7])" "ax_unsigned_json audit_ext1 = (\<lambda>_. Some [8])"
  "ax_event_json audit_ext1 = map_of [(sample_intent, [1]), (sample_outcome, [2])]"
  "ax_record_json audit_ext1 = map_of [(sample_record1, [1]), (sample_record2, [2])]"
  "ax_record_parse audit_ext1 = map_of [([1], sample_record1), ([2], sample_record2)]"
  "ax_checkpoint_json audit_ext1 = map_of [(sample_checkpoint 0 ZERO_HASH, [0]),
        (sample_checkpoint 1 sample_hash1, [1]), (sample_checkpoint 2 sample_hash2, [2])]"
  "ax_checkpoint_parse audit_ext1 = map_of [([0], sample_checkpoint 0 ZERO_HASH),
        ([1], sample_checkpoint 1 sample_hash1), ([2], sample_checkpoint 2 sample_hash2)]"
  by (simp_all add: audit_ext1_def audit_ext0_def)

lemma sample_sha_length [simp]: "length (sample_sha m) = 32"
  by (simp add: sample_sha_def)

lemma sample_records:
  "make_record audit_ext1 sample_ledger 1 ZERO_HASH sample_intent sample_hash1 = Inr sample_record1"
  "make_record audit_ext1 sample_ledger 2 sample_hash1 sample_outcome sample_hash2 = Inr sample_record2"
  "make_checkpoint audit_ext1 sample_ledger s d = Inr (sample_checkpoint s d)"
  by (simp_all add: make_record_def record_mac_def sample_record1_def sample_record2_def audit_ext0_def
      make_checkpoint_def checkpoint_mac_def sample_checkpoint_def Let_def)

lemma sample_distinct:
  "sample_intent \<noteq> sample_outcome" "sample_record1 \<noteq> sample_record2" "ac_sequence (sample_checkpoint s d) = s"
  by (simp_all add: sample_intent_def sample_outcome_def resolve_event_def sample_record1_def
      sample_record2_def make_record_def record_mac_def audit_ext0_def Let_def sample_checkpoint_def
      make_checkpoint_def checkpoint_mac_def)

lemma sample_audit_laws: "audit_laws audit_ext1"
proof -
  have c: "s = t" if "sample_checkpoint s d = sample_checkpoint t d'" for s t d d'
    using that by (metis sample_distinct(3))
  show ?thesis
    unfolding audit_laws_def
    by (intro conjI allI) (auto simp: hex_lower_chars sample_distinct dest: c split: if_splits)
qed

lemma sample_env_laws: "env_ok sample_unix" "ledger_ok sample_ledger sample_dir"
proof -
  show "env_ok sample_unix"
    by (auto simp: env_ok_def sample_unix_def put_file_laws)
      (auto simp: put_file_def lookup_def)
  show "ledger_ok sample_ledger sample_dir"
    by (auto simp: ledger_ok_def sample_ledger_def sample_dir_def wf_dir_def split: if_splits)
qed

lemma append_locked_agreed:
  assumes "agree X E L h ds c es" "verify_log X L (in_bytes (ds_inodes ds h)) = Inr v"
    "prepare_append X L v e = Inr (s, d, j)"
  shows "\<exists>k. append_locked X E L h e ds = append_tail X E L h s d j (set_mode ds k 0x180)"
proof -
  from assms(1,2) obtain k where k: "ds_entries ds (al_checkpoint_path L) = Some k"
    "openable E (ds_inodes ds k) False" "length (in_bytes (ds_inodes ds k)) \<le> MAX_AUDIT_RECORD_BYTES"
    "ax_checkpoint_parse X (in_bytes (ds_inodes ds k)) = Some c" "check_checkpoint X L v c = Inr ()"
    and len: "length (in_bytes (ds_inodes ds h)) \<le> MAX_AUDIT_LOG_BYTES"
    unfolding agree_def by auto
  have "verify_log_file X L h ds = (ds, Inr v)" using assms(2) len by (simp add: verify_log_file_eq_Inr)
  moreover have "verify_checkpoint_against_log X E L v True ds = (set_mode ds k 0x180, Inr c)"
    using k by (simp add: verify_checkpoint_against_log_eq read_checkpoint_eq_Some)
  ultimately show ?thesis using assms(3) by (auto simp: append_locked_eq act_bind_def act_result_def)
qed

text \<open>An append to a ledger whose log and checkpoint agree succeeds when the record fits, the write
  does not fault and the checkpoint is replaced.\<close>

lemma append_locked_total:
  assumes a: "agree X E L h ds c es" "verify_log X L (in_bytes (ds_inodes ds h)) = Inr v"
      "prepare_append X L v e = Inr (s, d, j)" and c': "make_checkpoint X L s d = Inr c'"
    and cj: "ax_checkpoint_json X c' = Some cj"
    and size: "length (in_bytes (ds_inodes ds h)) + length j + 1 \<le> MAX_AUDIT_LOG_BYTES"
    and fault: "ue_write_fault E = None" and rep: "\<And>ds p m b. \<exists>ds'. ue_replace E ds p m b = Inr ds'"
  shows "\<exists>ds'. append_locked X E L h e ds = (ds', Inr c')"
proof -
  from append_locked_agreed [OF a] obtain k where
    k: "append_locked X E L h e ds = append_tail X E L h s d j (set_mode ds k 0x180)" ..
  obtain ds' where "ue_replace E (append_bytes (set_mode ds k 0x180) h (j @ [10]))
      (al_checkpoint_path L) 0x180 cj = Inr ds'" using rep by blast
  then have "append_tail X E L h s d j (set_mode ds k 0x180) = (ds', Inr c')"
    using size fault c' cj
    by (simp add: append_tail_def act_bind_def act_ensure_def act_result_def write_end_def
        persist_checkpoint_cases usize_saturating_add_def)
  with k show ?thesis by metis
qed

lemma append_event_opened:
  assumes "event_ok X L e" "ds_entries ds (al_log_path L) = Some h" "openable E (ds_inodes ds h) True"
    "in_mode (ds_inodes ds h) = 0x180"
  shows "append_event X E L e ds = append_locked X E L h e ds"
proof -
  have "set_mode ds h 0x180 = ds" using assms(4) by (auto simp: set_mode_def fun_upd_idem)
  with assms(2,3) have "open_log_for_update E L ds = (ds, Inr h)" by (simp add: open_log_for_update_eq)
  with assms(1) show ?thesis
    by (simp add: append_event_def event_ok_def check_event_identity_def act_bind_def act_result_def)
qed

lemma sample_event_ok:
  "event_ok audit_ext1 sample_ledger sample_intent" "event_ok audit_ext1 sample_ledger sample_outcome"
proof -
  show i: "event_ok audit_ext1 sample_ledger sample_intent"
    by (simp add: event_ok_def validate_event_def sample_intent_def sample_ledger_def
        validate_profile_id_def validate_token_def validate_digest_def hex_lower_chars
        MAX_OPERATION_KIND_BYTES_def MAX_REASON_CODE_BYTES_def is_ascii_lowercase_def char_code_def)
  have "sample_outcome = resolve_event audit_ext1 sample_ledger 300 (replicate 16 3) (from_intent sample_intent)"
    by (simp add: sample_outcome_def resolve_event_def resolved_unknown_result_digest_def audit_ext0_def)
  with resolve_event_ok [OF sample_audit_laws i, of _ 300 "replicate 16 3"]
  show "event_ok audit_ext1 sample_ledger sample_outcome" by (simp add: sample_intent_def)
qed

lemma sample_agree:
  "agree audit_ext1 (sample_unix\<lparr>ue_write_fault := f\<rparr>) sample_ledger 0 sample_dir (sample_checkpoint 0 ZERO_HASH) []"
proof -
  note ck = make_checkpoint_eq [OF sample_audit_laws sample_records(3) [of 0 ZERO_HASH]]
  have z: "length ZERO_HASH = 32" by (simp add: ZERO_HASH_def)
  have "verify_log audit_ext1 sample_ledger [] = Inr empty_log" by (simp add: verify_log_def)
  moreover have "check_checkpoint audit_ext1 sample_ledger empty_log (sample_checkpoint 0 ZERO_HASH) = Inr ()"
    using ck z by (simp add: check_checkpoint_def hash_at_def empty_log_def)
  ultimately show ?thesis
    using ck z sample_env_laws(2)
    by (simp add: agree_def openable_def sample_dir_def sample_unix_def sample_ledger_def log_events_def
        MAX_AUDIT_RECORD_BYTES_def empty_log_def)
qed

lemma sample_prepare1: "prepare_append audit_ext1 sample_ledger empty_log sample_intent = Inr (1, sample_hash1, [1])"
proof -
  have "ae_phase sample_intent = PhaseIntent" by (simp add: sample_intent_def)
  then show ?thesis
    by (simp add: prepare_append_def check_appendable_def empty_log_def checked_add_def
        calculate_record_hash_def sample_records sample_hash1_def [symmetric] MAX_AUDIT_RECORD_BYTES_def)
qed

lemma sample_log1:
  assumes "log_inv audit_ext1 sample_ledger [sample_intent] v"
  shows "vl_sequence v = 1" "vl_record_hash v = sample_hash1"
    "vl_pending_intents v = [(replicate 16 3, from_intent sample_intent)]"
proof -
  show s: "vl_sequence v = 1" using assms by (simp add: log_inv_def word_unat_eq_iff)
  show "vl_record_hash v = sample_hash1"
    using assms by (simp add: log_inv_def calculate_record_hash_def sample_hash1_def)
  have "open_intents [sample_intent] = [sample_intent]" "ae_request_id sample_intent = replicate 16 3"
    by (simp_all add: open_intents_def sample_intent_def request_ids_def is_phase_def)
  then have m: "map_of (vl_pending_intents v) r = Some b \<longleftrightarrow> r = replicate 16 3 \<and> b = from_intent sample_intent" for r b
    using assms by (auto simp: log_inv_def tracked_def)
  have d: "distinct (map fst (vl_pending_intents v))" using assms by (simp add: log_inv_def tracked_def)
  have "x \<in> set (vl_pending_intents v) \<longleftrightarrow> x = (replicate 16 3, from_intent sample_intent)" for x
    using map_of_eq_Some_iff [OF d, of "fst x" "snd x"] m [of "fst x" "snd x"] by (cases x) simp
  then have "set (vl_pending_intents v) = {(replicate 16 3, from_intent sample_intent)}" by blast
  with d [THEN distinct_map [THEN iffD1], THEN conjunct1] show "vl_pending_intents v = [(replicate 16 3, from_intent sample_intent)]"
    by (cases "vl_pending_intents v" rule: remdups_adj.cases) auto
qed

lemma sample_prepare2:
  assumes "log_inv audit_ext1 sample_ledger [sample_intent] v"
  shows "prepare_append audit_ext1 sample_ledger v sample_outcome = Inr (2, sample_hash2, [2])"
proof -
  have "ae_phase sample_outcome = PhaseOutcome" "ae_request_id sample_outcome = replicate 16 3"
    "ensure_matches_outcome (from_intent sample_intent) sample_outcome = Inr ()"
    by (simp_all add: sample_outcome_def resolve_event_def ensure_matches_outcome_def)
  then show ?thesis
    by (simp add: prepare_append_def check_appendable_def sample_log1 [OF assms] checked_add_def sample_distinct(1) [symmetric]
        calculate_record_hash_def sample_records sample_hash2_def [symmetric] sample_distinct(2) [symmetric]
        MAX_AUDIT_RECORD_BYTES_def)
qed

lemma sample_unix_fault: "sample_unix\<lparr>ue_write_fault := None\<rparr> = sample_unix"
  by (simp add: sample_unix_def)

lemma sample_open:
  "ds_entries sample_dir (al_log_path sample_ledger) = Some 0"
  "in_mode (ds_inodes sample_dir 0) = 0x180" "in_bytes (ds_inodes sample_dir 0) = []"
  "verify_log audit_ext1 sample_ledger (in_bytes (ds_inodes sample_dir 0)) = Inr empty_log"
  by (simp_all add: sample_dir_def sample_ledger_def verify_log_def)

lemma sample_openable: "openable (sample_unix\<lparr>ue_write_fault := f\<rparr>) (ds_inodes sample_dir 0) True"
  by (simp add: sample_dir_def openable_def sample_unix_def)

lemma sample_replaced: "\<exists>ds'. ue_replace sample_unix ds path m bs = Inr ds'"
  by (simp add: sample_unix_def put_file_def)

lemma sample_checkpoint_eq: "sample_checkpoint s d = sample_checkpoint t d' \<Longrightarrow> s = t"
  by (metis sample_distinct(3))

lemma sample_append1:
  obtains ds1 where "append_event audit_ext1 sample_unix sample_ledger sample_intent sample_dir =
       (ds1, Inr (sample_checkpoint 1 sample_hash1))" "length (in_bytes (ds_inodes ds1 0)) = 2"
    "agree audit_ext1 sample_unix sample_ledger 0 ds1 (sample_checkpoint 1 sample_hash1) [sample_intent]"
proof -
  let ?A = "append_locked audit_ext1 sample_unix sample_ledger 0 sample_intent sample_dir"
  note o = sample_openable [of None, unfolded sample_unix_fault]
  have "\<exists>ds1. ?A = (ds1, Inr (sample_checkpoint 1 sample_hash1))"
    by (rule append_locked_total [OF sample_agree [of None, unfolded sample_unix_fault] sample_open(4)
          sample_prepare1 sample_records(3) _ _ _ sample_replaced, where cj = "[1]"])
      (auto simp: sample_open MAX_AUDIT_LOG_BYTES_def sample_unix_def dest: sample_checkpoint_eq)
  then obtain ds1 where ds1: "?A = (ds1, Inr (sample_checkpoint 1 sample_hash1))" ..
  from agree_append(1) [OF sample_audit_laws sample_env_laws sample_open(1) o sample_open(2) sample_event_ok(1) ds1]
  have a: "agree audit_ext1 sample_unix sample_ledger 0 ds1 (sample_checkpoint 1 sample_hash1) [sample_intent]"
    by (simp add: sample_open log_events_def)
  have e: "append_event audit_ext1 sample_unix sample_ledger sample_intent sample_dir = ?A"
    by (rule append_event_opened [OF sample_event_ok(1) sample_open(1) o sample_open(2)])
  from append_locked_appended [OF ds1] sample_prepare1 sample_open(4) obtain ds0 cj where
    s: "same_data sample_dir ds0" and "ue_replace sample_unix (append_bytes ds0 0 [1, 10]) ''checkpoint'' 0x180 cj = Inr ds1"
    unfolding appended_def by (auto simp: sample_ledger_def)
  then have "length (in_bytes (ds_inodes ds1 0)) = 2"
    by (auto simp: same_data_def sample_unix_def put_file_def append_bytes_def sample_dir_def)
  with that a ds1 e show thesis by simp
qed

lemma sample_append_fails:
  "\<exists>ds'. append_event audit_ext1 (sample_unix\<lparr>ue_write_fault := Some 1\<rparr>) sample_ledger sample_intent sample_dir =
     (ds', Inl ''append audit record'')"
proof -
  from append_locked_agreed [OF sample_agree sample_open(4) sample_prepare1, of "Some 1"]
    append_event_opened [OF sample_event_ok(1) sample_open(1) sample_openable sample_open(2)]
  show ?thesis
    by (auto simp: append_tail_def act_bind_def act_ensure_def act_result_def write_end_def
        sample_open MAX_AUDIT_LOG_BYTES_def usize_saturating_add_def)
qed

lemma sample_append2:
  assumes a: "agree audit_ext1 sample_unix sample_ledger 0 ds1 (sample_checkpoint 1 sample_hash1) [sample_intent]"
    and l: "length (in_bytes (ds_inodes ds1 0)) = 2"
  shows "\<exists>ds2. append_locked audit_ext1 sample_unix sample_ledger 0 sample_outcome ds1 =
       (ds2, Inr (sample_checkpoint 2 sample_hash2))"
proof -
  from a obtain v where v: "verify_log audit_ext1 sample_ledger (in_bytes (ds_inodes ds1 0)) = Inr v"
    and "log_inv audit_ext1 sample_ledger [sample_intent] v"
    unfolding agree_def using verify_log_inv by metis
  note p = sample_prepare2 [OF this(2)]
  show ?thesis
    by (rule append_locked_total [OF a v p sample_records(3) _ _ _ sample_replaced, where cj = "[2]"])
      (auto simp: l MAX_AUDIT_LOG_BYTES_def sample_unix_def dest: sample_checkpoint_eq)
qed

lemma sample_resolve:
  assumes a: "agree audit_ext1 sample_unix sample_ledger 0 ds1 (sample_checkpoint 1 sample_hash1) [sample_intent]"
    and l: "length (in_bytes (ds_inodes ds1 0)) = 2"
  shows "\<exists>ds2. resolve_pending_as_unknown audit_ext1 sample_unix sample_ledger 300 None ds1 =
       (ds2, Inr \<lparr>pr_resolved = 1, pr_checkpoint = sample_checkpoint 2 sample_hash2\<rparr>)"
proof -
  from a obtain v k where v: "verify_log audit_ext1 sample_ledger (in_bytes (ds_inodes ds1 0)) = Inr v"
    and i: "log_inv audit_ext1 sample_ledger [sample_intent] v"
    and h: "ds_entries ds1 (al_log_path sample_ledger) = Some 0" "openable sample_unix (ds_inodes ds1 0) False"
      "in_mode (ds_inodes ds1 0) = 0x180"
    and k: "ds_entries ds1 (al_checkpoint_path sample_ledger) = Some k"
      "openable sample_unix (ds_inodes ds1 k) False" "length (in_bytes (ds_inodes ds1 k)) \<le> MAX_AUDIT_RECORD_BYTES"
      "ax_checkpoint_parse audit_ext1 (in_bytes (ds_inodes ds1 k)) = Some (sample_checkpoint 1 sample_hash1)"
      "check_checkpoint audit_ext1 sample_ledger v (sample_checkpoint 1 sample_hash1) = Inr ()"
      "ac_sequence (sample_checkpoint 1 sample_hash1) = vl_sequence v"
      "ac_record_hash (sample_checkpoint 1 sample_hash1) = hex_lower (vl_record_hash v)"
    unfolding agree_def using verify_log_inv by fastforce
  have "openable sample_unix (ds_inodes ds1 0) True" using h(2) by (simp add: openable_def sample_unix_def)
  moreover have m: "set_mode ds1 0 0x180 = ds1" using h(3) by (simp add: set_mode_def fun_upd_idem)
  ultimately have 1: "open_log_for_update sample_unix sample_ledger ds1 = (ds1, Inr 0)"
    using h(1) by (simp add: open_log_for_update_eq)
  have 2: "verify_log_file audit_ext1 sample_ledger 0 ds1 = (ds1, Inr v)"
    using v l by (simp add: verify_log_file_eq_Inr MAX_AUDIT_LOG_BYTES_def)
  let ?ds = "set_mode ds1 k 0x180"
  have 3: "verify_checkpoint_against_log audit_ext1 sample_unix sample_ledger v False ds1 =
      (?ds, Inr (sample_checkpoint 1 sample_hash1))"
    using k by (simp add: verify_checkpoint_against_log_eq read_checkpoint_eq_Some)
  have "ledger_ok sample_ledger ds1" "log_events audit_ext1 (in_bytes (ds_inodes ds1 0)) = [sample_intent]"
    using a by (simp_all add: agree_def)
  with resolve_starts_agreed(1) [OF sample_env_laws(1) _ h(1,2) _ v] 3 m l
  have "agree audit_ext1 sample_unix sample_ledger 0 ?ds (sample_checkpoint 1 sample_hash1) [sample_intent]"
    by (simp add: MAX_AUDIT_LOG_BYTES_def)
  with sample_append2 l obtain ds2 where "append_locked audit_ext1 sample_unix sample_ledger 0 sample_outcome ?ds =
       (ds2, Inr (sample_checkpoint 2 sample_hash2))" by force
  moreover have "resolve_event audit_ext1 sample_ledger 300 (replicate 16 3) (from_intent sample_intent) = sample_outcome"
    by (simp add: sample_outcome_def resolve_event_def resolved_unknown_result_digest_def audit_ext0_def)
  ultimately show ?thesis
    using 1 2 3 sample_log1(3) [OF i]
    by (simp add: resolve_pending_as_unknown_def act_bind_def act_ensure_def act_result_def
        verify_external_anchor_def)
qed

lemma agree_verify_anchored:
  assumes "agree X E L h ds c es"
  shows "\<exists>ds'. ledger_verify X E L (Some c) ds = (ds', Inr c)"
proof -
  from assms obtain k v where
    1: "ds_entries ds (al_log_path L) = Some h" "openable E (ds_inodes ds h) False"
      "ds_entries ds (al_checkpoint_path L) = Some k" "openable E (ds_inodes ds k) False" "h \<noteq> k"
      "length (in_bytes (ds_inodes ds h)) \<le> MAX_AUDIT_LOG_BYTES"
      "length (in_bytes (ds_inodes ds k)) \<le> MAX_AUDIT_RECORD_BYTES"
      "verify_log X L (in_bytes (ds_inodes ds h)) = Inr v"
      "ax_checkpoint_parse X (in_bytes (ds_inodes ds k)) = Some c" "check_checkpoint X L v c = Inr ()"
      "ac_sequence c = vl_sequence v" "ac_record_hash c = ax_hex_encode X (vl_record_hash v)"
    unfolding agree_def by blast
  have "verify_external_anchor X L v c (Some c) = Inr ()"
    using 1(10) by (simp add: verify_external_anchor_def check_checkpoint_def result_simps)
  from verify_internalI [OF 1 this, of False] show ?thesis
    by (auto simp: ledger_verify_def act_bind_def act_result_def)
qed

theorem audit_anchor_detects_rollback_witness:
  "\<exists>ds1 ds2. ledger_verify audit_ext1 sample_unix sample_ledger (Some (sample_checkpoint 1 sample_hash1)) ds1 =
       (ds2, Inr (sample_checkpoint 1 sample_hash1)) \<and>
     file_bytes ds1 (al_log_path sample_ledger) \<noteq> None \<and> log_events audit_ext1 (in_bytes (ds_inodes ds1 0)) = [sample_intent]"
proof -
  obtain ds1 where a: "agree audit_ext1 sample_unix sample_ledger 0 ds1 (sample_checkpoint 1 sample_hash1) [sample_intent]"
    by (rule sample_append1)
  from agree_verify_anchored [OF a] obtain ds2 where
    v: "ledger_verify audit_ext1 sample_unix sample_ledger (Some (sample_checkpoint 1 sample_hash1)) ds1 =
       (ds2, Inr (sample_checkpoint 1 sample_hash1))" ..
  from audit_anchor_detects_rollback [OF v v sample_audit_laws] v a show ?thesis
    by (auto simp: agree_def)
qed

theorem audit_complete_accounts_witness:
  "\<exists>ds' bs. verify_complete audit_ext1 sample_unix sample_ledger None sample_dir =
       (ds', Inr (sample_checkpoint 0 ZERO_HASH)) \<and>
     file_bytes sample_dir (al_log_path sample_ledger) = Some bs \<and> open_intents (log_events audit_ext1 bs) = []"
proof -
  have "open_intents [] = []" by (simp add: open_intents_def)
  with agree_verify [OF sample_agree [of None, unfolded sample_unix_fault], of True] obtain ds' where
    v: "verify_complete audit_ext1 sample_unix sample_ledger None sample_dir =
       (ds', Inr (sample_checkpoint 0 ZERO_HASH))"
    by (auto simp: verify_complete_def act_bind_def act_result_def)
  from audit_complete_accounts [OF v] v show ?thesis by blast
qed

theorem audit_append_verifies_witness:
  "\<exists>ds1 ds2. append_event audit_ext1 sample_unix sample_ledger sample_intent sample_dir =
       (ds1, Inr (sample_checkpoint 1 sample_hash1)) \<and>
     ledger_verify audit_ext1 sample_unix sample_ledger None ds1 = (ds2, Inr (sample_checkpoint 1 sample_hash1))"
proof -
  obtain ds1 where e: "append_event audit_ext1 sample_unix sample_ledger sample_intent sample_dir =
       (ds1, Inr (sample_checkpoint 1 sample_hash1))" by (rule sample_append1)
  from audit_append_verifies [OF e sample_env_laws(2,1) sample_audit_laws] e show ?thesis by blast
qed


theorem audit_resolution_completes_witness:
  "\<exists>ds1 ds2 ds3. resolve_pending_as_unknown audit_ext1 sample_unix sample_ledger 300 None ds1 =
       (ds2, Inr \<lparr>pr_resolved = 1, pr_checkpoint = sample_checkpoint 2 sample_hash2\<rparr>) \<and>
     verify_complete audit_ext1 sample_unix sample_ledger None ds2 = (ds3, Inr (sample_checkpoint 2 sample_hash2))"
proof -
  obtain ds1 where l: "length (in_bytes (ds_inodes ds1 0)) = 2" and
    a: "agree audit_ext1 sample_unix sample_ledger 0 ds1 (sample_checkpoint 1 sample_hash1) [sample_intent]"
    by (rule sample_append1)
  from sample_resolve [OF a l] obtain ds2 where
    r: "resolve_pending_as_unknown audit_ext1 sample_unix sample_ledger 300 None ds1 =
       (ds2, Inr \<lparr>pr_resolved = 1, pr_checkpoint = sample_checkpoint 2 sample_hash2\<rparr>)" ..
  have "ledger_ok sample_ledger ds1" using a by (simp add: agree_def)
  from audit_resolution_completes [OF r this sample_env_laws(1) sample_audit_laws] r show ?thesis by auto
qed

end
