(* ===== verification/Ipc_Frames.thy ===== *)
theory Ipc_Frames
  imports Serctl_Prelude
begin

text \<open>
  The frames of the local protocol between a frontend and the daemon
  (crates/serctl_protocol/src/lib.rs): the types carried by a frame and their validation, the
  canonical digest of a root request, the name of a local endpoint, and the length-prefixed framing
  of a byte stream.

  Base64, hexadecimal, SHA-256 and HMAC are other crates and are the fields of \<open>ipc_ext\<close>, and so is
  JSON: \<open>ix_frame_chunks\<close> is the sequence of writes \<open>serde_json::to_writer\<close> makes for a frame and
  \<open>ix_frame_parse\<close> is \<open>serde_json::from_slice\<close>. An \<open>f64\<close> is its bit pattern. Identifiers with a
  private constructor (\<open>TransferId\<close>, \<open>TunnelId\<close>, \<open>OperationContextId\<close>) are strings; that a received
  one has been parsed is part of the law of \<open>ix_frame_parse\<close>. A byte source is the list of bytes it
  still delivers, and a write returns the bytes it sends. Zeroising has no observable result.
\<close>

unbundle bit_operations_syntax

section \<open>Constants\<close>

definition IPC_PROTOCOL_VERSION :: u16 where "IPC_PROTOCOL_VERSION = 5"
definition MAX_FRAME :: nat where "MAX_FRAME = 64 * 1024 * 1024"
definition MAX_AUTH_FRAME :: nat where "MAX_AUTH_FRAME = 4 * 1024"
definition MAX_CONTROL_FRAME :: nat where "MAX_CONTROL_FRAME = 16 * 1024"
definition MAX_REQUEST_FRAME :: nat where "MAX_REQUEST_FRAME = 512 * 1024"
definition NATIVE_IPC_CHUNK_BYTES :: nat where "NATIVE_IPC_CHUNK_BYTES = 32 * 1024"
definition MAX_EXEC_TIMEOUT_MS :: u64 where "MAX_EXEC_TIMEOUT_MS = 24 * 60 * 60 * 1000"
definition MAX_SFTP_TIMEOUT_MS :: u64 where "MAX_SFTP_TIMEOUT_MS = 24 * 60 * 60 * 1000"
definition TRANSFER_PROGRESS_SCHEMA_VERSION :: u16 where "TRANSFER_PROGRESS_SCHEMA_VERSION = 1"
definition TUNNEL_STATUS_SCHEMA_VERSION :: u16 where "TUNNEL_STATUS_SCHEMA_VERSION = 1"
definition NATIVE_HELPER_BINARY_NAME :: string where "NATIVE_HELPER_BINARY_NAME = ''serctl-xfer''"
definition NATIVE_HELPER_PROTOCOL_VERSION :: u16 where "NATIVE_HELPER_PROTOCOL_VERSION = 1"
definition MAX_NATIVE_HELPER_BINARY_BYTES :: u64 where
  "MAX_NATIVE_HELPER_BINARY_BYTES = 512 * 1024 * 1024"
definition MAX_NATIVE_HELPER_VERSION_BYTES :: nat where "MAX_NATIVE_HELPER_VERSION_BYTES = 256"
definition MAX_TUNNEL_CONNECTIONS :: nat where "MAX_TUNNEL_CONNECTIONS = 128"
definition MAX_SSH_SERVER_IDENTIFICATION_BYTES :: nat where
  "MAX_SSH_SERVER_IDENTIFICATION_BYTES = 128"
definition ENDPOINT_DOMAIN :: bytes where
  "ENDPOINT_DOMAIN = as_bytes ''serctl/ipc/endpoint/v5'' @ [0]"
definition REQUEST_DIGEST_DOMAIN :: bytes where
  "REQUEST_DIGEST_DOMAIN = as_bytes ''serctl/ipc/request-intent/v5'' @ [0]"

section \<open>Identifiers\<close>

type_synonym transfer_id = string
type_synonym tunnel_id = string
type_synonym operation_context_id = string
type_synonym f64 = "64 word"

definition all_lower_hex :: "string \<Rightarrow> bool" where
  "all_lower_hex s \<longleftrightarrow> list_all is_lower_hex_char s"

definition operation_context_id_parse :: "string \<Rightarrow> operation_context_id res" where
  "operation_context_id_parse value =
     ensure (length value = 64 \<and> all_lower_hex value)
       ''operation context id must contain 64 lowercase hex characters'' (Inr value)"

definition transfer_id_parse :: "string \<Rightarrow> transfer_id res" where
  "transfer_id_parse value =
     ensure (length value = 32) ''transfer id must contain 32 lowercase hex characters'' (
     ensure (all_lower_hex value) ''transfer id must contain 32 lowercase hex characters'' (
     Inr value))"

definition tunnel_id_parse :: "string \<Rightarrow> tunnel_id res" where
  "tunnel_id_parse value =
     ensure (length value = 32 \<and> all_lower_hex value)
       ''tunnel id must contain 32 lowercase hex characters'' (Inr value)"

section \<open>Transfers\<close>

datatype transfer_direction = Push | Pull

datatype transfer_stage =
  StPreflight | StHash | StNegotiating | StTransferring | StVerifying | StCommitting | StCleanup
| StCompleted | StFailed | StCancelled | StStalled

datatype transfer_backend = BkAuto | BkNative | BkSftp | BkSftpFallback

record expected_native_helper_identity =
  eh_name :: string
  eh_binary_size :: u64
  eh_sha256 :: string
  eh_version :: string

definition validate_expected_helper :: "expected_native_helper_identity \<Rightarrow> unit res" where
  "validate_expected_helper h =
     ensure (eh_name h = NATIVE_HELPER_BINARY_NAME) ''expected native helper name mismatch'' (
     ensure (1 \<le> eh_binary_size h \<and> eh_binary_size h \<le> MAX_NATIVE_HELPER_BINARY_BYTES)
       ''expected native helper binary size is invalid'' (
     ensure (length (eh_sha256 h) = 64 \<and> all_lower_hex (eh_sha256 h))
       ''expected native helper SHA-256 must contain 64 lowercase hex characters'' (
     ensure (eh_version h \<noteq> [] \<and> length (eh_version h) \<le> MAX_NATIVE_HELPER_VERSION_BYTES \<and>
             is_ascii (eh_version h) \<and> \<not> list_ex is_ascii_control (eh_version h))
       ''expected native helper version identity is invalid'' (
     let prefix = NATIVE_HELPER_BINARY_NAME @ '' '';
         suffix = ''; transfer protocol v'' @ decimal (unat NATIVE_HELPER_PROTOCOL_VERSION) @ '')'' in
     and_then (ok_or (Option.bind (strip_prefix (eh_version h) prefix) (\<lambda>value. strip_suffix value suffix))
       ''expected native helper version identity grammar mismatch'') (\<lambda>body.
     and_then (ok_or (split_once body '' (git '')
       ''expected native helper version identity grammar mismatch'') (\<lambda>(release_version, commit).
     ensure (release_version \<noteq> [] \<and> length release_version \<le> 64 \<and>
             list_all (\<lambda>c. is_ascii_alphanumeric c \<or> c = CHR ''.'' \<or> c = CHR ''-'') release_version)
       ''expected native helper release version is invalid'' (
     let commit_hex = (case strip_suffix commit ''-dirty'' of None \<Rightarrow> commit | Some c \<Rightarrow> c) in
     ensure (length commit_hex = 12 \<and> all_lower_hex commit_hex)
       ''expected native helper commit identity is invalid'' (Inr ()))))))))"

datatype transfer_resume_mode = ResumeAuto | ResumeNever

record transfer_progress =
  tp_schema_version :: u16
  tp_event :: string
  tp_transfer_id :: transfer_id
  tp_operation_context_id :: "operation_context_id option"
  tp_revision :: u64
  tp_direction :: transfer_direction
  tp_stage :: transfer_stage
  tp_total_bytes :: u64
  tp_confirmed_bytes :: u64
  tp_durable_bytes :: u64
  tp_window_bps :: f64
  tp_average_bps :: f64
  tp_eta_ms :: "u64 option"
  tp_backend :: transfer_backend
  tp_chunk_bytes :: u32
  tp_window_bytes :: u32
  tp_updated_unix_ms :: u64

text \<open>\<open>f64::is_finite\<close>, and the comparison \<open>x >= 0.0\<close> of a finite number, on the bit pattern: the
  sign bit is clear or the number is negative zero.\<close>

definition f64_is_finite :: "f64 \<Rightarrow> bool" where
  "f64_is_finite x \<longleftrightarrow> x AND 0x7FF0000000000000 \<noteq> 0x7FF0000000000000"

definition f64_nonnegative :: "f64 \<Rightarrow> bool" where
  "f64_nonnegative x \<longleftrightarrow> x AND 0x8000000000000000 = 0 \<or> x = 0x8000000000000000"

definition validate_progress :: "transfer_progress \<Rightarrow> unit res" where
  "validate_progress p =
     ensure (tp_schema_version p = TRANSFER_PROGRESS_SCHEMA_VERSION)
       ''unsupported transfer progress schema version'' (
     ensure (tp_confirmed_bytes p \<le> tp_total_bytes p) ''confirmed bytes exceed total'' (
     ensure (tp_durable_bytes p \<le> tp_confirmed_bytes p) ''durable bytes exceed confirmed'' (
     ensure (tp_operation_context_id p = None \<or> tp_revision p > 0)
       ''context-bound transfer progress requires a positive revision'' (
     ensure (f64_is_finite (tp_window_bps p) \<and> f64_nonnegative (tp_window_bps p))
       ''window rate must be finite and non-negative'' (
     ensure (f64_is_finite (tp_average_bps p) \<and> f64_nonnegative (tp_average_bps p))
       ''average rate must be finite and non-negative'' (
     ensure (tp_event p \<noteq> [] \<and> length (tp_event p) \<le> 64 \<and> \<not> any_control (tp_event p))
       ''transfer progress event is invalid'' (Inr ())))))))"

definition unsafe_name_char :: "nat \<Rightarrow> bool" where
  "unsafe_name_char c \<longleftrightarrow> is_control c \<or> c \<in> {47, 92, 58}"

definition validate_profile_name :: "string \<Rightarrow> unit res" where
  "validate_profile_name name =
     (if name = [] \<or> length name > 128 then Inl ''profile name must contain 1 to 128 bytes''
      else if name = ''.'' \<or> name = ''..'' \<or> list_ex unsafe_name_char (chars name)
      then Inl ''profile name contains unsafe path characters''
      else Inr ())"

section \<open>Tunnels\<close>

datatype tunnel_mode = ModeLocal | ModeRemote | ModeDynamic

record tunnel_spec =
  ts_mode :: tunnel_mode
  ts_bind_port :: u16
  ts_target_port :: u16
  ts_max_connections :: u16

record tunnel_ready =
  tr_mode :: tunnel_mode
  tr_bind_host :: string
  tr_bind_port :: u16

datatype tunnel_stage = TunReady | TunCancelling | TunClosed | TunUnknown

record tunnel_status =
  tn_schema_version :: u16
  tn_tunnel_id :: tunnel_id
  tn_profile_id :: string
  tn_profile_generation :: u64
  tn_mode :: tunnel_mode
  tn_bind_host :: string
  tn_bind_port :: u16
  tn_target_host :: "string option"
  tn_target_port :: u16
  tn_deadline_unix_ms :: u64
  tn_stage :: tunnel_stage
  tn_updated_unix_ms :: u64
  tn_operation_context_id :: "operation_context_id option"
  tn_revision :: u64

definition validate_tunnel_status :: "tunnel_status \<Rightarrow> unit res" where
  "validate_tunnel_status t =
     ensure (tn_schema_version t = TUNNEL_STATUS_SCHEMA_VERSION)
       ''unsupported tunnel status schema version'' (
     and_then (tunnel_id_parse (tn_tunnel_id t)) (\<lambda>_.
     ensure (length (tn_profile_id t) = 32 \<and> all_lower_hex (tn_profile_id t))
       ''tunnel profile id must contain 32 lowercase hex characters'' (
     ensure (tn_profile_generation t > 0) ''tunnel profile generation is invalid'' (
     ensure (tn_bind_host t = ''127.0.0.1'') ''tunnel bind host must be IPv4 loopback'' (
     ensure (tn_bind_port t > 0) ''tunnel bind port must be non-zero'' (
     and_then (case tn_mode t of
         ModeDynamic \<Rightarrow>
           ensure (tn_target_host t = None) ''dynamic tunnel has no fixed target host'' (
           ensure (tn_target_port t = 0) ''dynamic tunnel has no fixed target port'' (Inr ()))
       | _ \<Rightarrow>
           ensure (tn_target_host t = Some ''127.0.0.1'')
             ''fixed tunnel target host must be IPv4 loopback'' (
           ensure (tn_target_port t > 0) ''fixed tunnel target port must be non-zero'' (Inr ()))) (\<lambda>_.
     ensure (tn_deadline_unix_ms t > 0) ''tunnel deadline is invalid'' (
     ensure (tn_updated_unix_ms t > 0) ''tunnel update time is invalid'' (
     ensure ((tn_operation_context_id t \<noteq> None) = (tn_revision t > 0))
       ''tunnel operation context and revision must appear together'' (Inr ()))))))))))"

record remote_entry =
  re_name :: string
  re_path :: string
  re_is_dir :: bool
  re_is_symlink :: bool
  re_size :: u64
  re_modified_unix :: "u32 option"

text \<open>An IPv4 socket address is its four octets and its port.\<close>

type_synonym socket_addr = "u8 list \<times> u16"

datatype validated_tunnel_spec =
  VLocal socket_addr u16 nat
| VRemote u16 u16 nat
| VDynamic socket_addr nat

definition validate_tunnel_connections :: "nat \<Rightarrow> unit res" where
  "validate_tunnel_connections max_connections =
     ensure (1 \<le> max_connections \<and> max_connections \<le> MAX_TUNNEL_CONNECTIONS)
       ''tunnel connection limit must be between 1 and 128'' (Inr ())"

definition tunnel_loopback_addr :: "u16 \<Rightarrow> socket_addr" where
  "tunnel_loopback_addr port = ([127, 0, 0, 1], port)"

definition validated_try_from :: "tunnel_spec \<Rightarrow> validated_tunnel_spec res" where
  "validated_try_from spec =
     (let max_connections = unat (ts_max_connections spec) in
      and_then (validate_tunnel_connections max_connections) (\<lambda>_.
      case ts_mode spec of
        ModeLocal \<Rightarrow>
          ensure (ts_target_port spec \<noteq> 0) ''local-forward target port must not be zero'' (
          Inr (VLocal (tunnel_loopback_addr (ts_bind_port spec)) (ts_target_port spec) max_connections))
      | ModeRemote \<Rightarrow>
          ensure (ts_target_port spec \<noteq> 0) ''remote-forward target port must not be zero'' (
          Inr (VRemote (ts_bind_port spec) (ts_target_port spec) max_connections))
      | ModeDynamic \<Rightarrow>
          ensure (ts_target_port spec = 0) ''dynamic forwarding target port must be zero'' (
          Inr (VDynamic (tunnel_loopback_addr (ts_bind_port spec)) max_connections))))"

definition validate_tunnel_spec :: "tunnel_spec \<Rightarrow> unit res" where
  "validate_tunnel_spec spec = and_then (validated_try_from spec) (\<lambda>_. Inr ())"

section \<open>Profiles and connections\<close>

record wire_profile =
  wp_name :: string
  wp_host :: string
  wp_port :: u16
  wp_generation :: u64
  wp_profile_id :: string

record ssh_connection_identity =
  si_profile_id :: bytes
  si_profile_generation :: u64
  si_observed_host_key_sha256 :: string
  si_pin_match :: bool
  si_server_identification :: string
  si_transport_attempt_id :: string
  si_operation_context_id :: "operation_context_id option"
  si_revision :: u64

definition validate_connection_identity :: "ssh_connection_identity \<Rightarrow> unit res" where
  "validate_connection_identity s =
     ensure (si_profile_generation s > 0)
       ''SSH connection identity profile generation must be positive'' (
     and_then (ok_or (strip_prefix (si_observed_host_key_sha256 s) ''SHA256:'')
       ''SSH connection identity host key must start with SHA256:'') (\<lambda>fingerprint.
     ensure (length fingerprint = 43 \<and>
             list_all (\<lambda>c. is_ascii_alphanumeric c \<or> c = CHR ''+'' \<or> c = CHR ''/'') fingerprint)
       ''SSH connection identity host key must be canonical SHA256 Base64'' (
     ensure (si_pin_match s) ''SSH connection identity must represent a matching host-key pin'' (
     ensure ((si_operation_context_id s \<noteq> None) = (si_revision s > 0))
       ''SSH connection identity context and revision are inconsistent'' (
     ensure (length (si_server_identification s) \<le> MAX_SSH_SERVER_IDENTIFICATION_BYTES \<and>
             (starts_with (si_server_identification s) ''SSH-2.0-'' \<or>
              starts_with (si_server_identification s) ''SSH-1.99-'') \<and>
             list_all (\<lambda>c. 0x21 \<le> char_code c \<and> char_code c \<le> 0x7e) (si_server_identification s))
       ''SSH connection identity server identification is unsafe or oversized'' (
     ensure (length (si_transport_attempt_id s) = 32 \<and>
             list_all (\<lambda>c. is_ascii_digit c \<or> 65 \<le> char_code c \<and> char_code c \<le> 70)
               (si_transport_attempt_id s))
       ''SSH connection identity transport attempt id must be 32 uppercase hex characters'' (Inr ())))))))"

section \<open>Frames\<close>

record download_request =
  dl_transfer_id :: transfer_id
  dl_path :: string
  dl_local_target_sha256 :: "string option"
  dl_backend :: transfer_backend
  dl_resume :: transfer_resume_mode
  dl_resume_offset :: u64
  dl_expected_size :: "u64 option"
  dl_expected_sha256 :: "string option"
  dl_expected_helper_identity :: "expected_native_helper_identity option"
  dl_idle_timeout_ms :: u64
  dl_deadline_ms :: "u64 option"

record upload_request =
  ul_transfer_id :: transfer_id
  ul_path :: string
  ul_size :: u64
  ul_sha256 :: string
  ul_backend :: transfer_backend
  ul_resume :: transfer_resume_mode
  ul_resume_token :: "string option"
  ul_expected_helper_identity :: "expected_native_helper_identity option"
  ul_idle_timeout_ms :: u64
  ul_deadline_ms :: "u64 option"

record issue_grant_request =
  ig_profile :: string
  ig_operations :: "string list"
  ig_budget :: u32
  ig_ttl_secs :: u32
  ig_holder_key :: string

record auth_challenge =
  ch_version :: u16
  ch_server_nonce :: string
  ch_server_proof :: string
  ch_server_call_proof :: "string option"

record status_info =
  st_profile :: string
  st_host :: string
  st_user :: string
  st_started_unix :: "64 word"
  st_operation_context_id :: "operation_context_id option"
  st_revision :: u64

datatype (plugins only: code) ipc_frame =
  AuthHello u16 string "string option"
| AuthResponse string "string option"
| Exec string u64
| Shell u32 u32
| ShellInput bytes
| Status
| Shutdown string
| Unlock string
| ProfileAuthorized string
| ListProfiles
| IssueGrant issue_grant_request
| GrantIssued string u64 u64 u64
| ListDir string u64
| CreateDir string u64
| Download download_request
| UploadBegin upload_request
| UploadChunk bytes
| UploadEnd
| TransferStatus "transfer_id option" "operation_context_id option"
| TransferCancel transfer_id "operation_context_id option"
| TunnelOpen tunnel_spec
| TunnelStop
| ManagedTunnelOpen tunnel_spec u64
| ManagedTunnelStatus "tunnel_id option" "operation_context_id option"
| ManagedTunnelCancel tunnel_id "operation_context_id option"
| ConnectionIdentity bytes u64
| AuthChallenge auth_challenge
| AuthAccepted
| ExecOut bytes
| ExecErr bytes
| ExecExit "i32 option" "operation_context_id option" u64
| ShellOut bytes
| ShellClosed
| ProfileList "wire_profile list"
| StatusInfo status_info
| Ack
| CreateDirAccepted "operation_context_id option" u64
| TransferAck u64 u64
| DirList string "remote_entry list" "operation_context_id option" u64
| FileChunk bytes
| TransferDone u64
| TransferDigest transfer_id string
| TransferProgress transfer_progress
| TransferStatusInfo "transfer_progress list"
| TransferCancelAccepted transfer_progress
| TunnelReady tunnel_ready
| TunnelClosed
| ManagedTunnelOpened tunnel_status
| ManagedTunnelStatusInfo "tunnel_status list"
| ManagedTunnelTerminal tunnel_status
| ConnectionIdentityInfo ssh_connection_identity
| ErrorFrame string

record ipc_ext =
  ix_sha256 :: "bytes \<Rightarrow> bytes"
  ix_hmac :: "bytes \<Rightarrow> bytes \<Rightarrow> bytes option"
  ix_hex_encode :: "bytes \<Rightarrow> string"
  ix_b64_encode :: "bytes \<Rightarrow> string"
  ix_b64_decode :: "string \<Rightarrow> bytes option"
  ix_frame_chunks :: "ipc_frame \<Rightarrow> bytes list option"
  ix_frame_parse :: "bytes \<Rightarrow> ipc_frame option"
  ix_reserve :: "nat \<Rightarrow> bool"

section \<open>Endpoints\<close>

definition decode_base64_32 :: "ipc_ext \<Rightarrow> string \<Rightarrow> string \<Rightarrow> bytes res" where
  "decode_base64_32 X label encoded =
     and_then (ok_or (ix_b64_decode X encoded) (''decode '' @ label)) (\<lambda>decoded.
     if length decoded \<noteq> 32 then Inl (label @ '' must contain exactly 32 bytes'')
     else if ix_b64_encode X decoded \<noteq> encoded
     then Inl (label @ '' must use canonical padded Base64'')
     else Inr decoded)"

definition endpoint_preimage :: "string \<Rightarrow> bytes \<Rightarrow> bytes" where
  "endpoint_preimage profile token =
     ENDPOINT_DOMAIN @ be16 IPC_PROTOCOL_VERSION @ be32 (word_of_nat (length profile)) @
     as_bytes profile @ token"

definition endpoint_id_with_token :: "ipc_ext \<Rightarrow> string \<Rightarrow> bytes \<Rightarrow> string" where
  "endpoint_id_with_token X profile token =
     take 32 (ix_hex_encode X (ix_sha256 X (endpoint_preimage profile token)))"

definition endpoint_id :: "ipc_ext \<Rightarrow> string \<Rightarrow> string \<Rightarrow> string res" where
  "endpoint_id X profile token =
     and_then (validate_profile_name profile) (\<lambda>_.
     and_then (decode_base64_32 X ''IPC token'' token) (\<lambda>token.
     Inr (endpoint_id_with_token X profile token)))"

text \<open>\<open>Path::join\<close> with a relative file name, and \<open>Path::to_str\<close>.\<close>

definition path_join :: "string \<Rightarrow> string \<Rightarrow> string" where
  "path_join dir name =
     (if dir = [] then name else if last dir = CHR ''/'' then dir @ name else dir @ ''/'' @ name)"

definition expected_endpoint_in_runtime_dir :: "ipc_ext \<Rightarrow> string \<Rightarrow> string \<Rightarrow> string \<Rightarrow> string res" where
  "expected_endpoint_in_runtime_dir X profile token runtime_dir =
     and_then (endpoint_id X profile token) (\<lambda>id.
     let path = path_join runtime_dir (''serctl-v5-'' @ id @ ''.sock'') in
     ensure (valid_utf8 path) ''serctl runtime path is not valid UTF-8'' (Inr path))"

definition validate_endpoint_bytes :: "string \<Rightarrow> string \<Rightarrow> unit res" where
  "validate_endpoint_bytes expected endpoint =
     (if as_bytes endpoint \<noteq> as_bytes expected
      then Inl ''runtime lock contains an unexpected local IPC endpoint'' else Inr ())"

definition validate_endpoint_in_runtime_dir ::
  "ipc_ext \<Rightarrow> string \<Rightarrow> string \<Rightarrow> string \<Rightarrow> string \<Rightarrow> unit res" where
  "validate_endpoint_in_runtime_dir X profile token runtime_dir endpoint =
     and_then (expected_endpoint_in_runtime_dir X profile token runtime_dir) (\<lambda>expected.
     validate_endpoint_bytes expected endpoint)"

text \<open>A process id of the kernel is a signed 64-bit integer.\<close>

definition validate_unix_peer_identity ::
  "u64 \<Rightarrow> int option \<Rightarrow> u64 \<Rightarrow> u32 \<Rightarrow> unit res" where
  "validate_unix_peer_identity actual_uid actual_pid expected_uid expected_pid =
     (if actual_uid \<noteq> expected_uid
      then Inl ''Unix-socket peer is not owned by the current user''
      else
      and_then (ok_or actual_pid ''Unix-socket peer PID is unavailable on this platform'') (\<lambda>actual_pid.
      ensure (0 \<le> actual_pid \<and> actual_pid < 2 ^ 32)
        ''Unix-socket peer returned an invalid process ID'' (
      if actual_pid = 0 \<or> word_of_int actual_pid \<noteq> expected_pid
      then Inl ''Unix-socket peer PID does not match the protected runtime lock''
      else Inr ())))"

section \<open>The digest of a root request\<close>

definition update_length_prefixed :: "bytes \<Rightarrow> bytes res" where
  "update_length_prefixed value =
     ensure (length value < 2 ^ 32) ''IPC request field exceeds the canonical intent limit'' (
     Inr (be32 (word_of_nat (length value)) @ value))"

text \<open>Fields of a digest, in order, up to the first that fails.\<close>

definition update_fields :: "bytes res list \<Rightarrow> bytes res" where
  "update_fields parts = and_then (collect_res (\<lambda>r. r) parts) (\<lambda>bss. Inr (concat bss))"

definition update_expected_native_helper_identity ::
  "expected_native_helper_identity option \<Rightarrow> bytes res" where
  "update_expected_native_helper_identity expected =
     (case expected of
        None \<Rightarrow> Inr [0]
      | Some h \<Rightarrow>
          and_then (validate_expected_helper h) (\<lambda>_.
          update_fields
            [Inr [1], update_length_prefixed (as_bytes (eh_name h)), Inr (be64 (eh_binary_size h)),
             update_length_prefixed (as_bytes (eh_sha256 h)),
             update_length_prefixed (as_bytes (eh_version h))]))"

fun backend_code :: "transfer_backend \<Rightarrow> u8" where
  "backend_code BkAuto = 0" | "backend_code BkNative = 1" | "backend_code BkSftp = 2"
| "backend_code BkSftpFallback = 3"

fun resume_code :: "transfer_resume_mode \<Rightarrow> u8" where
  "resume_code ResumeAuto = 0" | "resume_code ResumeNever = 1"

fun tunnel_mode_code :: "tunnel_mode \<Rightarrow> u8" where
  "tunnel_mode_code ModeLocal = 1" | "tunnel_mode_code ModeRemote = 2"
| "tunnel_mode_code ModeDynamic = 3"

definition unwrap_or_default :: "string option \<Rightarrow> string" where
  "unwrap_or_default s = (case s of None \<Rightarrow> [] | Some v \<Rightarrow> v)"

definition unwrap_or_zero :: "u64 option \<Rightarrow> u64" where
  "unwrap_or_zero s = (case s of None \<Rightarrow> 0 | Some v \<Rightarrow> v)"

abbreviation text_field :: "string \<Rightarrow> bytes res" where
  "text_field s \<equiv> update_length_prefixed (as_bytes s)"

definition spec_fields :: "tunnel_spec \<Rightarrow> bytes res list" where
  "spec_fields spec =
     [Inr [tunnel_mode_code (ts_mode spec)], Inr (be16 (ts_bind_port spec)),
      Inr (be16 (ts_target_port spec)), Inr (be16 (ts_max_connections spec))]"

fun request_fields :: "ipc_frame \<Rightarrow> bytes res list option" where
  "request_fields (Exec cmd timeout_ms) = Some [Inr [1], text_field cmd, Inr (be64 timeout_ms)]"
| "request_fields (Shell cols rows) = Some [Inr [2], Inr (be32 cols), Inr (be32 rows)]"
| "request_fields Status = Some [Inr [3]]"
| "request_fields (Shutdown passphrase) = Some [Inr [4], text_field passphrase]"
| "request_fields (Unlock passphrase) = Some [Inr [10], text_field passphrase]"
| "request_fields ListProfiles = Some [Inr [11]]"
| "request_fields (ListDir path timeout_ms) = Some [Inr [5], text_field path, Inr (be64 timeout_ms)]"
| "request_fields (CreateDir path timeout_ms) = Some [Inr [6], text_field path, Inr (be64 timeout_ms)]"
| "request_fields (Download d) = Some
     [Inr [7], text_field (dl_transfer_id d), text_field (dl_path d),
      text_field (unwrap_or_default (dl_local_target_sha256 d)),
      Inr [backend_code (dl_backend d), resume_code (dl_resume d)], Inr (be64 (dl_resume_offset d)),
      Inr (be64 (unwrap_or_zero (dl_expected_size d))),
      text_field (unwrap_or_default (dl_expected_sha256 d)),
      update_expected_native_helper_identity (dl_expected_helper_identity d),
      Inr (be64 (dl_idle_timeout_ms d)), Inr (be64 (unwrap_or_zero (dl_deadline_ms d)))]"
| "request_fields (UploadBegin u) = Some
     [Inr [8], text_field (ul_transfer_id u), text_field (ul_path u), Inr (be64 (ul_size u)),
      text_field (ul_sha256 u), Inr [backend_code (ul_backend u), resume_code (ul_resume u)],
      text_field (unwrap_or_default (ul_resume_token u)),
      update_expected_native_helper_identity (ul_expected_helper_identity u),
      Inr (be64 (ul_idle_timeout_ms u)), Inr (be64 (unwrap_or_zero (ul_deadline_ms u)))]"
| "request_fields (TunnelOpen spec) = Some (Inr [9] # spec_fields spec)"
| "request_fields (TransferStatus transfer_id context_id) = Some
     [Inr [12], text_field (unwrap_or_default transfer_id), text_field (unwrap_or_default context_id)]"
| "request_fields (TransferCancel transfer_id context_id) = Some
     [Inr [13], text_field transfer_id, text_field (unwrap_or_default context_id)]"
| "request_fields (ManagedTunnelOpen spec deadline_unix_ms) =
     Some (Inr [14] # spec_fields spec @ [Inr (be64 deadline_unix_ms)])"
| "request_fields (ManagedTunnelStatus tunnel_id context_id) = Some
     [Inr [15], text_field (unwrap_or_default tunnel_id), text_field (unwrap_or_default context_id)]"
| "request_fields (ManagedTunnelCancel tunnel_id context_id) = Some
     [Inr [16], text_field tunnel_id, text_field (unwrap_or_default context_id)]"
| "request_fields (ConnectionIdentity profile_id profile_generation) = Some
     [Inr [17], Inr profile_id, Inr (be64 profile_generation)]"
| "request_fields _ = None"

definition request_digest_input :: "ipc_frame \<Rightarrow> bytes res" where
  "request_digest_input frame =
     and_then (ok_or (request_fields frame) ''IPC frame is not an authorizable root request'') (\<lambda>parts.
     update_fields ([Inr REQUEST_DIGEST_DOMAIN, Inr (be16 IPC_PROTOCOL_VERSION)] @ parts))"

definition canonical_request_digest :: "ipc_ext \<Rightarrow> ipc_frame \<Rightarrow> bytes res" where
  "canonical_request_digest X frame =
     and_then (request_digest_input frame) (\<lambda>input. Inr (ix_sha256 X input))"

section \<open>Framing\<close>

record bounded_frame_counter =
  bc_length :: nat
  bc_maximum :: nat
  bc_exceeded :: bool

definition counter_new :: "nat \<Rightarrow> bounded_frame_counter" where
  "counter_new maximum = \<lparr>bc_length = 0, bc_maximum = maximum, bc_exceeded = False\<rparr>"

definition counter_write :: "bounded_frame_counter \<Rightarrow> bytes \<Rightarrow> bounded_frame_counter \<times> unit res" where
  "counter_write c bs =
     (let len = bc_length c + length bs in
      if len > usize_max then (c\<lparr>bc_exceeded := True\<rparr>, Inl ''frame length overflow'')
      else if len > bc_maximum c
      then (c\<lparr>bc_exceeded := True\<rparr>, Inl ''frame exceeds configured limit'')
      else (c\<lparr>bc_length := len\<rparr>, Inr ()))"

record preallocated_frame_buffer =
  pb_bytes :: bytes
  pb_expected :: nat

definition buffer_new :: "ipc_ext \<Rightarrow> nat \<Rightarrow> preallocated_frame_buffer res" where
  "buffer_new X expected =
     ensure (ix_reserve X expected) ''reserve bounded frame buffer'' (
     Inr \<lparr>pb_bytes = [], pb_expected = expected\<rparr>)"

definition buffer_write ::
  "preallocated_frame_buffer \<Rightarrow> bytes \<Rightarrow> preallocated_frame_buffer \<times> unit res" where
  "buffer_write b bs =
     (let new_len = length (pb_bytes b) + length bs in
      if new_len > usize_max then (b, Inl ''frame length overflow'')
      else if new_len > pb_expected b
      then (b, Inl ''frame length changed between sizing and serialization'')
      else (b\<lparr>pb_bytes := pb_bytes b @ bs\<rparr>, Inr ()))"

text \<open>\<open>serde_json::to_writer\<close>: the writes of a frame in order, up to the first that fails.\<close>

fun write_chunks :: "('w \<Rightarrow> bytes \<Rightarrow> 'w \<times> unit res) \<Rightarrow> 'w \<Rightarrow> bytes list \<Rightarrow> 'w \<times> unit res" where
  "write_chunks write w [] = (w, Inr ())"
| "write_chunks write w (c # cs) =
     (case write w c of
        (w, Inl e) \<Rightarrow> (w, Inl e)
      | (w, Inr _) \<Rightarrow> write_chunks write w cs)"

definition to_writer ::
  "ipc_ext \<Rightarrow> ('w \<Rightarrow> bytes \<Rightarrow> 'w \<times> unit res) \<Rightarrow> 'w \<Rightarrow> ipc_frame \<Rightarrow> 'w \<times> unit res" where
  "to_writer X write w frame =
     (case ix_frame_chunks X frame of
        None \<Rightarrow> (w, Inl ''serialize frame'')
      | Some chunks \<Rightarrow> write_chunks write w chunks)"

definition encoded_frame_len_limited :: "ipc_ext \<Rightarrow> ipc_frame \<Rightarrow> nat \<Rightarrow> nat res" where
  "encoded_frame_len_limited X frame maximum =
     (case to_writer X counter_write (counter_new maximum) frame of
        (counter, Inl e) \<Rightarrow> if bc_exceeded counter then Inl ''frame too large'' else Inl e
      | (counter, Inr _) \<Rightarrow> Inr (bc_length counter))"

definition serialize_frame_bounded :: "ipc_ext \<Rightarrow> ipc_frame \<Rightarrow> nat \<Rightarrow> bytes res" where
  "serialize_frame_bounded X frame maximum =
     and_then (encoded_frame_len_limited X frame maximum) (\<lambda>expected.
     and_then (buffer_new X expected) (\<lambda>sink.
     case to_writer X buffer_write sink frame of
       (sink, Inl e) \<Rightarrow> Inl e
     | (sink, Inr _) \<Rightarrow>
         if length (pb_bytes sink) \<noteq> expected
         then Inl ''frame length changed between sizing and serialization''
         else Inr (pb_bytes sink)))"

text \<open>The bytes one write sends: the length prefix and the body.\<close>

definition write_frame_limited :: "ipc_ext \<Rightarrow> ipc_frame \<Rightarrow> nat \<Rightarrow> bytes res" where
  "write_frame_limited X frame max_frame =
     and_then (serialize_frame_bounded X frame max_frame) (\<lambda>json.
     ensure (length json < 2 ^ 32) ''frame exceeds the u32 wire length'' (
     Inr (be32 (word_of_nat (length json)) @ json)))"

definition read_frame_limited :: "ipc_ext \<Rightarrow> nat \<Rightarrow> bytes \<Rightarrow> (ipc_frame \<times> bytes) option res" where
  "read_frame_limited X max_frame r =
     (if r = [] then Inr None
      else
      ensure (length r \<ge> 4) ''IPC peer disconnected during frame length prefix'' (
      let len = be_value (take 4 r); r = drop 4 r in
      if len > max_frame then Inl ''frame too large''
      else
      ensure (length r \<ge> len) ''early eof'' (
      and_then (ok_or (ix_frame_parse X (take len r)) ''parse frame'') (\<lambda>frame.
      Inr (Some (frame, drop len r))))))"

section \<open>Lemmas\<close>

subsection \<open>The digest determines the request\<close>

text \<open>Two fields are aligned when neither can be a proper part of the other at the head of a byte
  string; a sequence of pairwise aligned fields is determined by its concatenation.\<close>

definition aligned :: "bytes res \<Rightarrow> bytes res \<Rightarrow> bool" where
  "aligned p q \<longleftrightarrow> (\<forall>a b s t. p = Inr a \<and> q = Inr b \<and> a @ s = b @ t \<longrightarrow> a = b)"

lemma aligned_fixed: "length a = length b \<Longrightarrow> aligned (Inr a) (Inr b)"
  by (auto simp: aligned_def)

lemma update_length_prefixed_eq:
  "update_length_prefixed v = Inr a \<longleftrightarrow> length v < 2 ^ 32 \<and> a = be32 (word_of_nat (length v)) @ v"
  by (auto simp: update_length_prefixed_def ensure_def)

lemma length_prefix_inject:
  assumes "update_length_prefixed v = Inr a" "update_length_prefixed w = Inr b" "a @ s = b @ t"
  shows "v = w"
proof -
  from assms have eq: "be32 (word_of_nat (length v)) @ v @ s = be32 (word_of_nat (length w)) @ w @ t"
    and len: "length v < 2 ^ 32" "length w < 2 ^ 32" by (auto simp: update_length_prefixed_eq)
  from eq have "be32 (word_of_nat (length v)) = be32 (word_of_nat (length w))" "v @ s = w @ t"
    using append_eq_append_conv [of "be32 (word_of_nat (length v))" "be32 (word_of_nat (length w))"]
    by simp_all
  moreover have "unat (word_of_nat (length v) :: u32) = length v" "unat (word_of_nat (length w) :: u32) = length w"
    using len by (simp_all add: unat_of_nat)
  ultimately have "length v = length w" by (metis be_inject(2))
  with \<open>v @ s = w @ t\<close> show ?thesis by simp
qed

lemma aligned_text: "aligned (update_length_prefixed v) (update_length_prefixed w)"
  unfolding aligned_def using length_prefix_inject by (metis sum.inject(2))

lemma update_fields_Cons:
  "update_fields (p # ps) = Inr x \<longleftrightarrow> (\<exists>a y. p = Inr a \<and> update_fields ps = Inr y \<and> x = a @ y)"
  by (auto simp: update_fields_def and_then_eq_Inr)

lemma update_fields_Nil [simp]: "update_fields [] = Inr []"
  by (simp add: update_fields_def)

lemma fields_determined:
  "list_all2 aligned ps qs \<Longrightarrow> update_fields ps = Inr x \<Longrightarrow> update_fields qs = Inr y \<Longrightarrow>
     x @ s = y @ t \<Longrightarrow> ps = qs \<and> x = y"
proof (induction ps arbitrary: qs x y)
  case Nil
  from Nil(1) have "qs = []" by simp
  with Nil(2,3) show ?case by auto
next
  case (Cons p ps)
  from Cons.prems(1) obtain q qs' where q: "qs = q # qs'" "aligned p q" "list_all2 aligned ps qs'"
    by (auto simp: list_all2_Cons1)
  from Cons.prems(2) obtain a x' where p: "p = Inr a" "update_fields ps = Inr x'" "x = a @ x'"
    unfolding update_fields_Cons by blast
  from Cons.prems(3) obtain b y' where b: "q = Inr b" "update_fields qs' = Inr y'" "y = b @ y'"
    unfolding q(1) update_fields_Cons by blast
  from Cons.prems(4) p(3) b(3) have "a @ x' @ s = b @ y' @ t" by simp
  with q(2) p(1) b(1) have "a = b" unfolding aligned_def by blast
  with \<open>a @ x' @ s = b @ y' @ t\<close> have "x' @ s = y' @ t" by simp
  from Cons.IH [OF q(3) p(2) b(2) this] \<open>a = b\<close> p b q show ?case by simp
qed

lemma text_field_inject:
  "text_field s = Inr a \<Longrightarrow> text_field t = Inr a \<Longrightarrow> s = t"
  using length_prefix_inject [of "as_bytes s" a "as_bytes t" a "[]" "[]"] as_bytes_inject by metis

lemma helper_identity_fields:
  assumes "update_expected_native_helper_identity (Some h) = Inr a"
  shows "\<exists>b. a = 1 # b \<and> update_fields [text_field (eh_name h), Inr (be64 (eh_binary_size h)),
    text_field (eh_sha256 h), text_field (eh_version h)] = Inr b"
  using assms by (auto simp: update_expected_native_helper_identity_def and_then_eq_Inr update_fields_Cons)

lemma helper_identity_determined:
  assumes x: "update_expected_native_helper_identity x = Inr a"
    and y: "update_expected_native_helper_identity y = Inr b" and eq: "a @ s = b @ t"
  shows "x = y"
proof (cases x)
  case None
  with x have "a = [0]" by (simp add: update_expected_native_helper_identity_def)
  with eq have "b @ t = 0 # s" by simp
  then have "\<not> (\<exists>c. b = 1 # c)" by auto
  with y helper_identity_fields None show ?thesis by (cases y) auto
next
  case (Some h)
  from helper_identity_fields x Some obtain a' where a: "a = 1 # a'"
    "update_fields [text_field (eh_name h), Inr (be64 (eh_binary_size h)),
      text_field (eh_sha256 h), text_field (eh_version h)] = Inr a'" by blast
  obtain k where k: "y = Some k"
    using y eq a(1) by (cases y) (auto simp: update_expected_native_helper_identity_def)
  from helper_identity_fields y k obtain b' where b: "b = 1 # b'"
    "update_fields [text_field (eh_name k), Inr (be64 (eh_binary_size k)),
      text_field (eh_sha256 k), text_field (eh_version k)] = Inr b'" by blast
  have "list_all2 aligned
     [text_field (eh_name h), Inr (be64 (eh_binary_size h)), text_field (eh_sha256 h), text_field (eh_version h)]
     [text_field (eh_name k), Inr (be64 (eh_binary_size k)), text_field (eh_sha256 k), text_field (eh_version k)]"
    by (simp add: aligned_text aligned_fixed)
  from fields_determined [OF this a(2) b(2)] eq a(1) b(1)
  have "[text_field (eh_name h), Inr (be64 (eh_binary_size h)), text_field (eh_sha256 h), text_field (eh_version h)] =
     [text_field (eh_name k), Inr (be64 (eh_binary_size k)), text_field (eh_sha256 k), text_field (eh_version k)]"
    by simp
  with a(2) have "eh_name h = eh_name k" "eh_binary_size h = eh_binary_size k" "eh_sha256 h = eh_sha256 k"
    "eh_version h = eh_version k"
    by (auto simp: update_fields_Cons dest: text_field_inject)
  with Some k show ?thesis by simp
qed

lemma aligned_helper:
  "aligned (update_expected_native_helper_identity x) (update_expected_native_helper_identity y)"
  unfolding aligned_def using helper_identity_determined by (metis sum.inject(2))

lemma helper_identity_inject:
  "update_expected_native_helper_identity x = Inr a \<Longrightarrow>
     update_expected_native_helper_identity y = Inr a \<Longrightarrow> x = y"
  using helper_identity_determined [of x a y a "[]" "[]"] by metis

text \<open>The digest does not tell an absent text field from an empty one, nor an absent number from
  zero.\<close>

definition norm_text :: "string option \<Rightarrow> string option" where
  "norm_text s = (if s = Some [] then None else s)"

definition norm_number :: "u64 option \<Rightarrow> u64 option" where
  "norm_number n = (if n = Some 0 then None else n)"

lemma norm_text_eq: "unwrap_or_default s = unwrap_or_default t \<longleftrightarrow> norm_text s = norm_text t"
  by (auto simp: unwrap_or_default_def norm_text_def split: option.splits)

lemma norm_number_eq: "unwrap_or_zero s = unwrap_or_zero t \<longleftrightarrow> norm_number s = norm_number t"
  by (auto simp: unwrap_or_zero_def norm_number_def split: option.splits)

definition request_norm :: "ipc_frame \<Rightarrow> ipc_frame" where
  "request_norm frame =
     (case frame of
        Download d \<Rightarrow> Download (d\<lparr>dl_local_target_sha256 := norm_text (dl_local_target_sha256 d),
          dl_expected_size := norm_number (dl_expected_size d),
          dl_expected_sha256 := norm_text (dl_expected_sha256 d),
          dl_deadline_ms := norm_number (dl_deadline_ms d)\<rparr>)
      | UploadBegin u \<Rightarrow> UploadBegin (u\<lparr>ul_resume_token := norm_text (ul_resume_token u),
          ul_deadline_ms := norm_number (ul_deadline_ms u)\<rparr>)
      | TransferStatus t c \<Rightarrow> TransferStatus (norm_text t) (norm_text c)
      | TransferCancel t c \<Rightarrow> TransferCancel t (norm_text c)
      | ManagedTunnelStatus t c \<Rightarrow> ManagedTunnelStatus (norm_text t) (norm_text c)
      | ManagedTunnelCancel t c \<Rightarrow> ManagedTunnelCancel t (norm_text c)
      | _ \<Rightarrow> frame)"

definition request_tag :: "bytes res list option \<Rightarrow> u8 option" where
  "request_tag fs = (case fs of Some (Inr [t] # _) \<Rightarrow> Some t | _ \<Rightarrow> None)"

lemma request_tag_cases:
  assumes "request_tag (request_fields f) = Some t"
  shows "t = 1 \<Longrightarrow> \<exists>c m. f = Exec c m" "t = 2 \<Longrightarrow> \<exists>c r. f = Shell c r" "t = 3 \<Longrightarrow> f = Status"
    "t = 4 \<Longrightarrow> \<exists>p. f = Shutdown p" "t = 5 \<Longrightarrow> \<exists>p m. f = ListDir p m" "t = 6 \<Longrightarrow> \<exists>p m. f = CreateDir p m"
    "t = 7 \<Longrightarrow> \<exists>d. f = Download d" "t = 8 \<Longrightarrow> \<exists>u. f = UploadBegin u" "t = 9 \<Longrightarrow> \<exists>s. f = TunnelOpen s"
    "t = 10 \<Longrightarrow> \<exists>p. f = Unlock p" "t = 11 \<Longrightarrow> f = ListProfiles" "t = 12 \<Longrightarrow> \<exists>i c. f = TransferStatus i c"
    "t = 13 \<Longrightarrow> \<exists>i c. f = TransferCancel i c" "t = 14 \<Longrightarrow> \<exists>s m. f = ManagedTunnelOpen s m"
    "t = 15 \<Longrightarrow> \<exists>i c. f = ManagedTunnelStatus i c" "t = 16 \<Longrightarrow> \<exists>i c. f = ManagedTunnelCancel i c"
    "t = 17 \<Longrightarrow> \<exists>i g. f = ConnectionIdentity i g" "t \<in> {1, 2, 3, 4, 5, 6, 7, 8, 9, 10, 11, 12, 13, 14, 15, 16, 17}"
  using assms unfolding request_tag_def by (cases f; simp)+

lemma request_fields_tag:
  "request_fields f = Some ps \<Longrightarrow> \<exists>t r. ps = Inr [t] # r \<and> request_tag (request_fields f) = Some t"
  by (cases f) (auto simp: request_tag_def)

text \<open>Two requests with one tag are of one kind.\<close>

lemma request_pair:
  assumes "request_tag (request_fields f) = Some t" "request_tag (request_fields g) = Some t"
  obtains (Exec) a b a' b' where "f = Exec a b" "g = Exec a' b'" |
    (Shell) a b a' b' where "f = Shell a b" "g = Shell a' b'" |
    (Status) "f = Status" "g = Status" |
    (Shutdown) a a' where "f = Shutdown a" "g = Shutdown a'" |
    (ListDir) a b a' b' where "f = ListDir a b" "g = ListDir a' b'" |
    (CreateDir) a b a' b' where "f = CreateDir a b" "g = CreateDir a' b'" |
    (Download) a a' where "f = Download a" "g = Download a'" |
    (UploadBegin) a a' where "f = UploadBegin a" "g = UploadBegin a'" |
    (TunnelOpen) a a' where "f = TunnelOpen a" "g = TunnelOpen a'" |
    (Unlock) a a' where "f = Unlock a" "g = Unlock a'" |
    (ListProfiles) "f = ListProfiles" "g = ListProfiles" |
    (TransferStatus) a b a' b' where "f = TransferStatus a b" "g = TransferStatus a' b'" |
    (TransferCancel) a b a' b' where "f = TransferCancel a b" "g = TransferCancel a' b'" |
    (ManagedTunnelOpen) a b a' b' where "f = ManagedTunnelOpen a b" "g = ManagedTunnelOpen a' b'" |
    (ManagedTunnelStatus) a b a' b' where "f = ManagedTunnelStatus a b" "g = ManagedTunnelStatus a' b'" |
    (ManagedTunnelCancel) a b a' b' where "f = ManagedTunnelCancel a b" "g = ManagedTunnelCancel a' b'" |
    (ConnectionIdentity) a b a' b' where "f = ConnectionIdentity a b" "g = ConnectionIdentity a' b'"
proof -
  note f = request_tag_cases [OF assms(1)] and g = request_tag_cases [OF assms(2)]
  from f(18) show thesis
    using f(1-17) g(1-17) that by (elim insertE emptyE) metis+
qed

text \<open>What the types of the fields guarantee.\<close>

definition frame_typed :: "ipc_frame \<Rightarrow> bool" where
  "frame_typed frame =
     (case frame of
        Download d \<Rightarrow> transfer_id_parse (dl_transfer_id d) = Inr (dl_transfer_id d)
      | UploadBegin u \<Rightarrow> transfer_id_parse (ul_transfer_id u) = Inr (ul_transfer_id u)
      | TransferStatus t c \<Rightarrow>
          pred_option (\<lambda>t. transfer_id_parse t = Inr t) t \<and>
          pred_option (\<lambda>c. operation_context_id_parse c = Inr c) c
      | TransferCancel t c \<Rightarrow>
          transfer_id_parse t = Inr t \<and> pred_option (\<lambda>c. operation_context_id_parse c = Inr c) c
      | ManagedTunnelStatus t c \<Rightarrow>
          pred_option (\<lambda>t. tunnel_id_parse t = Inr t) t \<and>
          pred_option (\<lambda>c. operation_context_id_parse c = Inr c) c
      | ManagedTunnelCancel t c \<Rightarrow>
          tunnel_id_parse t = Inr t \<and> pred_option (\<lambda>c. operation_context_id_parse c = Inr c) c
      | ConnectionIdentity i g \<Rightarrow> length i = 16
      | _ \<Rightarrow> True)"

lemma request_aligned:
  assumes "request_tag (request_fields f) = Some t" "request_tag (request_fields g) = Some t"
    "request_fields f = Some ps" "request_fields g = Some qs" "frame_typed f" "frame_typed g"
  shows "list_all2 aligned ps qs"
  using assms(1,2)
  by (cases rule: request_pair)
    (use assms(3-6) in \<open>auto simp: aligned_text aligned_fixed aligned_helper spec_fields_def frame_typed_def\<close>)

lemma backend_code_inject [simp]: "backend_code a = backend_code b \<longleftrightarrow> a = b"
  by (cases a; cases b; simp)

lemma resume_code_inject [simp]: "resume_code a = resume_code b \<longleftrightarrow> a = b"
  by (cases a; cases b; simp)

lemma tunnel_mode_code_inject [simp]: "tunnel_mode_code a = tunnel_mode_code b \<longleftrightarrow> a = b"
  by (cases a; cases b; simp)

lemma update_fields_ok: "update_fields ps = Inr x \<Longrightarrow> list_all (\<lambda>p. \<not> isl p) ps"
  by (induction ps arbitrary: x) (auto simp: update_fields_Cons)

lemma text_field_same:
  "text_field s = text_field t \<Longrightarrow> \<not> isl (text_field s) \<Longrightarrow> s = t"
  using text_field_inject [of s _ t] by (metis isl_def sum.exhaust_sel)

lemma helper_identity_same:
  "update_expected_native_helper_identity h = update_expected_native_helper_identity k \<Longrightarrow>
     \<not> isl (update_expected_native_helper_identity h) \<Longrightarrow> h = k"
  using helper_identity_inject [of h _ k] by (metis isl_def sum.exhaust_sel)

lemma option_field_same:
  "text_field (unwrap_or_default s) = text_field (unwrap_or_default t) \<Longrightarrow>
     \<not> isl (text_field (unwrap_or_default s)) \<Longrightarrow> norm_text s = norm_text t"
  using text_field_same by (simp only: norm_text_eq [symmetric])

lemma number_field_same: "be64 (unwrap_or_zero s) = be64 (unwrap_or_zero t) \<Longrightarrow> norm_number s = norm_number t"
  by (simp only: norm_number_eq [symmetric] be_inject)

lemma text_fields_same_right:
  "text_field s = text_field t \<Longrightarrow> \<not> isl (text_field t) \<Longrightarrow> s = t"
  "text_field (unwrap_or_default a) = text_field (unwrap_or_default b) \<Longrightarrow>
     \<not> isl (text_field (unwrap_or_default b)) \<Longrightarrow> norm_text a = norm_text b"
  using text_field_same [of s t] option_field_same [of a b] by simp_all

lemma download_same:
  assumes "request_fields (Download d) = request_fields (Download d')" "request_fields (Download d) = Some ps"
    "list_all (\<lambda>p. \<not> isl p) ps"
  shows "request_norm (Download d) = request_norm (Download d')"
proof -
  have ok: "list_all (\<lambda>p. \<not> isl p) (the (request_fields (Download d)))" using assms(2,3) by simp
  note eqs = assms(1) [unfolded request_fields.simps option.inject list.inject sum.inject be_inject]
    and oks = ok [unfolded request_fields.simps option.sel list.pred_inject]
  have "dl_transfer_id d = dl_transfer_id d'" "dl_path d = dl_path d'"
    "norm_text (dl_local_target_sha256 d) = norm_text (dl_local_target_sha256 d')"
    "dl_backend d = dl_backend d'" "dl_resume d = dl_resume d'" "dl_resume_offset d = dl_resume_offset d'"
    "norm_number (dl_expected_size d) = norm_number (dl_expected_size d')"
    "norm_text (dl_expected_sha256 d) = norm_text (dl_expected_sha256 d')"
    "dl_expected_helper_identity d = dl_expected_helper_identity d'"
    "dl_idle_timeout_ms d = dl_idle_timeout_ms d'"
    "norm_number (dl_deadline_ms d) = norm_number (dl_deadline_ms d')"
    using eqs oks
    by - (elim conjE, (erule (1) text_field_same | erule (1) option_field_same | erule (1) helper_identity_same |
      erule norm_number_eq [THEN iffD1] | erule backend_code_inject [THEN iffD1] |
      erule resume_code_inject [THEN iffD1] | assumption))+
  then show ?thesis by (simp add: request_norm_def)
qed

lemma upload_same:
  assumes "request_fields (UploadBegin d) = request_fields (UploadBegin d')"
    "request_fields (UploadBegin d) = Some ps" "list_all (\<lambda>p. \<not> isl p) ps"
  shows "request_norm (UploadBegin d) = request_norm (UploadBegin d')"
proof -
  have ok: "list_all (\<lambda>p. \<not> isl p) (the (request_fields (UploadBegin d)))" using assms(2,3) by simp
  note eqs = assms(1) [unfolded request_fields.simps option.inject list.inject sum.inject be_inject]
    and oks = ok [unfolded request_fields.simps option.sel list.pred_inject]
  have "ul_transfer_id d = ul_transfer_id d'" "ul_path d = ul_path d'" "ul_size d = ul_size d'"
    "ul_sha256 d = ul_sha256 d'" "ul_backend d = ul_backend d'" "ul_resume d = ul_resume d'"
    "norm_text (ul_resume_token d) = norm_text (ul_resume_token d')"
    "ul_expected_helper_identity d = ul_expected_helper_identity d'"
    "ul_idle_timeout_ms d = ul_idle_timeout_ms d'"
    "norm_number (ul_deadline_ms d) = norm_number (ul_deadline_ms d')"
    using eqs oks
    by - (elim conjE, (erule (1) text_field_same | erule (1) option_field_same | erule (1) helper_identity_same |
      erule norm_number_eq [THEN iffD1] | erule backend_code_inject [THEN iffD1] |
      erule resume_code_inject [THEN iffD1] | assumption))+
  then show ?thesis by (simp add: request_norm_def)
qed

lemma request_norm_same:
  assumes "request_tag (request_fields f) = Some t" "request_tag (request_fields g) = Some t"
    and eq: "request_fields f = request_fields g" "request_fields f = Some ps" "list_all (\<lambda>p. \<not> isl p) ps"
  shows "request_norm f = request_norm g"
  using assms(1,2)
proof (cases rule: request_pair)
  case Download
  with eq download_same show ?thesis by metis
next
  case UploadBegin
  with eq upload_same show ?thesis by metis
qed (use eq in \<open>auto simp: request_norm_def spec_fields_def
       dest: text_fields_same_right\<close>)

text \<open>The digest of a root request binds the request: two requests with one digest agree in every
  field, where an absent optional field counts as an empty or zero one, or their hashed inputs are a
  collision of the hash.\<close>

lemma request_digest_binding:
  assumes "canonical_request_digest X f = Inr d" "canonical_request_digest X g = Inr d"
    and "frame_typed f" "frame_typed g"
  shows "request_norm f = request_norm g \<or>
    (\<exists>a b. request_digest_input f = Inr a \<and> request_digest_input g = Inr b \<and>
       a \<noteq> b \<and> ix_sha256 X a = ix_sha256 X b)"
proof -
  from assms(1,2) obtain a b where a: "request_digest_input f = Inr a" "request_digest_input g = Inr b"
    "ix_sha256 X a = ix_sha256 X b" by (auto simp: canonical_request_digest_def and_then_eq_Inr)
  have "request_norm f = request_norm g" if "a = b"
  proof -
    from a(1,2) that obtain ps qs x where p: "request_fields f = Some ps" "request_fields g = Some qs"
      "update_fields ps = Inr x" "update_fields qs = Inr x"
      by (auto simp: request_digest_input_def and_then_eq_Inr ok_or_eq_Inr update_fields_Cons)
    from request_fields_tag [OF p(1)] request_fields_tag [OF p(2)] obtain t r u q where
      t: "ps = Inr [t] # r" "request_tag (request_fields f) = Some t"
      "qs = Inr [u] # q" "request_tag (request_fields g) = Some u" by blast
    with p(3,4) have "t = u" by (auto simp: update_fields_Cons)
    with t(4) have u: "request_tag (request_fields g) = Some t" by simp
    from fields_determined [OF request_aligned [OF t(2) u p(1,2) assms(3,4)] p(3,4)] have "ps = qs" by simp
    with request_norm_same [OF t(2) u _ p(1) update_fields_ok [OF p(3)]] p(1,2) show ?thesis by simp
  qed
  with a show ?thesis by blast
qed

subsection \<open>Framing\<close>

lemma be32_length: "n < 2 ^ 32 \<Longrightarrow> be_value (be32 (word_of_nat n)) = n"
  by (simp add: be32_def be_value_be_bytes unat_of_nat)

lemma be32_not_Nil [simp]: "be32 x \<noteq> []"
  by (metis be_lengths(2) list.size(3) zero_neq_numeral)

lemma counter_chunks:
  assumes "bc_length c \<le> bc_maximum c"
  shows "bc_length c + length (concat cs) \<le> min (bc_maximum c) usize_max \<Longrightarrow>
      write_chunks counter_write c cs = (c\<lparr>bc_length := bc_length c + length (concat cs)\<rparr>, Inr ())"
    "\<not> bc_length c + length (concat cs) \<le> min (bc_maximum c) usize_max \<Longrightarrow> bc_length c \<le> usize_max \<Longrightarrow>
      \<exists>c' e. write_chunks counter_write c cs = (c', Inl e) \<and> bc_exceeded c'"
  using assms
proof (induction cs arbitrary: c)
  case Nil
  {
    case 1
    then show ?case by simp
  next
    case 2
    then show ?case by simp
  }
next
  case (Cons x cs)
  {
    case 1
    then have "counter_write c x = (c\<lparr>bc_length := bc_length c + length x\<rparr>, Inr ())"
      by (auto simp: counter_write_def Let_def)
    with 1 Cons.IH(1) [of "c\<lparr>bc_length := bc_length c + length x\<rparr>"] show ?case by (simp add: add.assoc)
  next
    case 2
    show ?case
    proof (cases "bc_length c + length x \<le> min (bc_maximum c) usize_max")
      case True
      then have "counter_write c x = (c\<lparr>bc_length := bc_length c + length x\<rparr>, Inr ())"
        by (auto simp: counter_write_def Let_def)
      with 2 True Cons.IH(2) [of "c\<lparr>bc_length := bc_length c + length x\<rparr>"] show ?thesis
        by (simp add: add.assoc)
    next
      case False
      then show ?thesis by (auto simp: counter_write_def Let_def)
    qed
  }
qed

lemma encoded_frame_len_limited_eq:
  "encoded_frame_len_limited X f m = Inr n \<longleftrightarrow>
     (\<exists>cs. ix_frame_chunks X f = Some cs \<and> n = length (concat cs) \<and> n \<le> min m usize_max)"
proof (cases "ix_frame_chunks X f")
  case None
  then show ?thesis by (auto simp: encoded_frame_len_limited_def to_writer_def counter_new_def)
next
  case (Some cs)
  show ?thesis
  proof (cases "length (concat cs) \<le> min m usize_max")
    case True
    with counter_chunks(1) [of "counter_new m" cs] Some show ?thesis
      by (auto simp: encoded_frame_len_limited_def to_writer_def counter_new_def)
  next
    case False
    with counter_chunks(2) [of "counter_new m" cs] obtain c' e where
      "write_chunks counter_write (counter_new m) cs = (c', Inl e)" "bc_exceeded c'"
      by (auto simp: counter_new_def)
    with Some False show ?thesis by (auto simp: encoded_frame_len_limited_def to_writer_def)
  qed
qed

lemma buffer_chunks:
  "length (pb_bytes b) + length (concat cs) \<le> min (pb_expected b) usize_max \<Longrightarrow>
     write_chunks buffer_write b cs = (b\<lparr>pb_bytes := pb_bytes b @ concat cs\<rparr>, Inr ())"
proof (induction cs arbitrary: b)
  case Nil
  then show ?case by simp
next
  case (Cons x cs)
  then have "buffer_write b x = (b\<lparr>pb_bytes := pb_bytes b @ x\<rparr>, Inr ())"
    by (auto simp: buffer_write_def Let_def)
  with Cons.IH [of "b\<lparr>pb_bytes := pb_bytes b @ x\<rparr>"] Cons.prems show ?case by simp
qed

text \<open>The two passes of the bounded serialiser, sizing and writing, give the text of the frame exactly
  when it fits.\<close>

lemma serialize_frame_bounded_eq:
  "serialize_frame_bounded X f m = Inr bs \<longleftrightarrow>
     (\<exists>cs. ix_frame_chunks X f = Some cs \<and> bs = concat cs \<and> length bs \<le> min m usize_max \<and>
        ix_reserve X (length bs))"
proof -
  have "to_writer X buffer_write \<lparr>pb_bytes = [], pb_expected = length (concat cs)\<rparr> f =
      (\<lparr>pb_bytes = concat cs, pb_expected = length (concat cs)\<rparr>, Inr ())"
    if "ix_frame_chunks X f = Some cs" "length (concat cs) \<le> min m usize_max" for cs
    using that buffer_chunks [of "\<lparr>pb_bytes = [], pb_expected = length (concat cs)\<rparr>" cs]
    by (simp add: to_writer_def)
  then show ?thesis
    by (auto simp: serialize_frame_bounded_def and_then_eq_Inr encoded_frame_len_limited_eq buffer_new_def
        ensure_eq_Inr)
qed

lemma write_frame_limited_eq:
  "write_frame_limited X f m = Inr bs \<longleftrightarrow>
     (\<exists>cs. ix_frame_chunks X f = Some cs \<and> bs = be32 (word_of_nat (length (concat cs))) @ concat cs \<and>
        length (concat cs) \<le> min m usize_max \<and> length (concat cs) < 2 ^ 32 \<and>
        ix_reserve X (length (concat cs)))"
  by (auto simp: write_frame_limited_def and_then_eq_Inr serialize_frame_bounded_eq ensure_eq_Inr)

lemma read_written_frame:
  assumes "write_frame_limited X f m = Inr bs" and "m \<le> m'"
    and "\<And>cs. ix_frame_chunks X f = Some cs \<Longrightarrow> ix_frame_parse X (concat cs) = Some f"
  shows "read_frame_limited X m' (bs @ rest) = Inr (Some (f, rest))"
proof -
  from assms(1) obtain cs where cs: "ix_frame_chunks X f = Some cs" "length (concat cs) \<le> m"
    "bs = be32 (word_of_nat (length (concat cs))) @ concat cs" "length (concat cs) < 2 ^ 32"
    by (auto simp: write_frame_limited_eq)
  then have "be_value (be32 (word_of_nat (length (concat cs)))) = length (concat cs)"
    by (simp only: be32_length)
  with cs assms(2,3) show ?thesis
    by (simp add: read_frame_limited_def Let_def)
qed

text \<open>What the frame sender and receiver rely on: the text of a frame parses back to the frame.\<close>

definition frame_json_laws :: "ipc_ext \<Rightarrow> bool" where
  "frame_json_laws X \<longleftrightarrow>
     (\<forall>f cs. ix_frame_chunks X f = Some cs \<longrightarrow> ix_frame_parse X (concat cs) = Some f)"

interpretation frames: framed_stream
  "\<lambda>f. write_frame_limited X f m" "read_frame_limited X m" "\<lambda>f. frame_json_laws X"
proof unfold_locales
  show "frame_json_laws X \<Longrightarrow> write_frame_limited X f m = Inr bs \<Longrightarrow>
      read_frame_limited X m (bs @ rest) = Inr (Some (f, rest))" for f bs rest
    using read_written_frame [of X f m bs m rest] by (auto simp: frame_json_laws_def)
  show "read_frame_limited X m [] = Inr None" by (simp add: read_frame_limited_def)
qed

lemma read_truncated_frame:
  assumes "write_frame_limited X f m = Inr bs" "0 < k" "k < length bs"
  shows "\<exists>e. read_frame_limited X m (take k bs) = Inl e"
proof -
  from assms(1) obtain js where j: "bs = be32 (word_of_nat (length js)) @ js" "length js \<le> m" "length js < 2 ^ 32"
    by (auto simp: write_frame_limited_eq)
  then have v: "be_value (be32 (word_of_nat (length js))) = length js"
    by (simp only: be32_length)
  show ?thesis
  proof (cases "k < 4")
    case True
    with assms(2,3) show ?thesis by (auto simp: read_frame_limited_def)
  next
    case False
    then have "take 4 (take k bs) = be32 (word_of_nat (length js))" "length (drop 4 (take k bs)) < length js"
      using j(1) assms(3) by (simp_all add: min_def)
    with v j(2) False assms(3) show ?thesis
      by (auto simp: read_frame_limited_def Let_def ensure_def simp del: take_take)
  qed
qed

text \<open>Frames written one after the other are read back in order and the end of the stream is a
  clean end; a stream that ends inside a frame is an error, not a clean end and not a frame.\<close>

theorem ipc_stream_round_trip:
  assumes "list_all2 (\<lambda>f bs. write_frame_limited X f m = Inr bs) fs bss" and "frame_json_laws X"
  shows "read_all (read_frame_limited X m) (Suc (length fs)) (concat bss) = Some (Inr fs) \<and>
    (\<forall>bs\<in>set bss. \<forall>k. 0 < k \<and> k < length bs \<longrightarrow> (\<exists>e. read_frame_limited X m (take k bs) = Inl e))"
proof
  show "read_all (read_frame_limited X m) (Suc (length fs)) (concat bss) = Some (Inr fs)"
    using frames.read_all_written [OF assms(1), where n = "Suc (length fs)"] assms(2)
    by (simp add: list_all_iff)
  show "\<forall>bs\<in>set bss. \<forall>k. 0 < k \<and> k < length bs \<longrightarrow> (\<exists>e. read_frame_limited X m (take k bs) = Inl e)"
  proof (intro ballI allI impI)
    fix bs k assume "bs \<in> set bss" "0 < k \<and> k < length bs"
    moreover from assms(1) this(1) obtain f where "write_frame_limited X f m = Inr bs"
      by (auto simp: in_set_conv_nth list_all2_conv_all_nth)
    ultimately show "\<exists>e. read_frame_limited X m (take k bs) = Inl e" using read_truncated_frame by blast
  qed
qed

subsection \<open>A sample request\<close>

definition sample_download :: download_request where
  "sample_download =
     \<lparr>dl_transfer_id = replicate 32 CHR ''a'', dl_path = ''/tmp/x'', dl_local_target_sha256 = None,
      dl_backend = BkSftp, dl_resume = ResumeNever, dl_resume_offset = 0, dl_expected_size = None,
      dl_expected_sha256 = None, dl_expected_helper_identity = None, dl_idle_timeout_ms = 30000,
      dl_deadline_ms = None\<rparr>"

definition sample_ipc_ext :: ipc_ext where
  "sample_ipc_ext =
     \<lparr>ix_sha256 = (\<lambda>m. take 32 (m @ replicate 32 0)), ix_hmac = (\<lambda>k m. Some (take 32 (k @ m))),
      ix_hex_encode = hex_lower, ix_b64_encode = hex_lower, ix_b64_decode = unhex,
      ix_frame_chunks = (\<lambda>f. if f = Status then Some [[1], [2]] else if f = Ack then Some [[3]] else None),
      ix_frame_parse = (\<lambda>bs. if bs = [1, 2] then Some Status else if bs = [3] then Some Ack else None),
      ix_reserve = (\<lambda>_. True)\<rparr>"

theorem ipc_stream_round_trip_witness:
  "read_all (read_frame_limited sample_ipc_ext 10) (Suc (length [Status, Ack]))
     (concat [[0, 0, 0, 2, 1, 2], [0, 0, 0, 1, 3]]) = Some (Inr [Status, Ack])"
proof -
  have "be32 2 = [0, 0, 0, 2]" "be32 1 = [0, 0, 0, 1]" by code_simp+
  then have l: "list_all2 (\<lambda>f bs. write_frame_limited sample_ipc_ext f 10 = Inr bs) [Status, Ack]
      [[0, 0, 0, 2, 1, 2], [0, 0, 0, 1, 3]]"
    by (simp add: write_frame_limited_eq sample_ipc_ext_def usize_max_def)
  have "frame_json_laws sample_ipc_ext" by (simp add: frame_json_laws_def sample_ipc_ext_def)
  from ipc_stream_round_trip [OF l this] show ?thesis by (rule conjunct1)
qed

lemma sample_download_digest:
  "frame_typed (Download sample_download)" "\<exists>d. canonical_request_digest sample_ipc_ext (Download sample_download) = Inr d"
  by (simp_all add: frame_typed_def sample_download_def transfer_id_parse_def all_lower_hex_def list_all_iff
        is_lower_hex_char_def is_ascii_digit_def char_code_def canonical_request_digest_def
        request_digest_input_def update_fields_def
        update_length_prefixed_def update_expected_native_helper_identity_def unwrap_or_default_def)

end
