(* ===== verification/Ipc_Auth.thy ===== *)
theory Ipc_Auth
  imports Ipc_Frames
begin

text \<open>
  Mutual authentication of a frontend and a daemon, protocol version 5
  (crates/serctl_protocol/src/lib.rs, from \<open>request_intent_commitment\<close> to \<open>authenticate_server\<close>).

  Each side is an action on its end of the connection: the bytes the peer delivers and the bytes
  sent so far. A deadline that passes is the end of the input. The nonce of the client and the
  successive draws of the daemon are arguments; the daemon draws until its nonce differs from the
  client's, so its action is an option, \<open>None\<close> when the loop never ends. Constant-time comparison
  is equality.
\<close>

section \<open>Definitions\<close>

definition SERVER_PROOF_DOMAIN :: bytes where
  "SERVER_PROOF_DOMAIN = as_bytes ''serctl/ipc/auth/server-token/v5'' @ [0]"
definition CLIENT_PROOF_DOMAIN :: bytes where
  "CLIENT_PROOF_DOMAIN = as_bytes ''serctl/ipc/auth/client-token/v5'' @ [0]"
definition INTENT_COMMITMENT_DOMAIN :: bytes where
  "INTENT_COMMITMENT_DOMAIN = as_bytes ''serctl/ipc/intent-commitment/v5'' @ [0]"
definition SERVER_CALL_PROOF_DOMAIN :: bytes where
  "SERVER_CALL_PROOF_DOMAIN = as_bytes ''serctl/ipc/auth/server-call/v5'' @ [0]"
definition CLIENT_CALL_PROOF_DOMAIN :: bytes where
  "CLIENT_CALL_PROOF_DOMAIN = as_bytes ''serctl/ipc/auth/client-call/v5'' @ [0]"

record wire =
  w_in :: bytes
  w_out :: bytes

definition commitment_input :: "bytes \<Rightarrow> bytes" where
  "commitment_input request_digest =
     INTENT_COMMITMENT_DOMAIN @ be16 IPC_PROTOCOL_VERSION @ request_digest"

definition request_intent_commitment :: "ipc_ext \<Rightarrow> bytes \<Rightarrow> ipc_frame \<Rightarrow> bytes res" where
  "request_intent_commitment X call_key frame =
     and_then (canonical_request_digest X frame) (\<lambda>request_digest.
     ok_or (ix_hmac X call_key (commitment_input request_digest))
       ''invalid IPC call authorization key'')"

text \<open>The fields every proof covers.\<close>

record transcript =
  pt_version :: u16
  pt_profile :: string
  pt_endpoint_id :: string
  pt_client_nonce :: bytes
  pt_server_nonce :: bytes
  pt_intent_commitment :: "bytes option"

definition proof_transcript ::
  "ipc_ext \<Rightarrow> string \<Rightarrow> bytes \<Rightarrow> bytes \<Rightarrow> bytes \<Rightarrow> bytes option \<Rightarrow> transcript" where
  "proof_transcript X profile token client_nonce server_nonce intent_commitment =
     \<lparr>pt_version = IPC_PROTOCOL_VERSION, pt_profile = profile,
      pt_endpoint_id = endpoint_id_with_token X profile token,
      pt_client_nonce = client_nonce, pt_server_nonce = server_nonce,
      pt_intent_commitment = intent_commitment\<rparr>"

definition proof_input :: "bytes \<Rightarrow> transcript \<Rightarrow> bytes" where
  "proof_input domain t =
     domain @ be16 (pt_version t) @
     be32 (word_of_nat (length (pt_profile t))) @ as_bytes (pt_profile t) @
     be32 (word_of_nat (length (pt_endpoint_id t))) @ as_bytes (pt_endpoint_id t) @
     pt_client_nonce t @ pt_server_nonce t @
     (case pt_intent_commitment t of Some commitment \<Rightarrow> 1 # commitment | None \<Rightarrow> [0])"

definition proof_mac :: "ipc_ext \<Rightarrow> bytes \<Rightarrow> bytes \<Rightarrow> transcript \<Rightarrow> bytes res" where
  "proof_mac X key domain t =
     ok_or (ix_hmac X key (proof_input domain t)) ''invalid IPC authentication key''"

definition encoded_proof :: "ipc_ext \<Rightarrow> bytes \<Rightarrow> bytes \<Rightarrow> transcript \<Rightarrow> string res" where
  "encoded_proof X key domain t =
     and_then (proof_mac X key domain t) (\<lambda>mac. Inr (ix_b64_encode X mac))"

definition verify_proof :: "ipc_ext \<Rightarrow> bytes \<Rightarrow> bytes \<Rightarrow> transcript \<Rightarrow> string \<Rightarrow> unit res" where
  "verify_proof X key domain t encoded =
     and_then (decode_base64_32 X ''IPC authentication proof'' encoded) (\<lambda>provided.
     and_then (proof_mac X key domain t) (\<lambda>expected.
     if expected \<noteq> provided then Inl ''IPC authentication proof mismatch'' else Inr ()))"

record auth_context =
  ctx_intent_commitment :: "bytes option"
  ctx_request_verified :: bool

definition verify_request :: "ipc_ext \<Rightarrow> bytes \<Rightarrow> ipc_frame \<Rightarrow> (auth_context, unit) action" where
  "verify_request X call_key request ctx =
     (let ctx' = ctx\<lparr>ctx_request_verified := True\<rparr> in
      if ctx_request_verified ctx then (ctx', Inl ''IPC authorization context was already consumed'')
      else case ctx_intent_commitment ctx of
        None \<Rightarrow> (ctx', Inl ''IPC request requires master-passphrase authorization'')
      | Some provided \<Rightarrow>
          (ctx',
           and_then (request_intent_commitment X call_key request) (\<lambda>expected.
           if expected \<noteq> provided then Inl ''IPC request authorization failed'' else Inr ())))"

definition write_auth_frame :: "ipc_ext \<Rightarrow> ipc_frame \<Rightarrow> (wire, unit) action" where
  "write_auth_frame X frame =
     act_bind (act_result (write_frame_limited X frame MAX_AUTH_FRAME)) (\<lambda>bs w.
     (w\<lparr>w_out := w_out w @ bs\<rparr>, Inr ()))"

definition read_auth_frame :: "ipc_ext \<Rightarrow> (wire, ipc_frame) action" where
  "read_auth_frame X w =
     (case read_frame_limited X MAX_AUTH_FRAME (w_in w) of
        Inl e \<Rightarrow> (w, Inl e)
      | Inr None \<Rightarrow> (w, Inl ''IPC peer disconnected during authentication'')
      | Inr (Some (frame, rest)) \<Rightarrow> (w\<lparr>w_in := rest\<rparr>, Inr frame))"

definition client_intent :: "ipc_ext \<Rightarrow> bytes option \<Rightarrow> ipc_frame option \<Rightarrow> bytes option res" where
  "client_intent X call_key request =
     (case (call_key, request) of
        (Some call_key, Some request) \<Rightarrow>
          and_then (request_intent_commitment X call_key request) (\<lambda>c. Inr (Some c))
      | (None, None) \<Rightarrow> Inr None
      | _ \<Rightarrow> Inl ''incomplete IPC call-authorization inputs'')"

definition challenge_fields :: "ipc_frame \<Rightarrow> (string \<times> string \<times> string option) res" where
  "challenge_fields frame =
     (case frame of
        AuthChallenge c \<Rightarrow>
          if ch_version c = IPC_PROTOCOL_VERSION
          then Inr (ch_server_nonce c, ch_server_proof c, ch_server_call_proof c)
          else Inl ''unsupported IPC authentication version''
      | _ \<Rightarrow> Inl ''unexpected IPC server authentication frame'')"

definition client_call_proofs ::
  "ipc_ext \<Rightarrow> bytes option \<Rightarrow> transcript \<Rightarrow> string option \<Rightarrow> string option res" where
  "client_call_proofs X call_key t server_call_proof =
     (case (call_key, pt_intent_commitment t, server_call_proof) of
        (Some call_key, Some commitment, Some server_call_proof) \<Rightarrow>
          and_then (verify_proof X call_key SERVER_CALL_PROOF_DOMAIN t server_call_proof) (\<lambda>_.
          and_then (encoded_proof X call_key CLIENT_CALL_PROOF_DOMAIN t) (\<lambda>proof. Inr (Some proof)))
      | (None, None, None) \<Rightarrow> Inr None
      | _ \<Rightarrow> Inl ''IPC call-authorization challenge mismatch'')"

definition authenticate_client_inner ::
  "ipc_ext \<Rightarrow> string \<Rightarrow> string \<Rightarrow> bytes option \<Rightarrow> ipc_frame option \<Rightarrow> bytes \<Rightarrow> (wire, unit) action" where
  "authenticate_client_inner X profile token call_key request client_nonce =
     act_bind (act_result (validate_profile_name profile)) (\<lambda>_.
     act_bind (act_result (client_intent X call_key request)) (\<lambda>intent_commitment.
     act_bind (act_result (decode_base64_32 X ''IPC token'' token)) (\<lambda>token.
     act_bind (write_auth_frame X (AuthHello IPC_PROTOCOL_VERSION (ix_b64_encode X client_nonce)
       (map_option (ix_b64_encode X) intent_commitment))) (\<lambda>_.
     act_bind (read_auth_frame X) (\<lambda>challenge.
     act_bind (act_result (challenge_fields challenge)) (\<lambda>(server_nonce, server_proof, server_call_proof).
     act_bind (act_result (decode_base64_32 X ''IPC server nonce'' server_nonce)) (\<lambda>server_nonce.
     act_ensure (client_nonce \<noteq> server_nonce) ''IPC server reused the client nonce'' (
     let t = proof_transcript X profile token client_nonce server_nonce intent_commitment in
     act_bind (act_result (verify_proof X token SERVER_PROOF_DOMAIN t server_proof)) (\<lambda>_.
     act_bind (act_result (client_call_proofs X call_key t server_call_proof)) (\<lambda>client_call_proof.
     act_bind (act_result (encoded_proof X token CLIENT_PROOF_DOMAIN t)) (\<lambda>client_proof.
     act_bind (write_auth_frame X (AuthResponse client_proof client_call_proof)) (\<lambda>_.
     act_bind (read_auth_frame X) (\<lambda>accepted.
     act_ensure (accepted = AuthAccepted) ''unexpected IPC authorization completion frame'' (
     act_result (Inr ())))))))))))))))"

definition authenticate_client :: "ipc_ext \<Rightarrow> string \<Rightarrow> string \<Rightarrow> bytes \<Rightarrow> (wire, unit) action" where
  "authenticate_client X profile token client_nonce =
     authenticate_client_inner X profile token None None client_nonce"

definition authenticate_client_for_request ::
  "ipc_ext \<Rightarrow> string \<Rightarrow> string \<Rightarrow> bytes \<Rightarrow> ipc_frame \<Rightarrow> bytes \<Rightarrow> (wire, unit) action" where
  "authenticate_client_for_request X profile token call_key request client_nonce =
     authenticate_client_inner X profile token (Some call_key) (Some request) client_nonce"

definition hello_fields :: "ipc_ext \<Rightarrow> ipc_frame \<Rightarrow> (bytes \<times> bytes option) res" where
  "hello_fields X frame =
     (case frame of
        AuthHello version client_nonce intent_commitment \<Rightarrow>
          if version = IPC_PROTOCOL_VERSION
          then and_then (decode_base64_32 X ''IPC client nonce'' client_nonce) (\<lambda>client_nonce.
               and_then (case intent_commitment of
                   None \<Rightarrow> Inr None
                 | Some c \<Rightarrow> and_then (decode_base64_32 X ''IPC request intent commitment'' c)
                     (\<lambda>c. Inr (Some c))) (\<lambda>intent_commitment.
               Inr (client_nonce, intent_commitment)))
          else Inl ''unsupported IPC authentication version''
      | _ \<Rightarrow> Inl ''unexpected IPC client authentication frame'')"

text \<open>The loop that draws a nonce different from the client's.\<close>

partial_function (option) draw_nonce :: "bytes \<Rightarrow> (nat \<Rightarrow> bytes) \<Rightarrow> nat \<Rightarrow> bytes option" where
  "draw_nonce client_nonce draws i =
     (if client_nonce = draws i then draw_nonce client_nonce draws (Suc i) else Some (draws i))"

definition server_hello :: "ipc_ext \<Rightarrow> string \<Rightarrow> string \<Rightarrow> (wire, bytes \<times> bytes \<times> bytes option) action" where
  "server_hello X profile token =
     act_bind (act_result (validate_profile_name profile)) (\<lambda>_.
     act_bind (act_result (decode_base64_32 X ''IPC token'' token)) (\<lambda>token.
     act_bind (read_auth_frame X) (\<lambda>hello.
     act_bind (act_result (hello_fields X hello)) (\<lambda>(client_nonce, intent_commitment).
     act_result (Inr (token, client_nonce, intent_commitment))))))"

definition server_call_proof :: "ipc_ext \<Rightarrow> bytes \<Rightarrow> transcript \<Rightarrow> string option res" where
  "server_call_proof X call_key t =
     (case pt_intent_commitment t of
        None \<Rightarrow> Inr None
      | Some commitment \<Rightarrow>
          and_then (encoded_proof X call_key SERVER_CALL_PROOF_DOMAIN t) (\<lambda>proof. Inr (Some proof)))"

definition response_fields :: "ipc_frame \<Rightarrow> (string \<times> string option) res" where
  "response_fields frame =
     (case frame of
        AuthResponse client_proof client_call_proof \<Rightarrow> Inr (client_proof, client_call_proof)
      | _ \<Rightarrow> Inl ''unexpected IPC client proof frame'')"

definition verify_client_call_proof ::
  "ipc_ext \<Rightarrow> bytes \<Rightarrow> transcript \<Rightarrow> string option \<Rightarrow> unit res" where
  "verify_client_call_proof X call_key t client_call_proof =
     (case (pt_intent_commitment t, client_call_proof) of
        (Some commitment, Some client_call_proof) \<Rightarrow>
          verify_proof X call_key CLIENT_CALL_PROOF_DOMAIN t client_call_proof
      | (None, None) \<Rightarrow> Inr ()
      | _ \<Rightarrow> Inl ''IPC call-authorization response mismatch'')"

definition server_challenge ::
  "ipc_ext \<Rightarrow> bytes \<Rightarrow> bytes \<Rightarrow> transcript \<Rightarrow> (wire, auth_context) action" where
  "server_challenge X token call_key t =
     act_bind (act_result (encoded_proof X token SERVER_PROOF_DOMAIN t)) (\<lambda>server_proof.
     act_bind (act_result (server_call_proof X call_key t)) (\<lambda>server_call_proof.
     act_bind (write_auth_frame X (AuthChallenge
       \<lparr>ch_version = IPC_PROTOCOL_VERSION, ch_server_nonce = ix_b64_encode X (pt_server_nonce t),
        ch_server_proof = server_proof, ch_server_call_proof = server_call_proof\<rparr>)) (\<lambda>_.
     act_bind (read_auth_frame X) (\<lambda>response.
     act_bind (act_result (response_fields response)) (\<lambda>(client_proof, client_call_proof).
     act_bind (act_result (verify_proof X token CLIENT_PROOF_DOMAIN t client_proof)) (\<lambda>_.
     act_bind (act_result (verify_client_call_proof X call_key t client_call_proof)) (\<lambda>_.
     act_bind (write_auth_frame X AuthAccepted) (\<lambda>_.
     act_result (Inr \<lparr>ctx_intent_commitment = pt_intent_commitment t,
                      ctx_request_verified = False\<rparr>)))))))))"

definition authenticate_server ::
  "ipc_ext \<Rightarrow> string \<Rightarrow> string \<Rightarrow> bytes \<Rightarrow> (nat \<Rightarrow> bytes) \<Rightarrow> wire \<Rightarrow> (wire \<times> auth_context res) option" where
  "authenticate_server X profile token call_key draws w =
     (case server_hello X profile token w of
        (w, Inl e) \<Rightarrow> Some (w, Inl e)
      | (w, Inr (token, client_nonce, intent_commitment)) \<Rightarrow>
          map_option (\<lambda>server_nonce.
            server_challenge X token call_key
              (proof_transcript X profile token client_nonce server_nonce intent_commitment) w)
            (draw_nonce client_nonce draws 0))"

section \<open>Lemmas\<close>

subsection \<open>Proofs\<close>

text \<open>The fixed lengths of a transcript, as the Rust types have them.\<close>

definition transcript_typed :: "transcript \<Rightarrow> bool" where
  "transcript_typed t \<longleftrightarrow>
     length (pt_profile t) < 2 ^ 32 \<and> length (pt_endpoint_id t) < 2 ^ 32 \<and>
     length (pt_client_nonce t) = 32 \<and> length (pt_server_nonce t) = 32 \<and>
     pred_option (\<lambda>c. length c = 32) (pt_intent_commitment t)"

lemma prefixed_append_inject:
  assumes "be32 (word_of_nat (length v)) @ v @ s = be32 (word_of_nat (length w)) @ w @ t"
    and "length v < 2 ^ 32" "length w < 2 ^ 32"
  shows "v = w \<and> s = t"
proof -
  have "v = w"
    by (rule length_prefix_inject [where a = "be32 (word_of_nat (length v)) @ v" and s = s and t = t])
      (use assms in \<open>auto simp: update_length_prefixed_eq\<close>)
  with assms(1) show ?thesis by simp
qed

lemma proof_input_inject:
  assumes "proof_input domain t = proof_input domain u" "transcript_typed t" "transcript_typed u"
  shows "t = u"
proof -
  note ty = assms(2,3) [unfolded transcript_typed_def]
  let ?rest = "\<lambda>t. be32 (word_of_nat (length (pt_endpoint_id t))) @ as_bytes (pt_endpoint_id t) @
     pt_client_nonce t @ pt_server_nonce t @
     (case pt_intent_commitment t of Some commitment \<Rightarrow> 1 # commitment | None \<Rightarrow> [0])"
  let ?tail = "\<lambda>t. pt_client_nonce t @ pt_server_nonce t @
     (case pt_intent_commitment t of Some commitment \<Rightarrow> 1 # commitment | None \<Rightarrow> [0])"
  from assms(1) have v: "pt_version t = pt_version u"
    and 1: "be32 (word_of_nat (length (as_bytes (pt_profile t)))) @ as_bytes (pt_profile t) @ ?rest t =
      be32 (word_of_nat (length (as_bytes (pt_profile u)))) @ as_bytes (pt_profile u) @ ?rest u"
    by (auto simp: proof_input_def)
  from prefixed_append_inject [OF 1] ty have p: "pt_profile t = pt_profile u"
    and 2: "be32 (word_of_nat (length (as_bytes (pt_endpoint_id t)))) @ as_bytes (pt_endpoint_id t) @ ?tail t =
      be32 (word_of_nat (length (as_bytes (pt_endpoint_id u)))) @ as_bytes (pt_endpoint_id u) @ ?tail u"
    by simp_all
  from prefixed_append_inject [OF 2] ty have e: "pt_endpoint_id t = pt_endpoint_id u" and "?tail t = ?tail u"
    by simp_all
  with ty have "pt_client_nonce t = pt_client_nonce u" "pt_server_nonce t = pt_server_nonce u"
    "pt_intent_commitment t = pt_intent_commitment u"
    by (auto split: option.splits)
  with v p e show ?thesis by simp
qed

text \<open>What the code relies on of the other crates.\<close>

definition auth_laws :: "ipc_ext \<Rightarrow> bool" where
  "auth_laws X \<longleftrightarrow>
     (\<forall>m. length (ix_sha256 X m) = 32) \<and> (\<forall>k m. length k = 32 \<longrightarrow> (\<exists>d. ix_hmac X k m = Some d \<and> length d = 32)) \<and>
     (\<forall>bs. length (ix_hex_encode X bs) = 2 * length bs) \<and>
     (\<forall>bs. length bs = 32 \<longrightarrow> ix_b64_decode X (ix_b64_encode X bs) = Some bs)"

lemma auth_lawsD:
  assumes "auth_laws X"
  shows "length (ix_sha256 X m) = 32" "length (ix_hex_encode X bs) = 2 * length bs"
    "length k = 32 \<Longrightarrow> \<exists>d. ix_hmac X k m = Some d \<and> length d = 32"
    "length k = 32 \<Longrightarrow> ix_hmac X k m = Some d \<Longrightarrow> length d = 32"
    "length v = 32 \<Longrightarrow> ix_b64_decode X (ix_b64_encode X v) = Some v"
  using assms unfolding auth_laws_def by (blast, blast, blast, metis option.inject, blast)

lemma decode_base64_32_eq:
  "decode_base64_32 X label s = Inr bs \<longleftrightarrow>
     ix_b64_decode X s = Some bs \<and> length bs = 32 \<and> ix_b64_encode X bs = s"
  by (auto simp: decode_base64_32_def and_then_eq_Inr ok_or_eq_Inr)

lemma verify_proof_eq:
  "verify_proof X key domain t s = Inr () \<longleftrightarrow>
     (\<exists>mac. ix_hmac X key (proof_input domain t) = Some mac \<and> length mac = 32 \<and>
        ix_b64_decode X s = Some mac \<and> ix_b64_encode X mac = s)"
  by (auto simp: verify_proof_def proof_mac_def and_then_eq_Inr ok_or_eq_Inr decode_base64_32_eq)

lemma encoded_proof_eq:
  "encoded_proof X key domain t = Inr s \<longleftrightarrow>
     (\<exists>mac. ix_hmac X key (proof_input domain t) = Some mac \<and> s = ix_b64_encode X mac)"
  by (auto simp: encoded_proof_def proof_mac_def and_then_eq_Inr ok_or_eq_Inr)

text \<open>A proof accepted for one transcript and made for another is a collision of the code.\<close>

definition mac_collision :: "ipc_ext \<Rightarrow> bytes \<Rightarrow> bytes \<Rightarrow> bytes \<Rightarrow> bool" where
  "mac_collision X key m n \<longleftrightarrow> m \<noteq> n \<and> ix_hmac X key m = ix_hmac X key n \<and> ix_hmac X key m \<noteq> None"

lemma proof_binds_transcript:
  assumes "verify_proof X key domain t s = Inr ()" "encoded_proof X key domain u = Inr s"
    and "auth_laws X" "length key = 32" "transcript_typed t" "transcript_typed u"
  shows "t = u \<or> mac_collision X key (proof_input domain t) (proof_input domain u)"
proof -
  from assms(1) obtain mac where m: "ix_hmac X key (proof_input domain t) = Some mac"
    "ix_b64_decode X s = Some mac" by (auto simp: verify_proof_eq)
  from assms(2) obtain mac' where m': "ix_hmac X key (proof_input domain u) = Some mac'"
    "s = ix_b64_encode X mac'" by (auto simp: encoded_proof_eq)
  have "length mac' = 32" using auth_lawsD(4) [OF assms(3,4) m'(1)] .
  with m'(2) assms(3) m(2) have "mac = mac'" by (simp add: auth_laws_def)
  with m(1) m'(1) proof_input_inject [OF _ assms(5,6)] show ?thesis
    by (auto simp: mac_collision_def)
qed

subsection \<open>What the two sides have seen\<close>

definition server_transcript ::
  "ipc_ext \<Rightarrow> string \<Rightarrow> string \<Rightarrow> (nat \<Rightarrow> bytes) \<Rightarrow> bytes \<Rightarrow> transcript option" where
  "server_transcript X profile token draws input =
     (case server_hello X profile token \<lparr>w_in = input, w_out = []\<rparr> of
        (_, Inl e) \<Rightarrow> None
      | (_, Inr (token, client_nonce, intent_commitment)) \<Rightarrow>
          map_option (\<lambda>server_nonce.
            proof_transcript X profile token client_nonce server_nonce intent_commitment)
            (draw_nonce client_nonce draws 0))"

definition client_transcript ::
  "ipc_ext \<Rightarrow> string \<Rightarrow> string \<Rightarrow> bytes option \<Rightarrow> ipc_frame option \<Rightarrow> bytes \<Rightarrow> bytes \<Rightarrow> transcript option" where
  "client_transcript X profile token call_key request client_nonce input =
     (case (client_intent X call_key request, decode_base64_32 X ''IPC token'' token,
            read_frame_limited X MAX_AUTH_FRAME input) of
        (Inr intent_commitment, Inr token, Inr (Some (AuthChallenge c, _))) \<Rightarrow>
          map_option (\<lambda>server_nonce.
            proof_transcript X profile token client_nonce server_nonce intent_commitment)
            (ix_b64_decode X (ch_server_nonce c))
      | _ \<Rightarrow> None)"

text \<open>The second frame of a byte stream: what the server reads after, and the client sends after, the
  hello.\<close>

definition second_frame :: "ipc_ext \<Rightarrow> bytes \<Rightarrow> ipc_frame option" where
  "second_frame X bs =
     (case read_frame_limited X MAX_AUTH_FRAME bs of
        Inr (Some (_, rest)) \<Rightarrow>
          (case read_frame_limited X MAX_AUTH_FRAME rest of Inr (Some (f, _)) \<Rightarrow> Some f | _ \<Rightarrow> None)
      | _ \<Rightarrow> None)"

lemma write_auth_frame_eq:
  "write_auth_frame X f w = (w', Inr u) \<longleftrightarrow>
     (\<exists>bs. write_frame_limited X f MAX_AUTH_FRAME = Inr bs \<and> w' = w\<lparr>w_out := w_out w @ bs\<rparr>)"
  by (auto simp: write_auth_frame_def result_simps)

lemma read_auth_frame_eq:
  "read_auth_frame X w = (w', Inr f) \<longleftrightarrow>
     (\<exists>rest. read_frame_limited X MAX_AUTH_FRAME (w_in w) = Inr (Some (f, rest)) \<and> w' = w\<lparr>w_in := rest\<rparr>)"
  by (auto simp: read_auth_frame_def split: sum.splits option.splits)

lemma challenge_fields_eq:
  "challenge_fields f = Inr (n, p, cp) \<longleftrightarrow>
     f = AuthChallenge \<lparr>ch_version = IPC_PROTOCOL_VERSION, ch_server_nonce = n, ch_server_proof = p,
       ch_server_call_proof = cp\<rparr>"
  by (auto simp: challenge_fields_def split: ipc_frame.splits if_splits)

lemma response_fields_eq: "response_fields f = Inr (p, cp) \<longleftrightarrow> f = AuthResponse p cp"
  by (auto simp: response_fields_def split: ipc_frame.splits)

lemma client_run:
  assumes "authenticate_client_inner X profile token call_key request client_nonce w = (w', Inr u)"
  obtains key intent sn pf cp scp sp hello response where
    "validate_profile_name profile = Inr ()" "decode_base64_32 X ''IPC token'' token = Inr key"
    "client_intent X call_key request = Inr intent" "length sn = 32" "client_nonce \<noteq> sn"
    "client_transcript X profile token call_key request client_nonce (w_in w) =
       Some (proof_transcript X profile key client_nonce sn intent)"
    "verify_proof X key SERVER_PROOF_DOMAIN (proof_transcript X profile key client_nonce sn intent) sp = Inr ()"
    "client_call_proofs X call_key (proof_transcript X profile key client_nonce sn intent) scp = Inr cp"
    "encoded_proof X key CLIENT_PROOF_DOMAIN (proof_transcript X profile key client_nonce sn intent) = Inr pf"
    "write_frame_limited X (AuthHello IPC_PROTOCOL_VERSION (ix_b64_encode X client_nonce)
       (map_option (ix_b64_encode X) intent)) MAX_AUTH_FRAME = Inr hello"
    "write_frame_limited X (AuthResponse pf cp) MAX_AUTH_FRAME = Inr response"
    "w_out w' = w_out w @ hello @ response"
proof -
  from assms obtain key intent challenge rest n sp scp sn cp pf hello response where
    1: "validate_profile_name profile = Inr ()" "client_intent X call_key request = Inr intent"
    "decode_base64_32 X ''IPC token'' token = Inr key"
    "read_frame_limited X MAX_AUTH_FRAME (w_in w) = Inr (Some (challenge, rest))"
    "challenge_fields challenge = Inr (n, sp, scp)"
    "decode_base64_32 X ''IPC server nonce'' n = Inr sn" "client_nonce \<noteq> sn"
    "write_frame_limited X (AuthHello IPC_PROTOCOL_VERSION (ix_b64_encode X client_nonce)
       (map_option (ix_b64_encode X) intent)) MAX_AUTH_FRAME = Inr hello"
    "verify_proof X key SERVER_PROOF_DOMAIN (proof_transcript X profile key client_nonce sn intent) sp = Inr ()"
    "client_call_proofs X call_key (proof_transcript X profile key client_nonce sn intent) scp = Inr cp"
    "encoded_proof X key CLIENT_PROOF_DOMAIN (proof_transcript X profile key client_nonce sn intent) = Inr pf"
    "write_frame_limited X (AuthResponse pf cp) MAX_AUTH_FRAME = Inr response"
    "w_out w' = w_out w @ hello @ response"
    unfolding authenticate_client_inner_def Let_def
    by (auto simp: result_simps write_auth_frame_eq read_auth_frame_eq)
  have "client_transcript X profile token call_key request client_nonce (w_in w) =
     Some (proof_transcript X profile key client_nonce sn intent)" and "length sn = 32"
    using 1(2-5) 1(6) [unfolded decode_base64_32_eq]
    by (simp_all add: client_transcript_def challenge_fields_eq)
  with that 1 show thesis by blast
qed

lemma server_run:
  assumes "authenticate_server X profile token call_key draws w = Some (w', Inr ctx)"
  obtains key cn intent sn hello rest rest' pf cp where
    "validate_profile_name profile = Inr ()" "decode_base64_32 X ''IPC token'' token = Inr key"
    "read_frame_limited X MAX_AUTH_FRAME (w_in w) = Inr (Some (hello, rest))"
    "hello_fields X hello = Inr (cn, intent)" "draw_nonce cn draws 0 = Some sn"
    "server_transcript X profile token draws (w_in w) = Some (proof_transcript X profile key cn sn intent)"
    "read_frame_limited X MAX_AUTH_FRAME rest = Inr (Some (AuthResponse pf cp, rest'))"
    "verify_proof X key CLIENT_PROOF_DOMAIN (proof_transcript X profile key cn sn intent) pf = Inr ()"
    "verify_client_call_proof X call_key (proof_transcript X profile key cn sn intent) cp = Inr ()"
    "ctx = \<lparr>ctx_intent_commitment = intent, ctx_request_verified = False\<rparr>"
proof -
  from assms obtain v key cn intent sn where
    1: "server_hello X profile token w = (v, Inr (key, cn, intent))" "draw_nonce cn draws 0 = Some sn"
    "server_challenge X key call_key (proof_transcript X profile key cn sn intent) v = (w', Inr ctx)"
    unfolding authenticate_server_def by (auto split: prod.splits sum.splits)
  from 1(1) obtain hello rest where
    2: "validate_profile_name profile = Inr ()" "decode_base64_32 X ''IPC token'' token = Inr key"
    "read_frame_limited X MAX_AUTH_FRAME (w_in w) = Inr (Some (hello, rest))"
    "hello_fields X hello = Inr (cn, intent)" "w_in v = rest"
    unfolding server_hello_def by (auto simp: result_simps read_auth_frame_eq)
  from 1(3) obtain rest' pf cp where
    3: "read_frame_limited X MAX_AUTH_FRAME (w_in v) = Inr (Some (AuthResponse pf cp, rest'))"
    "verify_proof X key CLIENT_PROOF_DOMAIN (proof_transcript X profile key cn sn intent) pf = Inr ()"
    "verify_client_call_proof X call_key (proof_transcript X profile key cn sn intent) cp = Inr ()"
    "ctx = \<lparr>ctx_intent_commitment = intent, ctx_request_verified = False\<rparr>"
    unfolding server_challenge_def
    by (auto simp: result_simps read_auth_frame_eq write_auth_frame_eq response_fields_eq proof_transcript_def)
  have "server_transcript X profile token draws (w_in w) = Some (proof_transcript X profile key cn sn intent)"
    using 1(2) 2 by (simp add: server_transcript_def server_hello_def act_bind_def act_result_def read_auth_frame_def)
  with that 1 2 3 show thesis by blast
qed

lemma hello_fields_lengths:
  assumes "hello_fields X f = Inr (cn, intent)"
  shows "length cn = 32" "pred_option (\<lambda>c. length c = 32) intent"
  using assms
  by (auto simp: hello_fields_def and_then_eq_Inr decode_base64_32_eq split: ipc_frame.splits if_splits option.splits)

lemma draw_nonce_eq:
  assumes "draw_nonce cn draws i = Some sn"
  shows "cn \<noteq> sn \<and> sn \<in> range draws"
proof (rule draw_nonce.raw_induct [where P = "\<lambda>cn draws i sn. cn \<noteq> sn \<and> sn \<in> range draws", OF _ assms])
  fix draw :: "bytes \<Rightarrow> (nat \<Rightarrow> bytes) \<Rightarrow> nat \<Rightarrow> bytes option" and cn draws i sn
  assume "\<And>cn draws i sn. draw cn draws i = Some sn \<Longrightarrow> cn \<noteq> sn \<and> sn \<in> range draws"
    and "(if cn = draws i then draw cn draws (Suc i) else Some (draws i)) = Some sn"
  then show "cn \<noteq> sn \<and> sn \<in> range draws" by (auto split: if_splits)
qed

lemma draw_nonce_terminates:
  assumes "draws (i + k) \<noteq> cn"
  shows "\<exists>sn. draw_nonce cn draws i = Some sn"
  using assms
proof (induction k arbitrary: i)
  case 0
  then show ?case by (auto simp: draw_nonce.simps [of cn draws i])
next
  case (Suc k)
  then show ?case by (subst draw_nonce.simps) auto
qed

lemma proof_transcript_typed:
  assumes "auth_laws X" "validate_profile_name profile = Inr ()" "length cn = 32" "length sn = 32"
    "pred_option (\<lambda>c. length c = 32) intent"
  shows "transcript_typed (proof_transcript X profile key cn sn intent)"
  using assms(2-5) auth_lawsD(1,2) [OF assms(1)]
  by (auto simp: transcript_typed_def proof_transcript_def endpoint_id_with_token_def validate_profile_name_def
      split: if_splits)

lemma client_intent_length:
  assumes "auth_laws X" "client_intent X (Some ck) (Some r) = Inr intent" "length ck = 32"
  shows "pred_option (\<lambda>c. length c = 32) intent"
  using assms(2) auth_lawsD(4) [OF assms(1,3)]
  by (auto simp: client_intent_def request_intent_commitment_def and_then_eq_Inr ok_or_eq_Inr)

lemma second_frame_written:
  assumes "write_frame_limited X f MAX_AUTH_FRAME = Inr bs" "write_frame_limited X g MAX_AUTH_FRAME = Inr cs"
    and "frame_json_laws X"
  shows "second_frame X (bs @ cs) = Some g"
  using frames.read_write [OF assms(3,1), where rest = cs] frames.read_write [OF assms(3,2), where rest = "[]"]
  by (simp add: second_frame_def)

text \<open>C30: when the daemon accepts the response a frontend sent for a request, whatever was done to the frames before
  it, then the two sides have seen the same transcript (version, profile, endpoint, both nonces and the
  commitment), so the daemon's context holds the commitment to exactly that request, or the two transcripts are a
  collision of the keyed hash.\<close>

theorem ipc_handshake_agreement:
  assumes server: "authenticate_server X profile token call_key draws w = Some (w', Inr ctx)"
    and client: "authenticate_client_for_request X profile' token call_key' request client_nonce v = (v', Inr ())"
    and relayed: "second_frame X (w_in w) = second_frame X (drop (length (w_out v)) (w_out v'))"
    and laws: "auth_laws X" "frame_json_laws X"
    and types: "length call_key' = 32" "length client_nonce = 32" "\<And>i. length (draws i) = 32"
  shows "\<exists>key t u. decode_base64_32 X ''IPC token'' token = Inr key \<and>
    server_transcript X profile token draws (w_in w) = Some t \<and>
    client_transcript X profile' token (Some call_key') (Some request) client_nonce (w_in v) = Some u \<and>
    (mac_collision X key (proof_input CLIENT_PROOF_DOMAIN t) (proof_input CLIENT_PROOF_DOMAIN u) \<or>
     t = u \<and> profile = profile' \<and>
     map_option Inr (ctx_intent_commitment ctx) = Some (request_intent_commitment X call_key' request))"
proof -
  from server_run [OF server] obtain key cn intent sn hello rest rest' pf cp where
    s: "validate_profile_name profile = Inr ()" "decode_base64_32 X ''IPC token'' token = Inr key"
    "read_frame_limited X MAX_AUTH_FRAME (w_in w) = Inr (Some (hello, rest))"
    "hello_fields X hello = Inr (cn, intent)" "draw_nonce cn draws 0 = Some sn"
    "server_transcript X profile token draws (w_in w) = Some (proof_transcript X profile key cn sn intent)"
    "read_frame_limited X MAX_AUTH_FRAME rest = Inr (Some (AuthResponse pf cp, rest'))"
    "verify_proof X key CLIENT_PROOF_DOMAIN (proof_transcript X profile key cn sn intent) pf = Inr ()"
    "ctx = \<lparr>ctx_intent_commitment = intent, ctx_request_verified = False\<rparr>" by metis
  from client_run [OF client [unfolded authenticate_client_for_request_def]] s(2)
  obtain intent' sn' pf' cp' hello' response where
    c: "validate_profile_name profile' = Inr ()"
    "client_intent X (Some call_key') (Some request) = Inr intent'" "length sn' = 32"
    "client_transcript X profile' token (Some call_key') (Some request) client_nonce (w_in v) =
       Some (proof_transcript X profile' key client_nonce sn' intent')"
    "encoded_proof X key CLIENT_PROOF_DOMAIN (proof_transcript X profile' key client_nonce sn' intent') = Inr pf'"
    "write_frame_limited X (AuthHello IPC_PROTOCOL_VERSION (ix_b64_encode X client_nonce)
       (map_option (ix_b64_encode X) intent')) MAX_AUTH_FRAME = Inr hello'"
    "write_frame_limited X (AuthResponse pf' cp') MAX_AUTH_FRAME = Inr response"
    "w_out v' = w_out v @ hello' @ response" by (metis Inr_inject)
  let ?t = "proof_transcript X profile key cn sn intent"
  let ?u = "proof_transcript X profile' key client_nonce sn' intent'"
  have "second_frame X (w_in w) = Some (AuthResponse pf cp)" using s(3,7) by (simp add: second_frame_def)
  with second_frame_written [OF c(6,7) laws(2)] relayed c(8) have "pf' = pf" by simp
  moreover have "length sn = 32" using draw_nonce_eq [OF s(5)] types(3) by auto
  ultimately have b: "?t = ?u \<or> mac_collision X key (proof_input CLIENT_PROOF_DOMAIN ?t) (proof_input CLIENT_PROOF_DOMAIN ?u)"
    using proof_binds_transcript [OF s(8) _ laws(1)] c(5) s(2) hello_fields_lengths [OF s(4)]
      proof_transcript_typed [OF laws(1) s(1)] proof_transcript_typed [OF laws(1) c(1)] types(2) c(3)
      client_intent_length [OF laws(1) c(2) types(1)]
    by (simp add: decode_base64_32_eq)
  have "intent = intent'" "profile = profile'" if "?t = ?u" using that by (simp_all add: proof_transcript_def)
  moreover have "map_option Inr intent' = Some (request_intent_commitment X call_key' request)"
    using c(2) by (auto simp: client_intent_def and_then_eq_Inr)
  ultimately show ?thesis using s(2,6,9) c(4) b by auto
qed

text \<open>C31: a context accepts one request only, and the request it accepts is the committed one up to the
  normalisation of its absent and empty fields, or an explicit collision of the keyed hash or of SHA-256.\<close>

theorem ipc_context_single_request:
  assumes verified: "verify_request X call_key request' ctx = (ctx', Inr ())"
    and committed: "map_option Inr (ctx_intent_commitment ctx) = Some (request_intent_commitment X call_key request)"
    and "frame_typed request" "frame_typed request'"
  shows "(\<exists>d d'. canonical_request_digest X request = Inr d \<and> canonical_request_digest X request' = Inr d' \<and>
      (request_norm request' = request_norm request \<or>
       mac_collision X call_key (commitment_input d) (commitment_input d') \<or>
       (\<exists>a b. request_digest_input request = Inr a \<and> request_digest_input request' = Inr b \<and>
          a \<noteq> b \<and> ix_sha256 X a = ix_sha256 X b))) \<and>
    (\<forall>call_key request. verify_request X call_key request ctx' =
       (ctx', Inl ''IPC authorization context was already consumed''))"
proof
  from verified obtain c where c: "ctx_intent_commitment ctx = Some c" "ctx' = ctx\<lparr>ctx_request_verified := True\<rparr>"
    "request_intent_commitment X call_key request' = Inr c"
    by (auto simp: verify_request_def Let_def and_then_eq_Inr split: if_splits option.splits)
  with committed have "request_intent_commitment X call_key request = Inr c" by simp
  with c(3) obtain d d' where d: "canonical_request_digest X request = Inr d" "canonical_request_digest X request' = Inr d'"
    "ix_hmac X call_key (commitment_input d) = Some c" "ix_hmac X call_key (commitment_input d') = Some c"
    by (auto simp: request_intent_commitment_def and_then_eq_Inr ok_or_eq_Inr)
  show "\<exists>d d'. canonical_request_digest X request = Inr d \<and> canonical_request_digest X request' = Inr d' \<and>
      (request_norm request' = request_norm request \<or>
       mac_collision X call_key (commitment_input d) (commitment_input d') \<or>
       (\<exists>a b. request_digest_input request = Inr a \<and> request_digest_input request' = Inr b \<and>
          a \<noteq> b \<and> ix_sha256 X a = ix_sha256 X b))"
  proof (cases "d = d'")
    case True
    with d have "canonical_request_digest X request' = Inr d" by simp
    from request_digest_binding [OF d(1) this assms(3,4)] d show ?thesis by auto
  next
    case False
    then have "commitment_input d \<noteq> commitment_input d'" by (simp add: commitment_input_def)
    with d show ?thesis by (auto simp: mac_collision_def)
  qed
  show "\<forall>call_key request. verify_request X call_key request ctx' =
       (ctx', Inl ''IPC authorization context was already consumed'')"
    using c(2) by (simp add: verify_request_def)
qed

text \<open>What completing a handshake needs besides: a text of a frame whose strings are encoded values of 32
  bytes exists and fits in an authentication frame.\<close>

definition encoded_value :: "ipc_ext \<Rightarrow> string \<Rightarrow> bool" where
  "encoded_value X s \<longleftrightarrow> (\<exists>bs. length bs = 32 \<and> s = ix_b64_encode X bs)"

fun auth_frame :: "ipc_ext \<Rightarrow> ipc_frame \<Rightarrow> bool" where
  "auth_frame X (AuthHello v n c) \<longleftrightarrow> v = IPC_PROTOCOL_VERSION \<and> encoded_value X n \<and> pred_option (encoded_value X) c"
| "auth_frame X (AuthChallenge c) \<longleftrightarrow>
     ch_version c = IPC_PROTOCOL_VERSION \<and> encoded_value X (ch_server_nonce c) \<and>
     encoded_value X (ch_server_proof c) \<and> pred_option (encoded_value X) (ch_server_call_proof c)"
| "auth_frame X (AuthResponse p c) \<longleftrightarrow> encoded_value X p \<and> pred_option (encoded_value X) c"
| "auth_frame X f \<longleftrightarrow> f = AuthAccepted"

definition auth_frames_fit :: "ipc_ext \<Rightarrow> bool" where
  "auth_frames_fit X \<longleftrightarrow>
     (\<forall>f. auth_frame X f \<longrightarrow>
        (\<exists>cs. ix_frame_chunks X f = Some cs \<and> length (concat cs) \<le> MAX_AUTH_FRAME \<and> ix_reserve X (length (concat cs))))"

lemma auth_frame_written:
  assumes "auth_frames_fit X" "auth_frame X f"
  obtains bs where "write_frame_limited X f MAX_AUTH_FRAME = Inr bs"
  using assms unfolding auth_frames_fit_def write_frame_limited_eq MAX_AUTH_FRAME_def usize_max_def by fastforce

lemma made_proof:
  assumes "auth_laws X" "length key = 32"
  obtains s where "encoded_proof X key domain t = Inr s" "verify_proof X key domain t s = Inr ()" "encoded_value X s"
proof -
  from auth_lawsD(3) [OF assms] obtain d where d: "ix_hmac X key (proof_input domain t) = Some d" "length d = 32"
    by blast
  with that [of "ix_b64_encode X d"] auth_lawsD(5) [OF assms(1) d(2)] show thesis
    by (auto simp: encoded_proof_eq verify_proof_eq encoded_value_def)
qed

lemma handshake_run:
  assumes profile: "validate_profile_name profile = Inr ()"
    and token: "decode_base64_32 X ''IPC token'' token = Inr key" and call_key: "length call_key = 32"
    and digest: "canonical_request_digest X request = Inr digest"
    and nonces: "length client_nonce = 32" "\<And>i. length (draws i) = 32" "draws k \<noteq> client_nonce"
    and laws: "auth_laws X" "frame_json_laws X" "auth_frames_fit X"
  shows "\<exists>to_server to_client ctx ctx'.
    authenticate_client_for_request X profile token call_key request client_nonce
      \<lparr>w_in = to_client, w_out = []\<rparr> = (\<lparr>w_in = [], w_out = to_server\<rparr>, Inr ()) \<and>
    authenticate_server X profile token call_key draws \<lparr>w_in = to_server, w_out = []\<rparr> =
      Some (\<lparr>w_in = [], w_out = to_client\<rparr>, Inr ctx) \<and>
    verify_request X call_key request ctx = (ctx', Inr ())"
proof -
  from auth_lawsD(3) [OF laws(1) call_key] obtain c where
    c: "ix_hmac X call_key (commitment_input digest) = Some c" "length c = 32" by blast
  from draw_nonce_terminates [of draws 0 k] nonces(3) obtain sn where sn: "draw_nonce client_nonce draws 0 = Some sn"
    by auto
  with draw_nonce_eq [OF sn] nonces(2) have n: "client_nonce \<noteq> sn" "length sn = 32" by auto
  have key: "length key = 32" using token by (simp add: decode_base64_32_eq)
  define t where "t = proof_transcript X profile key client_nonce sn (Some c)"
  have i: "pt_intent_commitment t = Some c" "pt_server_nonce t = sn" by (simp_all add: t_def proof_transcript_def)
  obtain sp where sp: "encoded_proof X key SERVER_PROOF_DOMAIN t = Inr sp" "verify_proof X key SERVER_PROOF_DOMAIN t sp = Inr ()"
    "encoded_value X sp" by (rule made_proof [OF laws(1) key])
  obtain cp where cp: "encoded_proof X key CLIENT_PROOF_DOMAIN t = Inr cp" "verify_proof X key CLIENT_PROOF_DOMAIN t cp = Inr ()"
    "encoded_value X cp" by (rule made_proof [OF laws(1) key])
  obtain scp where scp: "encoded_proof X call_key SERVER_CALL_PROOF_DOMAIN t = Inr scp"
    "verify_proof X call_key SERVER_CALL_PROOF_DOMAIN t scp = Inr ()" "encoded_value X scp"
    by (rule made_proof [OF laws(1) call_key])
  obtain ccp where ccp: "encoded_proof X call_key CLIENT_CALL_PROOF_DOMAIN t = Inr ccp"
    "verify_proof X call_key CLIENT_CALL_PROOF_DOMAIN t ccp = Inr ()" "encoded_value X ccp"
    by (rule made_proof [OF laws(1) call_key])
  let ?hello = "AuthHello IPC_PROTOCOL_VERSION (ix_b64_encode X client_nonce) (Some (ix_b64_encode X c))"
  let ?challenge = "AuthChallenge \<lparr>ch_version = IPC_PROTOCOL_VERSION, ch_server_nonce = ix_b64_encode X sn,
    ch_server_proof = sp, ch_server_call_proof = Some scp\<rparr>"
  let ?response = "AuthResponse cp (Some ccp)"
  obtain hello where h: "write_frame_limited X ?hello MAX_AUTH_FRAME = Inr hello"
    by (rule auth_frame_written [OF laws(3), of ?hello]) (use nonces(1) c(2) in \<open>auto simp: encoded_value_def\<close>)
  obtain challenge where ch: "write_frame_limited X ?challenge MAX_AUTH_FRAME = Inr challenge"
    by (rule auth_frame_written [OF laws(3), of ?challenge]) (use sp(3) scp(3) n(2) in \<open>auto simp: encoded_value_def\<close>)
  obtain response where r: "write_frame_limited X ?response MAX_AUTH_FRAME = Inr response"
    by (rule auth_frame_written [OF laws(3), of ?response]) (use cp(3) ccp(3) in \<open>auto simp: encoded_value_def\<close>)
  obtain accepted where a: "write_frame_limited X AuthAccepted MAX_AUTH_FRAME = Inr accepted"
    by (rule auth_frame_written [OF laws(3), of AuthAccepted]) auto
  note read = frames.read_write [OF laws(2) h, where rest = response] frames.read_write [OF laws(2) r, where rest = "[]"]
    frames.read_write [OF laws(2) ch, where rest = accepted] frames.read_write [OF laws(2) a, where rest = "[]"]
  have b64: "decode_base64_32 X l (ix_b64_encode X bs) = Inr bs" if "length bs = 32" for l bs
    using that auth_lawsD(5) [OF laws(1) that] by (simp add: decode_base64_32_eq)
  have ci: "request_intent_commitment X call_key request = Inr c"
    using digest c(1) by (simp add: request_intent_commitment_def)
  let ?ctx = "\<lparr>ctx_intent_commitment = Some c, ctx_request_verified = False\<rparr>"
  have "authenticate_client_for_request X profile token call_key request client_nonce
      \<lparr>w_in = challenge @ accepted, w_out = []\<rparr> = (\<lparr>w_in = [], w_out = hello @ response\<rparr>, Inr ())"
    using profile token ci b64 [OF n(2)] n(1) sp(2) scp(2) cp(1) ccp(1) h r read i
    by (simp add: authenticate_client_for_request_def authenticate_client_inner_def client_intent_def act_bind_def
        act_result_def act_ensure_def write_auth_frame_def read_auth_frame_def challenge_fields_def
        client_call_proofs_def flip: t_def)
  moreover have "authenticate_server X profile token call_key draws \<lparr>w_in = hello @ response, w_out = []\<rparr> =
      Some (\<lparr>w_in = [], w_out = challenge @ accepted\<rparr>, Inr ?ctx)"
    using profile token b64 [OF nonces(1)] b64 [OF c(2)] sn sp(1) scp(1) cp(2) ccp(2) ch a read i
    by (simp add: authenticate_server_def server_hello_def server_challenge_def hello_fields_def response_fields_def
        server_call_proof_def verify_client_call_proof_def act_bind_def act_result_def write_auth_frame_def
        read_auth_frame_def flip: t_def)
  moreover have "verify_request X call_key request ?ctx = (?ctx\<lparr>ctx_request_verified := True\<rparr>, Inr ())"
    using ci by (simp add: verify_request_def)
  ultimately show ?thesis by blast
qed

text \<open>C32: a frontend and a daemon that share the token and the call key, on a profile with a valid name, complete
  the handshake on each other's bytes whenever some nonce the daemon draws differs from the frontend's: the
  frontend ends without an error, the daemon's loop ends with a context, nothing is left unread, and the context
  accepts the request the frontend committed to.\<close>

theorem ipc_handshake_completes:
  assumes profile: "validate_profile_name profile = Inr ()"
    and token: "decode_base64_32 X ''IPC token'' token = Inr key" and call_key: "length call_key = 32"
    and digest: "canonical_request_digest X request = Inr digest"
    and nonces: "length client_nonce = 32" "\<And>i. length (draws i) = 32" "draws k \<noteq> client_nonce"
    and laws: "auth_laws X" "frame_json_laws X" "auth_frames_fit X"
  shows "\<exists>to_server to_client ctx ctx'.
    authenticate_client_for_request X profile token call_key request client_nonce
      \<lparr>w_in = to_client, w_out = []\<rparr> = (\<lparr>w_in = [], w_out = to_server\<rparr>, Inr ()) \<and>
    authenticate_server X profile token call_key draws \<lparr>w_in = to_server, w_out = []\<rparr> =
      Some (\<lparr>w_in = [], w_out = to_client\<rparr>, Inr ctx) \<and>
    verify_request X call_key request ctx = (ctx', Inr ())"
  by (rule handshake_run) (rule assms)+

subsection \<open>A sample handshake\<close>

text \<open>Frames as a tag and hexadecimal strings of 64 characters.\<close>

definition sample_opt :: "string option \<Rightarrow> bytes" where
  "sample_opt c = (case c of None \<Rightarrow> [] | Some s \<Rightarrow> as_bytes s)"

fun sample_text :: "ipc_frame \<Rightarrow> bytes list option" where
  "sample_text (AuthHello v n c) =
     (if v = IPC_PROTOCOL_VERSION \<and> length n = 64 \<and> pred_option (\<lambda>s. length s = 64) c
      then Some [[1], as_bytes n, sample_opt c] else None)"
| "sample_text (AuthChallenge c) =
     (if ch_version c = IPC_PROTOCOL_VERSION \<and> length (ch_server_nonce c) = 64 \<and>
         length (ch_server_proof c) = 64 \<and> pred_option (\<lambda>s. length s = 64) (ch_server_call_proof c)
      then Some [[2], as_bytes (ch_server_nonce c), as_bytes (ch_server_proof c), sample_opt (ch_server_call_proof c)]
      else None)"
| "sample_text (AuthResponse p c) =
     (if length p = 64 \<and> pred_option (\<lambda>s. length s = 64) c
      then Some [[3], as_bytes p, sample_opt c] else None)"
| "sample_text AuthAccepted = Some [[4]]"
| "sample_text f = None"

definition sample_str :: "nat \<Rightarrow> bytes \<Rightarrow> string" where
  "sample_str k bs = map char_of_byte (take 64 (drop (64 * k) bs))"

definition sample_opt_str :: "nat \<Rightarrow> bytes \<Rightarrow> string option" where
  "sample_opt_str k bs = (if length bs \<le> 64 * k then None else Some (sample_str k bs))"

definition sample_parse :: "bytes \<Rightarrow> ipc_frame option" where
  "sample_parse bs =
     (case bs of
        [] \<Rightarrow> None
      | t # bs \<Rightarrow>
          if t = 1 then Some (AuthHello IPC_PROTOCOL_VERSION (sample_str 0 bs) (sample_opt_str 1 bs))
          else if t = 2 then Some (AuthChallenge \<lparr>ch_version = IPC_PROTOCOL_VERSION, ch_server_nonce = sample_str 0 bs,
            ch_server_proof = sample_str 1 bs, ch_server_call_proof = sample_opt_str 2 bs\<rparr>)
          else if t = 3 then Some (AuthResponse (sample_str 0 bs) (sample_opt_str 1 bs))
          else Some AuthAccepted)"

definition auth_ext :: ipc_ext where
  "auth_ext = sample_ipc_ext\<lparr>ix_frame_chunks := sample_text, ix_frame_parse := sample_parse\<rparr>"

lemma map_char_of_byte [simp]: "map char_of_byte (as_bytes s) = s"
  by (simp add: as_bytes_def comp_def)

lemma auth_ext_parse: "sample_text f = Some cs \<Longrightarrow> sample_parse (concat cs) = Some f"
  by (cases f)
    (auto simp: sample_parse_def sample_str_def sample_opt_str_def sample_opt_def split: if_splits option.splits)

lemma auth_ext_laws: "auth_laws auth_ext" "frame_json_laws auth_ext" "auth_frames_fit auth_ext"
proof -
  show "auth_laws auth_ext" by (auto simp: auth_laws_def auth_ext_def sample_ipc_ext_def hex_lower_chars(1))
  show "frame_json_laws auth_ext" by (simp add: frame_json_laws_def auth_ext_def auth_ext_parse)
  have e: "encoded_value auth_ext s \<Longrightarrow> length s = 64" for s
    by (auto simp: encoded_value_def auth_ext_def sample_ipc_ext_def hex_lower_chars(1))
  have "\<exists>cs. sample_text f = Some cs \<and> length (concat cs) \<le> MAX_AUTH_FRAME" if "auth_frame auth_ext f" for f
    using that by (cases f) (auto simp: e sample_opt_def MAX_AUTH_FRAME_def split: option.splits)
  then show "auth_frames_fit auth_ext" by (simp add: auth_frames_fit_def auth_ext_def sample_ipc_ext_def)
qed

definition sample_token :: string where
  "sample_token = hex_lower (replicate 32 7)"

lemma sample_inputs:
  shows "validate_profile_name ''dev'' = Inr ()" "decode_base64_32 auth_ext ''IPC token'' sample_token = Inr (replicate 32 7)"
    "\<exists>d. canonical_request_digest auth_ext (Download sample_download) = Inr d"
proof -
  show "validate_profile_name ''dev'' = Inr ()" by code_simp
  show "decode_base64_32 auth_ext ''IPC token'' sample_token = Inr (replicate 32 7)"
    by (simp add: decode_base64_32_eq auth_ext_def sample_ipc_ext_def sample_token_def)
  show "\<exists>d. canonical_request_digest auth_ext (Download sample_download) = Inr d"
    using sample_download_digest(2) by (simp add: canonical_request_digest_def auth_ext_def)
qed

lemmas sample_handshake =
  handshake_run [where X = auth_ext and client_nonce = "replicate 32 1" and draws = "\<lambda>i. replicate 32 (word_of_nat i)"
    and k = 0 and call_key = "replicate 32 2", OF sample_inputs(1,2) _ _ _ _ _ auth_ext_laws]

theorem ipc_handshake_completes_witness:
  "\<exists>to_server to_client ctx ctx'.
    authenticate_client_for_request auth_ext ''dev'' sample_token (replicate 32 2) (Download sample_download)
      (replicate 32 0) \<lparr>w_in = to_client, w_out = []\<rparr> = (\<lparr>w_in = [], w_out = to_server\<rparr>, Inr ()) \<and>
    authenticate_server auth_ext ''dev'' sample_token (replicate 32 2) (\<lambda>i. replicate 32 (word_of_nat i))
      \<lparr>w_in = to_server, w_out = []\<rparr> = Some (\<lparr>w_in = [], w_out = to_client\<rparr>, Inr ctx) \<and>
    verify_request auth_ext (replicate 32 2) (Download sample_download) ctx = (ctx', Inr ())"
proof -
  from sample_inputs(3) obtain d where d: "canonical_request_digest auth_ext (Download sample_download) = Inr d" ..
  show ?thesis
    by (rule ipc_handshake_completes [where k = 1, OF sample_inputs(1,2) _ d _ _ _ auth_ext_laws])
      (simp_all add: numeral_eq_Suc)
qed

theorem ipc_handshake_agreement_witness:
  "\<exists>w w' ctx v. authenticate_server auth_ext ''dev'' sample_token (replicate 32 2)
      (\<lambda>i. replicate 32 (word_of_nat i)) w = Some (w', Inr ctx) \<and>
    (\<exists>key t u. decode_base64_32 auth_ext ''IPC token'' sample_token = Inr key \<and>
      server_transcript auth_ext ''dev'' sample_token (\<lambda>i. replicate 32 (word_of_nat i)) (w_in w) = Some t \<and>
      client_transcript auth_ext ''dev'' sample_token (Some (replicate 32 2)) (Some (Download sample_download))
        (replicate 32 1) (w_in (v :: wire)) = Some u \<and>
      (mac_collision auth_ext key (proof_input CLIENT_PROOF_DOMAIN t) (proof_input CLIENT_PROOF_DOMAIN u) \<or>
       t = u \<and> ''dev'' = ''dev'' \<and> map_option Inr (ctx_intent_commitment ctx) =
         Some (request_intent_commitment auth_ext (replicate 32 2) (Download sample_download))))"
proof -
  from sample_inputs(3) obtain d where d: "canonical_request_digest auth_ext (Download sample_download) = Inr d" ..
  from sample_handshake [OF _ d] obtain to_server to_client ctx where
    r: "authenticate_client_for_request auth_ext ''dev'' sample_token (replicate 32 2) (Download sample_download)
      (replicate 32 1) \<lparr>w_in = to_client, w_out = []\<rparr> = (\<lparr>w_in = [], w_out = to_server\<rparr>, Inr ())"
    "authenticate_server auth_ext ''dev'' sample_token (replicate 32 2) (\<lambda>i. replicate 32 (word_of_nat i))
      \<lparr>w_in = to_server, w_out = []\<rparr> = Some (\<lparr>w_in = [], w_out = to_client\<rparr>, Inr ctx)"
    by (auto simp: numeral_eq_Suc)
  show ?thesis
    by ((rule exI)+, rule conjI, rule r(2), rule ipc_handshake_agreement [OF r(2,1) _ auth_ext_laws(1,2)]) simp_all
qed

theorem ipc_context_single_request_witness:
  "\<exists>ctx ctx' d. verify_request auth_ext (replicate 32 2) (Download sample_download) ctx = (ctx', Inr ()) \<and>
    canonical_request_digest auth_ext (Download sample_download) = Inr d \<and>
    (\<forall>call_key request. verify_request auth_ext call_key request ctx' =
       (ctx', Inl ''IPC authorization context was already consumed''))"
proof -
  from sample_inputs(3) obtain d where d: "canonical_request_digest auth_ext (Download sample_download) = Inr d" ..
  then obtain c where c: "request_intent_commitment auth_ext (replicate 32 2) (Download sample_download) = Inr c"
    by (simp add: request_intent_commitment_def auth_ext_def sample_ipc_ext_def)
  let ?ctx = "\<lparr>ctx_intent_commitment = Some c, ctx_request_verified = False\<rparr>"
  have v: "verify_request auth_ext (replicate 32 2) (Download sample_download) ?ctx =
      (?ctx\<lparr>ctx_request_verified := True\<rparr>, Inr ())" using c by (simp add: verify_request_def)
  from ipc_context_single_request [OF v _ sample_download_digest(1) sample_download_digest(1)] c v d
  show ?thesis by auto
qed

end
