(* ===== verification/Ipc_Session.thy ===== *)
theory Ipc_Session
  imports Ipc_Auth
begin

text \<open>
  The encrypted channel between a frontend and the daemon (crates/serctl_protocol/src/v6.rs, without the
  stream adapter): the prelude that commits to one root request, the profile call proof, the handshake,
  the direction keys, the numbered and sealed frames and the two sessions.

  The nonces are arguments, as in the older handshake; a deadline that passes is the end of the input.
  JSON, base64, hexadecimal, the hashes, the key derivation and the cipher are parameters.
\<close>

section \<open>Definitions\<close>

definition IPC_PROTOCOL_VERSION_V9 :: u16 where "IPC_PROTOCOL_VERSION_V9 = 9"
definition IPC_PROTOCOL_VERSION_V6 :: u16 where "IPC_PROTOCOL_VERSION_V6 = IPC_PROTOCOL_VERSION_V9"
definition V6_MAX_AUTH_FRAME :: nat where "V6_MAX_AUTH_FRAME = 4 * 1024"
definition V6_MAX_DATA_FRAME :: nat where "V6_MAX_DATA_FRAME = 64 * 1024 * 1024"
definition V6_AEAD_TAG_BYTES :: nat where "V6_AEAD_TAG_BYTES = 16"
definition V6_MAX_PLAINTEXT_FRAME :: nat where
  "V6_MAX_PLAINTEXT_FRAME = V6_MAX_DATA_FRAME - V6_AEAD_TAG_BYTES"
definition V6_MAX_OPERATION_KIND_BYTES :: nat where "V6_MAX_OPERATION_KIND_BYTES = 32"

definition SERVER_MAC_DOMAIN :: bytes where
  "SERVER_MAC_DOMAIN = as_bytes ''serctl/ipc/v6/auth/server/v1'' @ [0]"
definition CLIENT_MAC_DOMAIN :: bytes where
  "CLIENT_MAC_DOMAIN = as_bytes ''serctl/ipc/v6/auth/client/v1'' @ [0]"
definition KEY_INFO_DOMAIN :: bytes where
  "KEY_INFO_DOMAIN = as_bytes ''serctl/ipc/v6/keys/v1'' @ [0]"
definition FRAME_AAD_DOMAIN :: bytes where
  "FRAME_AAD_DOMAIN = as_bytes ''serctl/ipc/v6/frame/v1'' @ [0]"
definition PROFILE_PROOF_DOMAIN :: bytes where
  "PROFILE_PROOF_DOMAIN = as_bytes ''serctl/ipc/v6/profile-proof/v1'' @ [0]"

definition validate_plaintext_frame_len :: "nat \<Rightarrow> unit res" where
  "validate_plaintext_frame_len len =
     ensure (len \<le> V6_MAX_PLAINTEXT_FRAME) ''IPC v6 plaintext frame exceeds its size cap'' (Inr ())"

definition validate_ciphertext_frame_len :: "nat \<Rightarrow> unit res" where
  "validate_ciphertext_frame_len len =
     ensure (V6_AEAD_TAG_BYTES \<le> len \<and> len \<le> V6_MAX_DATA_FRAME)
       ''IPC v6 encrypted data frame length is invalid'' (Inr ())"

definition DIRECTION_C2D :: u8 where "DIRECTION_C2D = 0"
definition DIRECTION_D2C :: u8 where "DIRECTION_D2C = 1"

subsection \<open>The prelude\<close>

record v6_prelude =
  pl_protocol_version :: u16
  pl_client_session_id :: bytes
  pl_request_id :: bytes
  pl_operation_kind :: string
  pl_profile_id :: "bytes option"
  pl_profile_name :: "string option"
  pl_grant_id :: "bytes option"
  pl_pop_signature :: "string option"
  pl_profile_proof :: "string option"
  pl_requested_deadline_unix_ms :: u64
  pl_root_request_hash :: bytes

record profile_proof_payload =
  pp_protocol_version :: u16
  pp_client_session_id :: bytes
  pp_request_id :: bytes
  pp_operation_kind :: string
  pp_profile_id :: "bytes option"
  pp_profile_name :: "string option"
  pp_grant_id :: "bytes option"
  pp_requested_deadline_unix_ms :: u64
  pp_root_request_hash :: bytes

datatype v6_auth_frame =
  V6Hello u16 bytes bytes v6_prelude
| V6Challenge u16 bytes string
| V6Response string

text \<open>The other crates: \<open>serde_json\<close> on the types of this file, \<open>hex\<close>, \<open>hkdf\<close> and
  \<open>chacha20poly1305\<close>. \<open>cx_seal key nonce aad msg\<close> and \<open>cx_open\<close> are encryption and decryption.\<close>

record chan_ext =
  cx_ipc :: ipc_ext
  cx_prelude_json :: "v6_prelude \<Rightarrow> bytes option"
  cx_proof_json :: "profile_proof_payload \<Rightarrow> bytes option"
  cx_auth_json :: "v6_auth_frame \<Rightarrow> bytes option"
  cx_auth_parse :: "bytes \<Rightarrow> v6_auth_frame option"
  cx_hex_decode :: "string \<Rightarrow> bytes option"
  cx_hkdf :: "bytes \<Rightarrow> bytes \<Rightarrow> bytes \<Rightarrow> nat \<Rightarrow> bytes option"
  cx_seal :: "bytes \<Rightarrow> bytes \<Rightarrow> bytes \<Rightarrow> bytes \<Rightarrow> bytes option"
  cx_open :: "bytes \<Rightarrow> bytes \<Rightarrow> bytes \<Rightarrow> bytes \<Rightarrow> bytes option"

definition cx_sha256 :: "chan_ext \<Rightarrow> bytes \<Rightarrow> bytes" where
  "cx_sha256 C = ix_sha256 (cx_ipc C)"

text \<open>\<open>serde_json::to_vec\<close> and \<open>serde_json::from_slice\<close> on frames.\<close>

definition frame_to_vec :: "chan_ext \<Rightarrow> ipc_frame \<Rightarrow> bytes res" where
  "frame_to_vec C frame = ok_or (map_option concat (ix_frame_chunks (cx_ipc C) frame)) ''serialize IPC frame''"

definition frame_from_slice :: "chan_ext \<Rightarrow> bytes \<Rightarrow> ipc_frame res" where
  "frame_from_slice C bs = ok_or (ix_frame_parse (cx_ipc C) bs) ''parse IPC frame''"

definition root_request_hash :: "chan_ext \<Rightarrow> ipc_frame \<Rightarrow> bytes res" where
  "root_request_hash C frame = and_then (frame_to_vec C frame) (\<lambda>bs. Inr (cx_sha256 C bs))"

definition instance_id_from_hex :: "chan_ext \<Rightarrow> string \<Rightarrow> bytes res" where
  "instance_id_from_hex C encoded =
     and_then (ok_or (cx_hex_decode C encoded) ''instance id must be hex'') (\<lambda>bs.
     ensure (length bs = 16) ''instance id must decode to 16 bytes'' (Inr bs))"

definition secret_from_base64 :: "chan_ext \<Rightarrow> string \<Rightarrow> bytes res" where
  "secret_from_base64 C encoded =
     and_then (ok_or (ix_b64_decode (cx_ipc C) encoded) ''decode daemon activation secret'') (\<lambda>decoded.
     ensure (length decoded = 32) ''daemon activation secret must decode to 32 bytes'' (Inr decoded))"

definition ipc_frame_kind :: "ipc_frame \<Rightarrow> string" where
  "ipc_frame_kind frame =
     (case frame of
        AuthHello _ _ _ \<Rightarrow> ''auth'' | AuthResponse _ _ \<Rightarrow> ''auth'' | AuthChallenge _ \<Rightarrow> ''auth'' | AuthAccepted \<Rightarrow> ''auth''
      | Exec _ _ \<Rightarrow> ''ssh.exec''
      | ConnectionIdentity _ _ \<Rightarrow> ''ssh.connection-identity''
      | Shell _ _ \<Rightarrow> ''ssh.pty'' | ShellInput _ \<Rightarrow> ''ssh.pty''
      | Status \<Rightarrow> ''daemon.status''
      | Shutdown _ \<Rightarrow> ''daemon.shutdown''
      | Unlock _ \<Rightarrow> ''daemon.unlock''
      | ListProfiles \<Rightarrow> ''daemon.list-profiles''
      | IssueGrant _ \<Rightarrow> ''daemon.issue-grant''
      | ListDir _ _ \<Rightarrow> ''sftp.list''
      | CreateDir _ _ \<Rightarrow> ''sftp.write''
      | Download _ \<Rightarrow> ''transfer.read''
      | UploadBegin _ \<Rightarrow> ''transfer.write'' | UploadChunk _ \<Rightarrow> ''transfer.write'' | UploadEnd \<Rightarrow> ''transfer.write''
      | TransferStatus _ _ \<Rightarrow> ''transfer.status''
      | TransferCancel _ _ \<Rightarrow> ''transfer.cancel''
      | TunnelOpen _ \<Rightarrow> ''forward'' | TunnelStop \<Rightarrow> ''forward''
      | ManagedTunnelOpen spec _ \<Rightarrow>
          (case ts_mode spec of
             ModeLocal \<Rightarrow> ''forward.local/open''
           | ModeRemote \<Rightarrow> ''forward.remote/open''
           | ModeDynamic \<Rightarrow> ''forward.dynamic/open'')
      | ManagedTunnelStatus _ _ \<Rightarrow> ''forward.status''
      | ManagedTunnelCancel _ _ \<Rightarrow> ''forward.cancel''
      | _ \<Rightarrow> ''stream'')"

definition kind_char :: "char \<Rightarrow> bool" where
  "kind_char c \<longleftrightarrow>
     97 \<le> char_code c \<and> char_code c \<le> 122 \<or> is_ascii_digit c \<or>
     c = CHR ''.'' \<or> c = CHR ''-'' \<or> c = CHR ''_'' \<or> c = CHR ''/''"

definition validate_prelude :: "v6_prelude \<Rightarrow> unit res" where
  "validate_prelude p =
     ensure (pl_protocol_version p = IPC_PROTOCOL_VERSION_V6) ''unsupported IPC v9 prelude version'' (
     ensure (pl_operation_kind p \<noteq> [] \<and> length (pl_operation_kind p) \<le> V6_MAX_OPERATION_KIND_BYTES \<and>
         list_all kind_char (pl_operation_kind p))
       ''operation kind must be 1..=32 bytes of [a-z0-9._/-]'' (
     ensure (\<not> (pl_profile_id p \<noteq> None \<and> pl_grant_id p \<noteq> None))
       ''prelude must name at most one of profile_id and grant_id'' (
     ensure ((pl_grant_id p \<noteq> None) = (pl_pop_signature p \<noteq> None))
       ''a grant prelude must carry a proof-of-possession signature, and only a grant prelude may'' (
     ensure ((pl_profile_id p \<noteq> None) = (pl_profile_proof p \<noteq> None))
       ''a profile-id prelude must carry a profile call proof, and only a profile-id prelude may'' (
     case pl_profile_name p of
       None \<Rightarrow> Inr ()
     | Some name \<Rightarrow>
         ensure (name \<noteq> [] \<and> length name \<le> 128 \<and> \<not> list_ex unsafe_name_char (chars name))
           ''prelude profile name must satisfy the vault profile-name rules'' (Inr ()))))))"

definition prelude_digest :: "chan_ext \<Rightarrow> v6_prelude \<Rightarrow> bytes res" where
  "prelude_digest C p =
     and_then (ok_or (cx_prelude_json C p) ''serialize v6 request prelude'') (\<lambda>bs. Inr (cx_sha256 C bs))"

definition proof_payload :: "v6_prelude \<Rightarrow> profile_proof_payload" where
  "proof_payload p =
     \<lparr>pp_protocol_version = pl_protocol_version p, pp_client_session_id = pl_client_session_id p,
      pp_request_id = pl_request_id p, pp_operation_kind = pl_operation_kind p,
      pp_profile_id = pl_profile_id p, pp_profile_name = pl_profile_name p,
      pp_grant_id = pl_grant_id p, pp_requested_deadline_unix_ms = pl_requested_deadline_unix_ms p,
      pp_root_request_hash = pl_root_request_hash p\<rparr>"

definition profile_proof_message :: "chan_ext \<Rightarrow> v6_prelude \<Rightarrow> bytes res" where
  "profile_proof_message C p =
     ensure (pl_profile_id p \<noteq> None) ''profile proof requires a profile id'' (
     ensure (pl_grant_id p = None) ''grant requests cannot carry a profile proof'' (
     and_then (ok_or (cx_proof_json C (proof_payload p)) ''serialize profile call-proof payload'') (\<lambda>encoded.
     Inr (PROFILE_PROOF_DOMAIN @ encoded))))"

definition profile_prelude_proof :: "chan_ext \<Rightarrow> bytes \<Rightarrow> v6_prelude \<Rightarrow> string res" where
  "profile_prelude_proof C call_key p =
     and_then (profile_proof_message C p) (\<lambda>message.
     and_then (ok_or (ix_hmac (cx_ipc C) call_key message) ''invalid profile call key'') (\<lambda>mac.
     Inr (ix_b64_encode (cx_ipc C) mac)))"

definition verify_profile_prelude_proof :: "chan_ext \<Rightarrow> bytes \<Rightarrow> string \<Rightarrow> v6_prelude \<Rightarrow> unit res" where
  "verify_profile_prelude_proof C call_key encoded p =
     ensure (length encoded \<le> 64) ''profile call proof is oversized'' (
     and_then (ok_or (ix_b64_decode (cx_ipc C) encoded) ''decode profile call proof'') (\<lambda>provided.
     ensure (length provided = 32) ''profile call proof must decode to 32 bytes'' (
     and_then (profile_prelude_proof C call_key p) (\<lambda>proof.
     and_then (ok_or (ix_b64_decode (cx_ipc C) proof) ''invalid base64'') (\<lambda>expected.
     ensure (expected = provided) ''profile call proof verification failed'' (Inr ()))))))"

subsection \<open>Handshake codes and keys\<close>

definition transcript_input :: "u16 \<Rightarrow> bytes \<Rightarrow> bytes \<Rightarrow> bytes \<Rightarrow> bytes \<Rightarrow> bytes" where
  "transcript_input version instance_id client_nonce server_nonce digest =
     be16 version @ instance_id @ client_nonce @ server_nonce @ digest"

definition role_mac :: "chan_ext \<Rightarrow> bytes \<Rightarrow> bytes \<Rightarrow> bytes \<Rightarrow> bytes res" where
  "role_mac C secret domain input =
     ok_or (ix_hmac (cx_ipc C) secret (domain @ input)) ''invalid IPC v6 activation secret''"

definition verify_role_mac :: "chan_ext \<Rightarrow> bytes \<Rightarrow> bytes \<Rightarrow> bytes \<Rightarrow> string \<Rightarrow> unit res" where
  "verify_role_mac C secret domain input encoded =
     and_then (ok_or (ix_b64_decode (cx_ipc C) encoded) ''decode IPC v6 handshake MAC'') (\<lambda>provided.
     ensure (length provided = 32) ''IPC v6 handshake MAC must decode to 32 bytes'' (
     and_then (role_mac C secret domain input) (\<lambda>expected.
     ensure (expected = provided) ''IPC v6 handshake MAC mismatch'' (Inr ()))))"

definition derive_keys :: "chan_ext \<Rightarrow> bytes \<Rightarrow> u16 \<Rightarrow> bytes \<Rightarrow> bytes \<Rightarrow> (bytes \<times> bytes) res" where
  "derive_keys C secret version instance_id input =
     (let salt = cx_sha256 C input;
          info = \<lambda>direction. KEY_INFO_DOMAIN @ be16 version @ instance_id @ [direction] in
      and_then (ok_or (cx_hkdf C salt secret (info DIRECTION_C2D) 64) ''IPC v6 key derivation failed'') (\<lambda>okm.
      let c2d = take 32 okm in
      and_then (ok_or (cx_hkdf C salt secret (info DIRECTION_D2C) 64) ''IPC v6 key derivation failed'') (\<lambda>okm.
      Inr (c2d, take 32 okm))))"

subsection \<open>Numbered and sealed frames\<close>

definition frame_nonce :: "u8 \<Rightarrow> u64 \<Rightarrow> bytes" where
  "frame_nonce direction counter = [direction, 0, 0, 0] @ be64 counter"

definition frame_aad :: "u16 \<Rightarrow> bytes \<Rightarrow> u8 \<Rightarrow> u32 \<Rightarrow> bytes" where
  "frame_aad version instance_id direction ciphertext_len =
     FRAME_AAD_DOMAIN @ be16 version @ instance_id @ [direction] @ be32 ciphertext_len"

record direction_cipher =
  dc_key :: bytes
  dc_send_counter :: u64

record shared_v6_state =
  st_version :: u16
  st_instance_id :: bytes
  st_c2d :: direction_cipher
  st_d2c :: direction_cipher
  st_c2d_recv_counter :: u64
  st_d2c_recv_counter :: u64

definition cipher_state :: "u8 \<Rightarrow> shared_v6_state \<Rightarrow> direction_cipher res" where
  "cipher_state direction st =
     (if direction = DIRECTION_C2D then Inr (st_c2d st)
      else if direction = DIRECTION_D2C then Inr (st_d2c st)
      else Inl ''unknown IPC v6 frame direction'')"

definition set_send_counter :: "u8 \<Rightarrow> u64 \<Rightarrow> shared_v6_state \<Rightarrow> shared_v6_state" where
  "set_send_counter direction n st =
     (if direction = DIRECTION_C2D then st\<lparr>st_c2d := (st_c2d st)\<lparr>dc_send_counter := n\<rparr>\<rparr>
      else st\<lparr>st_d2c := (st_d2c st)\<lparr>dc_send_counter := n\<rparr>\<rparr>)"

definition u32_try_from :: "nat \<Rightarrow> string \<Rightarrow> u32 res" where
  "u32_try_from n msg = (if n < 2 ^ 32 then Inr (word_of_nat n) else Inl msg)"

definition encrypt_frame :: "chan_ext \<Rightarrow> u8 \<Rightarrow> bytes \<Rightarrow> (shared_v6_state, bytes) action" where
  "encrypt_frame C direction plaintext st =
     (case
        (and_then (validate_plaintext_frame_len (length plaintext)) (\<lambda>_.
         and_then (cipher_state direction st) (\<lambda>cs.
         and_then (ok_or (checked_add (dc_send_counter cs) 1) ''IPC v6 frame counter overflow'') (\<lambda>next_counter.
         let nonce = frame_nonce direction (dc_send_counter cs) in
         and_then (u32_try_from (length plaintext + 16) ''IPC v6 frame exceeds the wire length limit'')
           (\<lambda>ciphertext_len.
         let aad = frame_aad (st_version st) (st_instance_id st) direction ciphertext_len in
         and_then (ok_or (cx_seal C (dc_key cs) nonce aad plaintext) ''IPC v6 frame encryption failed'')
           (\<lambda>ciphertext.
         and_then (validate_ciphertext_frame_len (length ciphertext)) (\<lambda>_.
         Inr (next_counter, ciphertext)))))))) of
        Inl e \<Rightarrow> (st, Inl e)
      | Inr (next_counter, ciphertext) \<Rightarrow> (set_send_counter direction next_counter st, Inr ciphertext))"

definition decrypt_frame :: "chan_ext \<Rightarrow> u8 \<Rightarrow> bytes \<Rightarrow> u64 \<Rightarrow> shared_v6_state \<Rightarrow> bytes res" where
  "decrypt_frame C direction ciphertext expected_counter st =
     and_then (validate_ciphertext_frame_len (length ciphertext)) (\<lambda>_.
     and_then (cipher_state direction st) (\<lambda>cs.
     and_then (u32_try_from (length ciphertext) ''IPC v6 frame exceeds the wire length limit'') (\<lambda>ciphertext_len.
     let nonce = frame_nonce direction expected_counter;
         aad = frame_aad (st_version st) (st_instance_id st) direction ciphertext_len in
     ok_or (cx_open C (dc_key cs) nonce aad ciphertext) ''IPC v6 frame authentication failed'')))"

definition expect_next_counter :: "u8 \<Rightarrow> (shared_v6_state, u64) action" where
  "expect_next_counter direction st =
     (if direction = DIRECTION_C2D then
        (case checked_add (st_c2d_recv_counter st) 1 of
           None \<Rightarrow> (st, Inl ''IPC v6 receive counter overflow'')
         | Some n \<Rightarrow> (st\<lparr>st_c2d_recv_counter := n\<rparr>, Inr (st_c2d_recv_counter st)))
      else if direction = DIRECTION_D2C then
        (case checked_add (st_d2c_recv_counter st) 1 of
           None \<Rightarrow> (st, Inl ''IPC v6 receive counter overflow'')
         | Some n \<Rightarrow> (st\<lparr>st_d2c_recv_counter := n\<rparr>, Inr (st_d2c_recv_counter st)))
      else (st, Inl ''unknown IPC v6 frame direction''))"

subsection \<open>Handshake frames on the wire\<close>

definition write_handshake_frame :: "chan_ext \<Rightarrow> v6_auth_frame \<Rightarrow> (wire, unit) action" where
  "write_handshake_frame C frame w =
     (case
        (and_then (ok_or (cx_auth_json C frame) ''serialize IPC v6 handshake frame'') (\<lambda>json.
         ensure (length json \<le> V6_MAX_AUTH_FRAME) ''IPC v6 handshake frame exceeds its size cap'' (
         and_then (u32_try_from (length json) ''IPC v6 handshake frame length overflow'') (\<lambda>len.
         Inr (be32 len @ json))))) of
        Inl e \<Rightarrow> (w, Inl e)
      | Inr bs \<Rightarrow> (w\<lparr>w_out := w_out w @ bs\<rparr>, Inr ()))"

text \<open>\<open>read_exact\<close>: the next \<open>n\<close> bytes, or an error when the input ends before them.\<close>

definition read_exact :: "nat \<Rightarrow> (wire, bytes) action" where
  "read_exact n w =
     (if n \<le> length (w_in w) then (w\<lparr>w_in := drop n (w_in w)\<rparr>, Inr (take n (w_in w)))
      else (w\<lparr>w_in := []\<rparr>, Inl ''early eof''))"

definition read_handshake_frame :: "chan_ext \<Rightarrow> (wire, v6_auth_frame) action" where
  "read_handshake_frame C =
     act_bind (read_exact 4) (\<lambda>lenbuf.
     let len = be_value lenbuf in
     act_ensure (len \<le> V6_MAX_AUTH_FRAME) ''IPC v6 handshake frame exceeds its size cap'' (
     act_bind (read_exact len) (\<lambda>json.
     act_result (ok_or (cx_auth_parse C json) ''parse IPC v6 handshake frame''))))"

subsection \<open>Sessions\<close>

record v6_client_session =
  cs_state :: shared_v6_state
  cs_root_request_hash :: bytes
  cs_root_sent :: bool

record v6_server_session =
  ss_state :: shared_v6_state
  ss_prelude :: v6_prelude
  ss_root_received :: bool

definition write_data_frame :: "chan_ext \<Rightarrow> u8 \<Rightarrow> bytes \<Rightarrow> (wire \<times> shared_v6_state, unit) action" where
  "write_data_frame C direction plaintext = (\<lambda>(w, st).
     (case encrypt_frame C direction plaintext st of
        (st, Inl e) \<Rightarrow> ((w, st), Inl e)
      | (st, Inr ciphertext) \<Rightarrow>
          (case u32_try_from (length ciphertext) ''IPC v6 frame length overflow'' of
             Inl e \<Rightarrow> ((w, st), Inl e)
           | Inr len \<Rightarrow> ((w\<lparr>w_out := w_out w @ be32 len @ ciphertext\<rparr>, st), Inr ()))))"

definition read_data_frame :: "chan_ext \<Rightarrow> u8 \<Rightarrow> (wire \<times> shared_v6_state, bytes option) action" where
  "read_data_frame C direction = (\<lambda>(w, st).
     if w_in w = [] then ((w, st), Inr None)
     else
       case read_exact 4 w of
         (w, Inl e) \<Rightarrow> ((w, st), Inl e)
       | (w, Inr lenbuf) \<Rightarrow>
           (case validate_ciphertext_frame_len (be_value lenbuf) of
              Inl e \<Rightarrow> ((w, st), Inl e)
            | Inr _ \<Rightarrow>
                (case read_exact (be_value lenbuf) w of
                   (w, Inl e) \<Rightarrow> ((w, st), Inl e)
                 | (w, Inr ciphertext) \<Rightarrow>
                     (case expect_next_counter direction st of
                        (st, Inl e) \<Rightarrow> ((w, st), Inl e)
                      | (st, Inr counter) \<Rightarrow>
                          ((w, st), and_then (decrypt_frame C direction ciphertext counter st)
                             (\<lambda>plaintext. Inr (Some plaintext)))))))"

definition on_client_state ::
  "(wire \<times> shared_v6_state, 'a) action \<Rightarrow> (wire \<times> v6_client_session, 'a) action" where
  "on_client_state f = (\<lambda>(w, s). case f (w, cs_state s) of ((w, st), r) \<Rightarrow> ((w, s\<lparr>cs_state := st\<rparr>), r))"

definition on_server_state ::
  "(wire \<times> shared_v6_state, 'a) action \<Rightarrow> (wire \<times> v6_server_session, 'a) action" where
  "on_server_state f = (\<lambda>(w, s). case f (w, ss_state s) of ((w, st), r) \<Rightarrow> ((w, s\<lparr>ss_state := st\<rparr>), r))"

definition client_send_frame :: "chan_ext \<Rightarrow> ipc_frame \<Rightarrow> (wire \<times> v6_client_session, unit) action" where
  "client_send_frame C frame =
     act_bind (act_result (frame_to_vec C frame)) (\<lambda>bs ws.
     (act_ensure (cs_root_sent (snd ws) \<or> cx_sha256 C bs = cs_root_request_hash (snd ws))
        ''IPC v6 root request does not match the handshake prelude'' (
      act_bind (on_client_state (write_data_frame C DIRECTION_C2D bs)) (\<lambda>_ (w, s).
      ((w, s\<lparr>cs_root_sent := True\<rparr>), Inr ())))) ws)"

definition client_recv_frame :: "chan_ext \<Rightarrow> (wire \<times> v6_client_session, ipc_frame option) action" where
  "client_recv_frame C =
     act_bind (on_client_state (read_data_frame C DIRECTION_D2C)) (\<lambda>bs.
     case bs of
       None \<Rightarrow> act_result (Inr None)
     | Some bs \<Rightarrow> act_result (and_then (frame_from_slice C bs) (\<lambda>frame. Inr (Some frame))))"

definition server_recv_root_request :: "chan_ext \<Rightarrow> (wire \<times> v6_server_session, ipc_frame) action" where
  "server_recv_root_request C ws =
     (let prelude = ss_prelude (snd ws) in
      act_ensure (\<not> ss_root_received (snd ws)) ''IPC v6 root request already consumed'' (
      act_bind (on_server_state (read_data_frame C DIRECTION_C2D)) (\<lambda>bs.
      act_bind (act_result (ok_or bs ''IPC v6 peer closed before sending the root request'')) (\<lambda>bs.
      act_ensure (cx_sha256 C bs = pl_root_request_hash prelude)
        ''IPC v6 root request does not match the handshake prelude'' (
      act_bind (act_result (frame_from_slice C bs)) (\<lambda>frame.
      act_ensure (ipc_frame_kind frame = pl_operation_kind prelude)
        ''IPC v6 root request kind does not match the prelude'' (
      (\<lambda>(w, s). ((w, s\<lparr>ss_root_received := True\<rparr>), Inr frame)))))))) ws)"

definition server_recv_frame :: "chan_ext \<Rightarrow> (wire \<times> v6_server_session, ipc_frame option) action" where
  "server_recv_frame C ws =
     act_ensure (ss_root_received (snd ws))
       ''IPC v6 server must consume the root request before stream frames'' (
     act_bind (on_server_state (read_data_frame C DIRECTION_C2D)) (\<lambda>bs.
     case bs of
       None \<Rightarrow> act_result (Inr None)
     | Some bs \<Rightarrow> act_result (and_then (frame_from_slice C bs) (\<lambda>frame. Inr (Some frame))))) ws"

definition server_send_frame :: "chan_ext \<Rightarrow> ipc_frame \<Rightarrow> (wire \<times> v6_server_session, unit) action" where
  "server_send_frame C frame =
     act_bind (act_result (frame_to_vec C frame)) (\<lambda>bs.
     on_server_state (write_data_frame C DIRECTION_D2C bs))"

subsection \<open>The handshake\<close>

definition new_v6_state :: "bytes \<Rightarrow> bytes \<times> bytes \<Rightarrow> shared_v6_state" where
  "new_v6_state instance_id keys =
     \<lparr>st_version = IPC_PROTOCOL_VERSION_V6, st_instance_id = instance_id,
      st_c2d = \<lparr>dc_key = fst keys, dc_send_counter = 0\<rparr>, st_d2c = \<lparr>dc_key = snd keys, dc_send_counter = 0\<rparr>,
      st_c2d_recv_counter = 0, st_d2c_recv_counter = 0\<rparr>"

definition v6_challenge_fields :: "v6_auth_frame \<Rightarrow> (bytes \<times> string) res" where
  "v6_challenge_fields frame =
     (case frame of
        V6Challenge version server_nonce server_mac \<Rightarrow>
          if version = IPC_PROTOCOL_VERSION_V6 then Inr (server_nonce, server_mac)
          else Inl ''unsupported IPC v6 challenge version''
      | _ \<Rightarrow> Inl ''unexpected IPC v6 server handshake frame'')"

definition v6_client_handshake ::
  "chan_ext \<Rightarrow> bytes \<Rightarrow> bytes \<Rightarrow> v6_prelude \<Rightarrow> bytes \<Rightarrow> (wire, v6_client_session) action" where
  "v6_client_handshake C secret instance_id prelude client_nonce =
     act_bind (act_result (validate_prelude prelude)) (\<lambda>_.
     act_bind (act_result (prelude_digest C prelude)) (\<lambda>digest.
     act_bind (write_handshake_frame C (V6Hello IPC_PROTOCOL_VERSION_V6 instance_id client_nonce prelude)) (\<lambda>_.
     act_bind (read_handshake_frame C) (\<lambda>challenge.
     act_bind (act_result (v6_challenge_fields challenge)) (\<lambda>(server_nonce, server_mac).
     act_ensure (client_nonce \<noteq> server_nonce) ''IPC v6 server reused the client nonce'' (
     let input = transcript_input IPC_PROTOCOL_VERSION_V6 instance_id client_nonce server_nonce digest in
     act_bind (act_result (verify_role_mac C secret SERVER_MAC_DOMAIN input server_mac)) (\<lambda>_.
     act_bind (act_result (role_mac C secret CLIENT_MAC_DOMAIN input)) (\<lambda>client_mac.
     act_bind (write_handshake_frame C (V6Response (ix_b64_encode (cx_ipc C) client_mac))) (\<lambda>_.
     act_bind (act_result (derive_keys C secret IPC_PROTOCOL_VERSION_V6 instance_id input)) (\<lambda>keys.
     act_result (Inr \<lparr>cs_state = new_v6_state instance_id keys,
       cs_root_request_hash = pl_root_request_hash prelude, cs_root_sent = False\<rparr>)))))))))))"

definition v6_hello_fields :: "bytes \<Rightarrow> v6_auth_frame \<Rightarrow> (bytes \<times> v6_prelude) res" where
  "v6_hello_fields instance_id frame =
     (case frame of
        V6Hello version received client_nonce prelude \<Rightarrow>
          if version = IPC_PROTOCOL_VERSION_V6
          then if received \<noteq> instance_id then Inl ''IPC v6 hello names a different daemon instance''
               else Inr (client_nonce, prelude)
          else Inl ''unsupported IPC v6 hello version''
      | _ \<Rightarrow> Inl ''unexpected IPC v6 client handshake frame'')"

definition v6_server_hello ::
  "chan_ext \<Rightarrow> bytes \<Rightarrow> (wire, bytes \<times> v6_prelude \<times> bytes) action" where
  "v6_server_hello C instance_id =
     act_bind (read_handshake_frame C) (\<lambda>hello.
     act_bind (act_result (v6_hello_fields instance_id hello)) (\<lambda>(client_nonce, prelude).
     act_bind (act_result (validate_prelude prelude)) (\<lambda>_.
     act_bind (act_result (prelude_digest C prelude)) (\<lambda>digest.
     act_result (Inr (client_nonce, prelude, digest))))))"

definition v6_response_fields :: "v6_auth_frame \<Rightarrow> string res" where
  "v6_response_fields frame =
     (case frame of
        V6Response client_mac \<Rightarrow> Inr client_mac
      | _ \<Rightarrow> Inl ''unexpected IPC v6 client response frame'')"

definition v6_server_challenge ::
  "chan_ext \<Rightarrow> bytes \<Rightarrow> bytes \<Rightarrow> bytes \<Rightarrow> v6_prelude \<Rightarrow> bytes \<Rightarrow> bytes \<Rightarrow> (wire, v6_server_session \<times> v6_prelude) action" where
  "v6_server_challenge C secret instance_id client_nonce prelude digest server_nonce =
     (let input = transcript_input IPC_PROTOCOL_VERSION_V6 instance_id client_nonce server_nonce digest in
      act_bind (act_result (role_mac C secret SERVER_MAC_DOMAIN input)) (\<lambda>server_mac.
      act_bind (write_handshake_frame C
        (V6Challenge IPC_PROTOCOL_VERSION_V6 server_nonce (ix_b64_encode (cx_ipc C) server_mac))) (\<lambda>_.
      act_bind (read_handshake_frame C) (\<lambda>response.
      act_bind (act_result (v6_response_fields response)) (\<lambda>client_mac.
      act_bind (act_result (verify_role_mac C secret CLIENT_MAC_DOMAIN input client_mac)) (\<lambda>_.
      act_bind (act_result (derive_keys C secret IPC_PROTOCOL_VERSION_V6 instance_id input)) (\<lambda>keys.
      act_result (Inr (\<lparr>ss_state = new_v6_state instance_id keys, ss_prelude = prelude,
        ss_root_received = False\<rparr>, prelude)))))))))"

definition v6_server_handshake ::
  "chan_ext \<Rightarrow> bytes \<Rightarrow> bytes \<Rightarrow> (nat \<Rightarrow> bytes) \<Rightarrow> wire \<Rightarrow> (wire \<times> (v6_server_session \<times> v6_prelude) res) option" where
  "v6_server_handshake C secret instance_id draws w =
     (case v6_server_hello C instance_id w of
        (w, Inl e) \<Rightarrow> Some (w, Inl e)
      | (w, Inr (client_nonce, prelude, digest)) \<Rightarrow>
          map_option (\<lambda>server_nonce.
            v6_server_challenge C secret instance_id client_nonce prelude digest server_nonce w)
            (draw_nonce client_nonce draws 0))"

section \<open>Lemmas\<close>

lemma u32_try_from_eq: "u32_try_from n msg = Inr w \<longleftrightarrow> n < 2 ^ 32 \<and> w = word_of_nat n"
  by (auto simp: u32_try_from_def)

lemma validate_lens_eq:
  "validate_plaintext_frame_len n = Inr u \<longleftrightarrow> n \<le> V6_MAX_PLAINTEXT_FRAME"
  "validate_ciphertext_frame_len n = Inr u \<longleftrightarrow> V6_AEAD_TAG_BYTES \<le> n \<and> n \<le> V6_MAX_DATA_FRAME"
  by (simp_all add: validate_plaintext_frame_len_def validate_ciphertext_frame_len_def ensure_eq_Inr)

lemmas v6_sizes = V6_MAX_PLAINTEXT_FRAME_def V6_MAX_DATA_FRAME_def V6_AEAD_TAG_BYTES_def V6_MAX_AUTH_FRAME_def

lemma directions_distinct: "DIRECTION_C2D \<noteq> DIRECTION_D2C"
  by (simp add: DIRECTION_C2D_def DIRECTION_D2C_def)

subsection \<open>Sealed frames\<close>

lemma frame_nonce_inject: "frame_nonce d n = frame_nonce d' n' \<longleftrightarrow> d = d' \<and> n = n'"
  by (auto simp: frame_nonce_def)

lemma frame_aad_inject:
  assumes "frame_aad v i d n = frame_aad v' i' d' n'" "length i = length i'"
  shows "v = v' \<and> i = i' \<and> d = d' \<and> n = n'"
  using assms by (auto simp: frame_aad_def)

text \<open>What the code relies on of the other crates: authenticated encryption adds a tag of 16 bytes, opens
  what it sealed, and opens nothing else; the text of a handshake frame parses back, its arrays
  have their lengths, and the text of a prelude determines it.\<close>

fun auth_frame_typed :: "v6_auth_frame \<Rightarrow> bool" where
  "auth_frame_typed (V6Hello _ i n _) \<longleftrightarrow> length i = 16 \<and> length n = 32"
| "auth_frame_typed (V6Challenge _ n _) \<longleftrightarrow> length n = 32"
| "auth_frame_typed (V6Response _) \<longleftrightarrow> True"

definition chan_laws :: "chan_ext \<Rightarrow> bool" where
  "chan_laws C \<longleftrightarrow>
     auth_laws (cx_ipc C) \<and>
     (\<forall>k n a p c. cx_seal C k n a p = Some c \<longrightarrow> length c = length p + 16 \<and> cx_open C k n a c = Some p) \<and>
     (\<forall>k n a p c. cx_open C k n a c = Some p \<longrightarrow> cx_seal C k n a p = Some c) \<and>
     (\<forall>f j. cx_auth_json C f = Some j \<longrightarrow> cx_auth_parse C j = Some f) \<and>
     (\<forall>f j. cx_auth_parse C j = Some f \<longrightarrow> auth_frame_typed f) \<and>
     (\<forall>p q j. cx_prelude_json C p = Some j \<longrightarrow> cx_prelude_json C q = Some j \<longrightarrow> p = q)"

lemma chan_lawsD:
  assumes "chan_laws C"
  shows "auth_laws (cx_ipc C)"
    "cx_seal C k n a p = Some c \<Longrightarrow> length c = length p + 16 \<and> cx_open C k n a c = Some p"
    "cx_open C k n a c = Some p \<Longrightarrow> cx_seal C k n a p = Some c"
    "cx_auth_json C f = Some j \<Longrightarrow> cx_auth_parse C j = Some f"
    "cx_auth_parse C j = Some f \<Longrightarrow> auth_frame_typed f"
    "cx_prelude_json C pr = Some j \<Longrightarrow> cx_prelude_json C qr = Some j \<Longrightarrow> pr = qr"
proof -
  note laws = assms [unfolded chan_laws_def]
  show "auth_laws (cx_ipc C)" by (rule conjunct1 [OF laws])
  show "cx_seal C k n a p = Some c \<Longrightarrow> length c = length p + 16 \<and> cx_open C k n a c = Some p"
    using laws [THEN conjunct2, THEN conjunct1] by blast
  show "cx_open C k n a c = Some p \<Longrightarrow> cx_seal C k n a p = Some c"
    using laws [THEN conjunct2, THEN conjunct2, THEN conjunct1] by blast
  show "cx_auth_json C f = Some j \<Longrightarrow> cx_auth_parse C j = Some f"
    using laws [THEN conjunct2, THEN conjunct2, THEN conjunct2, THEN conjunct1] by blast
  show "cx_auth_parse C j = Some f \<Longrightarrow> auth_frame_typed f"
    using laws [THEN conjunct2, THEN conjunct2, THEN conjunct2, THEN conjunct2, THEN conjunct1] by blast
  show "cx_prelude_json C pr = Some j \<Longrightarrow> cx_prelude_json C qr = Some j \<Longrightarrow> pr = qr"
    using laws [THEN conjunct2, THEN conjunct2, THEN conjunct2, THEN conjunct2, THEN conjunct2] by blast
qed

text \<open>The key, nonce and associated data of the frame with a given number.\<close>

definition frame_seal :: "chan_ext \<Rightarrow> shared_v6_state \<Rightarrow> u8 \<Rightarrow> u64 \<Rightarrow> bytes \<Rightarrow> bytes option" where
  "frame_seal C st d n p =
     cx_seal C (dc_key (if d = DIRECTION_C2D then st_c2d st else st_d2c st)) (frame_nonce d n)
       (frame_aad (st_version st) (st_instance_id st) d (word_of_nat (length p + 16))) p"

definition send_counter :: "u8 \<Rightarrow> shared_v6_state \<Rightarrow> u64" where
  "send_counter d st = dc_send_counter (if d = DIRECTION_C2D then st_c2d st else st_d2c st)"

definition recv_counter :: "u8 \<Rightarrow> shared_v6_state \<Rightarrow> u64" where
  "recv_counter d st = (if d = DIRECTION_C2D then st_c2d_recv_counter st else st_d2c_recv_counter st)"

definition set_recv_counter :: "u8 \<Rightarrow> u64 \<Rightarrow> shared_v6_state \<Rightarrow> shared_v6_state" where
  "set_recv_counter d n st =
     (if d = DIRECTION_C2D then st\<lparr>st_c2d_recv_counter := n\<rparr> else st\<lparr>st_d2c_recv_counter := n\<rparr>)"

definition direction :: "u8 \<Rightarrow> bool" where
  "direction d \<longleftrightarrow> d = DIRECTION_C2D \<or> d = DIRECTION_D2C"

lemma cipher_state_eq:
  "cipher_state d st = Inr cs \<longleftrightarrow> direction d \<and> cs = (if d = DIRECTION_C2D then st_c2d st else st_d2c st)"
  by (auto simp: cipher_state_def direction_def)

lemma frame_seal_counters [simp]:
  "frame_seal C (set_send_counter d' m st) d n p = frame_seal C st d n p"
  "frame_seal C (set_recv_counter d' m st) d n p = frame_seal C st d n p"
  by (simp_all add: frame_seal_def set_send_counter_def set_recv_counter_def)

lemma send_counter_simps [simp]:
  "send_counter d (set_recv_counter d' m st) = send_counter d st"
  "recv_counter d (set_send_counter d' m st) = recv_counter d st"
  "direction d \<Longrightarrow> direction d' \<Longrightarrow>
     send_counter d (set_send_counter d' m st) = (if d = d' then m else send_counter d st)"
  "direction d \<Longrightarrow> direction d' \<Longrightarrow>
     recv_counter d (set_recv_counter d' m st) = (if d = d' then m else recv_counter d st)"
  using directions_distinct
  by (auto simp: send_counter_def recv_counter_def set_recv_counter_def set_send_counter_def direction_def)

lemma case_result_eq:
  "(case r of Inl e \<Rightarrow> (st, Inl e) | Inr (n, c) \<Rightarrow> (f n, Inr c)) = (st', Inr d) \<longleftrightarrow>
     (\<exists>n. r = Inr (n, d) \<and> st' = f n)"
  by (cases r) auto

lemma encrypt_frame_eq:
  assumes "chan_laws C"
  shows "encrypt_frame C d p st = (st', Inr c) \<longleftrightarrow>
     direction d \<and> length p \<le> V6_MAX_PLAINTEXT_FRAME \<and> unat (send_counter d st) + 1 < 2 ^ 64 \<and>
     frame_seal C st d (send_counter d st) p = Some c \<and>
     st' = set_send_counter d (send_counter d st + 1) st"
proof -
  have "length p + 16 < 2 ^ 32 \<and> V6_AEAD_TAG_BYTES \<le> length p + 16 \<and> length p + 16 \<le> V6_MAX_DATA_FRAME"
    if "length p \<le> V6_MAX_PLAINTEXT_FRAME"
    using that by (simp add: v6_sizes)
  moreover have "length c = length p + 16" if "cx_seal C k n a p = Some c" for k n a c
    using chan_lawsD(2) [OF assms that] by simp
  ultimately show ?thesis
    unfolding encrypt_frame_def case_result_eq frame_seal_def send_counter_def
    by (auto simp: Let_def and_then_eq_Inr ok_or_eq_Inr validate_lens_eq cipher_state_eq u32_try_from_eq
        checked_add_eq_Some)
qed

lemma encrypt_frame_Inl: "encrypt_frame C d p st = (st', Inl e) \<Longrightarrow> st' = st"
  by (auto simp: encrypt_frame_def Let_def split: sum.splits)

lemma decrypt_frame_eq:
  assumes "chan_laws C"
  shows "decrypt_frame C d c n st = Inr p \<longleftrightarrow>
     direction d \<and> length p \<le> V6_MAX_PLAINTEXT_FRAME \<and> frame_seal C st d n p = Some c"
proof -
  have len: "length c = length p + 16" if "cx_seal C k n a p = Some c" for k n a
    using chan_lawsD(2) [OF assms that] by simp
  have o: "cx_open C k n a c = Some p \<longleftrightarrow> cx_seal C k n a p = Some c" for k n a
    using chan_lawsD(2,3) [OF assms] by blast
  show ?thesis
  proof (cases "length c = length p + 16")
    case True
    then have "V6_AEAD_TAG_BYTES \<le> length c \<and> length c \<le> V6_MAX_DATA_FRAME \<and> length c < 2 ^ 32 \<longleftrightarrow>
        length p \<le> V6_MAX_PLAINTEXT_FRAME"
      by (auto simp: v6_sizes)
    with True show ?thesis
      unfolding decrypt_frame_def frame_seal_def
      by (auto simp: Let_def and_then_eq_Inr ok_or_eq_Inr validate_lens_eq cipher_state_eq u32_try_from_eq o)
  next
    case False
    then show ?thesis
      unfolding decrypt_frame_def frame_seal_def
      by (auto simp: Let_def and_then_eq_Inr ok_or_eq_Inr o dest: len)
  qed
qed

lemma expect_next_counter_eq:
  "expect_next_counter d st = (st', Inr n) \<longleftrightarrow>
     direction d \<and> n = recv_counter d st \<and> unat n + 1 < 2 ^ 64 \<and> st' = set_recv_counter d (n + 1) st"
  by (auto simp: expect_next_counter_def recv_counter_def set_recv_counter_def direction_def checked_add_def
      split: option.splits if_splits)

text \<open>Frames sealed one after the other, and opened one after the other.\<close>

fun seal_frames :: "chan_ext \<Rightarrow> u8 \<Rightarrow> bytes list \<Rightarrow> (shared_v6_state, bytes list) action" where
  "seal_frames C d [] = act_result (Inr [])"
| "seal_frames C d (p # ps) =
     act_bind (encrypt_frame C d p) (\<lambda>c. act_bind (seal_frames C d ps) (\<lambda>cs. act_result (Inr (c # cs))))"

fun open_frames :: "chan_ext \<Rightarrow> u8 \<Rightarrow> bytes list \<Rightarrow> (shared_v6_state, bytes list) action" where
  "open_frames C d [] = act_result (Inr [])"
| "open_frames C d (c # cs) =
     act_bind (expect_next_counter d) (\<lambda>n.
     act_bind (\<lambda>st. (st, decrypt_frame C d c n st)) (\<lambda>p.
     act_bind (open_frames C d cs) (\<lambda>ps. act_result (Inr (p # ps)))))"

lemma set_counters_twice [simp]:
  "set_send_counter d m (set_send_counter d n st) = set_send_counter d m st"
  "set_recv_counter d m (set_recv_counter d n st) = set_recv_counter d m st"
  by (simp_all add: set_send_counter_def set_recv_counter_def)

lemma set_counters_same [simp]:
  "direction d \<Longrightarrow> set_send_counter d (send_counter d st) st = st"
  "direction d \<Longrightarrow> set_recv_counter d (recv_counter d st) st = st"
  by (simp_all add: set_send_counter_def set_recv_counter_def send_counter_def recv_counter_def direction_def)

lemma unat_plus_one: "unat (n :: u64) + 1 < 2 ^ 64 \<Longrightarrow> unat (n + 1) = unat n + 1"
  using unat_checked_add [of n 1 "n + 1"] by (simp add: checked_add_def)

lemma seal_frames_eq:
  assumes "chan_laws C" "direction d"
  shows "seal_frames C d ps st = (st', Inr cs) \<longleftrightarrow>
    unat (send_counter d st) + length ps < 2 ^ 64 \<and> list_all (\<lambda>p. length p \<le> V6_MAX_PLAINTEXT_FRAME) ps \<and>
    st' = set_send_counter d (send_counter d st + word_of_nat (length ps)) st \<and>
    length cs = length ps \<and>
    (\<forall>i<length ps. frame_seal C st d (send_counter d st + word_of_nat i) (ps ! i) = Some (cs ! i))"
proof (induction ps arbitrary: st cs)
  case Nil
  have "unat (send_counter d st) < 2 ^ 64" using unat_less [of "send_counter d st"] by simp
  with assms(2) show ?case by (auto simp: result_simps)
next
  case (Cons p ps)
  let ?st = "set_send_counter d (send_counter d st + 1) st"
  have n: "send_counter d ?st = send_counter d st + 1" using assms(2) by simp
  have IH: "seal_frames C d ps ?st = (st', Inr cs') \<longleftrightarrow>
    unat (send_counter d st) + length (p # ps) < 2 ^ 64 \<and> list_all (\<lambda>p. length p \<le> V6_MAX_PLAINTEXT_FRAME) ps \<and>
    st' = set_send_counter d (send_counter d st + word_of_nat (length (p # ps))) st \<and> length cs' = length ps \<and>
    (\<forall>i<length ps. frame_seal C st d (send_counter d st + word_of_nat (Suc i)) (ps ! i) = Some (cs' ! i))"
    if "unat (send_counter d st) + 1 < 2 ^ 64" for cs'
    using Cons.IH [of ?st cs'] n unat_plus_one [OF that] by (simp add: add.assoc)
  have "seal_frames C d (p # ps) st = (st', Inr cs) \<longleftrightarrow>
      (\<exists>c cs'. cs = c # cs' \<and> length p \<le> V6_MAX_PLAINTEXT_FRAME \<and> unat (send_counter d st) + 1 < 2 ^ 64 \<and>
        frame_seal C st d (send_counter d st) p = Some c \<and> seal_frames C d ps ?st = (st', Inr cs'))"
    using assms(2) by (auto simp: act_bind_eq_Inr act_result_eq encrypt_frame_eq [OF assms(1)])
  also have "\<dots> \<longleftrightarrow> (\<exists>c cs'. cs = c # cs' \<and> length p \<le> V6_MAX_PLAINTEXT_FRAME \<and>
        frame_seal C st d (send_counter d st) p = Some c \<and>
    unat (send_counter d st) + length (p # ps) < 2 ^ 64 \<and> list_all (\<lambda>p. length p \<le> V6_MAX_PLAINTEXT_FRAME) ps \<and>
    st' = set_send_counter d (send_counter d st + word_of_nat (length (p # ps))) st \<and> length cs' = length ps \<and>
    (\<forall>i<length ps. frame_seal C st d (send_counter d st + word_of_nat (Suc i)) (ps ! i) = Some (cs' ! i)))"
    using IH by auto
  finally show ?case
    by (cases cs) (auto simp: nth_Cons' less_Suc_eq_0_disj)
qed

lemma open_frames_eq:
  assumes "chan_laws C" "direction d"
  shows "open_frames C d cs st = (st', Inr ps) \<longleftrightarrow>
    unat (recv_counter d st) + length cs < 2 ^ 64 \<and> list_all (\<lambda>p. length p \<le> V6_MAX_PLAINTEXT_FRAME) ps \<and>
    st' = set_recv_counter d (recv_counter d st + word_of_nat (length cs)) st \<and>
    length ps = length cs \<and>
    (\<forall>i<length cs. frame_seal C st d (recv_counter d st + word_of_nat i) (ps ! i) = Some (cs ! i))"
proof (induction cs arbitrary: st ps)
  case Nil
  have "unat (recv_counter d st) < 2 ^ 64" using unat_less [of "recv_counter d st"] by simp
  with assms(2) show ?case by (auto simp: result_simps)
next
  case (Cons c cs)
  let ?st = "set_recv_counter d (recv_counter d st + 1) st"
  have n: "recv_counter d ?st = recv_counter d st + 1" using assms(2) by simp
  have IH: "open_frames C d cs ?st = (st', Inr ps') \<longleftrightarrow>
    unat (recv_counter d st) + length (c # cs) < 2 ^ 64 \<and> list_all (\<lambda>p. length p \<le> V6_MAX_PLAINTEXT_FRAME) ps' \<and>
    st' = set_recv_counter d (recv_counter d st + word_of_nat (length (c # cs))) st \<and> length ps' = length cs \<and>
    (\<forall>i<length cs. frame_seal C st d (recv_counter d st + word_of_nat (Suc i)) (ps' ! i) = Some (cs ! i))"
    if "unat (recv_counter d st) + 1 < 2 ^ 64" for ps'
    using Cons.IH [of ?st ps'] n unat_plus_one [OF that] by (simp add: add.assoc)
  have "open_frames C d (c # cs) st = (st', Inr ps) \<longleftrightarrow>
      (\<exists>p ps'. ps = p # ps' \<and> length p \<le> V6_MAX_PLAINTEXT_FRAME \<and> unat (recv_counter d st) + 1 < 2 ^ 64 \<and>
        frame_seal C st d (recv_counter d st) p = Some c \<and> open_frames C d cs ?st = (st', Inr ps'))"
    using assms(2)
    by (auto simp: act_bind_eq_Inr act_result_eq expect_next_counter_eq decrypt_frame_eq [OF assms(1)])
  also have "\<dots> \<longleftrightarrow> (\<exists>p ps'. ps = p # ps' \<and> length p \<le> V6_MAX_PLAINTEXT_FRAME \<and>
        frame_seal C st d (recv_counter d st) p = Some c \<and>
    unat (recv_counter d st) + length (c # cs) < 2 ^ 64 \<and> list_all (\<lambda>p. length p \<le> V6_MAX_PLAINTEXT_FRAME) ps' \<and>
    st' = set_recv_counter d (recv_counter d st + word_of_nat (length (c # cs))) st \<and> length ps' = length cs \<and>
    (\<forall>i<length cs. frame_seal C st d (recv_counter d st + word_of_nat (Suc i)) (ps' ! i) = Some (cs ! i)))"
    using IH by auto
  finally show ?case
    by (cases ps) (auto simp: nth_Cons' less_Suc_eq_0_disj)
qed

lemma frame_seal_inject:
  assumes "chan_laws C" "frame_seal C st d n p = Some c" "frame_seal C st d n q = Some c"
  shows "p = q"
proof -
  let ?k = "dc_key (if d = DIRECTION_C2D then st_c2d st else st_d2c st)"
  let ?a = "\<lambda>p. frame_aad (st_version st) (st_instance_id st) d (word_of_nat (length p + 16))"
  from chan_lawsD(2) [OF assms(1) assms(2) [unfolded frame_seal_def]]
    chan_lawsD(2) [OF assms(1) assms(3) [unfolded frame_seal_def]]
  have l: "length p = length q" and
    o: "cx_open C ?k (frame_nonce d n) (?a p) c = Some p" "cx_open C ?k (frame_nonce d n) (?a q) c = Some q"
    by auto
  have "?a p = ?a q" by (simp only: l)
  with o show ?thesis by (metis option.inject)
qed

text \<open>C34: frames a peer sealed one after the other, delivered in any order, number and direction the network
  likes, are opened only in the direction and at the place they were sealed for: what the receiver has accepted
  is the beginning of what the sender sent, or one sealed frame opens under the number or direction of another.\<close>

theorem channel_frames_in_order:
  assumes sealed: "seal_frames C d ps (new_v6_state instance_id keys) = (st, Inr cs)"
    and opened: "open_frames C d' rs (new_v6_state instance_id keys) = (st', Inr qs)"
    and "set rs \<subseteq> set cs" and "direction d" "direction d'" and laws: "chan_laws C"
  shows "(qs = take (length qs) ps \<and> (qs \<noteq> [] \<longrightarrow> d' = d)) \<or>
    (\<exists>i<length rs. \<exists>j<length cs. (d', i) \<noteq> (d, j) \<and>
       frame_seal C (new_v6_state instance_id keys) d' (word_of_nat i) (qs ! i) = Some (cs ! j) \<and>
       frame_seal C (new_v6_state instance_id keys) d (word_of_nat j) (ps ! j) = Some (cs ! j))"
proof -
  let ?st = "new_v6_state instance_id keys"
  have z: "send_counter d ?st = 0" "recv_counter d' ?st = 0" for d d'
    by (simp_all add: send_counter_def recv_counter_def new_v6_state_def)
  from sealed have s: "length cs = length ps" "\<forall>i<length ps. frame_seal C ?st d (word_of_nat i) (ps ! i) = Some (cs ! i)"
    using assms(4) by (simp_all add: seal_frames_eq [OF laws] z)
  from opened have r: "length qs = length rs" "\<forall>i<length rs. frame_seal C ?st d' (word_of_nat i) (qs ! i) = Some (rs ! i)"
    using assms(5) by (simp_all add: open_frames_eq [OF laws] z)
  show ?thesis
  proof (cases "\<exists>i<length rs. \<exists>j<length cs. (d', i) \<noteq> (d, j) \<and> rs ! i = cs ! j")
    case True
    with s r show ?thesis by metis
  next
    case False
    have own: "i < length cs \<and> d' = d \<and> rs ! i = cs ! i" if "i < length rs" for i
    proof -
      from that assms(3) have "rs ! i \<in> set cs" by (meson nth_mem subsetD)
      then obtain j where "j < length cs" "rs ! i = cs ! j" by (auto simp: in_set_conv_nth)
      with False that show ?thesis by blast
    qed
    have le: "length qs \<le> length ps" using own [of "length rs - 1"] r(1) s(1) by (cases rs) auto
    have "qs ! i = ps ! i" if "i < length qs" for i
    proof -
      from own [of i] that r have "d' = d" "frame_seal C ?st d (word_of_nat i) (qs ! i) = Some (cs ! i)" by auto
      moreover have "frame_seal C ?st d (word_of_nat i) (ps ! i) = Some (cs ! i)" using s(2) le that by simp
      ultimately show ?thesis using frame_seal_inject [OF laws] by blast
    qed
    then have "qs = take (length qs) ps" using le by (intro nth_equalityI) auto
    moreover have "d' = d" if "qs \<noteq> []" using own [of 0] that r(1) by (cases rs) auto
    ultimately show ?thesis by blast
  qed
qed

subsection \<open>The handshake\<close>

lemma read_handshake_frame_eq:
  "read_handshake_frame C w = (w', Inr f) \<longleftrightarrow>
     (\<exists>json rest. w_in w = be32 (word_of_nat (length json)) @ json @ rest \<and> length json \<le> V6_MAX_AUTH_FRAME \<and>
        cx_auth_parse C json = Some f \<and> w' = w\<lparr>w_in := rest\<rparr>)"
  (is "?l \<longleftrightarrow> (\<exists>json rest. ?r json rest)")
proof
  assume ?l
  then have l: "4 \<le> length (w_in w)" "be_value (take 4 (w_in w)) \<le> V6_MAX_AUTH_FRAME"
    "be_value (take 4 (w_in w)) \<le> length (drop 4 (w_in w))"
    "cx_auth_parse C (take (be_value (take 4 (w_in w))) (drop 4 (w_in w))) = Some f"
    "w' = w\<lparr>w_in := drop (be_value (take 4 (w_in w))) (drop 4 (w_in w))\<rparr>"
    by (auto simp: read_handshake_frame_def Let_def result_simps read_exact_def split: if_splits)
  then have "take 4 (w_in w) = be32 (word_of_nat (be_value (take 4 (w_in w))))"
    using be_bytes_be_value [of "take 4 (w_in w)"] be_value_less [of "take 4 (w_in w)"]
    by (simp add: be32_def v6_sizes unat_of_nat)
  with l have "?r (take (be_value (take 4 (w_in w))) (drop 4 (w_in w)))
      (drop (be_value (take 4 (w_in w))) (drop 4 (w_in w)))"
    by (metis append_take_drop_id length_take min.absorb2)
  then show "\<exists>json rest. ?r json rest" by blast
next
  assume "\<exists>json rest. ?r json rest"
  then obtain json rest where r: "?r json rest" by blast
  then have "be_value (be32 (word_of_nat (length json))) = length json"
    by (intro be32_length) (simp add: v6_sizes)
  with r show ?l
    by (simp add: read_handshake_frame_def Let_def result_simps read_exact_def)
qed

lemma case_write_eq:
  "(case r of Inl e \<Rightarrow> (w, Inl e) | Inr bs \<Rightarrow> (g bs, Inr ())) = (w', Inr u) \<longleftrightarrow> (\<exists>bs. r = Inr bs \<and> w' = g bs)"
  by (cases r) auto

lemma write_handshake_frame_eq:
  "write_handshake_frame C f w = (w', Inr u) \<longleftrightarrow>
     (\<exists>json. cx_auth_json C f = Some json \<and> length json \<le> V6_MAX_AUTH_FRAME \<and>
        w' = w\<lparr>w_out := w_out w @ be32 (word_of_nat (length json)) @ json\<rparr>)"
  unfolding write_handshake_frame_def case_write_eq
  by (auto simp: and_then_eq_Inr ok_or_eq_Inr ensure_eq_Inr u32_try_from_eq v6_sizes)

text \<open>What each side puts into its codes, as a function of what it has read.\<close>

definition server_input :: "chan_ext \<Rightarrow> bytes \<Rightarrow> (nat \<Rightarrow> bytes) \<Rightarrow> bytes \<Rightarrow> bytes option" where
  "server_input C instance_id draws input =
     (case v6_server_hello C instance_id \<lparr>w_in = input, w_out = []\<rparr> of
        (_, Inl e) \<Rightarrow> None
      | (_, Inr (client_nonce, _, digest)) \<Rightarrow>
          map_option (\<lambda>server_nonce.
            transcript_input IPC_PROTOCOL_VERSION_V6 instance_id client_nonce server_nonce digest)
            (draw_nonce client_nonce draws 0))"

definition client_input :: "chan_ext \<Rightarrow> bytes \<Rightarrow> v6_prelude \<Rightarrow> bytes \<Rightarrow> bytes \<Rightarrow> bytes option" where
  "client_input C instance_id prelude client_nonce input =
     (case (prelude_digest C prelude, read_handshake_frame C \<lparr>w_in = input, w_out = []\<rparr>) of
        (Inr digest, (_, Inr (V6Challenge _ server_nonce _))) \<Rightarrow>
          Some (transcript_input IPC_PROTOCOL_VERSION_V6 instance_id client_nonce server_nonce digest)
      | _ \<Rightarrow> None)"

definition second_handshake :: "chan_ext \<Rightarrow> bytes \<Rightarrow> v6_auth_frame res" where
  "second_handshake C bs =
     snd (act_bind (read_handshake_frame C) (\<lambda>_. read_handshake_frame C) \<lparr>w_in = bs, w_out = []\<rparr>)"

lemma read_handshake_any_out:
  assumes "read_handshake_frame C w = (w', Inr f)"
  shows "read_handshake_frame C \<lparr>w_in = w_in w, w_out = b\<rparr> = (\<lparr>w_in = w_in w', w_out = b\<rparr>, Inr f)"
  using assms by (auto simp: read_handshake_frame_eq)

lemma second_handshake_read:
  assumes "read_handshake_frame C w = (w', Inr f)" "read_handshake_frame C v = (v', Inr g)" "w_in v = w_in w'"
  shows "second_handshake C (w_in w) = Inr g"
  using read_handshake_any_out [OF assms(1), of "[]"] read_handshake_any_out [OF assms(2), of "[]"] assms(3)
  by (simp add: second_handshake_def act_bind_def)

lemma second_handshake_written:
  assumes "chan_laws C" "write_handshake_frame C f w = (w1, Inr u)" "write_handshake_frame C g v = (v1, Inr u')"
    "w_out v = w_out w1"
  shows "second_handshake C (drop (length (w_out w)) (w_out v1)) = Inr g"
proof -
  from assms(2) obtain j where j: "cx_auth_json C f = Some j" "length j \<le> V6_MAX_AUTH_FRAME"
    "w_out w1 = w_out w @ be32 (word_of_nat (length j)) @ j" by (auto simp: write_handshake_frame_eq)
  from assms(3) obtain k where k: "cx_auth_json C g = Some k" "length k \<le> V6_MAX_AUTH_FRAME"
    "w_out v1 = w_out v @ be32 (word_of_nat (length k)) @ k" by (auto simp: write_handshake_frame_eq)
  let ?k = "be32 (word_of_nat (length k)) @ k" and ?j = "be32 (word_of_nat (length j)) @ j"
  have "read_handshake_frame C \<lparr>w_in = ?j @ ?k, w_out = []\<rparr> = (\<lparr>w_in = ?k, w_out = []\<rparr>, Inr f)"
    using chan_lawsD(4) [OF assms(1) j(1)] j(2) by (subst read_handshake_frame_eq) auto
  moreover have "read_handshake_frame C \<lparr>w_in = ?k, w_out = []\<rparr> = (\<lparr>w_in = [], w_out = []\<rparr>, Inr g)"
    using chan_lawsD(4) [OF assms(1) k(1)] k(2) by (subst read_handshake_frame_eq) auto
  ultimately have "second_handshake C (?j @ ?k) = Inr g"
    by (simp add: second_handshake_def act_bind_def)
  then show ?thesis using j(3) k(3) assms(4) by simp
qed

lemma role_mac_binds:
  assumes "verify_role_mac C secret domain a s = Inr ()" "role_mac C secret domain b = Inr mac"
    and "s = ix_b64_encode (cx_ipc C) mac" "chan_laws C" "length secret = 32"
  shows "a = b \<or> mac_collision (cx_ipc C) secret (domain @ a) (domain @ b)"
proof -
  from assms(2) have m: "ix_hmac (cx_ipc C) secret (domain @ b) = Some mac" by (simp add: role_mac_def ok_or_eq_Inr)
  with auth_lawsD(4) [OF chan_lawsD(1) [OF assms(4)] assms(5)] have "length mac = 32" by blast
  with auth_lawsD(5) [OF chan_lawsD(1) [OF assms(4)]] assms(3)
  have "ix_b64_decode (cx_ipc C) s = Some mac" by simp
  with assms(1) have "ix_hmac (cx_ipc C) secret (domain @ a) = Some mac"
    by (auto simp: verify_role_mac_def and_then_eq_Inr ok_or_eq_Inr ensure_eq_Inr role_mac_def)
  with m show ?thesis by (auto simp: mac_collision_def)
qed

lemma transcript_input_inject:
  assumes "transcript_input v i cn sn d = transcript_input v' i' cn' sn' d'"
    and "length i = length i'" "length cn = length cn'" "length sn = length sn'"
  shows "v = v' \<and> i = i' \<and> cn = cn' \<and> sn = sn' \<and> d = d'"
  using assms by (auto simp: transcript_input_def)

lemma challenge_fields_v6_eq:
  "v6_challenge_fields f = Inr (n, m) \<longleftrightarrow> f = V6Challenge IPC_PROTOCOL_VERSION_V6 n m"
  by (auto simp: v6_challenge_fields_def split: v6_auth_frame.splits if_splits)

lemma hello_fields_v6_eq:
  "v6_hello_fields i f = Inr (n, p) \<longleftrightarrow> f = V6Hello IPC_PROTOCOL_VERSION_V6 i n p"
  by (auto simp: v6_hello_fields_def split: v6_auth_frame.splits if_splits)

lemma response_fields_v6_eq: "v6_response_fields f = Inr m \<longleftrightarrow> f = V6Response m"
  by (auto simp: v6_response_fields_def split: v6_auth_frame.splits)

lemma v6_client_run:
  assumes "v6_client_handshake C secret instance_id prelude client_nonce w = (w', Inr session)" and "chan_laws C"
  obtains digest sn mac keys where "prelude_digest C prelude = Inr digest"
    "client_input C instance_id prelude client_nonce (w_in w) =
       Some (transcript_input IPC_PROTOCOL_VERSION_V6 instance_id client_nonce sn digest)"
    "length sn = 32" "role_mac C secret CLIENT_MAC_DOMAIN
       (transcript_input IPC_PROTOCOL_VERSION_V6 instance_id client_nonce sn digest) = Inr mac"
    "derive_keys C secret IPC_PROTOCOL_VERSION_V6 instance_id
       (transcript_input IPC_PROTOCOL_VERSION_V6 instance_id client_nonce sn digest) = Inr keys"
    "session = \<lparr>cs_state = new_v6_state instance_id keys, cs_root_request_hash = pl_root_request_hash prelude,
       cs_root_sent = False\<rparr>"
    "second_handshake C (drop (length (w_out w)) (w_out w')) = Inr (V6Response (ix_b64_encode (cx_ipc C) mac))"
proof -
  from assms(1) obtain digest w1 w2 challenge sn smac mac w3 keys where
    1: "prelude_digest C prelude = Inr digest"
    "write_handshake_frame C (V6Hello IPC_PROTOCOL_VERSION_V6 instance_id client_nonce prelude) w = (w1, Inr ())"
    "read_handshake_frame C w1 = (w2, Inr challenge)" "v6_challenge_fields challenge = Inr (sn, smac)"
    "role_mac C secret CLIENT_MAC_DOMAIN
       (transcript_input IPC_PROTOCOL_VERSION_V6 instance_id client_nonce sn digest) = Inr mac"
    "write_handshake_frame C (V6Response (ix_b64_encode (cx_ipc C) mac)) w2 = (w', Inr ())"
    "derive_keys C secret IPC_PROTOCOL_VERSION_V6 instance_id
       (transcript_input IPC_PROTOCOL_VERSION_V6 instance_id client_nonce sn digest) = Inr keys"
    "session = \<lparr>cs_state = new_v6_state instance_id keys, cs_root_request_hash = pl_root_request_hash prelude,
       cs_root_sent = False\<rparr>"
    unfolding v6_client_handshake_def Let_def by (auto simp: result_simps)
  have i: "w_in w1 = w_in w" using 1(2) by (auto simp: write_handshake_frame_eq)
  have o: "w_out w2 = w_out w1" using 1(3) by (auto simp: read_handshake_frame_eq)
  have ch: "challenge = V6Challenge IPC_PROTOCOL_VERSION_V6 sn smac" using 1(4) by (simp add: challenge_fields_v6_eq)
  have "auth_frame_typed challenge"
    using 1(3) chan_lawsD(5) [OF assms(2)] by (auto simp: read_handshake_frame_eq)
  then have len: "length sn = 32" by (simp add: ch)
  have inp: "client_input C instance_id prelude client_nonce (w_in w) =
      Some (transcript_input IPC_PROTOCOL_VERSION_V6 instance_id client_nonce sn digest)"
    using read_handshake_any_out [OF 1(3), of "[]"] 1(1) i ch by (simp add: client_input_def)
  show thesis
    by (rule that [OF 1(1) inp len 1(5,7,8) second_handshake_written [OF assms(2) 1(2,6) o]])
qed

lemma v6_server_run:
  assumes "v6_server_handshake C secret instance_id draws w = Some (w', Inr (session, prelude))" and "chan_laws C"
  obtains cn digest sn mac keys where "prelude_digest C prelude = Inr digest"
    "server_input C instance_id draws (w_in w) =
       Some (transcript_input IPC_PROTOCOL_VERSION_V6 instance_id cn sn digest)"
    "length instance_id = 16" "length cn = 32" "sn \<in> range draws"
    "verify_role_mac C secret CLIENT_MAC_DOMAIN
       (transcript_input IPC_PROTOCOL_VERSION_V6 instance_id cn sn digest) mac = Inr ()"
    "derive_keys C secret IPC_PROTOCOL_VERSION_V6 instance_id
       (transcript_input IPC_PROTOCOL_VERSION_V6 instance_id cn sn digest) = Inr keys"
    "session = \<lparr>ss_state = new_v6_state instance_id keys, ss_prelude = prelude, ss_root_received = False\<rparr>"
    "second_handshake C (w_in w) = Inr (V6Response mac)"
proof -
  from assms(1) obtain v cn digest sn where
    1: "v6_server_hello C instance_id w = (v, Inr (cn, prelude, digest))" "draw_nonce cn draws 0 = Some sn"
    "v6_server_challenge C secret instance_id cn prelude digest sn v = (w', Inr (session, prelude))"
    unfolding v6_server_handshake_def v6_server_challenge_def Let_def
    by (auto simp: result_simps split: prod.splits sum.splits)
  from 1(1) obtain hello where
    2: "read_handshake_frame C w = (v, Inr hello)" "v6_hello_fields instance_id hello = Inr (cn, prelude)"
    "validate_prelude prelude = Inr ()" "prelude_digest C prelude = Inr digest"
    unfolding v6_server_hello_def by (auto simp: result_simps)
  from 1(3) obtain v1 v2 smac response mac keys where
    3: "write_handshake_frame C (V6Challenge IPC_PROTOCOL_VERSION_V6 sn smac) v = (v1, Inr ())"
    "read_handshake_frame C v1 = (v2, Inr response)" "v6_response_fields response = Inr mac"
    "verify_role_mac C secret CLIENT_MAC_DOMAIN
       (transcript_input IPC_PROTOCOL_VERSION_V6 instance_id cn sn digest) mac = Inr ()"
    "derive_keys C secret IPC_PROTOCOL_VERSION_V6 instance_id
       (transcript_input IPC_PROTOCOL_VERSION_V6 instance_id cn sn digest) = Inr keys"
    "session = \<lparr>ss_state = new_v6_state instance_id keys, ss_prelude = prelude, ss_root_received = False\<rparr>"
    unfolding v6_server_challenge_def Let_def by (auto simp: result_simps)
  have i: "w_in v1 = w_in v" using 3(1) by (auto simp: write_handshake_frame_eq)
  have h: "hello = V6Hello IPC_PROTOCOL_VERSION_V6 instance_id cn prelude" using 2(2) by (simp add: hello_fields_v6_eq)
  have "auth_frame_typed hello"
    using 2(1) chan_lawsD(5) [OF assms(2)] by (auto simp: read_handshake_frame_eq)
  then have len: "length instance_id = 16" "length cn = 32" by (simp_all add: h)
  have inp: "server_input C instance_id draws (w_in w) =
      Some (transcript_input IPC_PROTOCOL_VERSION_V6 instance_id cn sn digest)"
    using read_handshake_any_out [OF 2(1), of "[]"] 2(2-4) 1(2)
    by (simp add: server_input_def v6_server_hello_def act_bind_def act_result_def)
  have "second_handshake C (w_in w) = Inr (V6Response mac)"
    using second_handshake_read [OF 2(1) 3(2) i] 3(3) by (simp add: response_fields_v6_eq)
  then show thesis
    using draw_nonce_eq [OF 1(2)] by (intro that [OF 2(4) inp len _ 3(4-6)]) auto
qed

lemma prelude_digest_binds:
  assumes "prelude_digest C p = Inr d" "prelude_digest C q = Inr d" "chan_laws C"
  shows "p = q \<or> (\<exists>j k. cx_prelude_json C p = Some j \<and> cx_prelude_json C q = Some k \<and> j \<noteq> k \<and>
    cx_sha256 C j = cx_sha256 C k)"
proof -
  from assms(1,2) obtain j k where "cx_prelude_json C p = Some j" "cx_prelude_json C q = Some k"
    "cx_sha256 C j = cx_sha256 C k" by (auto simp: prelude_digest_def and_then_eq_Inr ok_or_eq_Inr)
  with chan_lawsD(6) [OF assms(3)] show ?thesis by (cases "j = k") blast+
qed

text \<open>C33: when the daemon accepts the response a frontend sent, whatever was done to the frames before it, then both
  sides have derived the same session (version, daemon instance, both direction keys, both counters at zero) and the
  prelude the daemon holds is the one the frontend committed to, or the two inputs are a collision of the keyed hash,
  or the two preludes a collision of SHA-256.\<close>

theorem channel_handshake_agreement:
  assumes server: "v6_server_handshake C secret instance_id draws w = Some (w', Inr (session, prelude))"
    and client: "v6_client_handshake C secret instance_id' prelude' client_nonce v = (v', Inr session')"
    and relayed: "second_handshake C (w_in w) = second_handshake C (drop (length (w_out v)) (w_out v'))"
    and laws: "chan_laws C" and types: "length secret = 32" "length instance_id' = 16" "length client_nonce = 32"
    and "\<And>i. length (draws i) = 32"
  shows "\<exists>a b. server_input C instance_id draws (w_in w) = Some a \<and>
    client_input C instance_id' prelude' client_nonce (w_in v) = Some b \<and>
    (mac_collision (cx_ipc C) secret (CLIENT_MAC_DOMAIN @ a) (CLIENT_MAC_DOMAIN @ b) \<or>
     a = b \<and> ss_state session = cs_state session' \<and> instance_id = instance_id' \<and> ss_prelude session = prelude \<and>
     (prelude = prelude' \<or>
      (\<exists>j k. cx_prelude_json C prelude = Some j \<and> cx_prelude_json C prelude' = Some k \<and> j \<noteq> k \<and>
         cx_sha256 C j = cx_sha256 C k)))"
proof -
  from v6_server_run [OF server laws] obtain cn digest sn mac keys where
    s: "prelude_digest C prelude = Inr digest"
    "server_input C instance_id draws (w_in w) =
       Some (transcript_input IPC_PROTOCOL_VERSION_V6 instance_id cn sn digest)"
    "length instance_id = 16" "length cn = 32" "sn \<in> range draws"
    "verify_role_mac C secret CLIENT_MAC_DOMAIN
       (transcript_input IPC_PROTOCOL_VERSION_V6 instance_id cn sn digest) mac = Inr ()"
    "derive_keys C secret IPC_PROTOCOL_VERSION_V6 instance_id
       (transcript_input IPC_PROTOCOL_VERSION_V6 instance_id cn sn digest) = Inr keys"
    "session = \<lparr>ss_state = new_v6_state instance_id keys, ss_prelude = prelude, ss_root_received = False\<rparr>"
    "second_handshake C (w_in w) = Inr (V6Response mac)" by metis
  from v6_client_run [OF client laws] obtain digest' sn' mac' keys' where
    c: "prelude_digest C prelude' = Inr digest'"
    "client_input C instance_id' prelude' client_nonce (w_in v) =
       Some (transcript_input IPC_PROTOCOL_VERSION_V6 instance_id' client_nonce sn' digest')"
    "length sn' = 32" "role_mac C secret CLIENT_MAC_DOMAIN
       (transcript_input IPC_PROTOCOL_VERSION_V6 instance_id' client_nonce sn' digest') = Inr mac'"
    "derive_keys C secret IPC_PROTOCOL_VERSION_V6 instance_id'
       (transcript_input IPC_PROTOCOL_VERSION_V6 instance_id' client_nonce sn' digest') = Inr keys'"
    "session' = \<lparr>cs_state = new_v6_state instance_id' keys', cs_root_request_hash = pl_root_request_hash prelude',
       cs_root_sent = False\<rparr>"
    "second_handshake C (drop (length (w_out v)) (w_out v')) = Inr (V6Response (ix_b64_encode (cx_ipc C) mac'))"
    by metis
  let ?a = "transcript_input IPC_PROTOCOL_VERSION_V6 instance_id cn sn digest"
  let ?b = "transcript_input IPC_PROTOCOL_VERSION_V6 instance_id' client_nonce sn' digest'"
  have "mac = ix_b64_encode (cx_ipc C) mac'" using relayed s(9) c(7) by simp
  from role_mac_binds [OF s(6) c(4) this laws types(1)]
  have b: "?a = ?b \<or> mac_collision (cx_ipc C) secret (CLIENT_MAC_DOMAIN @ ?a) (CLIENT_MAC_DOMAIN @ ?b)" .
  have "instance_id = instance_id' \<and> digest = digest'" if "?a = ?b"
    using transcript_input_inject [OF that] s(3-5) c(3) types assms(8) by auto
  moreover have "prelude = prelude' \<or> (\<exists>j k. cx_prelude_json C prelude = Some j \<and>
      cx_prelude_json C prelude' = Some k \<and> j \<noteq> k \<and> cx_sha256 C j = cx_sha256 C k)" if "digest = digest'"
    by (rule prelude_digest_binds [OF s(1) c(1) [folded that] laws])
  moreover have "keys = keys'" if "?a = ?b" "instance_id = instance_id'" using s(7) c(5) that by simp
  ultimately show ?thesis using s(2,8) c(2,6) b by auto
qed

text \<open>What completing a handshake needs besides: the handshake frames for a prelude have a text that fits, and the
  key derivation yields keys.\<close>

definition handshake_fits :: "chan_ext \<Rightarrow> v6_prelude \<Rightarrow> bool" where
  "handshake_fits C prelude \<longleftrightarrow>
     (\<forall>i n. length i = 16 \<longrightarrow> length n = 32 \<longrightarrow>
        (\<exists>j. cx_auth_json C (V6Hello IPC_PROTOCOL_VERSION_V6 i n prelude) = Some j \<and> length j \<le> V6_MAX_AUTH_FRAME)) \<and>
     (\<forall>n m. length n = 32 \<longrightarrow> length m = 32 \<longrightarrow>
        (\<exists>j. cx_auth_json C (V6Challenge IPC_PROTOCOL_VERSION_V6 n (ix_b64_encode (cx_ipc C) m)) = Some j \<and>
           length j \<le> V6_MAX_AUTH_FRAME) \<and>
        (\<exists>j. cx_auth_json C (V6Response (ix_b64_encode (cx_ipc C) m)) = Some j \<and> length j \<le> V6_MAX_AUTH_FRAME)) \<and>
     (\<forall>salt ikm info. \<exists>okm. cx_hkdf C salt ikm info 64 = Some okm)"

lemma handshake_fitsD:
  assumes "handshake_fits C prelude"
  shows "length i = 16 \<Longrightarrow> length n = 32 \<Longrightarrow>
      \<exists>j. cx_auth_json C (V6Hello IPC_PROTOCOL_VERSION_V6 i n prelude) = Some j \<and> length j \<le> V6_MAX_AUTH_FRAME"
    "length n = 32 \<Longrightarrow> length m = 32 \<Longrightarrow>
      \<exists>j. cx_auth_json C (V6Challenge IPC_PROTOCOL_VERSION_V6 n (ix_b64_encode (cx_ipc C) m)) = Some j \<and>
           length j \<le> V6_MAX_AUTH_FRAME"
    "length m = 32 \<Longrightarrow>
      \<exists>j. cx_auth_json C (V6Response (ix_b64_encode (cx_ipc C) m)) = Some j \<and> length j \<le> V6_MAX_AUTH_FRAME"
    "\<exists>keys. derive_keys C secret v i' a = Inr keys"
proof -
  note f = assms [unfolded handshake_fits_def]
  show "\<exists>j. cx_auth_json C (V6Hello IPC_PROTOCOL_VERSION_V6 i n prelude) = Some j \<and> length j \<le> V6_MAX_AUTH_FRAME"
    if "length i = 16" "length n = 32" using f [THEN conjunct1] that by blast
  show "\<exists>j. cx_auth_json C (V6Challenge IPC_PROTOCOL_VERSION_V6 n (ix_b64_encode (cx_ipc C) m)) = Some j \<and>
      length j \<le> V6_MAX_AUTH_FRAME" if "length n = 32" "length m = 32"
    using f [THEN conjunct2, THEN conjunct1] that by blast
  have "length (replicate 32 (0 :: u8)) = 32" by simp
  with f [THEN conjunct2, THEN conjunct1]
  show "\<exists>j. cx_auth_json C (V6Response (ix_b64_encode (cx_ipc C) m)) = Some j \<and> length j \<le> V6_MAX_AUTH_FRAME"
    if "length m = 32" using that by blast
  obtain x y where "cx_hkdf C (cx_sha256 C a) secret (KEY_INFO_DOMAIN @ be16 v @ i' @ [DIRECTION_C2D]) 64 = Some x"
    "cx_hkdf C (cx_sha256 C a) secret (KEY_INFO_DOMAIN @ be16 v @ i' @ [DIRECTION_D2C]) 64 = Some y"
    using f [THEN conjunct2, THEN conjunct2] by blast
  then show "\<exists>keys. derive_keys C secret v i' a = Inr keys" by (simp add: derive_keys_def)
qed

lemma made_role_mac:
  assumes "chan_laws C" "length secret = 32"
  obtains mac where "role_mac C secret domain a = Inr mac" "length mac = 32"
    "verify_role_mac C secret domain a (ix_b64_encode (cx_ipc C) mac) = Inr ()"
proof -
  from auth_lawsD(3) [OF chan_lawsD(1) [OF assms(1)] assms(2)] obtain mac where
    m: "ix_hmac (cx_ipc C) secret (domain @ a) = Some mac" "length mac = 32" by blast
  with that [of mac] auth_lawsD(5) [OF chan_lawsD(1) [OF assms(1)] m(2)] show thesis
    by (simp add: role_mac_def verify_role_mac_def)
qed

lemma read_written_handshake:
  assumes "chan_laws C" "cx_auth_json C f = Some j" "length j \<le> V6_MAX_AUTH_FRAME"
  shows "read_handshake_frame C \<lparr>w_in = be32 (word_of_nat (length j)) @ j @ rest, w_out = b\<rparr> =
    (\<lparr>w_in = rest, w_out = b\<rparr>, Inr f)"
  using chan_lawsD(4) [OF assms(1,2)] assms(3) by (subst read_handshake_frame_eq) auto

lemma write_handshake_json:
  assumes "cx_auth_json C f = Some j" "length j \<le> V6_MAX_AUTH_FRAME"
  shows "write_handshake_frame C f \<lparr>w_in = a, w_out = b\<rparr> =
    (\<lparr>w_in = a, w_out = b @ be32 (word_of_nat (length j)) @ j\<rparr>, Inr ())"
  using assms by (subst write_handshake_frame_eq) auto

text \<open>A frontend and a daemon that share the secret complete the handshake on each other's bytes.\<close>

lemma v6_handshake_run:
  assumes prelude: "validate_prelude prelude = Inr ()" "prelude_digest C prelude = Inr digest"
    and lens: "length secret = 32" "length instance_id = 16" "length client_nonce = 32"
    and draws: "\<And>i. length (draws i) = 32" "draws k \<noteq> client_nonce"
    and laws: "chan_laws C" "handshake_fits C prelude"
  shows "\<exists>to_server to_client session session'.
    v6_client_handshake C secret instance_id prelude client_nonce \<lparr>w_in = to_client, w_out = []\<rparr> =
      (\<lparr>w_in = [], w_out = to_server\<rparr>, Inr session') \<and>
    v6_server_handshake C secret instance_id draws \<lparr>w_in = to_server, w_out = []\<rparr> =
      Some (\<lparr>w_in = [], w_out = to_client\<rparr>, Inr (session, prelude)) \<and>
    ss_state session = cs_state session'"
proof -
  from draw_nonce_terminates [of draws 0 k] draws(2) obtain sn where sn: "draw_nonce client_nonce draws 0 = Some sn"
    by auto
  with draw_nonce_eq [OF sn] draws(1) have n: "client_nonce \<noteq> sn" "length sn = 32" by auto
  let ?a = "transcript_input IPC_PROTOCOL_VERSION_V6 instance_id client_nonce sn digest"
  obtain smac where smac: "role_mac C secret SERVER_MAC_DOMAIN ?a = Inr smac" "length smac = 32"
    "verify_role_mac C secret SERVER_MAC_DOMAIN ?a (ix_b64_encode (cx_ipc C) smac) = Inr ()"
    by (rule made_role_mac [OF laws(1) lens(1)])
  obtain mac where mac: "role_mac C secret CLIENT_MAC_DOMAIN ?a = Inr mac" "length mac = 32"
    "verify_role_mac C secret CLIENT_MAC_DOMAIN ?a (ix_b64_encode (cx_ipc C) mac) = Inr ()"
    by (rule made_role_mac [OF laws(1) lens(1)])
  obtain keys where keys: "derive_keys C secret IPC_PROTOCOL_VERSION_V6 instance_id ?a = Inr keys"
    using handshake_fitsD(4) [OF laws(2)] by blast
  let ?hello = "V6Hello IPC_PROTOCOL_VERSION_V6 instance_id client_nonce prelude"
  let ?challenge = "V6Challenge IPC_PROTOCOL_VERSION_V6 sn (ix_b64_encode (cx_ipc C) smac)"
  let ?response = "V6Response (ix_b64_encode (cx_ipc C) mac)"
  obtain h where h: "cx_auth_json C ?hello = Some h" "length h \<le> V6_MAX_AUTH_FRAME"
    using handshake_fitsD(1) [OF laws(2) lens(2,3)] by blast
  obtain c where c: "cx_auth_json C ?challenge = Some c" "length c \<le> V6_MAX_AUTH_FRAME"
    using handshake_fitsD(2) [OF laws(2) n(2) smac(2)] by blast
  obtain r where r: "cx_auth_json C ?response = Some r" "length r \<le> V6_MAX_AUTH_FRAME"
    using handshake_fitsD(3) [OF laws(2) mac(2)] by blast
  let ?wire = "\<lambda>j. be32 (word_of_nat (length j)) @ j"
  note io = read_written_handshake [OF laws(1) h] read_written_handshake [OF laws(1) c, where rest = "[]"]
    read_written_handshake [OF laws(1) r, where rest = "[]"] write_handshake_json [OF h]
    write_handshake_json [OF c] write_handshake_json [OF r]
  have "v6_client_handshake C secret instance_id prelude client_nonce \<lparr>w_in = ?wire c, w_out = []\<rparr> =
      (\<lparr>w_in = [], w_out = ?wire h @ ?wire r\<rparr>, Inr \<lparr>cs_state = new_v6_state instance_id keys,
        cs_root_request_hash = pl_root_request_hash prelude, cs_root_sent = False\<rparr>)"
    using prelude n(1) smac(3) mac(1) keys io
    by (simp add: v6_client_handshake_def act_bind_def act_result_def act_ensure_def v6_challenge_fields_def)
  moreover have "v6_server_handshake C secret instance_id draws \<lparr>w_in = ?wire h @ ?wire r, w_out = []\<rparr> =
      Some (\<lparr>w_in = [], w_out = ?wire c\<rparr>, Inr (\<lparr>ss_state = new_v6_state instance_id keys,
        ss_prelude = prelude, ss_root_received = False\<rparr>, prelude))"
    using prelude sn smac(1) mac(3) keys io
    by (simp add: v6_server_handshake_def v6_server_hello_def v6_server_challenge_def act_bind_def act_result_def
        v6_hello_fields_def v6_response_fields_def Let_def)
  ultimately show ?thesis by force
qed

subsection \<open>A sample session\<close>

definition sample_prelude :: v6_prelude where
  "sample_prelude =
     \<lparr>pl_protocol_version = IPC_PROTOCOL_VERSION_V6, pl_client_session_id = replicate 16 1,
      pl_request_id = replicate 16 2, pl_operation_kind = ''daemon.status'', pl_profile_id = None,
      pl_profile_name = None, pl_grant_id = None, pl_pop_signature = None, pl_profile_proof = None,
      pl_requested_deadline_unix_ms = 0, pl_root_request_hash = replicate 32 3\<rparr>"

fun sample_auth_json :: "v6_auth_frame \<Rightarrow> bytes option" where
  "sample_auth_json (V6Hello v i n p) =
     (if v = IPC_PROTOCOL_VERSION_V6 \<and> length i = 16 \<and> length n = 32 \<and> p = sample_prelude
      then Some (1 # i @ n) else None)"
| "sample_auth_json (V6Challenge v n m) =
     (if v = IPC_PROTOCOL_VERSION_V6 \<and> length n = 32 \<and> length m = 64 then Some (2 # n @ as_bytes m) else None)"
| "sample_auth_json (V6Response m) = (if length m = 64 then Some (3 # as_bytes m) else None)"

definition sample_auth_parse :: "bytes \<Rightarrow> v6_auth_frame option" where
  "sample_auth_parse bs =
     (case bs of
        [] \<Rightarrow> None
      | t # bs \<Rightarrow>
          if t = 1 \<and> length bs = 48 then Some (V6Hello IPC_PROTOCOL_VERSION_V6 (take 16 bs) (drop 16 bs) sample_prelude)
          else if t = 2 \<and> length bs = 96
          then Some (V6Challenge IPC_PROTOCOL_VERSION_V6 (take 32 bs) (map char_of_byte (drop 32 bs)))
          else if t = 3 then Some (V6Response (map char_of_byte bs)) else None)"

definition sample_tag :: "bytes \<Rightarrow> bytes" where
  "sample_tag nonce = take 16 (nonce @ replicate 16 0)"

definition sample_open :: "bytes \<Rightarrow> bytes \<Rightarrow> bytes option" where
  "sample_open nonce c =
     (let n = length c - 16 in
      if length c \<ge> 16 \<and> drop n c = sample_tag nonce then Some (take n c) else None)"

definition chan_ext1 :: chan_ext where
  "chan_ext1 =
     \<lparr>cx_ipc = sample_ipc_ext, cx_prelude_json = (\<lambda>p. if p = sample_prelude then Some [1] else None),
      cx_proof_json = (\<lambda>_. None), cx_auth_json = sample_auth_json, cx_auth_parse = sample_auth_parse,
      cx_hex_decode = unhex, cx_hkdf = (\<lambda>salt ikm info n. Some (take n (info @ replicate n 0))),
      cx_seal = (\<lambda>key nonce aad msg. Some (msg @ sample_tag nonce)),
      cx_open = (\<lambda>key nonce aad. sample_open nonce)\<rparr>"

lemma sample_ipc_laws: "auth_laws sample_ipc_ext"
  using auth_ext_laws(1) by (simp add: auth_laws_def auth_ext_def)

lemma sample_tag_length [simp]: "length (sample_tag n) = 16"
  by (simp add: sample_tag_def)

lemma sample_open_eq: "sample_open n c = Some p \<longleftrightarrow> c = p @ sample_tag n"
  by (auto simp: sample_open_def Let_def) (metis append_take_drop_id)

lemma sample_auth_parse_json: "sample_auth_json f = Some j \<Longrightarrow> sample_auth_parse j = Some f"
  by (cases f) (auto simp: sample_auth_parse_def split: if_splits)

lemma sample_auth_parse_typed: "sample_auth_parse j = Some f \<Longrightarrow> auth_frame_typed f"
  by (auto simp: sample_auth_parse_def split: list.splits if_splits)

lemma chan_ext1_laws: "chan_laws chan_ext1"
  unfolding chan_laws_def chan_ext1_def
  using sample_ipc_laws sample_auth_parse_json sample_auth_parse_typed by (auto simp: sample_open_eq)

lemma chan_ext1_fits: "handshake_fits chan_ext1 sample_prelude"
  by (simp add: handshake_fits_def chan_ext1_def sample_ipc_ext_def hex_lower_chars(1) v6_sizes)

lemma sample_prelude_valid:
  "validate_prelude sample_prelude = Inr ()" "\<exists>d. prelude_digest chan_ext1 sample_prelude = Inr d"
proof -
  show "validate_prelude sample_prelude = Inr ()" by code_simp
  show "\<exists>d. prelude_digest chan_ext1 sample_prelude = Inr d" by (simp add: prelude_digest_def chan_ext1_def)
qed

theorem channel_handshake_agreement_witness:
  "\<exists>w v w' v' session session'.
    v6_server_handshake chan_ext1 (replicate 32 4) (replicate 16 5) (\<lambda>i. replicate 32 (word_of_nat i)) w =
      Some (w', Inr (session, sample_prelude)) \<and>
    v6_client_handshake chan_ext1 (replicate 32 4) (replicate 16 5) sample_prelude (replicate 32 1) v =
      (v', Inr session') \<and>
    (\<exists>a b. server_input chan_ext1 (replicate 16 5) (\<lambda>i. replicate 32 (word_of_nat i)) (w_in w) = Some a \<and>
      client_input chan_ext1 (replicate 16 5) sample_prelude (replicate 32 1) (w_in v) = Some b \<and>
      (mac_collision (cx_ipc chan_ext1) (replicate 32 4) (CLIENT_MAC_DOMAIN @ a) (CLIENT_MAC_DOMAIN @ b) \<or>
       a = b \<and> ss_state session = cs_state session' \<and> replicate 16 5 = (replicate 16 5 :: bytes) \<and>
       ss_prelude session = sample_prelude \<and>
       (sample_prelude = sample_prelude \<or>
        (\<exists>j k. cx_prelude_json chan_ext1 sample_prelude = Some j \<and>
           cx_prelude_json chan_ext1 sample_prelude = Some k \<and> j \<noteq> k \<and>
           cx_sha256 chan_ext1 j = cx_sha256 chan_ext1 k))))"
proof -
  from sample_prelude_valid(2) obtain d where "prelude_digest chan_ext1 sample_prelude = Inr d" ..
  from v6_handshake_run [OF sample_prelude_valid(1) this, where secret = "replicate 32 4" and
    instance_id = "replicate 16 5" and client_nonce = "replicate 32 1" and k = 0 and
    draws = "\<lambda>i. replicate 32 (word_of_nat i)", OF _ _ _ _ _ chan_ext1_laws chan_ext1_fits]
  obtain to_server to_client session session' where
    r: "v6_client_handshake chan_ext1 (replicate 32 4) (replicate 16 5) sample_prelude (replicate 32 1)
      \<lparr>w_in = to_client, w_out = []\<rparr> = (\<lparr>w_in = [], w_out = to_server\<rparr>, Inr session')"
    "v6_server_handshake chan_ext1 (replicate 32 4) (replicate 16 5) (\<lambda>i. replicate 32 (word_of_nat i))
      \<lparr>w_in = to_server, w_out = []\<rparr> = Some (\<lparr>w_in = [], w_out = to_client\<rparr>, Inr (session, sample_prelude))"
    by (auto simp: numeral_eq_Suc)
  show ?thesis
    by ((rule exI)+, rule conjI, rule r(2), rule conjI, rule r(1),
        rule channel_handshake_agreement [OF r(2,1) _ chan_ext1_laws]) simp_all
qed

lemma sample_seal: "frame_seal chan_ext1 st d n p = Some (p @ sample_tag (frame_nonce d n))"
  by (simp add: frame_seal_def chan_ext1_def)

theorem channel_frames_in_order_witness:
  "\<exists>st st' cs qs. seal_frames chan_ext1 DIRECTION_C2D [[7], [8]] (new_v6_state (replicate 16 5) ([], [])) = (st, Inr cs) \<and>
    open_frames chan_ext1 DIRECTION_C2D [cs ! 0] (new_v6_state (replicate 16 5) ([], [])) = (st', Inr qs) \<and>
    ((qs = take (length qs) [[7], [8]] \<and> (qs \<noteq> [] \<longrightarrow> DIRECTION_C2D = DIRECTION_C2D)) \<or>
     (\<exists>i<length [cs ! 0]. \<exists>j<length cs. (DIRECTION_C2D, i) \<noteq> (DIRECTION_C2D, j) \<and>
       frame_seal chan_ext1 (new_v6_state (replicate 16 5) ([], [])) DIRECTION_C2D (word_of_nat i) (qs ! i) = Some (cs ! j) \<and>
       frame_seal chan_ext1 (new_v6_state (replicate 16 5) ([], [])) DIRECTION_C2D (word_of_nat j) ([[7], [8]] ! j) =
         Some (cs ! j)))"
proof -
  let ?st = "new_v6_state (replicate 16 5) ([], [])"
  let ?cs = "[[7] @ sample_tag (frame_nonce DIRECTION_C2D 0), [8] @ sample_tag (frame_nonce DIRECTION_C2D 1)]"
  have d: "direction DIRECTION_C2D" by (simp add: direction_def)
  have z: "send_counter DIRECTION_C2D ?st = 0" "recv_counter DIRECTION_C2D ?st = 0"
    by (simp_all add: send_counter_def recv_counter_def new_v6_state_def)
  have s: "seal_frames chan_ext1 DIRECTION_C2D [[7], [8]] ?st = (set_send_counter DIRECTION_C2D 2 ?st, Inr ?cs)"
    by (subst seal_frames_eq [OF chan_ext1_laws d]) (auto simp: z v6_sizes sample_seal less_2_cases_iff less_Suc_eq)
  have o: "open_frames chan_ext1 DIRECTION_C2D [?cs ! 0] ?st = (set_recv_counter DIRECTION_C2D 1 ?st, Inr [[7]])"
    by (subst open_frames_eq [OF chan_ext1_laws d]) (simp add: z v6_sizes sample_seal All_less_Suc)
  show ?thesis
    by ((rule exI)+, rule conjI, rule s, rule conjI, rule o,
        rule channel_frames_in_order [OF s o _ d d chan_ext1_laws]) simp
qed

end
