(* ===== verification/Ipc_Stream.thy ===== *)
theory Ipc_Stream
  imports Ipc_Session
begin

text \<open>
  The stream adapter of the encrypted channel (crates/serctl_protocol/src/v6.rs, \<open>V6ClientIo\<close> and
  \<open>V6ServerIo\<close>): a byte stream on top of sealed frames, driven by polls of a transport that takes or
  delivers any number of bytes at a time, or none yet.

  The transport is the bytes the peer sends, the bytes sent so far and a schedule: what each poll of
  it does, in order. Polls past the end of the schedule are not ready. A frame is armed on a flush and
  sent in as many polls as it takes; a frame is received in as many polls as it takes and served from
  a buffer. Waking the task again is not modelled: a poll that used up its budget is a poll that is
  not ready.
\<close>

section \<open>Definitions\<close>

definition V6_ADAPTER_MAX_FRAME :: nat where "V6_ADAPTER_MAX_FRAME = V6_MAX_PLAINTEXT_FRAME"
definition V6_ADAPTER_IO_BUDGET :: nat where "V6_ADAPTER_IO_BUDGET = 64"

datatype 'a poll = Pending | Ready 'a

subsection \<open>The transport\<close>

text \<open>One poll: not ready, an error, or up to so many bytes.\<close>

datatype poll_item = NotReady | Fault string | Upto nat

record transport =
  tr_in :: bytes
  tr_out :: bytes
  tr_schedule :: "poll_item list"
  tr_shut :: bool

definition transport_poll_read :: "nat \<Rightarrow> transport \<Rightarrow> transport \<times> bytes res poll" where
  "transport_poll_read capacity t =
     (case tr_schedule t of
        [] \<Rightarrow> (t, Pending)
      | NotReady # s \<Rightarrow> (t\<lparr>tr_schedule := s\<rparr>, Pending)
      | Fault e # s \<Rightarrow> (t\<lparr>tr_schedule := s\<rparr>, Ready (Inl e))
      | Upto n # s \<Rightarrow>
          let k = min capacity (max 1 n) in
          (t\<lparr>tr_schedule := s, tr_in := drop k (tr_in t)\<rparr>, Ready (Inr (take k (tr_in t)))))"

definition transport_poll_write :: "bytes \<Rightarrow> transport \<Rightarrow> transport \<times> nat res poll" where
  "transport_poll_write bs t =
     (case tr_schedule t of
        [] \<Rightarrow> (t, Pending)
      | NotReady # s \<Rightarrow> (t\<lparr>tr_schedule := s\<rparr>, Pending)
      | Fault e # s \<Rightarrow> (t\<lparr>tr_schedule := s\<rparr>, Ready (Inl e))
      | Upto n # s \<Rightarrow>
          (t\<lparr>tr_schedule := s, tr_out := tr_out t @ take n bs\<rparr>, Ready (Inr (min n (length bs)))))"

definition transport_poll_shutdown :: "transport \<Rightarrow> transport \<times> unit res poll" where
  "transport_poll_shutdown t =
     (case tr_schedule t of
        [] \<Rightarrow> (t, Pending)
      | NotReady # s \<Rightarrow> (t\<lparr>tr_schedule := s\<rparr>, Pending)
      | Fault e # s \<Rightarrow> (t\<lparr>tr_schedule := s\<rparr>, Ready (Inl e))
      | Upto n # s \<Rightarrow> (t\<lparr>tr_schedule := s, tr_shut := True\<rparr>, Ready (Inr ())))"

subsection \<open>The two adapters\<close>

datatype v6_session = ClientSide v6_client_session | ServerSide v6_server_session

fun session_state :: "v6_session \<Rightarrow> shared_v6_state" where
  "session_state (ClientSide s) = cs_state s"
| "session_state (ServerSide s) = ss_state s"

fun set_session_state :: "shared_v6_state \<Rightarrow> v6_session \<Rightarrow> v6_session" where
  "set_session_state st (ClientSide s) = ClientSide (s\<lparr>cs_state := st\<rparr>)"
| "set_session_state st (ServerSide s) = ServerSide (s\<lparr>ss_state := st\<rparr>)"

fun dir_send :: "v6_session \<Rightarrow> u8" where
  "dir_send (ClientSide _) = DIRECTION_C2D"
| "dir_send (ServerSide _) = DIRECTION_D2C"

fun dir_recv :: "v6_session \<Rightarrow> u8" where
  "dir_recv (ClientSide _) = DIRECTION_D2C"
| "dir_recv (ServerSide _) = DIRECTION_C2D"

fun root_ok_for_send :: "chan_ext \<Rightarrow> v6_session \<Rightarrow> bytes \<Rightarrow> bool" where
  "root_ok_for_send C (ClientSide s) plaintext \<longleftrightarrow>
     cs_root_sent s \<or> cx_sha256 C plaintext = cs_root_request_hash s"
| "root_ok_for_send C (ServerSide s) plaintext \<longleftrightarrow> True"

fun note_root_sent :: "v6_session \<Rightarrow> v6_session" where
  "note_root_sent (ClientSide s) = ClientSide (s\<lparr>cs_root_sent := True\<rparr>)"
| "note_root_sent (ServerSide s) = ServerSide s"

fun root_ok_for_recv :: "chan_ext \<Rightarrow> v6_session \<Rightarrow> bytes \<Rightarrow> v6_session \<times> bool" where
  "root_ok_for_recv C (ClientSide s) plaintext = (ClientSide s, True)"
| "root_ok_for_recv C (ServerSide s) plaintext =
     (if ss_root_received s then (ServerSide s, True)
      else
        let hash_ok = (cx_sha256 C plaintext = pl_root_request_hash (ss_prelude s));
            kind_ok = (case ix_frame_parse (cx_ipc C) plaintext of
                         Some frame \<Rightarrow> ipc_frame_kind frame = pl_operation_kind (ss_prelude s)
                       | None \<Rightarrow> False);
            accepted = (hash_ok \<and> kind_ok) in
        (ServerSide (if accepted then s\<lparr>ss_root_received := True\<rparr> else s), accepted))"

record v6_io =
  io_stream :: transport
  io_session :: v6_session
  io_write_buf :: bytes
  io_send_header :: "(bytes \<times> nat) option"
  io_send_body :: "(bytes \<times> nat) option"
  io_recv_header :: "(bytes \<times> nat) option"
  io_recv_body :: "(bytes \<times> nat) option"
  io_read_buf :: bytes
  io_read_offset :: nat
  io_poisoned :: bool

definition io_new :: "transport \<Rightarrow> v6_session \<Rightarrow> v6_io" where
  "io_new stream session =
     \<lparr>io_stream = stream, io_session = session, io_write_buf = [], io_send_header = None, io_send_body = None,
      io_recv_header = None, io_recv_body = None, io_read_buf = [], io_read_offset = 0, io_poisoned = False\<rparr>"

definition zeroize_buffers :: "v6_io \<Rightarrow> v6_io" where
  "zeroize_buffers io =
     io\<lparr>io_write_buf := [], io_send_header := None, io_send_body := None, io_recv_header := None,
        io_recv_body := None, io_read_buf := [], io_read_offset := 0\<rparr>"

definition poison :: "v6_io \<Rightarrow> v6_io" where
  "poison io = zeroize_buffers (io\<lparr>io_poisoned := True\<rparr>)"

subsection \<open>Sending\<close>

fun poll_send_parts ::
  "nat \<Rightarrow> transport \<Rightarrow> (bytes \<times> nat) option \<Rightarrow> (bytes \<times> nat) option \<Rightarrow>
     transport \<times> (bytes \<times> nat) option \<times> (bytes \<times> nat) option \<times> unit res poll" where
  "poll_send_parts budget t None None = (t, None, None, Ready (Inr ()))"
| "poll_send_parts 0 t header body = (t, header, body, Pending)"
| "poll_send_parts (Suc budget) t (Some (bs, offset)) body =
     (case transport_poll_write (drop offset bs) t of
        (t, Pending) \<Rightarrow> (t, Some (bs, offset), body, Pending)
      | (t, Ready (Inl e)) \<Rightarrow> (t, Some (bs, offset), body, Ready (Inl e))
      | (t, Ready (Inr n)) \<Rightarrow>
          if n = 0 then (t, Some (bs, offset), body, Ready (Inl ''IPC v6 transport wrote zero bytes''))
          else if offset + n < 4 then poll_send_parts budget t (Some (bs, offset + n)) body
          else poll_send_parts budget t None body)"
| "poll_send_parts (Suc budget) t None (Some (bs, offset)) =
     (case transport_poll_write (drop offset bs) t of
        (t, Pending) \<Rightarrow> (t, None, Some (bs, offset), Pending)
      | (t, Ready (Inl e)) \<Rightarrow> (t, None, Some (bs, offset), Ready (Inl e))
      | (t, Ready (Inr n)) \<Rightarrow>
          if n = 0 then (t, None, Some (bs, offset), Ready (Inl ''IPC v6 transport wrote zero bytes''))
          else if offset + n < length bs then poll_send_parts budget t None (Some (bs, offset + n))
          else (t, None, None, Ready (Inr ())))"

definition root_payload :: "bytes \<Rightarrow> bytes res" where
  "root_payload plaintext =
     (if length plaintext \<ge> 4
      then if be_value (take 4 plaintext) + 4 \<noteq> length plaintext
           then Inl ''IPC v6 adapted frame length prefix is inconsistent''
           else Inr (drop 4 plaintext)
      else Inr plaintext)"

definition arm_send :: "chan_ext \<Rightarrow> (v6_io, unit) action" where
  "arm_send C io =
     (if io_send_header io \<noteq> None \<or> io_send_body io \<noteq> None then (io, Inr ())
      else if io_write_buf io = [] then (io, Inr ())
      else
        let plaintext = io_write_buf io; io = io\<lparr>io_write_buf := []\<rparr> in
        if length plaintext > V6_ADAPTER_MAX_FRAME then (io, Inl ''IPC v6 adapted frame exceeds its size cap'')
        else case root_payload plaintext of
          Inl e \<Rightarrow> (io, Inl e)
        | Inr payload \<Rightarrow>
            if \<not> root_ok_for_send C (io_session io) payload
            then (io, Inl ''IPC v6 root request does not match the handshake prelude'')
            else
              case encrypt_frame C (dir_send (io_session io)) plaintext (session_state (io_session io)) of
                (st, Inl e) \<Rightarrow> (io\<lparr>io_session := set_session_state st (io_session io)\<rparr>, Inl e)
              | (st, Inr ciphertext) \<Rightarrow>
                  let io = io\<lparr>io_session := set_session_state st (io_session io)\<rparr> in
                  (case u32_try_from (length ciphertext) ''IPC v6 frame length overflow'' of
                     Inl e \<Rightarrow> (io, Inl e)
                   | Inr len \<Rightarrow>
                       (io\<lparr>io_session := note_root_sent (io_session io), io_send_header := Some (be32 len, 0),
                          io_send_body := Some (ciphertext, 0)\<rparr>, Inr ())))"

definition poll_flush_io :: "chan_ext \<Rightarrow> v6_io \<Rightarrow> v6_io \<times> unit res poll" where
  "poll_flush_io C io =
     (if io_poisoned io then (io, Ready (Inl ''IPC v6 adapter is poisoned''))
      else case arm_send C io of
        (io, Inl e) \<Rightarrow> (poison io, Ready (Inl e))
      | (io, Inr _) \<Rightarrow>
          (case poll_send_parts V6_ADAPTER_IO_BUDGET (io_stream io) (io_send_header io) (io_send_body io) of
             (t, header, body, result) \<Rightarrow>
               let io = io\<lparr>io_stream := t, io_send_header := header, io_send_body := body\<rparr> in
               (case result of Ready (Inl e) \<Rightarrow> (poison io, Ready (Inl e)) | other \<Rightarrow> (io, other))))"

definition poll_write_io :: "chan_ext \<Rightarrow> bytes \<Rightarrow> v6_io \<Rightarrow> v6_io \<times> nat res poll" where
  "poll_write_io C buf io =
     (if io_poisoned io then (io, Ready (Inl ''IPC v6 adapter is poisoned''))
      else
        case (if io_send_header io \<noteq> None \<or> io_send_body io \<noteq> None then poll_flush_io C io
              else (io, Ready (Inr ()))) of
          (io, Pending) \<Rightarrow> (io, Pending)
        | (io, Ready (Inl e)) \<Rightarrow> (io, Ready (Inl e))
        | (io, Ready (Inr _)) \<Rightarrow>
            if length (io_write_buf io) + length buf > usize_max \<or>
               length (io_write_buf io) + length buf > V6_ADAPTER_MAX_FRAME
            then (poison io, Ready (Inl ''IPC v6 adapted frame exceeds its size cap''))
            else (io\<lparr>io_write_buf := io_write_buf io @ buf\<rparr>, Ready (Inr (length buf))))"

definition poll_shutdown_io :: "chan_ext \<Rightarrow> v6_io \<Rightarrow> v6_io \<times> unit res poll" where
  "poll_shutdown_io C io =
     (case poll_flush_io C io of
        (io, Ready (Inl e)) \<Rightarrow> (io, Ready (Inl e))
      | (io, Pending) \<Rightarrow> (io, Pending)
      | (io, Ready (Inr _)) \<Rightarrow>
          (case transport_poll_shutdown (io_stream io) of
             (t, Ready (Inl e)) \<Rightarrow> (poison (io\<lparr>io_stream := t\<rparr>), Ready (Inl e))
           | (t, other) \<Rightarrow> (io\<lparr>io_stream := t\<rparr>, other)))"

subsection \<open>Receiving\<close>

text \<open>The plaintext of the current frame goes out first.\<close>

definition serve :: "nat \<Rightarrow> v6_io \<Rightarrow> v6_io \<times> bytes" where
  "serve remaining io =
     (let n = min remaining (length (io_read_buf io) - io_read_offset io);
          data = take n (drop (io_read_offset io) (io_read_buf io));
          io = io\<lparr>io_read_offset := io_read_offset io + n\<rparr> in
      (if io_read_offset io \<ge> length (io_read_buf io) then io\<lparr>io_read_buf := [], io_read_offset := 0\<rparr> else io,
       data))"

text \<open>A received frame is complete: number it, open it and check the root request.\<close>

definition accept_body :: "chan_ext \<Rightarrow> bytes \<Rightarrow> v6_session \<Rightarrow> v6_session \<times> bytes res" where
  "accept_body C ciphertext session =
     (case expect_next_counter (dir_recv session) (session_state session) of
        (st, Inl e) \<Rightarrow> (set_session_state st session, Inl e)
      | (st, Inr counter) \<Rightarrow>
          let session = set_session_state st session in
          (case decrypt_frame C (dir_recv session) ciphertext counter (session_state session) of
             Inl e \<Rightarrow> (session, Inl e)
           | Inr plaintext \<Rightarrow>
               (case root_ok_for_recv C session (drop (min 4 (length plaintext)) plaintext) of
                  (session, True) \<Rightarrow> (session, Inr plaintext)
                | (session, False) \<Rightarrow> (session, Inl ''IPC v6 root request does not match the handshake prelude''))))"

text \<open>One pass of the loop that reads from the transport: it goes around again, or the poll is over.\<close>

datatype recv_turn = Again v6_io | Done v6_io "bytes res poll"

definition start_header :: "v6_io \<Rightarrow> v6_io" where
  "start_header io =
     (if io_recv_header io = None \<and> io_recv_body io = None
      then io\<lparr>io_recv_header := Some ([0, 0, 0, 0], 0)\<rparr> else io)"

definition recv_header_step :: "bytes \<Rightarrow> nat \<Rightarrow> v6_io \<Rightarrow> recv_turn" where
  "recv_header_step bs offset io =
     (case transport_poll_read (length bs - offset) (io_stream io) of
        (t, Pending) \<Rightarrow> Done (io\<lparr>io_stream := t\<rparr>) Pending
      | (t, Ready (Inl e)) \<Rightarrow> Done (poison (io\<lparr>io_stream := t\<rparr>)) (Ready (Inl e))
      | (t, Ready (Inr data)) \<Rightarrow>
          let io = io\<lparr>io_stream := t\<rparr>; n = length data in
          if n = 0 then
            if offset = 0 then Done io (Ready (Inr []))
            else Done (poison io) (Ready (Inl ''IPC v6 transport ended during a frame header''))
          else
            let bs = take offset bs @ data @ drop (offset + n) bs; offset = offset + n in
            if offset < 4 then Again (io\<lparr>io_recv_header := Some (bs, offset)\<rparr>)
            else
              let len = be_value bs in
              (case validate_ciphertext_frame_len len of
                 Inl e \<Rightarrow> Done (poison (io\<lparr>io_recv_header := Some (bs, offset)\<rparr>)) (Ready (Inl e))
               | Inr _ \<Rightarrow> Again (io\<lparr>io_recv_header := None, io_recv_body := Some (replicate len 0, 0)\<rparr>)))"

definition recv_body_step :: "chan_ext \<Rightarrow> bytes \<Rightarrow> nat \<Rightarrow> v6_io \<Rightarrow> recv_turn" where
  "recv_body_step C bs offset io =
     (case transport_poll_read (length bs - offset) (io_stream io) of
        (t, Pending) \<Rightarrow> Done (io\<lparr>io_stream := t\<rparr>) Pending
      | (t, Ready (Inl e)) \<Rightarrow> Done (poison (io\<lparr>io_stream := t\<rparr>)) (Ready (Inl e))
      | (t, Ready (Inr data)) \<Rightarrow>
          let io = io\<lparr>io_stream := t\<rparr>; n = length data in
          if n = 0 then Done (poison io) (Ready (Inl ''IPC v6 transport ended during a frame body''))
          else
            let bs = take offset bs @ data @ drop (offset + n) bs; offset = offset + n in
            if offset < length bs then Again (io\<lparr>io_recv_body := Some (bs, offset)\<rparr>)
            else
              (case accept_body C bs (io_session io) of
                 (session, Inl e) \<Rightarrow> Done (poison (io\<lparr>io_recv_body := None, io_session := session\<rparr>)) (Ready (Inl e))
               | (session, Inr plaintext) \<Rightarrow>
                   Again (io\<lparr>io_recv_body := None, io_session := session, io_read_buf := plaintext,
                             io_read_offset := 0\<rparr>)))"

definition recv_step :: "chan_ext \<Rightarrow> v6_io \<Rightarrow> recv_turn" where
  "recv_step C io =
     (case io_recv_header io of
        Some (bs, offset) \<Rightarrow> recv_header_step bs offset io
      | None \<Rightarrow>
          (case io_recv_body io of
             Some (bs, offset) \<Rightarrow> recv_body_step C bs offset io
           | None \<Rightarrow> Again io))"

fun poll_read_io :: "nat \<Rightarrow> chan_ext \<Rightarrow> nat \<Rightarrow> v6_io \<Rightarrow> v6_io \<times> bytes res poll" where
  "poll_read_io budget C remaining io =
     (if io_read_offset io < length (io_read_buf io) then
        (case serve remaining io of (io, data) \<Rightarrow> (io, Ready (Inr data)))
      else
        case budget of
          0 \<Rightarrow> (io, Pending)
        | Suc budget \<Rightarrow>
            (case recv_step C (start_header io) of
               Again io \<Rightarrow> poll_read_io budget C remaining io
             | Done io result \<Rightarrow> (io, result)))"

declare poll_read_io.simps [simp del]

definition poll_read :: "chan_ext \<Rightarrow> nat \<Rightarrow> v6_io \<Rightarrow> v6_io \<times> bytes res poll" where
  "poll_read C remaining io =
     (if io_poisoned io then (io, Ready (Inl ''IPC v6 adapter is poisoned''))
      else poll_read_io V6_ADAPTER_IO_BUDGET C remaining io)"

section \<open>Lemmas\<close>

subsection \<open>Reading whole frames\<close>

text \<open>The reference for the receiving side: whole frames read with \<open>read_data_frame\<close>, one after the other, each
  checked against the root request, up to the end of the input or the first error.\<close>

lemma read_data_frame_short:
  assumes "w_in w \<noteq> []" and "length (w_in w) < 4 \<or>
    (\<forall>u. validate_ciphertext_frame_len (be_value (take 4 (w_in w))) \<noteq> Inr u) \<or>
    length (w_in w) < 4 + be_value (take 4 (w_in w))"
  shows "\<exists>ws e. read_data_frame C d (w, st) = (ws, Inl e)"
  using assms
  by (auto simp: read_data_frame_def read_exact_def split: sum.splits)

lemma read_data_frame_body:
  assumes "length h = 4" "be_value h = length c" "validate_ciphertext_frame_len (length c) = Inr ()"
  shows "read_data_frame C d (\<lparr>w_in = h @ c @ rest, w_out = b\<rparr>, st) =
    (case expect_next_counter d st of
       (st, Inl e) \<Rightarrow> ((\<lparr>w_in = rest, w_out = b\<rparr>, st), Inl e)
     | (st, Inr n) \<Rightarrow> ((\<lparr>w_in = rest, w_out = b\<rparr>, st),
         and_then (decrypt_frame C d c n st) (\<lambda>plaintext. Inr (Some plaintext))))"
proof -
  have "h \<noteq> []" using assms(1) by auto
  with assms show ?thesis by (auto simp: read_data_frame_def read_exact_def split: prod.splits sum.splits)
qed

lemma read_data_frame_shorter:
  assumes "read_data_frame C d (w, st) = ((w', st'), Inr (Some p))"
  shows "length (w_in w') < length (w_in w)"
proof -
  have ne: "w_in w \<noteq> []" using assms by (auto simp: read_data_frame_def)
  from read_data_frame_short [OF ne, of C d st] assms
  have l: "4 \<le> length (w_in w)" "validate_ciphertext_frame_len (be_value (take 4 (w_in w))) = Inr ()"
    "4 + be_value (take 4 (w_in w)) \<le> length (w_in w)"
    by (fastforce simp: not_less)+
  let ?h = "take 4 (w_in w)" and ?c = "take (be_value (take 4 (w_in w))) (drop 4 (w_in w))"
    and ?rest = "drop (be_value (take 4 (w_in w))) (drop 4 (w_in w))"
  have "w_in w = ?h @ ?c @ ?rest" by (simp only: append_take_drop_id)
  then have w: "w = \<lparr>w_in = ?h @ ?c @ ?rest, w_out = w_out w\<rparr>" by (metis wire.surjective old.unit.exhaust)
  have "read_data_frame C d (\<lparr>w_in = ?h @ ?c @ ?rest, w_out = w_out w\<rparr>, st) = ((w', st'), Inr (Some p))"
    using assms w by metis
  then have "w_in w' = ?rest"
    using l by (subst (asm) read_data_frame_body) (auto split: prod.splits sum.splits)
  with l(1) show ?thesis by simp
qed

function read_frames :: "chan_ext \<Rightarrow> v6_session \<Rightarrow> bytes \<Rightarrow> bytes list \<times> unit res" where
  "read_frames C session bs =
     (case read_data_frame C (dir_recv session) (\<lparr>w_in = bs, w_out = []\<rparr>, session_state session) of
        (_, Inl e) \<Rightarrow> ([], Inl e)
      | (_, Inr None) \<Rightarrow> ([], Inr ())
      | ((w, st), Inr (Some plaintext)) \<Rightarrow>
          (case root_ok_for_recv C (set_session_state st session) (drop (min 4 (length plaintext)) plaintext) of
             (_, False) \<Rightarrow> ([], Inl ''IPC v6 root request does not match the handshake prelude'')
           | (session, True) \<Rightarrow>
               (case read_frames C session (w_in w) of (ps, r) \<Rightarrow> (plaintext # ps, r))))"
  by pat_completeness auto
termination
proof (relation "measure (\<lambda>(C, session, bs). length bs)")
qed (auto dest!: sym [of "((_, _), _)"] read_data_frame_shorter)

declare read_frames.simps [simp del]

lemma session_simps [simp]:
  "session_state (set_session_state st s) = st" "dir_recv (set_session_state st s) = dir_recv s"
  "dir_send (set_session_state st s) = dir_send s"
  by (cases s; simp)+

lemma read_frames_Nil [simp]: "read_frames C s [] = ([], Inr ())"
  by (simp add: read_frames.simps [of C s "[]"] read_data_frame_def)

lemma read_frames_bad:
  assumes "bs \<noteq> []" and "length bs < 4 \<or>
    (\<forall>u. validate_ciphertext_frame_len (be_value (take 4 bs)) \<noteq> Inr u) \<or> length bs < 4 + be_value (take 4 bs)"
  shows "\<exists>e. read_frames C s bs = ([], Inl e)"
  using read_data_frame_short [of "\<lparr>w_in = bs, w_out = []\<rparr>" C "dir_recv s" "session_state s"] assms
  by (auto simp: read_frames.simps [of C s bs])

lemma read_frames_body:
  assumes "length h = 4" "be_value h = length c" "validate_ciphertext_frame_len (length c) = Inr ()"
  shows "read_frames C s (h @ c @ rest) =
    (case accept_body C c s of
       (_, Inl e) \<Rightarrow> ([], Inl e)
     | (s', Inr p) \<Rightarrow> (case read_frames C s' rest of (ps, r) \<Rightarrow> (p # ps, r)))"
  by (subst read_frames.simps, subst read_data_frame_body [OF assms])
    (auto simp: accept_body_def Let_def split: prod.splits sum.splits bool.splits)

subsection \<open>Receiving by polls\<close>

lemma transport_read_data:
  assumes "transport_poll_read n t = (t', Ready (Inr data))" "0 < n"
  shows "tr_in t = data @ tr_in t'" "length data \<le> n" "data = [] \<Longrightarrow> tr_in t = []"
    "set (tr_schedule t') \<subseteq> set (tr_schedule t)"
  using assms by (auto simp: transport_poll_read_def Let_def min_def split: list.splits poll_item.splits if_splits)

lemma transport_read_pending:
  assumes "transport_poll_read n t = (t', Pending)"
  shows "tr_in t' = tr_in t" "set (tr_schedule t') \<subseteq> set (tr_schedule t)"
  using assms by (auto simp: transport_poll_read_def Let_def split: list.splits poll_item.splits)

lemma transport_read_fault:
  assumes "transport_poll_read n t = (t', Ready (Inl e))"
  shows "Fault e \<in> set (tr_schedule t)"
  using assms by (auto simp: transport_poll_read_def Let_def split: list.splits poll_item.splits)

text \<open>The bytes of the frame being received, and the input after them.\<close>

definition unread :: "v6_io \<Rightarrow> bytes" where
  "unread io =
     (case io_recv_header io of
        Some (bs, offset) \<Rightarrow> take offset bs
      | None \<Rightarrow>
          (case io_recv_body io of
             Some (bs, offset) \<Rightarrow> be32 (word_of_nat (length bs)) @ take offset bs
           | None \<Rightarrow> [])) @ tr_in (io_stream io)"

definition recv_ok :: "v6_io \<Rightarrow> bool" where
  "recv_ok io \<longleftrightarrow>
     (\<forall>bs offset. io_recv_header io = Some (bs, offset) \<longrightarrow> length bs = 4 \<and> offset < 4 \<and> io_recv_body io = None) \<and>
     (\<forall>bs offset. io_recv_body io = Some (bs, offset) \<longrightarrow>
        offset < length bs \<and> validate_ciphertext_frame_len (length bs) = Inr ())"

text \<open>What is still to be served, and how the stream ends, by the reference reader.\<close>

definition to_serve :: "chan_ext \<Rightarrow> v6_io \<Rightarrow> bytes \<times> unit res" where
  "to_serve C io =
     (case read_frames C (io_session io) (unread io) of
        (ps, r) \<Rightarrow> (drop (io_read_offset io) (io_read_buf io) @ concat ps, r))"

definition read_keeps :: "chan_ext \<Rightarrow> v6_io \<Rightarrow> v6_io \<Rightarrow> bool" where
  "read_keeps C io io' \<longleftrightarrow>
     recv_ok io' \<and> to_serve C io' = to_serve C io \<and> io_poisoned io' = io_poisoned io \<and>
     set (tr_schedule (io_stream io')) \<subseteq> set (tr_schedule (io_stream io))"

definition read_spec :: "chan_ext \<Rightarrow> nat \<Rightarrow> v6_io \<Rightarrow> v6_io \<Rightarrow> bytes res poll \<Rightarrow> bool" where
  "read_spec C n io io' r =
     (case r of
        Pending \<Rightarrow> read_keeps C io io'
      | Ready (Inr data) \<Rightarrow>
          recv_ok io' \<and> to_serve C io = (data @ fst (to_serve C io'), snd (to_serve C io')) \<and>
          length data \<le> n \<and> (data = [] \<and> 0 < n \<longrightarrow> to_serve C io = ([], Inr ())) \<and>
          io_poisoned io' = io_poisoned io \<and> set (tr_schedule (io_stream io')) \<subseteq> set (tr_schedule (io_stream io))
      | Ready (Inl e) \<Rightarrow>
          io_poisoned io' \<and>
          (Fault e \<in> set (tr_schedule (io_stream io)) \<or> (\<exists>e. to_serve C io = ([], Inl e))))"

lemma read_spec_trans: "read_keeps C io io1 \<Longrightarrow> read_spec C n io1 io' r \<Longrightarrow> read_spec C n io io' r"
  by (auto simp: read_spec_def read_keeps_def split: poll.splits sum.splits)

lemma poison_poisoned [simp]: "io_poisoned (poison io)"
  by (simp add: poison_def zeroize_buffers_def)

lemma read_keeps_refl: "recv_ok io \<Longrightarrow> read_keeps C io io"
  by (simp add: read_keeps_def)

lemma start_header_keeps: "recv_ok io \<Longrightarrow> read_keeps C io (start_header io)"
  by (auto simp: read_keeps_def start_header_def recv_ok_def to_serve_def unread_def)

lemma to_serve_bad:
  assumes "unread io \<noteq> []" "\<not> io_read_offset io < length (io_read_buf io)"
    and "length (unread io) < 4 \<or> (\<forall>u. validate_ciphertext_frame_len (be_value (take 4 (unread io))) \<noteq> Inr u) \<or>
      length (unread io) < 4 + be_value (take 4 (unread io))"
  shows "\<exists>e. to_serve C io = ([], Inl e)"
proof -
  obtain e where "read_frames C (io_session io) (unread io) = ([], Inl e)"
    using read_frames_bad [OF assms(1,3)] by blast
  with assms(2) show ?thesis by (simp add: to_serve_def)
qed

lemma header_step:
  assumes "recv_ok io" "io_recv_header io = Some (bs, offset)" "\<not> io_read_offset io < length (io_read_buf io)"
  shows "case recv_header_step bs offset io of Again io' \<Rightarrow> read_keeps C io io' | Done io' r \<Rightarrow> read_spec C n io io' r"
proof -
  from assms(1,2) have h: "length bs = 4" "offset < 4" "io_recv_body io = None" by (auto simp: recv_ok_def)
  obtain t r where p: "transport_poll_read (length bs - offset) (io_stream io) = (t, r)" by fastforce
  have u: "unread io = take offset bs @ tr_in (io_stream io)" using assms(2) by (simp add: unread_def)
  show ?thesis
  proof (cases r)
    case Pending
    then show ?thesis
      using transport_read_pending [of "length bs - offset" "io_stream io" t] p assms h u
      by (auto simp: Let_def recv_header_step_def read_spec_def read_keeps_def recv_ok_def to_serve_def unread_def)
  next
    case (Ready x)
    show ?thesis
    proof (cases x)
      case (Inl e)
      then show ?thesis
        using transport_read_fault [of "length bs - offset" "io_stream io" t e] p Ready
        by (simp add: Let_def recv_header_step_def read_spec_def)
    next
      case (Inr data)
      with p Ready h have d: "tr_in (io_stream io) = data @ tr_in t" "length data \<le> 4 - offset"
        "data = [] \<Longrightarrow> tr_in (io_stream io) = []" "set (tr_schedule t) \<subseteq> set (tr_schedule (io_stream io))"
        using transport_read_data [of "length bs - offset" "io_stream io" t data] by auto
      let ?bs = "take offset bs @ data @ drop (offset + length data) bs"
      have u': "unread io = take offset bs @ data @ tr_in t" using u d(1) by simp
      consider "data = []" "offset = 0" | "data = []" "offset > 0" | "data \<noteq> []" "offset + length data < 4"
        | "data \<noteq> []" "offset + length data = 4" using d(2) h by linarith
      then show ?thesis
      proof cases
        case 1
        then have "to_serve C io = ([], Inr ())" using u' d assms(3) by (simp add: to_serve_def)
        moreover have "to_serve C (io\<lparr>io_stream := t\<rparr>) = ([], Inr ())" "recv_ok (io\<lparr>io_stream := t\<rparr>)"
          using 1 d assms by (auto simp: to_serve_def unread_def recv_ok_def)
        ultimately show ?thesis
          using 1 p Ready Inr d(4) by (simp add: Let_def recv_header_step_def read_spec_def)
      next
        case 2
        then have "\<exists>e. to_serve C io = ([], Inl e)"
          using u' d h by (intro to_serve_bad assms(3)) auto
        with 2 p Ready Inr show ?thesis by (simp add: Let_def recv_header_step_def read_spec_def)
      next
        case 3
        let ?io = "io\<lparr>io_stream := t, io_recv_header := Some (?bs, offset + length data)\<rparr>"
        have "unread ?io = unread io" using 3 h u' by (simp add: unread_def)
        then have "read_keeps C io ?io" using 3 h d(4) assms(2) by (simp add: read_keeps_def recv_ok_def to_serve_def)
        with 3 p Ready Inr show ?thesis by (simp add: Let_def recv_header_step_def)
      next
        case 4
        define B where "B = take offset bs @ data @ drop 4 bs"
        have bs: "length B = 4" "unread io = B @ tr_in t" using 4 h u' by (auto simp: B_def)
        show ?thesis
        proof (cases "validate_ciphertext_frame_len (be_value B)")
          case (Inl e)
          have "unread io \<noteq> []" "\<forall>u. validate_ciphertext_frame_len (be_value (take 4 (unread io))) \<noteq> Inr u"
            using Inl bs by auto
          then have "\<exists>e. to_serve C io = ([], Inl e)" using to_serve_bad assms(3) by blast
          with 4 p Ready \<open>x = Inr data\<close> Inl show ?thesis by (simp add: Let_def recv_header_step_def read_spec_def flip: B_def)
        next
          case v: (Inr u)
          let ?io = "io\<lparr>io_stream := t, io_recv_header := None, io_recv_body := Some (replicate (be_value B) 0, 0)\<rparr>"
          have "be32 (word_of_nat (be_value B)) = B"
            using be_bytes_be_value [of B] be_value_less [of B] bs(1) by (simp add: be32_def unat_of_nat)
          then have "unread ?io = unread io" using bs(2) by (simp add: unread_def)
          then have "read_keeps C io ?io"
            using v d(4) by (simp add: read_keeps_def recv_ok_def to_serve_def validate_lens_eq v6_sizes)
          with 4 p Ready Inr v show ?thesis by (simp add: Let_def recv_header_step_def flip: B_def)
        qed
      qed
    qed
  qed
qed

lemma body_step:
  assumes "recv_ok io" "io_recv_header io = None" "io_recv_body io = Some (bs, offset)"
    "\<not> io_read_offset io < length (io_read_buf io)"
  shows "case recv_body_step C bs offset io of Again io' \<Rightarrow> read_keeps C io io' | Done io' r \<Rightarrow> read_spec C n io io' r"
proof -
  from assms(1,3) have h: "offset < length bs" "validate_ciphertext_frame_len (length bs) = Inr ()" by (auto simp: recv_ok_def)
  define H where "H = be32 (word_of_nat (length bs))"
  have H: "length H = 4" "be_value H = length bs"
    using h(2) be32_length [of "length bs"] by (simp_all add: H_def validate_lens_eq v6_sizes)
  obtain t r where p: "transport_poll_read (length bs - offset) (io_stream io) = (t, r)" by fastforce
  have u: "unread io = H @ take offset bs @ tr_in (io_stream io)" using assms(2,3) by (simp add: unread_def H_def)
  show ?thesis
  proof (cases r)
    case Pending
    then show ?thesis
      using transport_read_pending [of "length bs - offset" "io_stream io" t] p assms h u
      by (auto simp: Let_def recv_body_step_def read_spec_def read_keeps_def recv_ok_def to_serve_def unread_def)
  next
    case (Ready x)
    show ?thesis
    proof (cases x)
      case (Inl e)
      then show ?thesis
        using transport_read_fault [of "length bs - offset" "io_stream io" t e] p Ready
        by (simp add: recv_body_step_def read_spec_def)
    next
      case (Inr data)
      with p Ready h have d: "tr_in (io_stream io) = data @ tr_in t" "length data \<le> length bs - offset"
        "data = [] \<Longrightarrow> tr_in (io_stream io) = []" "set (tr_schedule t) \<subseteq> set (tr_schedule (io_stream io))"
        using transport_read_data [of "length bs - offset" "io_stream io" t data] by auto
      have u': "unread io = H @ take offset bs @ data @ tr_in t" using u d(1) by simp
      define B where "B = take offset bs @ data @ drop (offset + length data) bs"
      have lB: "length B = length bs" using d(2) h(1) by (simp add: B_def)
      consider "data = []" | "data \<noteq> []" "offset + length data < length bs"
        | "data \<noteq> []" "offset + length data = length bs" using d(2) h by linarith
      then show ?thesis
      proof cases
        case 1
        then have "length (unread io) < 4 + be_value (take 4 (unread io))" "unread io \<noteq> []" using u' d h(1) H by auto
        then have "\<exists>e. to_serve C io = ([], Inl e)" using to_serve_bad assms(4) by blast
        with 1 p Ready Inr show ?thesis by (simp add: Let_def recv_body_step_def read_spec_def)
      next
        case 2
        let ?io = "io\<lparr>io_stream := t, io_recv_body := Some (B, offset + length data)\<rparr>"
        have "take (offset + length data) B = take offset bs @ data" using 2 by (simp add: B_def)
        then have "unread ?io = unread io" using lB u' assms(2) by (simp add: unread_def H_def)
        then have "read_keeps C io ?io"
          using 2 h d(4) assms(2) lB by (simp add: read_keeps_def recv_ok_def to_serve_def)
        with 2 p Ready Inr lB show ?thesis by (simp add: Let_def recv_body_step_def flip: B_def)
      next
        case 3
        then have B: "take offset bs @ data = B" by (simp add: B_def)
        from 3
        have "unread io = H @ B @ tr_in t" using u' by (simp add: B_def)
        then have ts: "to_serve C io = (case accept_body C B (io_session io) of
           (_, Inl e) \<Rightarrow> ([], Inl e)
         | (s', Inr q) \<Rightarrow> (case read_frames C s' (tr_in t) of (ps, r) \<Rightarrow> (q @ concat ps, r)))"
          using read_frames_body [of H B C "io_session io" "tr_in t"] H h(2) lB assms(4)
          by (simp add: to_serve_def split: prod.splits sum.splits)
        obtain s' y where a: "accept_body C B (io_session io) = (s', y)" by fastforce
        show ?thesis
        proof (cases y)
          case (Inl e)
          then have "\<exists>e. to_serve C io = ([], Inl e)" using ts a by simp
          with 3 p Ready \<open>x = Inr data\<close> lB a Inl show ?thesis
            by (simp add: Let_def recv_body_step_def read_spec_def B)
        next
          case v: (Inr q)
          let ?io = "io\<lparr>io_stream := t, io_recv_body := None, io_session := s', io_read_buf := q, io_read_offset := 0\<rparr>"
          have "read_keeps C io ?io"
            using ts a v d(4) assms(2) by (simp add: read_keeps_def recv_ok_def to_serve_def unread_def)
          with 3 p Ready Inr lB a v show ?thesis by (simp add: Let_def recv_body_step_def B)
        qed
      qed
    qed
  qed
qed

lemma serve_spec:
  assumes "recv_ok io" "io_read_offset io < length (io_read_buf io)" "serve n io = (io', data)"
  shows "read_spec C n io io' (Ready (Inr data))"
proof -
  let ?rest = "drop (io_read_offset io) (io_read_buf io)"
  from assms(2,3) have "data = take n ?rest" "unread io' = unread io" "io_session io' = io_session io"
    "drop (io_read_offset io') (io_read_buf io') = drop n ?rest" "recv_ok io' = recv_ok io"
    "io_stream io' = io_stream io" "io_poisoned io' = io_poisoned io"
    by (auto simp: serve_def Let_def unread_def recv_ok_def min_def add.commute split: if_splits cong: option.case_cong)
  moreover from this(1) assms(2) have "0 < n \<Longrightarrow> data \<noteq> []" by auto
  moreover have "?rest = take n ?rest @ drop n ?rest" by (rule append_take_drop_id [symmetric])
  ultimately show ?thesis
    using assms(1) by (auto simp: read_spec_def to_serve_def simp del: drop_drop split: prod.splits)
qed

lemma step_spec:
  assumes "recv_ok io" "\<not> io_read_offset io < length (io_read_buf io)"
  shows "case recv_step C (start_header io) of Again io' \<Rightarrow> read_keeps C io io' | Done io' r \<Rightarrow> read_spec C n io io' r"
proof -
  let ?io = "start_header io"
  have k: "read_keeps C io ?io" by (rule start_header_keeps [OF assms(1)])
  then have ok: "recv_ok ?io" by (simp add: read_keeps_def)
  have b: "\<not> io_read_offset ?io < length (io_read_buf ?io)" using assms(2) by (simp add: start_header_def)
  have "case recv_step C ?io of Again io' \<Rightarrow> read_keeps C ?io io' | Done io' r \<Rightarrow> read_spec C n ?io io' r"
    using header_step [OF ok _ b, of _ _ C n] body_step [OF ok _ _ b, of _ _ C n] read_keeps_refl [OF ok, of C]
    by (auto simp: recv_step_def split: option.splits)
  then show ?thesis
    using read_spec_trans [OF k] k by (auto simp: read_keeps_def split: recv_turn.splits)
qed

lemma poll_read_io_spec:
  "recv_ok io \<Longrightarrow> poll_read_io budget C n io = (io', r) \<Longrightarrow> read_spec C n io io' r"
proof (induction budget arbitrary: io)
  case 0
  show ?case
  proof (cases "io_read_offset io < length (io_read_buf io)")
    case True
    with "0.prems" serve_spec [of io n io'] show ?thesis
      by (auto simp: poll_read_io.simps [of 0] split: prod.splits)
  next
    case False
    with "0.prems" read_keeps_refl [of io C] show ?thesis
      by (auto simp: poll_read_io.simps [of 0] read_spec_def)
  qed
next
  case (Suc budget)
  show ?case
  proof (cases "io_read_offset io < length (io_read_buf io)")
    case True
    with Suc.prems serve_spec [of io n io'] show ?thesis
      by (auto simp: poll_read_io.simps [of "Suc budget"] split: prod.splits)
  next
    case False
    note s = step_spec [OF Suc.prems(1) False, of C n]
    show ?thesis
    proof (cases "recv_step C (start_header io)")
      case (Again io1)
      with Suc.prems(2) False have "poll_read_io budget C n io1 = (io', r)"
        by (simp add: poll_read_io.simps [of "Suc budget"])
      with s Again Suc.IH [of io1] read_spec_trans [of C io io1 n io' r] show ?thesis by (simp add: read_keeps_def)
    next
      case (Done io1 r1)
      with s Suc.prems(2) False show ?thesis by (simp add: poll_read_io.simps [of "Suc budget"])
    qed
  qed
qed

text \<open>A sequence of polls with buffers of given sizes: the bytes delivered, and the error that ended it.\<close>

fun poll_reads :: "chan_ext \<Rightarrow> nat list \<Rightarrow> v6_io \<Rightarrow> v6_io \<times> bytes \<times> string option" where
  "poll_reads C [] io = (io, [], None)"
| "poll_reads C (n # ns) io =
     (case poll_read C n io of
        (io, Pending) \<Rightarrow> poll_reads C ns io
      | (io, Ready (Inl e)) \<Rightarrow> (io, [], Some e)
      | (io, Ready (Inr data)) \<Rightarrow> (case poll_reads C ns io of (io, later, e) \<Rightarrow> (io, data @ later, e)))"

lemma poll_reads_spec:
  assumes "recv_ok io" "\<not> io_poisoned io" "poll_reads C ns io = (io', data, err)"
  shows "\<exists>later. fst (to_serve C io) = data @ later \<and>
    (case err of
       None \<Rightarrow> recv_ok io' \<and> \<not> io_poisoned io' \<and> to_serve C io' = (later, snd (to_serve C io))
     | Some e \<Rightarrow> io_poisoned io' \<and> (Fault e \<in> set (tr_schedule (io_stream io)) \<or> later = [] \<and> isl (snd (to_serve C io))))"
  using assms
proof (induction ns arbitrary: io data)
  case Nil
  then show ?case by simp
next
  case (Cons n ns)
  obtain io1 r where p: "poll_read C n io = (io1, r)" by fastforce
  with Cons.prems(1,2) have s: "read_spec C n io io1 r" by (auto simp: poll_read_def intro: poll_read_io_spec)
  show ?case
  proof (cases r)
    case Pending
    with s p Cons.prems Cons.IH [of io1 data] show ?thesis
      by (fastforce simp: read_spec_def read_keeps_def split: option.splits)
  next
    case (Ready x)
    show ?thesis
    proof (cases x)
      case (Inl e)
      with s p Ready Cons.prems show ?thesis by (auto simp: read_spec_def)
    next
      case (Inr d)
      obtain data' where d: "poll_reads C ns io1 = (io', data', err)" "data = d @ data'"
        using Cons.prems(3) p Ready Inr by (auto split: prod.splits)
      with s p Ready Inr Cons.prems Cons.IH [of io1 data'] show ?thesis
        by (fastforce simp: read_spec_def split: option.splits)
    qed
  qed
qed

lemma io_new_recv:
  "recv_ok (io_new t s)" "\<not> io_poisoned (io_new t s)" "io_stream (io_new t s) = t"
  "to_serve C (io_new t s) = (concat (fst (read_frames C s (tr_in t))), snd (read_frames C s (tr_in t)))"
  by (simp_all add: io_new_def recv_ok_def to_serve_def unread_def split: prod.splits)

text \<open>A transport that is always ready.\<close>

fun is_upto :: "poll_item \<Rightarrow> bool" where
  "is_upto (Upto _) = True"
| "is_upto _ = False"

lemma transport_read_upto:
  assumes "list_all is_upto (tr_schedule t)" "tr_schedule t \<noteq> []"
  obtains k where "transport_poll_read n t =
    (t\<lparr>tr_schedule := tl (tr_schedule t), tr_in := drop (min n (Suc k)) (tr_in t)\<rparr>, Ready (Inr (take (min n (Suc k)) (tr_in t))))"
proof -
  from assms obtain m x where "tr_schedule t = Upto m # x" by (cases "tr_schedule t" rule: list.exhaust) (auto elim: is_upto.elims)
  with that [of "m - 1"] show thesis by (cases m) (auto simp: transport_poll_read_def Let_def)
qed

lemma poison_stream [simp]: "io_stream (poison io) = io_stream io"
  by (simp add: poison_def zeroize_buffers_def)

lemma step_progress:
  assumes "recv_ok io" "list_all is_upto (tr_schedule (io_stream io))" "tr_schedule (io_stream io) \<noteq> []"
  shows "case recv_step C (start_header io) of
     Again io' \<Rightarrow> length (tr_in (io_stream io')) < length (tr_in (io_stream io)) \<and>
       tr_schedule (io_stream io') = tl (tr_schedule (io_stream io))
   | Done io' r \<Rightarrow> r \<noteq> Pending \<and> length (tr_in (io_stream io')) \<le> length (tr_in (io_stream io)) \<and>
       tr_schedule (io_stream io') = tl (tr_schedule (io_stream io))"
proof -
  let ?io = "start_header io"
  have s: "io_stream ?io = io_stream io" by (simp add: start_header_def)
  have "io_recv_header ?io \<noteq> None \<or> io_recv_body ?io \<noteq> None" by (simp add: start_header_def)
  moreover have "recv_ok ?io" using start_header_keeps [OF assms(1)] by (simp add: read_keeps_def)
  ultimately consider bs offset where "io_recv_header ?io = Some (bs, offset)" "length bs = 4" "offset < 4"
    | bs offset where "io_recv_header ?io = None" "io_recv_body ?io = Some (bs, offset)" "offset < length bs"
    by (cases "io_recv_header ?io") (auto simp: recv_ok_def)
  then show ?thesis
  proof cases
    case (1 bs offset)
    obtain k where "transport_poll_read (length bs - offset) (io_stream io) =
      ((io_stream io)\<lparr>tr_schedule := tl (tr_schedule (io_stream io)),
         tr_in := drop (min (length bs - offset) (Suc k)) (tr_in (io_stream io))\<rparr>,
       Ready (Inr (take (min (length bs - offset) (Suc k)) (tr_in (io_stream io)))))"
      by (rule transport_read_upto [OF assms(2,3)])
    with 1 s show ?thesis
      by (auto simp: recv_step_def recv_header_step_def Let_def split: sum.splits)
  next
    case (2 bs offset)
    obtain k where "transport_poll_read (length bs - offset) (io_stream io) =
      ((io_stream io)\<lparr>tr_schedule := tl (tr_schedule (io_stream io)),
         tr_in := drop (min (length bs - offset) (Suc k)) (tr_in (io_stream io))\<rparr>,
       Ready (Inr (take (min (length bs - offset) (Suc k)) (tr_in (io_stream io)))))"
      by (rule transport_read_upto [OF assms(2,3)])
    with 2 s show ?thesis
      by (auto simp: recv_step_def recv_body_step_def Let_def split: sum.splits prod.splits)
  qed
qed

lemma poll_read_progress:
  assumes "recv_ok io" "list_all is_upto (tr_schedule (io_stream io))" "budget \<le> length (tr_schedule (io_stream io))"
    "poll_read_io budget C n io = (io', r)"
  shows "length (tr_in (io_stream io')) + (if r = Pending then budget else 0) \<le> length (tr_in (io_stream io)) \<and>
    (\<exists>k\<le>budget. tr_schedule (io_stream io') = drop k (tr_schedule (io_stream io)))"
  using assms
proof (induction budget arbitrary: io)
  case 0
  then show ?case
    by (auto simp: poll_read_io.simps [of 0] serve_def Let_def split: if_splits)
next
  case (Suc budget)
  show ?case
  proof (cases "io_read_offset io < length (io_read_buf io)")
    case True
    with Suc.prems(4) have "io_stream io' = io_stream io" "r \<noteq> Pending"
      by (auto simp: poll_read_io.simps [of "Suc budget"] serve_def Let_def split: if_splits)
    then show ?thesis by (auto intro: exI [of _ 0])
  next
    case False
    have ne: "tr_schedule (io_stream io) \<noteq> []" using Suc.prems(3) by auto
    note p = step_progress [OF Suc.prems(1,2) ne, of C] and s = step_spec [OF Suc.prems(1) False, of C n]
    show ?thesis
    proof (cases "recv_step C (start_header io)")
      case (Again io1)
      with Suc.prems(4) False have r: "poll_read_io budget C n io1 = (io', r)"
        by (simp add: poll_read_io.simps [of "Suc budget"])
      have up: "list_all is_upto (tl (tr_schedule (io_stream io)))"
        using Suc.prems(2) ne by (cases "tr_schedule (io_stream io)") auto
      from Suc.IH [OF _ _ _ r] s p Again up Suc.prems(3)
      have "length (tr_in (io_stream io')) + (if r = Pending then budget else 0) \<le> length (tr_in (io_stream io1))"
        "\<exists>k\<le>budget. tr_schedule (io_stream io') = drop k (tl (tr_schedule (io_stream io)))"
        by (auto simp: read_keeps_def)
      moreover have "drop k (tl xs) = drop (Suc k) xs" for k and xs :: "poll_item list" by (simp add: drop_Suc)
      ultimately show ?thesis using p Again by (auto intro: exI [of _ "Suc _"])
    next
      case (Done io1 r1)
      with p Suc.prems(4) False ne show ?thesis
        by (auto simp: poll_read_io.simps [of "Suc budget"] drop_Suc intro: exI [of _ 1])
    qed
  qed
qed

lemma poll_reads_complete:
  assumes "recv_ok io" "\<not> io_poisoned io" "list_all is_upto (tr_schedule (io_stream io))"
    "V6_ADAPTER_IO_BUDGET * length ns \<le> length (tr_schedule (io_stream io))" "list_all (\<lambda>n. 0 < n) ns"
    "length (tr_in (io_stream io)) + length (fst (to_serve C io)) < length ns"
    "poll_reads C ns io = (io', data, None)"
  shows "to_serve C io = (data, Inr ())"
  using assms
proof (induction ns arbitrary: io data)
  case Nil
  then show ?case by simp
next
  case (Cons n ns)
  obtain io1 r where p: "poll_read C n io = (io1, r)" by fastforce
  then have q: "poll_read_io V6_ADAPTER_IO_BUDGET C n io = (io1, r)" using Cons.prems(2) by (simp add: poll_read_def)
  have s: "read_spec C n io io1 r" by (rule poll_read_io_spec [OF Cons.prems(1) q])
  have "V6_ADAPTER_IO_BUDGET \<le> length (tr_schedule (io_stream io))" using Cons.prems(4) by simp
  from poll_read_progress [OF Cons.prems(1,3) this q] obtain k where
    g: "length (tr_in (io_stream io1)) + (if r = Pending then V6_ADAPTER_IO_BUDGET else 0) \<le> length (tr_in (io_stream io))"
    "k \<le> V6_ADAPTER_IO_BUDGET" "tr_schedule (io_stream io1) = drop k (tr_schedule (io_stream io))" by blast
  have sch: "list_all is_upto (tr_schedule (io_stream io1))"
    "V6_ADAPTER_IO_BUDGET * length ns \<le> length (tr_schedule (io_stream io1))"
    using g(2,3) Cons.prems(3,4) by (auto simp: list_all_iff dest: in_set_dropD)
  show ?case
  proof (cases r)
    case Pending
    with s Cons.prems p g(1) have "to_serve C io1 = to_serve C io"
      "length (tr_in (io_stream io1)) < length (tr_in (io_stream io))" "recv_ok io1" "\<not> io_poisoned io1"
      "poll_reads C ns io1 = (io', data, None)"
      by (auto simp: read_spec_def read_keeps_def V6_ADAPTER_IO_BUDGET_def)
    with Cons.IH [OF _ _ sch, of data] Cons.prems(5,6) show ?thesis by simp
  next
    case (Ready x)
    with Cons.prems(7) p obtain d where x: "x = Inr d" by (cases x) auto
    then obtain data' where d: "poll_reads C ns io1 = (io', data', None)" "data = d @ data'"
      using Cons.prems(7) p Ready by (auto split: prod.splits)
    from s Ready x Cons.prems(2) have t: "to_serve C io = (d @ fst (to_serve C io1), snd (to_serve C io1))"
      "recv_ok io1" "\<not> io_poisoned io1" "d = [] \<Longrightarrow> to_serve C io = ([], Inr ())"
      using Cons.prems(5) by (auto simp: read_spec_def)
    show ?thesis
    proof (cases "d = []")
      case True
      with t have "to_serve C io1 = ([], Inr ())" by (metis append_Nil fst_conv prod.collapse snd_conv)
      with poll_reads_spec [OF t(2,3) d(1)] True t(4) d(2) show ?thesis by auto
    next
      case False
      then have "length (fst (to_serve C io1)) < length (fst (to_serve C io))" using t(1) by simp
      then have "to_serve C io1 = (data', Inr ())"
        using Cons.IH [OF t(2,3) sch _ _ d(1)] Cons.prems(5,6) g(1) by simp
      with t(1) d(2) show ?thesis by simp
    qed
  qed
qed

text \<open>C35: however the transport cuts the incoming bytes into pieces and delays them, and whatever buffers the caller
  offers, the polled adapter delivers a prefix of what reading whole frames delivers; it fails only on a fault
  of the transport or when all of it is delivered and reading whole frames fails there; it reports the end of
  the stream only when all of it is delivered and the input ended between frames; and on a transport
  that is ready often enough it delivers everything.\<close>

theorem polled_reads_refine_frames:
  assumes "poll_reads C ns (io_new t s) = (io', data, err)" and "read_frames C s (tr_in t) = (ps, r)"
  shows "\<exists>later. concat ps = data @ later \<and>
    (case err of
       Some e \<Rightarrow> Fault e \<in> set (tr_schedule t) \<or> later = [] \<and> isl r
     | None \<Rightarrow> \<forall>n io''. 0 < n \<longrightarrow> poll_read C n io' = (io'', Ready (Inr [])) \<longrightarrow> later = [] \<and> r = Inr ()) \<and>
    (list_all is_upto (tr_schedule t) \<and> V6_ADAPTER_IO_BUDGET * length ns \<le> length (tr_schedule t) \<and>
       list_all (\<lambda>n. 0 < n) ns \<and> length (tr_in t) + length (concat ps) < length ns \<longrightarrow>
     later = [] \<and> (err = None \<longleftrightarrow> r = Inr ()))"
proof -
  have ts: "to_serve C (io_new t s) = (concat ps, r)" by (simp add: io_new_recv assms(2))
  from poll_reads_spec [OF io_new_recv(1,2) assms(1), unfolded ts io_new_recv(3) fst_conv snd_conv]
  obtain later where l: "concat ps = data @ later" "case err of
       None \<Rightarrow> recv_ok io' \<and> \<not> io_poisoned io' \<and> to_serve C io' = (later, r)
     | Some e \<Rightarrow> io_poisoned io' \<and> (Fault e \<in> set (tr_schedule t) \<or> later = [] \<and> isl r)" by blast
  have e: "later = [] \<and> r = Inr ()" if "err = None" "0 < n" "poll_read C n io' = (io'', Ready (Inr []))" for n io''
  proof -
    have "read_spec C n io' io'' (Ready (Inr []))"
      using that l(2) poll_read_io_spec by (auto simp: poll_read_def)
    with that(1,2) l(2) show ?thesis by (auto simp: read_spec_def)
  qed
  have c: "later = [] \<and> (err = None \<longleftrightarrow> r = Inr ())"
    if up: "list_all is_upto (tr_schedule t)" and "V6_ADAPTER_IO_BUDGET * length ns \<le> length (tr_schedule t)"
      "list_all (\<lambda>n. 0 < n) ns" "length (tr_in t) + length (concat ps) < length ns"
  proof (cases err)
    case None
    with poll_reads_complete [OF io_new_recv(1,2), of t s ns C io' data] that assms(1) ts l(1) show ?thesis
      by (simp add: io_new_recv(3))
  next
    case (Some e)
    have "Fault e \<notin> set (tr_schedule t)" using up by (auto simp: list_all_iff)
    with Some l(2) show ?thesis by auto
  qed
  show ?thesis
  proof (intro exI [of _ later] conjI impI)
    show "concat ps = data @ later" by (rule l(1))
    show "case err of Some e \<Rightarrow> Fault e \<in> set (tr_schedule t) \<or> later = [] \<and> isl r
      | None \<Rightarrow> \<forall>n io''. 0 < n \<longrightarrow> poll_read C n io' = (io'', Ready (Inr [])) \<longrightarrow> later = [] \<and> r = Inr ()"
      using l(2) e by (cases err) auto
  qed (use c in blast)+
qed

subsection \<open>Sending by polls\<close>

definition part_rest :: "(bytes \<times> nat) option \<Rightarrow> bytes" where
  "part_rest p = (case p of Some (bs, offset) \<Rightarrow> drop offset bs | None \<Rightarrow> [])"

definition parts_ok :: "(bytes \<times> nat) option \<Rightarrow> (bytes \<times> nat) option \<Rightarrow> bool" where
  "parts_ok header body \<longleftrightarrow>
     (\<forall>bs offset. header = Some (bs, offset) \<longrightarrow> length bs = 4 \<and> offset < 4) \<and>
     (\<forall>bs offset. body = Some (bs, offset) \<longrightarrow> offset < length bs)"

lemma transport_write:
  assumes "transport_poll_write bs t = (t', r)"
  shows "tr_in t' = tr_in t"
    "tr_out t' = tr_out t @ (case r of Ready (Inr n) \<Rightarrow> take n bs | _ \<Rightarrow> [])"
    "r = Ready (Inr n) \<Longrightarrow> n \<le> length bs"
  using assms
  by (auto simp: transport_poll_write_def min_def split: list.splits poll_item.splits)

lemma part_advance: "take n (drop offset bs) @ drop (offset + n) bs = drop offset bs"
  by (metis add.commute append_take_drop_id drop_drop)

lemma poll_send_parts_keeps:
  assumes "poll_send_parts budget t header body = (t', header', body', r)" "parts_ok header body"
  shows "tr_in t' = tr_in t \<and> parts_ok header' body' \<and>
    tr_out t' @ part_rest header' @ part_rest body' = tr_out t @ part_rest header @ part_rest body \<and>
    (r = Ready (Inr ()) \<longrightarrow> header' = None \<and> body' = None)"
  using assms
proof (induction budget arbitrary: t header body)
  case 0
  then show ?case by (cases header; cases body; simp)
next
  case (Suc budget)
  consider "header = None" "body = None" | bs offset where "header = Some (bs, offset)"
    | bs offset where "header = None" "body = Some (bs, offset)" by (metis option.exhaust surj_pair)
  then show ?case
  proof cases
    case 1
    with Suc.prems show ?thesis by simp
  next
    case (2 bs offset)
    obtain t1 x where w: "transport_poll_write (drop offset bs) t = (t1, x)" by fastforce
    note tw = transport_write [OF w]
    have l: "length bs = 4" "offset < 4" "parts_ok None body" using Suc.prems(2) 2 by (auto simp: parts_ok_def)
    show ?thesis
    proof (cases "\<exists>n. x = Ready (Inr n) \<and> n \<noteq> 0")
      case True
      then obtain n where x: "x = Ready (Inr n)" "n \<noteq> 0" by blast
      with tw l have o: "tr_out t1 = tr_out t @ take n (drop offset bs)" "n \<le> 4 - offset" by auto
      show ?thesis
      proof (cases "offset + n < 4")
        case True
        then have "parts_ok (Some (bs, offset + n)) body" using l by (auto simp: parts_ok_def)
        with Suc.IH [of t1 "Some (bs, offset + n)" body] Suc.prems(1) 2 w x True
        have "tr_in t' = tr_in t1 \<and> parts_ok header' body' \<and>
          tr_out t' @ part_rest header' @ part_rest body' = tr_out t1 @ drop (offset + n) bs @ part_rest body \<and>
          (r = Ready (Inr ()) \<longrightarrow> header' = None \<and> body' = None)"
          by (simp add: part_rest_def)
        with o(1) tw(1) part_advance [of n offset bs] 2 show ?thesis by (simp add: part_rest_def)
      next
        case False
        with Suc.IH [of t1 None body] Suc.prems(1) 2 w x l
        have "tr_in t' = tr_in t1 \<and> parts_ok header' body' \<and>
          tr_out t' @ part_rest header' @ part_rest body' = tr_out t1 @ part_rest body \<and>
          (r = Ready (Inr ()) \<longrightarrow> header' = None \<and> body' = None)"
          by (simp add: part_rest_def)
        moreover have "take n (drop offset bs) = drop offset bs" using False o(2) l by simp
        ultimately show ?thesis using o(1) tw(1) 2 by (simp add: part_rest_def)
      qed
    next
      case False
      with Suc.prems 2 w tw show ?thesis by (auto split: poll.splits sum.splits)
    qed
  next
    case (3 bs offset)
    obtain t1 x where w: "transport_poll_write (drop offset bs) t = (t1, x)" by fastforce
    note tw = transport_write [OF w]
    have l: "offset < length bs" using Suc.prems(2) 3 by (auto simp: parts_ok_def)
    show ?thesis
    proof (cases "\<exists>n. x = Ready (Inr n) \<and> n \<noteq> 0")
      case True
      then obtain n where x: "x = Ready (Inr n)" "n \<noteq> 0" by blast
      with tw have o: "tr_out t1 = tr_out t @ take n (drop offset bs)" "n \<le> length bs - offset" by auto
      show ?thesis
      proof (cases "offset + n < length bs")
        case True
        then have "parts_ok None (Some (bs, offset + n))" by (auto simp: parts_ok_def)
        with Suc.IH [of t1 None "Some (bs, offset + n)"] Suc.prems(1) 3 w x True
        have "tr_in t' = tr_in t1 \<and> parts_ok header' body' \<and>
          tr_out t' @ part_rest header' @ part_rest body' = tr_out t1 @ drop (offset + n) bs \<and>
          (r = Ready (Inr ()) \<longrightarrow> header' = None \<and> body' = None)"
          by (simp add: part_rest_def)
        with o(1) tw(1) part_advance [of n offset bs] 3 show ?thesis by (simp add: part_rest_def)
      next
        case False
        then have "take n (drop offset bs) = drop offset bs" using o(2) by simp
        with False Suc.prems(1) 3 w x o(1) tw(1) show ?thesis by (auto simp: part_rest_def parts_ok_def)
      qed
    next
      case False
      with Suc.prems 3 w tw show ?thesis by (auto split: poll.splits sum.splits)
    qed
  qed
qed

text \<open>What the sending side depends on; receiving leaves it alone.\<close>

definition send_keys :: "shared_v6_state \<Rightarrow> u16 \<times> bytes \<times> direction_cipher \<times> direction_cipher" where
  "send_keys st = (st_version st, st_instance_id st, st_c2d st, st_d2c st)"

definition send_view where
  "send_view io = (io_write_buf io, io_send_header io, io_send_body io, tr_out (io_stream io),
     dir_send (io_session io), send_keys (session_state (io_session io)))"

lemma send_keys_seal: "send_keys st = send_keys st' \<Longrightarrow> frame_seal C st d n p = frame_seal C st' d n p"
  by (simp add: send_keys_def frame_seal_def)

lemma send_keys_counter: "send_keys st = send_keys st' \<Longrightarrow> send_counter d st = send_counter d st'"
  by (simp add: send_keys_def send_counter_def)

lemma root_ok_for_recv_keeps:
  "root_ok_for_recv C s p = (s', b) \<Longrightarrow>
     dir_send s' = dir_send s \<and> dir_recv s' = dir_recv s \<and> session_state s' = session_state s"
  by (cases s) (auto simp: Let_def split: if_splits)

lemma accept_body_keeps:
  assumes "accept_body C c s = (s', r)"
  shows "dir_send s' = dir_send s \<and> dir_recv s' = dir_recv s \<and> send_keys (session_state s') = send_keys (session_state s)"
proof -
  have "send_keys st' = send_keys st" if "expect_next_counter d st = (st', x)" for d st st' x
    using that by (auto simp: expect_next_counter_def send_keys_def split: if_splits option.splits)
  with assms show ?thesis
    by (auto simp: accept_body_def Let_def split: prod.splits sum.splits bool.splits
        dest!: root_ok_for_recv_keeps)
qed

lemma transport_read_out: "transport_poll_read n t = (t', r) \<Longrightarrow> tr_out t' = tr_out t"
  by (auto simp: transport_poll_read_def Let_def split: list.splits poll_item.splits)

definition send_undisturbed :: "v6_io \<Rightarrow> v6_io \<Rightarrow> bool" where
  "send_undisturbed io io' \<longleftrightarrow>
     dir_send (io_session io') = dir_send (io_session io) \<and> tr_out (io_stream io') = tr_out (io_stream io) \<and>
     (io_poisoned io' \<or> io_poisoned io' = io_poisoned io \<and> send_view io' = send_view io)"

lemma poison_fields [simp]: "io_session (poison io) = io_session io"
  by (simp add: poison_def zeroize_buffers_def)

lemma recv_step_send:
  "case recv_step C (start_header io) of Again io' \<Rightarrow> io_poisoned io' = io_poisoned io \<and> send_view io' = send_view io
   | Done io' r \<Rightarrow> send_undisturbed io io'"
proof -
  let ?io = "start_header io"
  have s: "send_view ?io = send_view io" "io_poisoned ?io = io_poisoned io" "io_session ?io = io_session io"
    "io_stream ?io = io_stream io" by (simp_all add: start_header_def send_view_def)
  show ?thesis
  proof (cases "io_recv_header ?io")
    case None
    with s show ?thesis
      by (auto simp: recv_step_def recv_body_step_def send_undisturbed_def send_view_def Let_def
          split: option.splits prod.splits poll.splits sum.splits dest!: transport_read_out accept_body_keeps)
  next
    case (Some x)
    with s show ?thesis
      by (auto simp: recv_step_def recv_header_step_def send_undisturbed_def send_view_def Let_def
          split: prod.splits poll.splits sum.splits dest!: transport_read_out)
  qed
qed

lemma poll_read_io_send: "poll_read_io budget C n io = (io', r) \<Longrightarrow> send_undisturbed io io'"
proof (induction budget arbitrary: io)
  case 0
  then show ?case
    by (auto simp: poll_read_io.simps [of 0] serve_def Let_def send_undisturbed_def send_view_def split: if_splits)
next
  case (Suc budget)
  show ?case
  proof (cases "io_read_offset io < length (io_read_buf io)")
    case True
    with Suc.prems show ?thesis
      by (auto simp: poll_read_io.simps [of "Suc budget"] serve_def Let_def send_undisturbed_def send_view_def
          split: if_splits)
  next
    case False
    show ?thesis
    proof (cases "recv_step C (start_header io)")
      case (Again io1)
      with Suc.prems False have "poll_read_io budget C n io1 = (io', r)"
        by (simp add: poll_read_io.simps [of "Suc budget"])
      with Suc.IH [of io1] recv_step_send [where C = C and io = io] Again show ?thesis
        by (auto simp: send_undisturbed_def send_view_def)
    next
      case (Done io1 r1)
      with Suc.prems False recv_step_send [where C = C and io = io] show ?thesis
        by (simp add: poll_read_io.simps [of "Suc budget"])
    qed
  qed
qed

lemma poll_read_send: "poll_read C n io = (io', r) \<Longrightarrow> send_undisturbed io io'"
  by (cases "io_poisoned io") (simp add: poll_read_def send_undisturbed_def, simp add: poll_read_def poll_read_io_send)

definition wire_record :: "bytes \<Rightarrow> bytes" where
  "wire_record c = be32 (word_of_nat (length c)) @ c"

definition sealed :: "chan_ext \<Rightarrow> shared_v6_state \<Rightarrow> u8 \<Rightarrow> bytes list \<Rightarrow> bytes list \<Rightarrow> bool" where
  "sealed C st d ps cs \<longleftrightarrow>
     length cs = length ps \<and> length ps < 2 ^ 64 \<and>
     (\<forall>i<length ps. length (ps ! i) \<le> V6_MAX_PLAINTEXT_FRAME \<and> frame_seal C st d (word_of_nat i) (ps ! i) = Some (cs ! i))"

lemma sealed_snoc:
  assumes "sealed C st d ps cs" "frame_seal C st d (word_of_nat (length ps)) p = Some c"
    "length p \<le> V6_MAX_PLAINTEXT_FRAME" "length ps + 1 < 2 ^ 64"
  shows "sealed C st d (ps @ [p]) (cs @ [c])"
  using assms by (auto simp: sealed_def nth_append less_Suc_eq)

lemma arm_send_eq:
  assumes "chan_laws C"
  shows "arm_send C io = (io', Inr u) \<longleftrightarrow>
    (io_send_header io \<noteq> None \<or> io_send_body io \<noteq> None \<or> io_write_buf io = []) \<and> io' = io \<or>
    io_send_header io = None \<and> io_send_body io = None \<and> io_write_buf io \<noteq> [] \<and>
    (\<exists>payload st c. root_payload (io_write_buf io) = Inr payload \<and> root_ok_for_send C (io_session io) payload \<and>
       encrypt_frame C (dir_send (io_session io)) (io_write_buf io) (session_state (io_session io)) = (st, Inr c) \<and>
       io' = io\<lparr>io_write_buf := [], io_session := note_root_sent (set_session_state st (io_session io)),
                io_send_header := Some (be32 (word_of_nat (length c)), 0), io_send_body := Some (c, 0)\<rparr>)"
proof -
  have len: "length c < 2 ^ 32" if "encrypt_frame C d p st = (st', Inr c)" for d p st st' c
    using that chan_lawsD(2) [OF assms] by (auto simp: encrypt_frame_eq [OF assms] frame_seal_def v6_sizes)
  have cap: "length p \<le> V6_ADAPTER_MAX_FRAME" if "encrypt_frame C d p st = (st', Inr c)" for d p st st' c
    using that by (simp add: encrypt_frame_eq [OF assms] V6_ADAPTER_MAX_FRAME_def)
  show ?thesis
    unfolding arm_send_def
    by (cases "io_send_header io"; cases "io_send_body io")
      (auto simp: Let_def u32_try_from_def split: sum.splits prod.splits dest: len cap)
qed

lemma arm_send_Inl:
  assumes "arm_send C io = (io', Inl e)"
  shows "io_stream io' = io_stream io \<and> dir_send (io_session io') = dir_send (io_session io) \<and>
    io_send_header io = None \<and> io_send_body io = None"
  using assms
  by (cases "io_send_header io"; cases "io_send_body io")
    (auto simp: arm_send_def Let_def split: if_splits sum.splits prod.splits)

definition sender_inv :: "chan_ext \<Rightarrow> shared_v6_state \<Rightarrow> v6_io \<Rightarrow> bytes \<Rightarrow> bool" where
  "sender_inv C st0 io accepted \<longleftrightarrow>
     (\<exists>ps cs. sealed C st0 (dir_send (io_session io)) ps cs \<and>
       (if io_poisoned io
        then prefix (concat ps) accepted \<and> prefix (tr_out (io_stream io)) (concat (map wire_record cs))
        else concat ps @ io_write_buf io = accepted \<and> parts_ok (io_send_header io) (io_send_body io) \<and>
          tr_out (io_stream io) @ part_rest (io_send_header io) @ part_rest (io_send_body io) =
            concat (map wire_record cs) \<and>
          (\<forall>d n p. frame_seal C (session_state (io_session io)) d n p = frame_seal C st0 d n p) \<and>
          send_counter (dir_send (io_session io)) (session_state (io_session io)) = word_of_nat (length ps)))"

lemma sender_inv_poison:
  assumes "sender_inv C st0 io accepted" "dir_send (io_session io') = dir_send (io_session io)"
    "io_poisoned io'" "\<not> io_poisoned io"
    "tr_out (io_stream io') @ x = tr_out (io_stream io) @ part_rest (io_send_header io) @ part_rest (io_send_body io)"
  shows "sender_inv C st0 io' accepted"
proof -
  from assms(1,4) obtain ps cs where "sealed C st0 (dir_send (io_session io)) ps cs"
    "concat ps @ io_write_buf io = accepted"
    "tr_out (io_stream io) @ part_rest (io_send_header io) @ part_rest (io_send_body io) = concat (map wire_record cs)"
    by (auto simp: sender_inv_def)
  with assms(2,3,5) show ?thesis by (metis (no_types, lifting) prefixI sender_inv_def)
qed

lemma sender_inv_undisturbed:
  assumes "sender_inv C st0 io accepted" "send_undisturbed io io'"
  shows "sender_inv C st0 io' accepted"
proof (cases "io_poisoned io' \<and> \<not> io_poisoned io")
  case True
  with assms(2) show ?thesis
    by (intro sender_inv_poison [OF assms(1)]) (auto simp: send_undisturbed_def)
next
  case False
  show ?thesis
  proof (cases "io_poisoned io")
    case True
    with False assms show ?thesis by (auto simp: sender_inv_def send_undisturbed_def)
  next
    case np: False
    with False assms(2) have v: "send_view io' = send_view io" "\<not> io_poisoned io'" by (auto simp: send_undisturbed_def)
    then have "send_keys (session_state (io_session io')) = send_keys (session_state (io_session io))"
      by (simp add: send_view_def)
    from send_keys_seal [OF this] send_keys_counter [OF this] assms(1) np v show ?thesis
      by (simp add: sender_inv_def send_view_def)
  qed
qed

lemma sender_inv_armed:
  assumes "sender_inv C st0 io accepted" "\<not> io_poisoned io" "arm_send C io = (io', Inr u)" "chan_laws C"
  shows "sender_inv C st0 io' accepted" "\<not> io_poisoned io'" "dir_send (io_session io') = dir_send (io_session io)"
    "io_send_header io' = None \<Longrightarrow> io_send_body io' = None \<Longrightarrow> io_write_buf io' = []"
proof -
  have n: "dir_send (note_root_sent s) = dir_send s" "session_state (note_root_sent s) = session_state s" for s
    by (cases s; simp)+
  show "\<not> io_poisoned io'" "dir_send (io_session io') = dir_send (io_session io)"
    "io_send_header io' = None \<Longrightarrow> io_send_body io' = None \<Longrightarrow> io_write_buf io' = []"
    using assms(2,3) by (auto simp: arm_send_eq [OF assms(4)] n)
  from assms(1,2) obtain ps cs where inv: "sealed C st0 (dir_send (io_session io)) ps cs"
    "concat ps @ io_write_buf io = accepted" "parts_ok (io_send_header io) (io_send_body io)"
    "tr_out (io_stream io) @ part_rest (io_send_header io) @ part_rest (io_send_body io) = concat (map wire_record cs)"
    "\<forall>d n p. frame_seal C (session_state (io_session io)) d n p = frame_seal C st0 d n p"
    "send_counter (dir_send (io_session io)) (session_state (io_session io)) = word_of_nat (length ps)"
    by (auto simp: sender_inv_def)
  let ?d = "dir_send (io_session io)" and ?st = "session_state (io_session io)"
  show "sender_inv C st0 io' accepted"
  proof (cases "io' = io")
    case True
    with assms(1) show ?thesis by simp
  next
    case False
    with assms(3) obtain st c where
      h: "io_send_header io = None" "io_send_body io = None" and
      e: "encrypt_frame C ?d (io_write_buf io) ?st = (st, Inr c)" and
      io': "io' = io\<lparr>io_write_buf := [], io_session := note_root_sent (set_session_state st (io_session io)),
                io_send_header := Some (be32 (word_of_nat (length c)), 0), io_send_body := Some (c, 0)\<rparr>"
      by (auto simp: arm_send_eq [OF assms(4)])
    from e have enc: "direction ?d" "length (io_write_buf io) \<le> V6_MAX_PLAINTEXT_FRAME"
      "unat (send_counter ?d ?st) + 1 < 2 ^ 64" "frame_seal C ?st ?d (send_counter ?d ?st) (io_write_buf io) = Some c"
      "st = set_send_counter ?d (send_counter ?d ?st + 1) ?st"
      by (simp_all add: encrypt_frame_eq [OF assms(4)])
    have u: "unat (word_of_nat (length ps) :: u64) = length ps" using inv(1) by (simp add: sealed_def unat_of_nat)
    then have lt: "length ps + 1 < 2 ^ 64" using enc(3) inv(6) by simp
    have "c \<noteq> []" using enc(4) chan_lawsD(2) [OF assms(4)] by (fastforce simp: frame_seal_def)
    then have "parts_ok (io_send_header io') (io_send_body io')" by (auto simp: io' parts_ok_def)
    moreover have "sealed C st0 ?d (ps @ [io_write_buf io]) (cs @ [c])"
      using enc(2,4) inv(5,6) by (intro sealed_snoc [OF inv(1)] lt) auto
    moreover have "dir_send (io_session io') = ?d" "session_state (io_session io') = st" by (simp_all add: io' n)
    moreover have "send_counter ?d st = word_of_nat (length (ps @ [io_write_buf io]))"
      using enc(1,5) inv(6) by simp
    moreover have "\<forall>d n p. frame_seal C st d n p = frame_seal C st0 d n p" using inv(5) enc(5) by simp
    moreover have "tr_out (io_stream io') @ part_rest (io_send_header io') @ part_rest (io_send_body io') =
      concat (map wire_record (cs @ [c]))"
      using inv(4) h by (simp add: io' part_rest_def wire_record_def)
    moreover have "concat (ps @ [io_write_buf io]) @ io_write_buf io' = accepted" using inv(2) by (simp add: io')
    ultimately show ?thesis using assms(2) unfolding sender_inv_def
      by (intro exI [of _ "ps @ [io_write_buf io]"] exI [of _ "cs @ [c]"]) (simp add: io')
  qed
qed

lemma flush_keeps:
  assumes "sender_inv C st0 io accepted" "chan_laws C" "poll_flush_io C io = (io', r)"
  shows "sender_inv C st0 io' accepted" "dir_send (io_session io') = dir_send (io_session io)"
    "r = Ready (Inr ()) \<Longrightarrow> \<not> io_poisoned io' \<and> io_send_header io' = None \<and> io_send_body io' = None"
    "r = Pending \<Longrightarrow> \<not> io_poisoned io'"
proof -
  have *: "sender_inv C st0 io' accepted \<and> dir_send (io_session io') = dir_send (io_session io) \<and>
    (r = Ready (Inr ()) \<longrightarrow> \<not> io_poisoned io' \<and> io_send_header io' = None \<and> io_send_body io' = None) \<and>
    (r = Pending \<longrightarrow> \<not> io_poisoned io')"
  proof (cases "io_poisoned io")
    case True
    with assms show ?thesis by (auto simp: poll_flush_io_def)
  next
    case np: False
    obtain io1 x where a: "arm_send C io = (io1, x)" by fastforce
    show ?thesis
    proof (cases x)
      case (Inl e)
      with a np assms(3) have io': "io' = poison io1" "r = Ready (Inl e)" by (auto simp: poll_flush_io_def)
      have k: "io_stream io1 = io_stream io" "dir_send (io_session io1) = dir_send (io_session io)"
        "io_send_header io = None" "io_send_body io = None" using arm_send_Inl [of C io io1 e] a Inl by auto
      have "sender_inv C st0 io' accepted"
        by (rule sender_inv_poison [OF assms(1) _ _ np, where x = "[]"]) (use io' k in \<open>auto simp: part_rest_def\<close>)
      with io' k show ?thesis by simp
    next
      case (Inr u)
      with a have "arm_send C io = (io1, Inr u)" by simp
      note ar = sender_inv_armed [OF assms(1) np this assms(2)]
      obtain t h b y where p: "poll_send_parts V6_ADAPTER_IO_BUDGET (io_stream io1) (io_send_header io1) (io_send_body io1) =
        (t, h, b, y)" by (metis surj_pair)
      let ?io = "io1\<lparr>io_stream := t, io_send_header := h, io_send_body := b\<rparr>"
      have ok: "parts_ok (io_send_header io1) (io_send_body io1)" using ar(1,2) by (auto simp: sender_inv_def)
      note sp = poll_send_parts_keeps [OF p ok]
      have inv: "sender_inv C st0 ?io accepted" using ar(1,2) sp by (auto simp: sender_inv_def)
      show ?thesis
      proof (cases "\<exists>e. y = Ready (Inl e)")
        case True
        then have io': "io' = poison ?io" "\<exists>e. r = Ready (Inl e)" using assms(3) np a Inr p by (auto simp: poll_flush_io_def Let_def)
        have "sender_inv C st0 io' accepted"
          by (rule sender_inv_poison [OF inv, where x = "part_rest h @ part_rest b"]) (use io' ar in \<open>auto\<close>)
        with io' ar show ?thesis by auto
      next
        case False
        then have io': "io' = ?io" "r = y"
          using assms(3) np a Inr p by (auto simp: poll_flush_io_def Let_def split: poll.splits sum.splits)
        with inv ar sp show ?thesis by auto
      qed
    qed
  qed
  then show "sender_inv C st0 io' accepted" "dir_send (io_session io') = dir_send (io_session io)"
    "r = Ready (Inr ()) \<Longrightarrow> \<not> io_poisoned io' \<and> io_send_header io' = None \<and> io_send_body io' = None"
    "r = Pending \<Longrightarrow> \<not> io_poisoned io'" by blast+
qed

lemma write_keeps:
  assumes "sender_inv C st0 io accepted" "chan_laws C" "poll_write_io C buf io = (io', r)"
  shows "sender_inv C st0 io' (accepted @ (case r of Ready (Inr _) \<Rightarrow> buf | _ \<Rightarrow> []))"
    "dir_send (io_session io') = dir_send (io_session io)"
proof -
  have *: "sender_inv C st0 io' (accepted @ (case r of Ready (Inr _) \<Rightarrow> buf | _ \<Rightarrow> [])) \<and>
    dir_send (io_session io') = dir_send (io_session io)"
  proof (cases "io_poisoned io")
    case True
    with assms show ?thesis by (auto simp: poll_write_io_def)
  next
    case np: False
    define f where "f = (if io_send_header io \<noteq> None \<or> io_send_body io \<noteq> None then poll_flush_io C io
       else (io, Ready (Inr ())))"
    obtain io1 x where x: "f = (io1, x)" by fastforce
    have k: "sender_inv C st0 io1 accepted" "dir_send (io_session io1) = dir_send (io_session io)"
      "x = Ready (Inr ()) \<Longrightarrow> \<not> io_poisoned io1"
      using flush_keeps [OF assms(1,2)] assms(1) np x by (auto simp: f_def split: if_splits)
    have w: "(io', r) = (case f of
          (io, Pending) \<Rightarrow> (io, Pending)
        | (io, Ready (Inl e)) \<Rightarrow> (io, Ready (Inl e))
        | (io, Ready (Inr _)) \<Rightarrow>
            if length (io_write_buf io) + length buf > usize_max \<or>
               length (io_write_buf io) + length buf > V6_ADAPTER_MAX_FRAME
            then (poison io, Ready (Inl ''IPC v6 adapted frame exceeds its size cap''))
            else (io\<lparr>io_write_buf := io_write_buf io @ buf\<rparr>, Ready (Inr (length buf))))"
      using assms(3) np by (simp add: poll_write_io_def f_def)
    show ?thesis
    proof (cases "x = Ready (Inr ())")
      case False
      with w x k show ?thesis by (auto split: poll.splits sum.splits)
    next
      case True
      show ?thesis
      proof (cases "length (io_write_buf io1) + length buf > usize_max \<or> length (io_write_buf io1) + length buf > V6_ADAPTER_MAX_FRAME")
        case big: True
        have "sender_inv C st0 (poison io1) accepted"
          by (rule sender_inv_poison [OF k(1) _ _ k(3) [OF True]]) auto
        with big w x True k show ?thesis by simp
      next
        case False
        have "sender_inv C st0 (io1\<lparr>io_write_buf := io_write_buf io1 @ buf\<rparr>) (accepted @ buf)"
          using k(1) k(3) [OF True] by (auto simp: sender_inv_def)
        with False w x True k show ?thesis by simp
      qed
    qed
  qed
  then show "sender_inv C st0 io' (accepted @ (case r of Ready (Inr _) \<Rightarrow> buf | _ \<Rightarrow> []))"
    "dir_send (io_session io') = dir_send (io_session io)" by blast+
qed

lemma shutdown_keeps:
  assumes "sender_inv C st0 io accepted" "chan_laws C" "poll_shutdown_io C io = (io', r)"
  shows "sender_inv C st0 io' accepted" "dir_send (io_session io') = dir_send (io_session io)"
proof -
  obtain io1 x where x: "poll_flush_io C io = (io1, x)" by fastforce
  note k = flush_keeps [OF assms(1,2) x]
  have *: "sender_inv C st0 io' accepted \<and> dir_send (io_session io') = dir_send (io_session io)"
  proof (cases "x = Ready (Inr ())")
    case False
    with x k assms(3) show ?thesis by (auto simp: poll_shutdown_io_def split: poll.splits sum.splits)
  next
    case True
    obtain t y where y: "transport_poll_shutdown (io_stream io1) = (t, y)" by fastforce
    then have t: "tr_out t = tr_out (io_stream io1)"
      by (auto simp: transport_poll_shutdown_def split: list.splits poll_item.splits)
    have u: "sender_inv C st0 (io1\<lparr>io_stream := t\<rparr>) accepted" using k(1) k(3) [OF True] t by (simp add: sender_inv_def)
    then have "sender_inv C st0 (poison (io1\<lparr>io_stream := t\<rparr>)) accepted"
      using k(3) [OF True] by (intro sender_inv_poison [OF u]) auto
    with u x k y True assms(3) show ?thesis by (auto simp: poll_shutdown_io_def split: poll.splits sum.splits)
  qed
  then show "sender_inv C st0 io' accepted" "dir_send (io_session io') = dir_send (io_session io)" by blast+
qed

subsection \<open>The two ends\<close>

datatype io_op = OpWrite bytes | OpFlush | OpShutdown | OpRead nat

definition io_step :: "chan_ext \<Rightarrow> io_op \<Rightarrow> v6_io \<Rightarrow> v6_io \<times> bytes" where
  "io_step C op io =
     (case op of
        OpWrite buf \<Rightarrow>
          (case poll_write_io C buf io of (io, r) \<Rightarrow> (io, case r of Ready (Inr _) \<Rightarrow> buf | _ \<Rightarrow> []))
      | OpFlush \<Rightarrow> (fst (poll_flush_io C io), [])
      | OpShutdown \<Rightarrow> (fst (poll_shutdown_io C io), [])
      | OpRead n \<Rightarrow> (fst (poll_read C n io), []))"

text \<open>A sequence of operations on an adapter, with the bytes its writes accepted.\<close>

fun io_run :: "chan_ext \<Rightarrow> io_op list \<Rightarrow> v6_io \<Rightarrow> v6_io \<times> bytes" where
  "io_run C [] io = (io, [])"
| "io_run C (op # ops) io =
     (case io_step C op io of (io, bs) \<Rightarrow> (case io_run C ops io of (io, later) \<Rightarrow> (io, bs @ later)))"

lemma io_step_keeps:
  assumes "sender_inv C st0 io accepted" "chan_laws C" "io_step C op io = (io', bs)"
  shows "sender_inv C st0 io' (accepted @ bs) \<and> dir_send (io_session io') = dir_send (io_session io)"
proof (cases op)
  case (OpWrite buf)
  obtain r where "poll_write_io C buf io = (io', r)" "bs = (case r of Ready (Inr _) \<Rightarrow> buf | _ \<Rightarrow> [])"
    using assms(3) OpWrite by (auto simp: io_step_def split: prod.splits)
  with write_keeps [OF assms(1,2)] show ?thesis by blast
next
  case OpFlush
  obtain r where "poll_flush_io C io = (io', r)" "bs = []"
    using assms(3) OpFlush by (cases "poll_flush_io C io") (auto simp: io_step_def)
  with flush_keeps(1,2) [OF assms(1,2)] show ?thesis by auto
next
  case OpShutdown
  obtain r where "poll_shutdown_io C io = (io', r)" "bs = []"
    using assms(3) OpShutdown by (cases "poll_shutdown_io C io") (auto simp: io_step_def)
  with shutdown_keeps [OF assms(1,2)] show ?thesis by auto
next
  case (OpRead n)
  obtain r where r: "poll_read C n io = (io', r)" "bs = []"
    using assms(3) OpRead by (cases "poll_read C n io") (auto simp: io_step_def)
  have "send_undisturbed io io'" by (rule poll_read_send [OF r(1)])
  with sender_inv_undisturbed [OF assms(1) this] r(2) show ?thesis by (auto simp: send_undisturbed_def)
qed

lemma io_run_keeps:
  "sender_inv C st0 io accepted \<Longrightarrow> chan_laws C \<Longrightarrow> io_run C ops io = (io', bs) \<Longrightarrow>
     sender_inv C st0 io' (accepted @ bs) \<and> dir_send (io_session io') = dir_send (io_session io)"
proof (induction ops arbitrary: io accepted bs)
  case Nil
  then show ?case by simp
next
  case (Cons op ops)
  obtain io1 a where s: "io_step C op io = (io1, a)" by fastforce
  obtain b where r: "io_run C ops io1 = (io', b)" "bs = a @ b" using Cons.prems(3) s by (auto split: prod.splits)
  with io_step_keeps [OF Cons.prems(1,2) s] Cons.IH [OF _ Cons.prems(2) r(1)] show ?case by fastforce
qed

lemma sender_inv_new:
  assumes "session_state s = st0" "send_counter (dir_send s) st0 = 0" "tr_out t = []"
  shows "sender_inv C st0 (io_new t s) []"
  using assms
  by (auto simp: sender_inv_def io_new_def sealed_def parts_ok_def part_rest_def intro!: exI [of _ "[]"])

text \<open>The receiving end of sealed frames.\<close>

definition recv_matches :: "chan_ext \<Rightarrow> shared_v6_state \<Rightarrow> v6_session \<Rightarrow> nat \<Rightarrow> bool" where
  "recv_matches C st0 s k \<longleftrightarrow>
     (\<forall>d n p. frame_seal C (session_state s) d n p = frame_seal C st0 d n p) \<and>
     recv_counter (dir_recv s) (session_state s) = word_of_nat k"

definition root_fits :: "chan_ext \<Rightarrow> v6_session \<Rightarrow> bytes list \<Rightarrow> bool" where
  "root_fits C s ps \<longleftrightarrow> ps = [] \<or> snd (root_ok_for_recv C s (drop (min 4 (length (hd ps))) (hd ps)))"

lemma dir_recv_direction [simp]: "direction (dir_recv s)"
  by (cases s) (simp_all add: direction_def)

lemma root_ok_for_recv_state:
  "snd (root_ok_for_recv C (set_session_state st s) p) = snd (root_ok_for_recv C s p)"
  by (cases s) (simp_all add: Let_def cong: option.case_cong)

lemma root_fits_after:
  assumes "root_ok_for_recv C s p = (s', True)"
  shows "root_fits C s' ps"
proof (cases s)
  case (ClientSide x)
  with assms have "s' = ClientSide x" by simp
  then show ?thesis by (simp add: root_fits_def)
next
  case (ServerSide x)
  with assms obtain y where "s' = ServerSide y" "ss_root_received y"
    by (cases "ss_root_received x") (auto simp: Let_def split: if_splits)
  then show ?thesis by (simp add: root_fits_def)
qed

lemma accept_sealed:
  assumes "chan_laws C" "sealed C st0 (dir_recv s) ps cs" "recv_matches C st0 s k" "k < length ps"
  obtains s' where "accept_body C (cs ! k) s =
      (s', if root_fits C s [ps ! k] then Inr (ps ! k) else Inl ''IPC v6 root request does not match the handshake prelude'')"
    "recv_matches C st0 s' (Suc k)" "dir_recv s' = dir_recv s" "root_fits C s [ps ! k] \<Longrightarrow> root_fits C s' qs"
proof -
  let ?d = "dir_recv s" and ?st = "session_state s"
  from assms(2,4) have u: "unat (word_of_nat k :: u64) = k" and lt: "k + 1 < 2 ^ 64"
    by (simp_all add: sealed_def unat_of_nat)
  let ?st1 = "set_recv_counter ?d (word_of_nat k + 1) ?st"
  have e: "expect_next_counter ?d ?st = (?st1, Inr (word_of_nat k))"
    using assms(3) u lt by (simp add: expect_next_counter_eq recv_matches_def)
  have d: "decrypt_frame C ?d (cs ! k) (word_of_nat k) ?st1 = Inr (ps ! k)"
    using assms(2-4) by (simp add: decrypt_frame_eq [OF assms(1)] sealed_def recv_matches_def)
  obtain s' b where r: "root_ok_for_recv C (set_session_state ?st1 s) (drop (min 4 (length (ps ! k))) (ps ! k)) = (s', b)"
    by fastforce
  then have b: "b = root_fits C s [ps ! k]"
    using root_ok_for_recv_state [of C ?st1 s] by (simp add: root_fits_def) (metis snd_conv)
  from root_ok_for_recv_keeps [OF r] have k: "session_state s' = ?st1" "dir_recv s' = ?d" by simp_all
  then have "recv_matches C st0 s' (Suc k)"
    using assms(3) by (simp add: recv_matches_def add.commute)
  moreover have "root_fits C s' qs" if "root_fits C s [ps ! k]" using root_fits_after r b that by metis
  ultimately show thesis
    using that [of s'] e d r b k(2) by (auto simp: accept_body_def Let_def)
qed

lemma sealed_record:
  assumes "chan_laws C" "sealed C st d ps cs" "k < length ps"
  shows "validate_ciphertext_frame_len (length (cs ! k)) = Inr ()"
    "length (be32 (word_of_nat (length (cs ! k)))) = 4"
    "be_value (be32 (word_of_nat (length (cs ! k)))) = length (cs ! k)"
proof -
  from assms(2,3) have "length (ps ! k) \<le> V6_MAX_PLAINTEXT_FRAME"
    "frame_seal C st d (word_of_nat k) (ps ! k) = Some (cs ! k)" by (auto simp: sealed_def)
  then have l: "length (cs ! k) = length (ps ! k) + 16" "length (ps ! k) \<le> V6_MAX_PLAINTEXT_FRAME"
    using chan_lawsD(2) [OF assms(1)] by (auto simp: frame_seal_def)
  then show "validate_ciphertext_frame_len (length (cs ! k)) = Inr ()" by (simp add: validate_lens_eq v6_sizes)
  show "length (be32 (word_of_nat (length (cs ! k)))) = 4" by simp
  show "be_value (be32 (word_of_nat (length (cs ! k)))) = length (cs ! k)"
    using l by (intro be32_length) (simp add: v6_sizes)
qed

lemma prefix_split:
  assumes "prefix T (a @ b)" "length a \<le> length T"
  obtains T' where "T = a @ T'" "prefix T' b"
proof (cases "prefix T a")
  case True
  with assms(2) have "T = a" by (metis append_eq_conv_conj prefixE take_all_iff)
  with that [of "[]"] show thesis by simp
next
  case False
  with assms(1) that show thesis by (auto simp: prefix_append)
qed

lemma read_sealed:
  assumes "chan_laws C" "sealed C st0 d ps cs" "recv_matches C st0 s k" "k \<le> length ps" "dir_recv s = d"
    "prefix T (concat (map wire_record (drop k cs)))"
  shows "(\<exists>m. fst (read_frames C s T) = take m (drop k ps)) \<and>
    (T = concat (map wire_record (drop k cs)) \<and> root_fits C s (drop k ps) \<longrightarrow> read_frames C s T = (drop k ps, Inr ()))"
  using assms(3-)
proof (induction "length ps - k" arbitrary: s k T)
  case 0
  with assms(2) show ?case by (simp add: sealed_def)
next
  case (Suc x)
  have k: "k < length ps" "length cs = length ps" using Suc.hyps(2) assms(2) by (auto simp: sealed_def)
  let ?c = "cs ! k" and ?R = "concat (map wire_record (drop (Suc k) cs))"
  define h where "h = be32 (word_of_nat (length ?c))"
  note r = sealed_record [OF assms(1,2) k(1), folded h_def]
  have dc: "concat (map wire_record (drop k cs)) = h @ ?c @ ?R" and dp: "drop k ps = ps ! k # drop (Suc k) ps"
    using k by (simp_all add: h_def wire_record_def flip: Cons_nth_drop_Suc)
  show ?case
  proof (cases "length T < length (h @ ?c)")
    case True
    then have p: "prefix T (h @ ?c)"
      using Suc.prems(4) dc by (metis append_assoc prefixI prefix_length_prefix less_imp_le)
    then obtain z where z: "h @ ?c = T @ z" by (auto simp: prefix_def)
    show ?thesis
    proof (cases "T = []")
      case T: True
      have "h \<noteq> []" using r(2) by auto
      with T dc show ?thesis by (auto intro: exI [of _ 0])
    next
      case False
      have "take 4 T = h" if "4 \<le> length T" using z r(2) that by (metis append_eq_append_conv_if take_all_iff take_take min.absorb1 nle_le)
      then have "length T < 4 \<or> length T < 4 + be_value (take 4 T)" using True r by auto
      from read_frames_bad [OF False, of C s] this obtain e where "read_frames C s T = ([], Inl e)" by blast
      with True dc show ?thesis by (auto intro: exI [of _ 0])
    qed
  next
    case False
    then have "length (h @ ?c) \<le> length T" by simp
    then obtain T' where T: "T = h @ ?c @ T'" "prefix T' ?R"
      using prefix_split [of T "h @ ?c" ?R] Suc.prems(4) dc by auto
    obtain s' where a: "accept_body C ?c s =
        (s', if root_fits C s [ps ! k] then Inr (ps ! k) else Inl ''IPC v6 root request does not match the handshake prelude'')"
      "recv_matches C st0 s' (Suc k)" "dir_recv s' = dir_recv s" "root_fits C s [ps ! k] \<Longrightarrow> root_fits C s' (drop (Suc k) ps)"
      using accept_sealed [OF assms(1) _ Suc.prems(1) k(1)] assms(2) Suc.prems(3) by blast
    have rf: "root_fits C s (drop k ps) = root_fits C s [ps ! k]" by (simp add: dp root_fits_def)
    note b = read_frames_body [OF r(2,3,1), of C s T']
    show ?thesis
    proof (cases "root_fits C s [ps ! k]")
      case root: True
      have IH: "(\<exists>m. fst (read_frames C s' T') = take m (drop (Suc k) ps)) \<and>
        (T' = ?R \<and> root_fits C s' (drop (Suc k) ps) \<longrightarrow> read_frames C s' T' = (drop (Suc k) ps, Inr ()))"
        using Suc.hyps(1) [of "Suc k" s' T'] Suc.hyps(2) a(2,3) k(1) Suc.prems(3) T(2) by simp
      then obtain m where m: "fst (read_frames C s' T') = take m (drop (Suc k) ps)" by blast
      have rd: "read_frames C s T = (ps ! k # fst (read_frames C s' T'), snd (read_frames C s' T'))"
        using b a(1) root T(1) by (simp add: case_prod_beta)
      have "fst (read_frames C s T) = take (Suc m) (drop k ps)" using rd m dp by simp
      moreover have "read_frames C s T = (drop k ps, Inr ())" if "T = concat (map wire_record (drop k cs))"
        using that dc T(1) IH a(4) [OF root] rd dp by simp
      ultimately show ?thesis by blast
    next
      case False
      then have "fst (read_frames C s T) = []" using b a(1) T(1) by simp
      with False rf show ?thesis by (auto intro: exI [of _ 0])
    qed
  qed
qed

lemma sender_invD:
  assumes "sender_inv C st io accepted"
  obtains ps cs where "sealed C st (dir_send (io_session io)) ps cs" "prefix (concat ps) accepted"
    "prefix (tr_out (io_stream io)) (concat (map wire_record cs))"
    "\<not> io_poisoned io \<Longrightarrow> concat ps @ io_write_buf io = accepted \<and>
       tr_out (io_stream io) @ part_rest (io_send_header io) @ part_rest (io_send_body io) = concat (map wire_record cs)"
proof (cases "io_poisoned io")
  case True
  with assms that show thesis by (auto simp: sender_inv_def)
next
  case False
  with assms obtain ps cs where "sealed C st (dir_send (io_session io)) ps cs" "concat ps @ io_write_buf io = accepted"
    "tr_out (io_stream io) @ part_rest (io_send_header io) @ part_rest (io_send_body io) = concat (map wire_record cs)"
    by (auto simp: sender_inv_def)
  with that [of ps cs] show thesis by (metis prefixI)
qed


definition sample_server_io :: v6_io where
  "sample_server_io =
     io_new \<lparr>tr_in = [], tr_out = [], tr_schedule = [Upto 3, NotReady, Upto 5, Upto 100], tr_shut = False\<rparr>
       (ServerSide \<lparr>ss_state = new_v6_state (replicate 16 5) ([], []), ss_prelude = sample_prelude, ss_root_received = False\<rparr>)"

definition sample_client :: v6_session where
  "sample_client = ClientSide \<lparr>cs_state = new_v6_state (replicate 16 5) ([], []), cs_root_request_hash = [], cs_root_sent = True\<rparr>"

definition sample_ops :: "io_op list" where
  "sample_ops = [OpWrite [0, 0, 0, 1], OpWrite [9], OpFlush, OpFlush, OpFlush]"

lemma sample_accepted: "snd (io_run chan_ext1 sample_ops sample_server_io) = [0, 0, 0, 1, 9]"
  by (simp add: sample_ops_def io_step_def poll_write_io_def sample_server_io_def io_new_def V6_ADAPTER_MAX_FRAME_def
      v6_sizes usize_max_def split: prod.splits)

definition sample_transport :: "bytes \<Rightarrow> transport" where
  "sample_transport bs = \<lparr>tr_in = bs, tr_out = [], tr_schedule = [Upto 2, NotReady, Upto 100, Upto 100], tr_shut = False\<rparr>"


definition sample_frame :: bytes where
  "sample_frame = wire_record ([7] @ sample_tag (frame_nonce DIRECTION_D2C 0))"

theorem polled_reads_refine_frames_witness:
  "\<exists>later. concat (fst (read_frames chan_ext1 sample_client sample_frame)) =
      fst (snd (poll_reads chan_ext1 [2, 4] (io_new (sample_transport sample_frame) sample_client))) @ later"
proof -
  obtain io' data err where r: "poll_reads chan_ext1 [2, 4]
      (io_new (sample_transport sample_frame) sample_client) = (io', data, err)" by (metis surj_pair)
  obtain ps e where f: "read_frames chan_ext1 sample_client (tr_in (sample_transport sample_frame)) = (ps, e)" by fastforce
  from polled_reads_refine_frames [OF r f] r f show ?thesis by (auto simp: sample_transport_def)
qed

subsection \<open>The root request\<close>

lemma on_server_state_eq:
  "on_server_state f (w, s) = ((w', s'), r) \<longleftrightarrow>
     (\<exists>st. f (w, ss_state s) = ((w', st), r) \<and> s' = s\<lparr>ss_state := st\<rparr>)"
  by (auto simp: on_server_state_def split: prod.splits)

text \<open>C37: the root request the daemon accepts is the request the frontend sent first under the prelude they agreed on,
  or an explicit collision of SHA-256; its kind is the declared one; it is consumed once; and the daemon refuses
  every other frame before it.\<close>

theorem channel_root_request_bound:
  assumes sent: "client_send_frame C f (v, cs) = (vc, Inr ())" "\<not> cs_root_sent cs"
    and received: "server_recv_root_request C (w, ss) = ((w', ss'), Inr g)"
    and agreed: "pl_root_request_hash (ss_prelude ss) = cs_root_request_hash cs"
    and laws: "frame_json_laws (cx_ipc C)"
  shows "(g = f \<or> (\<exists>a b ws. frame_to_vec C f = Inr a \<and>
       read_data_frame C DIRECTION_C2D (w, ss_state ss) = (ws, Inr (Some b)) \<and> a \<noteq> b \<and> cx_sha256 C a = cx_sha256 C b)) \<and>
    ipc_frame_kind g = pl_operation_kind (ss_prelude ss) \<and>
    server_recv_root_request C (w', ss') = ((w', ss'), Inl ''IPC v6 root request already consumed'') \<and>
    server_recv_frame C (w, ss) = ((w, ss), Inl ''IPC v6 server must consume the root request before stream frames'')"
proof -
  from sent obtain a where a: "frame_to_vec C f = Inr a" "cx_sha256 C a = cs_root_request_hash cs"
    unfolding client_send_frame_def by (auto simp: result_simps)
  from received obtain st b where b: "\<not> ss_root_received ss"
    "read_data_frame C DIRECTION_C2D (w, ss_state ss) = ((w', st), Inr (Some b))"
    "cx_sha256 C b = pl_root_request_hash (ss_prelude ss)" "frame_from_slice C b = Inr g"
    "ipc_frame_kind g = pl_operation_kind (ss_prelude ss)" "ss' = ss\<lparr>ss_state := st, ss_root_received := True\<rparr>"
    unfolding server_recv_root_request_def
    by (auto simp: Let_def result_simps on_server_state_eq)
  have "g = f" if "a = b"
    using that a(1) b(4) laws
    by (auto simp: frame_to_vec_def frame_from_slice_def ok_or_eq_Inr frame_json_laws_def)
  moreover have "server_recv_root_request C (w', ss') = ((w', ss'), Inl ''IPC v6 root request already consumed'')"
    by (simp add: b(6) server_recv_root_request_def act_result_def Let_def)
  moreover have "server_recv_frame C (w, ss) =
      ((w, ss), Inl ''IPC v6 server must consume the root request before stream frames'')"
    using b(1) by (simp add: server_recv_frame_def act_result_def)
  ultimately show ?thesis using a b(2,3,5) agreed by metis
qed

definition root_prelude :: v6_prelude where
  "root_prelude = sample_prelude\<lparr>pl_root_request_hash := [1, 2] @ replicate 30 0\<rparr>"

definition root_server :: v6_server_session where
  "root_server = \<lparr>ss_state = new_v6_state (replicate 16 5) ([], []), ss_prelude = root_prelude, ss_root_received = False\<rparr>"

definition root_client :: v6_client_session where
  "root_client =
     \<lparr>cs_state = new_v6_state (replicate 16 5) ([], []), cs_root_request_hash = [1, 2] @ replicate 30 0, cs_root_sent = False\<rparr>"

definition root_wire :: wire where
  "root_wire = \<lparr>w_in = wire_record ([1, 2] @ sample_tag (frame_nonce DIRECTION_C2D 0)), w_out = []\<rparr>"

lemma sample_status:
  "frame_to_vec chan_ext1 Status = Inr [1, 2]" "frame_from_slice chan_ext1 [1, 2] = Inr Status"
  "cx_sha256 chan_ext1 [1, 2] = [1, 2] @ replicate 30 0" "frame_json_laws (cx_ipc chan_ext1)"
  by (simp_all add: frame_to_vec_def frame_from_slice_def chan_ext1_def sample_ipc_ext_def cx_sha256_def
      frame_json_laws_def numeral_eq_Suc)

lemma sample_root_sent:
  "\<exists>vc. client_send_frame chan_ext1 Status (root_wire, root_client) = (vc, Inr ())"
proof -
  have "encrypt_frame chan_ext1 DIRECTION_C2D [1, 2] (cs_state root_client) =
      (set_send_counter DIRECTION_C2D 1 (cs_state root_client), Inr ([1, 2] @ sample_tag (frame_nonce DIRECTION_C2D 0)))"
    by (subst encrypt_frame_eq [OF chan_ext1_laws])
      (simp add: direction_def v6_sizes sample_seal root_client_def new_v6_state_def send_counter_def)
  then show ?thesis
    by (simp add: client_send_frame_def sample_status on_client_state_def write_data_frame_def u32_try_from_def
        act_bind_def act_result_def root_client_def)
qed

lemma sample_root_received:
  "\<exists>w s. server_recv_root_request chan_ext1 (root_wire, root_server) = ((w, s), Inr Status)"
proof -
  let ?c = "[1, 2] @ sample_tag (frame_nonce DIRECTION_C2D 0)"
  have l: "length (be32 (word_of_nat (length ?c))) = 4" "be_value (be32 (word_of_nat (length ?c))) = length ?c"
    "validate_ciphertext_frame_len (length ?c) = Inr ()"
    using be32_length [of "length ?c"] by (simp_all add: validate_lens_eq v6_sizes)
  have e: "expect_next_counter DIRECTION_C2D (ss_state root_server) =
      (set_recv_counter DIRECTION_C2D 1 (ss_state root_server), Inr 0)"
    by (subst expect_next_counter_eq) (simp add: direction_def root_server_def new_v6_state_def recv_counter_def)
  have d: "decrypt_frame chan_ext1 DIRECTION_C2D ?c 0 (set_recv_counter DIRECTION_C2D 1 (ss_state root_server)) = Inr [1, 2]"
    by (subst decrypt_frame_eq [OF chan_ext1_laws]) (simp add: direction_def v6_sizes sample_seal)
  have "read_data_frame chan_ext1 DIRECTION_C2D (root_wire, ss_state root_server) =
      ((\<lparr>w_in = [], w_out = []\<rparr>, set_recv_counter DIRECTION_C2D 1 (ss_state root_server)), Inr (Some [1, 2]))"
    using read_data_frame_body [OF l, of chan_ext1 DIRECTION_C2D "[]" "[]" "ss_state root_server"] e d
    by (simp add: root_wire_def wire_record_def)
  then show ?thesis
    by (simp add: server_recv_root_request_def on_server_state_def act_bind_def act_result_def act_ensure_def
        sample_status root_server_def root_prelude_def sample_prelude_def ipc_frame_kind_def Let_def)
qed

theorem channel_root_request_bound_witness:
  "\<exists>vc w s. client_send_frame chan_ext1 Status (root_wire, root_client) = (vc, Inr ()) \<and>
    server_recv_root_request chan_ext1 (root_wire, root_server) = ((w, s), Inr Status) \<and>
    server_recv_root_request chan_ext1 (w, s) = ((w, s), Inl ''IPC v6 root request already consumed'')"
proof -
  obtain vc where c: "client_send_frame chan_ext1 Status (root_wire, root_client) = (vc, Inr ())"
    using sample_root_sent by blast
  obtain w s where r: "server_recv_root_request chan_ext1 (root_wire, root_server) = ((w, s), Inr Status)"
    using sample_root_received by blast
  have h: "\<not> cs_root_sent root_client" "pl_root_request_hash (ss_prelude root_server) = cs_root_request_hash root_client"
    by (simp_all add: root_client_def root_server_def root_prelude_def)
  from channel_root_request_bound [OF c h(1) r h(2) sample_status(4)] c r show ?thesis by blast
qed

end
