(* ===== verification/Transfer_Protocol.thy ===== *)
theory Transfer_Protocol
  imports Serctl_Prelude
begin

text \<open>
  The framing crate of the native transfer helper (crates/serctl_transfer_protocol/src/lib.rs): control
  messages and their validation, the identity of the helper binary, data frames with a chunk hash, the
  validator of the contiguous data of a transfer, and the binary framing.

  Writing is the bytes written; reading is a function of the bytes left in the stream, which ends
  where they end. SHA-256 and the JSON of a control message are other crates and are the fields of
  \<open>transfer_ext\<close>; the helper's hexadecimal decoding is the one of the prelude. Debug formatting is not
  modelled.
\<close>

section \<open>Constants and texts\<close>

definition MAGIC :: bytes where "MAGIC = as_bytes ''SRXF''"
definition VERSION :: u16 where "VERSION = 1"
definition MAX_CONTROL_BYTES :: nat where "MAX_CONTROL_BYTES = 64 * 1024"
definition MAX_CHUNK_BYTES :: nat where "MAX_CHUNK_BYTES = 1024 * 1024"
definition MAX_FRAME_BYTES :: nat where "MAX_FRAME_BYTES = MAX_CHUNK_BYTES + 64"
definition MAX_WINDOW_BYTES :: u32 where "MAX_WINDOW_BYTES = 8 * 1024 * 1024"
definition MAX_PATH_BYTES :: nat where "MAX_PATH_BYTES = 4 * 1024"
definition MAX_ERROR_CODE_BYTES :: nat where "MAX_ERROR_CODE_BYTES = 64"
definition MAX_HELPER_VERSION_BYTES :: nat where "MAX_HELPER_VERSION_BYTES = 256"
definition MAX_HELPER_BINARY_BYTES :: u64 where "MAX_HELPER_BINARY_BYTES = 512 * 1024 * 1024"
definition HELPER_BINARY_NAME :: string where "HELPER_BINARY_NAME = ''serctl-xfer''"

lemmas transfer_sizes =
  MAX_CONTROL_BYTES_def MAX_CHUNK_BYTES_def MAX_FRAME_BYTES_def MAX_WINDOW_BYTES_def MAX_PATH_BYTES_def
  MAX_ERROR_CODE_BYTES_def MAX_HELPER_VERSION_BYTES_def MAX_HELPER_BINARY_BYTES_def

definition is_lower_hex :: "string \<Rightarrow> nat \<Rightarrow> bool" where
  "is_lower_hex value n \<longleftrightarrow> length value = n * 2 \<and> list_all is_lower_hex_char value"

definition validate_transfer_id :: "string \<Rightarrow> unit res" where
  "validate_transfer_id value =
     ensure (is_lower_hex value 16) ''native transfer id must contain 32 lowercase hex characters'' (Inr ())"

definition validate_sha256 :: "string \<Rightarrow> string \<Rightarrow> unit res" where
  "validate_sha256 value label =
     ensure (is_lower_hex value 32) (label @ '' must contain 64 lowercase hex characters'') (Inr ())"

definition validate_path :: "string \<Rightarrow> string \<Rightarrow> unit res" where
  "validate_path value label =
     ensure (value \<noteq> [] \<and> length value \<le> MAX_PATH_BYTES \<and> CHR 0x00 \<notin> set value)
       (''invalid native transfer '' @ label) (Inr ())"

section \<open>The identity of the helper\<close>

record helper_runtime_identity =
  hi_name :: string
  hi_binary_size :: u64
  hi_sha256 :: string
  hi_version :: string

definition release_char :: "char \<Rightarrow> bool" where
  "release_char c \<longleftrightarrow> is_ascii_alphanumeric c \<or> c = CHR ''.'' \<or> c = CHR ''-''"

definition validate_version :: "string \<Rightarrow> unit res" where
  "validate_version version =
     ensure (version \<noteq> [] \<and> length version \<le> MAX_HELPER_VERSION_BYTES \<and> is_ascii version \<and>
         \<not> list_ex is_ascii_control version)
       ''native helper version identity is invalid'' (
     let prefix = HELPER_BINARY_NAME @ '' '';
         suffix = ''; transfer protocol v'' @ decimal (unat VERSION) @ '')'' in
     and_then (ok_or (Option.bind (strip_prefix version prefix) (\<lambda>value. strip_suffix value suffix))
       ''native helper version identity grammar mismatch'') (\<lambda>body.
     and_then (ok_or (split_once body '' (git '')
       ''native helper version identity grammar mismatch'') (\<lambda>(release_version, commit).
     ensure (release_version \<noteq> [] \<and> length release_version \<le> 64 \<and> list_all release_char release_version)
       ''native helper release version is invalid'' (
     let commit_hex = (case strip_suffix commit ''-dirty'' of Some hex \<Rightarrow> hex | None \<Rightarrow> commit) in
     ensure (length commit_hex = 12 \<and> list_all is_lower_hex_char commit_hex)
       ''native helper commit identity is invalid'' (Inr ())))))"

definition identity_validate :: "helper_runtime_identity \<Rightarrow> unit res" where
  "identity_validate i =
     ensure (hi_name i = HELPER_BINARY_NAME) ''native helper name mismatch'' (
     ensure (1 \<le> hi_binary_size i \<and> hi_binary_size i \<le> MAX_HELPER_BINARY_BYTES)
       ''native helper binary size is invalid'' (
     and_then (validate_sha256 (hi_sha256 i) ''native helper binary SHA-256'') (\<lambda>_.
     validate_version (hi_version i))))"

definition identity_zeroize :: "helper_runtime_identity \<Rightarrow> helper_runtime_identity" where
  "identity_zeroize i = \<lparr>hi_name = [], hi_binary_size = 0, hi_sha256 = [], hi_version = []\<rparr>"

definition verify_expected_helper_identity ::
  "helper_runtime_identity \<Rightarrow> helper_runtime_identity \<Rightarrow> unit res" where
  "verify_expected_helper_identity observed expected =
     and_then (identity_validate observed) (\<lambda>_.
     and_then (identity_validate expected) (\<lambda>_.
     ensure (observed = expected)
       ''native helper runtime identity does not match exact release provenance'' (Inr ())))"

section \<open>Control messages\<close>

datatype handshake_peer = PeerClient | PeerHelper

datatype control =
  HelperHello (hh_version: u16) (hh_max_chunk: u32) (hh_max_window: u32) (hh_resume: bool) (hh_sha256: bool)
    (hh_fsync: bool) (hh_no_replace: bool) (hh_identity: helper_runtime_identity)
| Hello (he_version: u16) (he_max_chunk: u32) (he_max_window: u32) (he_resume: bool) (he_sha256: bool)
    (he_fsync: bool) (he_no_replace: bool)
| BeginPush (bp_transfer_id: string) (bp_target: string) (bp_size: u64) (bp_sha256: string)
    (bp_resume_token: string) (bp_resume: bool)
| BeginPull (bl_transfer_id: string) (bl_source: string) (bl_offset: u64)
| Ready (rd_chunk: u32) (rd_window: u32) (rd_durable_offset: u64)
| PullReady (pr_chunk: u32) (pr_window: u32) (pr_size: u64) (pr_sha256: string) (pr_start_offset: u64)
| Ack (ak_confirmed_offset: u64) (ak_durable_offset: u64) (ak_receiver_window: u32)
| Commit
| Completed (co_size: u64) (co_sha256: string)
| Cancel
| ControlError (er_code: string) (er_message: string) (er_outcome_unknown: bool)

fun control_zeroize :: "control \<Rightarrow> control" where
  "control_zeroize (HelperHello v c w r s f n i) = HelperHello 0 0 0 False False False False (identity_zeroize i)"
| "control_zeroize (Hello v c w r s f n) = Hello 0 0 0 False False False False"
| "control_zeroize (BeginPush i t n s k r) = BeginPush [] [] 0 [] [] False"
| "control_zeroize (BeginPull i s n) = BeginPull [] [] 0"
| "control_zeroize (Ready c w d) = Ready 0 0 0"
| "control_zeroize (PullReady c w n s b) = PullReady 0 0 0 [] 0"
| "control_zeroize (Ack c d w) = Ack 0 0 0"
| "control_zeroize Commit = Commit"
| "control_zeroize (Completed n s) = Completed 0 []"
| "control_zeroize Cancel = Cancel"
| "control_zeroize (ControlError c m u) = ControlError [] [] False"

definition validate_hello_limits :: "u16 \<Rightarrow> u32 \<Rightarrow> u32 \<Rightarrow> unit res" where
  "validate_hello_limits version max_chunk max_window =
     ensure (version = VERSION) ''native transfer hello version mismatch'' (
     ensure (1 \<le> max_chunk \<and> max_chunk \<le> word_of_nat MAX_CHUNK_BYTES)
       ''native transfer hello chunk limit is invalid'' (
     ensure (max_window \<ge> max_chunk \<and> max_window \<le> MAX_WINDOW_BYTES)
       ''native transfer hello window limit is invalid'' (Inr ())))"

definition validate_limits :: "u32 \<Rightarrow> u32 \<Rightarrow> unit res" where
  "validate_limits chunk window =
     ensure (1 \<le> chunk \<and> chunk \<le> word_of_nat MAX_CHUNK_BYTES) ''native transfer chunk limit is invalid'' (
     ensure (window \<ge> chunk \<and> window \<le> MAX_WINDOW_BYTES)
       ''native transfer window limit is invalid'' (Inr ()))"

definition error_code_char :: "char \<Rightarrow> bool" where
  "error_code_char c \<longleftrightarrow> is_ascii_lowercase c \<or> is_ascii_digit c \<or> c = CHR ''_'' \<or> c = CHR ''-'' \<or> c = CHR ''.''"

fun control_validate :: "control \<Rightarrow> unit res" where
  "control_validate (HelperHello version max_chunk max_window _ _ _ _ ident) =
     and_then (validate_hello_limits version max_chunk max_window) (\<lambda>_. identity_validate ident)"
| "control_validate (Hello version max_chunk max_window _ _ _ _) = validate_hello_limits version max_chunk max_window"
| "control_validate (BeginPush transfer_id target _ sha256 resume_token _) =
     and_then (validate_transfer_id transfer_id) (\<lambda>_.
     and_then (validate_path target ''target path'') (\<lambda>_.
     and_then (validate_sha256 sha256 ''native transfer SHA-256'') (\<lambda>_.
     validate_sha256 resume_token ''native transfer resume token'')))"
| "control_validate (BeginPull transfer_id source _) =
     and_then (validate_transfer_id transfer_id) (\<lambda>_. validate_path source ''source path'')"
| "control_validate (Ready chunk window _) = validate_limits chunk window"
| "control_validate (PullReady chunk window file_size sha256 start_offset) =
     and_then (validate_limits chunk window) (\<lambda>_.
     ensure (start_offset \<le> file_size) ''native pull start offset exceeds source size'' (
     validate_sha256 sha256 ''native pull SHA-256''))"
| "control_validate (Ack confirmed_offset durable_offset receiver_window) =
     ensure (durable_offset \<le> confirmed_offset) ''native transfer durable offset exceeds confirmation'' (
     ensure (1 \<le> receiver_window \<and> receiver_window \<le> MAX_WINDOW_BYTES)
       ''native transfer receiver window is invalid'' (Inr ()))"
| "control_validate (Completed _ sha256) = validate_sha256 sha256 ''native completion SHA-256''"
| "control_validate (ControlError code message _) =
     ensure (code \<noteq> [] \<and> length code \<le> MAX_ERROR_CODE_BYTES \<and> list_all error_code_char code)
       ''native transfer error code is invalid'' (
     ensure (CHR 0x00 \<notin> set message) ''native transfer error message contains NUL'' (Inr ()))"
| "control_validate Commit = Inr ()"
| "control_validate Cancel = Inr ()"

definition validate_handshake_sender :: "control \<Rightarrow> handshake_peer \<Rightarrow> unit res" where
  "validate_handshake_sender c sender =
     (case (sender, c) of
        (PeerHelper, HelperHello _ _ _ _ _ _ _ _) \<Rightarrow> control_validate c
      | (PeerClient, Hello _ _ _ _ _ _ _) \<Rightarrow> control_validate c
      | (PeerHelper, Hello _ _ _ _ _ _ _) \<Rightarrow> Inl ''client hello is not valid from native helper''
      | (PeerClient, HelperHello _ _ _ _ _ _ _ _) \<Rightarrow> Inl ''helper identity hello is server-only''
      | _ \<Rightarrow> Inl ''non-hello control is invalid during native handshake'')"

section \<open>Data frames\<close>

record transfer_ext =
  tx_sha256 :: "bytes \<Rightarrow> bytes"
  tx_control_json :: "control \<Rightarrow> bytes option"
  tx_control_parse :: "bytes \<Rightarrow> control option"

record data_frame =
  df_transfer_id :: bytes
  df_offset :: u64
  df_chunk_sha256 :: bytes
  df_payload :: bytes

definition data_new :: "transfer_ext \<Rightarrow> bytes \<Rightarrow> u64 \<Rightarrow> bytes \<Rightarrow> data_frame res" where
  "data_new X transfer_id offset payload =
     ensure (payload \<noteq> []) ''native transfer chunk is empty'' (
     ensure (length payload \<le> MAX_CHUNK_BYTES) ''native transfer chunk is too large'' (
     Inr \<lparr>df_transfer_id = transfer_id, df_offset = offset, df_chunk_sha256 = tx_sha256 X payload,
          df_payload = payload\<rparr>))"

definition end_offset :: "data_frame \<Rightarrow> u64 res" where
  "end_offset d =
     ok_or (checked_add (df_offset d) (word_of_nat (length (df_payload d)))) ''native transfer chunk offset overflow''"

definition data_validate :: "transfer_ext \<Rightarrow> data_frame \<Rightarrow> unit res" where
  "data_validate X d =
     ensure (df_payload d \<noteq> []) ''native transfer chunk is empty'' (
     ensure (length (df_payload d) \<le> MAX_CHUNK_BYTES) ''native transfer chunk is too large'' (
     ensure (tx_sha256 X (df_payload d) = df_chunk_sha256 d) ''native transfer chunk SHA-256 mismatch'' (
     and_then (end_offset d) (\<lambda>_. Inr ()))))"

record data_sequence_validator =
  sv_transfer_id :: bytes
  sv_next_offset :: u64

definition validator_new :: "bytes \<Rightarrow> u64 \<Rightarrow> data_sequence_validator" where
  "validator_new transfer_id next_offset = \<lparr>sv_transfer_id = transfer_id, sv_next_offset = next_offset\<rparr>"

definition validate_next :: "transfer_ext \<Rightarrow> data_frame \<Rightarrow> (data_sequence_validator, unit) action" where
  "validate_next X d s =
     (case and_then (data_validate X d) (\<lambda>_.
           ensure (df_transfer_id d = sv_transfer_id s) ''native transfer data frame belongs to another transfer'' (
           ensure (df_offset d = sv_next_offset s) ''native transfer data offset gap or replay'' (
           end_offset d))) of
        Inl e \<Rightarrow> (s, Inl e)
      | Inr next_offset \<Rightarrow> (s\<lparr>sv_next_offset := next_offset\<rparr>, Inr ()))"

section \<open>Frames\<close>

datatype frame = ControlFrame control | DataFrame data_frame

definition KIND_CONTROL :: u8 where "KIND_CONTROL = 1"
definition KIND_DATA :: u8 where "KIND_DATA = 2"

definition write_header :: "u8 \<Rightarrow> nat \<Rightarrow> bytes res" where
  "write_header kind body_len =
     ensure (body_len \<le> MAX_FRAME_BYTES) ''native transfer frame is too large'' (
     ensure (body_len < 2 ^ 32) ''native transfer frame length overflow'' (
     Inr (MAGIC @ be16 VERSION @ [kind, 0] @ be32 (word_of_nat body_len))))"

definition write_control :: "transfer_ext \<Rightarrow> control \<Rightarrow> bytes res" where
  "write_control X c =
     and_then (control_validate c) (\<lambda>_.
     and_then (ok_or (tx_control_json X c) ''serialize native transfer control'') (\<lambda>body.
     ensure (length body \<le> MAX_CONTROL_BYTES) ''native transfer control is too large'' (
     and_then (write_header KIND_CONTROL (length body)) (\<lambda>header. Inr (header @ body)))))"

definition write_handshake_control :: "transfer_ext \<Rightarrow> control \<Rightarrow> handshake_peer \<Rightarrow> bytes res" where
  "write_handshake_control X c sender =
     and_then (validate_handshake_sender c sender) (\<lambda>_. write_control X c)"

definition write_data :: "transfer_ext \<Rightarrow> data_frame \<Rightarrow> bytes res" where
  "write_data X d =
     and_then (data_validate X d) (\<lambda>_.
     and_then (write_header KIND_DATA (16 + 8 + 32 + length (df_payload d))) (\<lambda>header.
     Inr (header @ df_transfer_id d @ be64 (df_offset d) @ df_chunk_sha256 d @ df_payload d)))"

definition read_exact :: "nat \<Rightarrow> bytes \<Rightarrow> (bytes \<times> bytes) res" where
  "read_exact n r = ensure (n \<le> length r) ''early eof'' (Inr (take n r, drop n r))"

definition read_u8 :: "bytes \<Rightarrow> (u8 \<times> bytes) res" where
  "read_u8 r = and_then (read_exact 1 r) (\<lambda>(v, r). Inr (v ! 0, r))"

definition read_u16 :: "bytes \<Rightarrow> (u16 \<times> bytes) res" where
  "read_u16 r = and_then (read_exact 2 r) (\<lambda>(v, r). Inr (word_of_nat (be_value v), r))"

definition read_u32 :: "bytes \<Rightarrow> (u32 \<times> bytes) res" where
  "read_u32 r = and_then (read_exact 4 r) (\<lambda>(v, r). Inr (word_of_nat (be_value v), r))"

definition read_u64 :: "bytes \<Rightarrow> (u64 \<times> bytes) res" where
  "read_u64 r = and_then (read_exact 8 r) (\<lambda>(v, r). Inr (word_of_nat (be_value v), r))"

definition read_control_body :: "transfer_ext \<Rightarrow> nat \<Rightarrow> bytes \<Rightarrow> (frame \<times> bytes) res" where
  "read_control_body X body_len r =
     ensure (body_len \<le> MAX_CONTROL_BYTES) ''native transfer control is too large'' (
     and_then (read_exact body_len r) (\<lambda>(body, r).
     and_then (ok_or (tx_control_parse X body) ''parse native transfer control'') (\<lambda>control.
     and_then (control_validate control) (\<lambda>_. Inr (ControlFrame control, r)))))"

definition read_data_body :: "transfer_ext \<Rightarrow> nat \<Rightarrow> bytes \<Rightarrow> (frame \<times> bytes) res" where
  "read_data_body X body_len r =
     ensure (body_len \<ge> 56) ''native transfer data frame is truncated'' (
     let payload_len = body_len - 56 in
     ensure (payload_len \<le> MAX_CHUNK_BYTES) ''native transfer chunk is too large'' (
     and_then (read_exact 16 r) (\<lambda>(transfer_id, r).
     and_then (read_u64 r) (\<lambda>(offset, r).
     and_then (read_exact 32 r) (\<lambda>(chunk_sha256, r).
     and_then (read_exact payload_len r) (\<lambda>(payload, r).
     let d = \<lparr>df_transfer_id = transfer_id, df_offset = offset,
              df_chunk_sha256 = chunk_sha256, df_payload = payload\<rparr> in
     and_then (data_validate X d) (\<lambda>_. Inr (DataFrame d, r))))))))"

definition read_frame :: "transfer_ext \<Rightarrow> bytes \<Rightarrow> (frame \<times> bytes) option res" where
  "read_frame X r =
     (case r of
        [] \<Rightarrow> Inr None
      | first # r \<Rightarrow>
          and_then (read_exact 3 r) (\<lambda>(magic, r).
          ensure (first # magic = MAGIC) ''native transfer frame magic mismatch'' (
          and_then (read_u16 r) (\<lambda>(version, r).
          ensure (version = VERSION) ''unsupported native transfer protocol version'' (
          and_then (read_u8 r) (\<lambda>(kind, r).
          and_then (read_u8 r) (\<lambda>(flags, r).
          ensure (flags = 0) ''unknown native transfer frame flags'' (
          and_then (read_u32 r) (\<lambda>(len, r).
          let body_len = unat len in
          ensure (body_len \<le> MAX_FRAME_BYTES) ''native transfer frame is too large'' (
          and_then (if kind = KIND_CONTROL then read_control_body X body_len r
                    else if kind = KIND_DATA then read_data_body X body_len r
                    else Inl ''unknown native transfer frame kind'')
            (\<lambda>f. Inr (Some f))))))))))))"

definition parse_transfer_id :: "string \<Rightarrow> bytes res" where
  "parse_transfer_id value =
     and_then (validate_transfer_id value) (\<lambda>_.
     and_then (ok_or (unhex value) ''native transfer id must be hex'') (\<lambda>bs.
     ensure (length bs = 16) ''native transfer id must decode to 16 bytes'' (Inr bs)))"

definition write_frame :: "transfer_ext \<Rightarrow> frame \<Rightarrow> bytes res" where
  "write_frame X f = (case f of ControlFrame c \<Rightarrow> write_control X c | DataFrame d \<Rightarrow> write_data X d)"

section \<open>Reading is the inverse of writing\<close>

interpretation transfer_cursor: byte_cursor "\<lambda>pre suf. suf" "\<lambda>r n. read_exact n r"
proof unfold_locales
  show "read_exact n suf = Inr (v, r) \<longleftrightarrow> length v = n \<and> (\<exists>s. suf = v @ s \<and> r = s)" for pre suf v r :: bytes and n
    by (auto simp: read_exact_def result_simps append_eq_conv_conj)
qed

lemma read_exact_iff: "read_exact n r = Inr (v, r') \<longleftrightarrow> length v = n \<and> r = v @ r'"
  using transfer_cursor.take_iff by auto

lemma read_int_iff:
  "read_u8 r = Inr (b, r') \<longleftrightarrow> r = b # r'" "read_u16 r = Inr (h, r') \<longleftrightarrow> r = be16 h @ r'"
  "read_u32 r = Inr (w, r') \<longleftrightarrow> r = be32 w @ r'" "read_u64 r = Inr (l, r') \<longleftrightarrow> r = be64 l @ r'"
  using transfer_cursor.byte_field [of r b r'] transfer_cursor.integer_fields [of r _ r']
  by (auto simp: read_u8_def read_u16_def read_u32_def read_u64_def)

definition data_typed :: "data_frame \<Rightarrow> bool" where
  "data_typed d \<longleftrightarrow> length (df_transfer_id d) = 16 \<and> length (df_chunk_sha256 d) = 32"

lemma read_data_body_iff:
  "read_data_body X n r = Inr (f, rest) \<longleftrightarrow>
     (\<exists>d. f = DataFrame d \<and> data_typed d \<and> n = 56 + length (df_payload d) \<and> data_validate X d = Inr () \<and>
        r = df_transfer_id d @ be64 (df_offset d) @ df_chunk_sha256 d @ df_payload d @ rest)"
  (is "?L \<longleftrightarrow> ?R")
proof
  assume ?L
  then show ?R
    by (auto simp: read_data_body_def Let_def result_simps read_exact_iff read_int_iff data_typed_def)
next
  assume ?R
  then obtain d where d: "f = DataFrame d" "data_typed d" "n = 56 + length (df_payload d)" "data_validate X d = Inr ()"
    "r = df_transfer_id d @ be64 (df_offset d) @ df_chunk_sha256 d @ df_payload d @ rest" by blast
  have "length (df_payload d) \<le> MAX_CHUNK_BYTES" using d(4) by (auto simp: data_validate_def result_simps)
  moreover have "read_exact (length v) (v @ t) = Inr (v, t)" "read_u64 (be64 x @ t) = Inr (x, t)" for v t x
    by (simp_all add: read_exact_iff read_int_iff)
  note this(1) [of "df_transfer_id d"] this(1) [of "df_chunk_sha256 d"] this(1) [of "df_payload d"] this(2)
  moreover have e: "\<lparr>df_transfer_id = df_transfer_id d, df_offset = df_offset d, df_chunk_sha256 = df_chunk_sha256 d,
      df_payload = df_payload d\<rparr> = d" by simp
  ultimately show ?L using d by (simp add: read_data_body_def data_typed_def Let_def e)
qed

lemma read_control_body_iff:
  "read_control_body X n r = Inr (f, rest) \<longleftrightarrow>
     (\<exists>c body. f = ControlFrame c \<and> n = length body \<and> length body \<le> MAX_CONTROL_BYTES \<and> r = body @ rest \<and>
        tx_control_parse X body = Some c \<and> control_validate c = Inr ())"
  by (auto simp: read_control_body_def result_simps read_exact_iff)

lemma chunk_len_value: "n \<le> MAX_CHUNK_BYTES \<Longrightarrow> unat (word_of_nat n :: u64) = n"
  by (simp add: unsigned_of_nat take_bit_nat_eq_self_iff transfer_sizes)

lemma body_len_value: "n \<le> MAX_FRAME_BYTES \<Longrightarrow> unat (word_of_nat n :: u32) = n"
  by (simp add: unsigned_of_nat take_bit_nat_eq_self_iff transfer_sizes)

lemma read_frame_iff:
  "read_frame X bs = Inr (Some (f, rest)) \<longleftrightarrow>
     (\<exists>kind n r. n \<le> MAX_FRAME_BYTES \<and> bs = MAGIC @ be16 VERSION @ [kind, 0] @ be32 (word_of_nat n) @ r \<and>
        (if kind = KIND_CONTROL then read_control_body X n r
         else if kind = KIND_DATA then read_data_body X n r
         else Inl ''unknown native transfer frame kind'') = Inr (f, rest))"
  (is "?L \<longleftrightarrow> ?R")
proof
  assume ?L
  then obtain b m kind len r where "b # m = MAGIC" "bs = b # m @ be16 VERSION @ kind # 0 # be32 len @ r"
    "unat len \<le> MAX_FRAME_BYTES" and r: "(if kind = KIND_CONTROL then read_control_body X (unat len) r
         else if kind = KIND_DATA then read_data_body X (unat len) r
         else Inl ''unknown native transfer frame kind'') = Inr (f, rest)"
    by (auto simp: read_frame_def Let_def result_simps read_exact_iff read_int_iff simp del: append_Cons split: list.splits)
  then show ?R by (intro exI [of _ kind] exI [of _ "unat len"] exI [of _ r]) (auto simp flip: append_Cons)
next
  assume ?R
  then obtain kind n r where *: "n \<le> MAX_FRAME_BYTES" "bs = MAGIC @ be16 VERSION @ [kind, 0] @ be32 (word_of_nat n) @ r"
    "(if kind = KIND_CONTROL then read_control_body X n r else if kind = KIND_DATA then read_data_body X n r
      else Inl ''unknown native transfer frame kind'') = Inr (f, rest)" by blast
  obtain b m where m: "MAGIC = b # m" "length m = 3" by (simp add: MAGIC_def as_bytes_def)
  have "read_exact 3 (m @ be16 VERSION @ [kind, 0] @ be32 (word_of_nat n) @ r) =
      Inr (m, be16 VERSION @ kind # 0 # be32 (word_of_nat n) @ r)"
    by (simp add: read_exact_iff m(2))
  moreover have "read_u16 (be16 VERSION @ r') = Inr (VERSION, r')" "read_u8 (b # r') = Inr (b, r')"
    "read_u32 (be32 w @ r') = Inr (w, r')" for b r' w
    by (simp_all add: read_int_iff)
  moreover have bs: "bs = b # (m @ be16 VERSION @ kind # 0 # be32 (word_of_nat n) @ r)" using *(2) m(1) by simp
  ultimately show ?L using *(1,3) by (simp add: read_frame_def bs m(1) [symmetric] body_len_value)
qed

lemma write_header_eq: "write_header kind n = Inr h \<longleftrightarrow>
    n \<le> MAX_FRAME_BYTES \<and> h = MAGIC @ be16 VERSION @ [kind, 0] @ be32 (word_of_nat n)"
  by (auto simp: write_header_def result_simps transfer_sizes)

lemma write_data_eq: "write_data X d = Inr w \<longleftrightarrow> data_validate X d = Inr () \<and>
    w = MAGIC @ be16 VERSION @ [KIND_DATA, 0] @ be32 (word_of_nat (56 + length (df_payload d))) @
        df_transfer_id d @ be64 (df_offset d) @ df_chunk_sha256 d @ df_payload d"
  by (auto simp: write_data_def write_header_eq result_simps data_validate_def transfer_sizes)

lemma write_control_eq: "write_control X c = Inr w \<longleftrightarrow> control_validate c = Inr () \<and>
    (\<exists>body. tx_control_json X c = Some body \<and> length body \<le> MAX_CONTROL_BYTES \<and>
       w = MAGIC @ be16 VERSION @ [KIND_CONTROL, 0] @ be32 (word_of_nat (length body)) @ body)"
  by (auto simp: write_control_def write_header_eq result_simps transfer_sizes)

lemma kinds_distinct [simp]: "KIND_CONTROL \<noteq> KIND_DATA" "KIND_DATA \<noteq> KIND_CONTROL"
  by (simp_all add: KIND_CONTROL_def KIND_DATA_def)

lemma read_data_iff:
  "read_frame X bs = Inr (Some (DataFrame d, rest)) \<longleftrightarrow> data_typed d \<and> (\<exists>w. write_data X d = Inr w \<and> bs = w @ rest)"
  (is "?L \<longleftrightarrow> ?R")
proof
  assume ?L
  then show ?R by (auto simp: read_frame_iff write_data_eq read_data_body_iff read_control_body_iff split: if_splits)
next
  assume ?R
  then have d: "data_typed d" "data_validate X d = Inr ()" and bs: "bs = MAGIC @ be16 VERSION @ [KIND_DATA, 0] @
      be32 (word_of_nat (56 + length (df_payload d))) @ df_transfer_id d @ be64 (df_offset d) @ df_chunk_sha256 d @ df_payload d @ rest"
    by (auto simp: write_data_eq)
  from d(2) have "56 + length (df_payload d) \<le> MAX_FRAME_BYTES"
    by (auto simp: data_validate_def result_simps transfer_sizes)
  with d bs show ?L
    unfolding read_frame_iff
    by (intro exI [of _ KIND_DATA] exI [of _ "56 + length (df_payload d)"] exI conjI) (simp_all add: read_data_body_iff)
qed

lemma read_written_control:
  assumes "write_control X c = Inr w" "\<And>body. tx_control_json X c = Some body \<Longrightarrow> tx_control_parse X body = Some c"
  shows "read_frame X (w @ rest) = Inr (Some (ControlFrame c, rest))"
proof -
  from assms(1) obtain body where b: "control_validate c = Inr ()" "tx_control_json X c = Some body"
    "length body \<le> MAX_CONTROL_BYTES"
    "w = MAGIC @ be16 VERSION @ [KIND_CONTROL, 0] @ be32 (word_of_nat (length body)) @ body"
    by (auto simp: write_control_eq)
  then have "length body \<le> MAX_FRAME_BYTES" by (simp add: transfer_sizes)
  with b assms(2) [OF b(2)] show ?thesis
    by (auto simp: read_frame_iff read_control_body_iff)
qed

text \<open>What sender and receiver rely on of the JSON of control messages.\<close>

definition control_json_laws :: "transfer_ext \<Rightarrow> bool" where
  "control_json_laws X \<longleftrightarrow> (\<forall>c body. tx_control_json X c = Some body \<longrightarrow> tx_control_parse X body = Some c)"

interpretation transfer_frames: framed_stream "write_frame X" "read_frame X"
  "\<lambda>f. control_json_laws X \<and> (case f of DataFrame d \<Rightarrow> data_typed d | _ \<Rightarrow> True)" for X
proof unfold_locales
  show "read_frame X (bs @ rest) = Inr (Some (f, rest))"
    if "control_json_laws X \<and> (case f of DataFrame d \<Rightarrow> data_typed d | _ \<Rightarrow> True)" "write_frame X f = Inr bs" for f bs rest
    using that read_written_control [of X _ bs rest]
    by (cases f) (auto simp: write_frame_def read_data_iff control_json_laws_def)
  show "read_frame X [] = Inr None" by (simp add: read_frame_def)
qed

section \<open>The data of a transfer\<close>

text \<open>Data frames arriving in any order and number: the validator after them and the frames it accepted.\<close>

fun deliver :: "transfer_ext \<Rightarrow> data_sequence_validator \<Rightarrow> data_frame list \<Rightarrow> data_sequence_validator \<times> data_frame list" where
  "deliver X s [] = (s, [])"
| "deliver X s (d # ds) =
     (case validate_next X d s of
        (s, Inl _) \<Rightarrow> deliver X s ds
      | (s, Inr _) \<Rightarrow> apsnd (Cons d) (deliver X s ds))"

fun contiguous :: "bytes \<Rightarrow> nat \<Rightarrow> data_frame list \<Rightarrow> bool" where
  "contiguous i a [] \<longleftrightarrow> True"
| "contiguous i a (d # ds) \<longleftrightarrow>
     df_transfer_id d = i \<and> unat (df_offset d) = a \<and> contiguous i (a + length (df_payload d)) ds"

lemma contiguous_nth:
  "contiguous i a ds \<Longrightarrow> k < length ds \<Longrightarrow>
     df_transfer_id (ds ! k) = i \<and> unat (df_offset (ds ! k)) = a + length (concat (map df_payload (take k ds)))"
proof (induction ds arbitrary: a k)
  case (Cons d ds)
  then show ?case by (cases k) auto
qed simp

lemma validate_next_cases:
  obtains (rejected) e where "validate_next X d s = (s, Inl e)"
  | (accepted) n where "validate_next X d s = (s\<lparr>sv_next_offset := n\<rparr>, Inr ())" "data_validate X d = Inr ()"
      "df_transfer_id d = sv_transfer_id s" "df_offset d = sv_next_offset s"
      "unat n = unat (sv_next_offset s) + length (df_payload d)"
proof (cases "and_then (data_validate X d) (\<lambda>_.
    ensure (df_transfer_id d = sv_transfer_id s) ''native transfer data frame belongs to another transfer'' (
    ensure (df_offset d = sv_next_offset s) ''native transfer data offset gap or replay'' (end_offset d)))")
  case (Inl e)
  then show thesis using rejected by (simp add: validate_next_def)
next
  case (Inr n)
  then have v: "data_validate X d = Inr ()" "df_transfer_id d = sv_transfer_id s" "df_offset d = sv_next_offset s"
    "checked_add (df_offset d) (word_of_nat (length (df_payload d))) = Some n"
    by (auto simp: result_simps end_offset_def)
  have "length (df_payload d) \<le> MAX_CHUNK_BYTES" using v(1) by (auto simp: data_validate_def result_simps)
  then have "unat (word_of_nat (length (df_payload d)) :: u64) = length (df_payload d)" by (rule chunk_len_value)
  with unat_checked_add [OF v(4)] v Inr show thesis using accepted [of n] by (simp add: validate_next_def)
qed

lemma deliver_contiguous:
  assumes "deliver X s ds = (s', acc)"
  shows "contiguous (sv_transfer_id s) (unat (sv_next_offset s)) acc \<and> list_all (\<lambda>d. data_validate X d = Inr ()) acc \<and>
    unat (sv_next_offset s') = unat (sv_next_offset s) + length (concat (map df_payload acc)) \<and>
    sv_transfer_id s' = sv_transfer_id s \<and> subseq acc ds"
  using assms
proof (induction ds arbitrary: s acc)
  case (Cons d ds)
  show ?case
  proof (cases X d s rule: validate_next_cases)
    case (rejected e)
    then show ?thesis using Cons by auto
  next
    case (accepted n)
    then obtain acc' where "deliver X (s\<lparr>sv_next_offset := n\<rparr>) ds = (s', acc')" "acc = d # acc'"
      using Cons.prems by (auto simp: apsnd_def map_prod_def split: prod.splits)
    with Cons.IH [OF this(1)] accepted show ?thesis by auto
  qed
qed simp

lemma contiguous_content:
  assumes "contiguous i a ds" "\<forall>d\<in>set ds. take (length (df_payload d)) (drop (unat (df_offset d)) F) = df_payload d"
  shows "take (length (concat (map df_payload ds))) (drop a F) = concat (map df_payload ds)"
  using assms
proof (induction ds arbitrary: a)
  case (Cons d ds)
  then have "take (length (df_payload d)) (drop a F) = df_payload d"
    "take (length (concat (map df_payload ds))) (drop (a + length (df_payload d)) F) = concat (map df_payload ds)"
    by auto
  then show ?case by (simp add: take_add add.commute)
qed simp

section \<open>The grammar of the helper version\<close>

lemma split_once_Some: "split_once s p = Some (a, b) \<Longrightarrow> s = a @ p @ b"
  by (induction s arbitrary: a) (auto split: if_splits simp: prefix_def)

lemma split_once_first:
  assumes "p = c # q" "c \<notin> set a"
  shows "split_once (a @ p @ b) p = Some (a, b)"
  using assms(2)
proof (induction a)
  case Nil
  then show ?case by (simp add: assms(1))
qed (simp add: assms(1))

lemma strip_suffix_append [simp]: "strip_suffix (a @ p) p = Some a"
  by (simp add: strip_suffix_def suffix_def)

lemma strip_suffix_Some: "strip_suffix s p = Some a \<longleftrightarrow> s = a @ p"
  by (auto simp: strip_suffix_def suffix_def split: if_splits)

lemma strip_prefix_Some: "strip_prefix s p = Some a \<longleftrightarrow> s = p @ a"
  by (auto simp: strip_prefix_def prefix_def)

text \<open>The texts that \<open>validate_version\<close> accepts, as they are written.\<close>

definition version_text :: "string \<Rightarrow> string \<Rightarrow> bool \<Rightarrow> string" where
  "version_text release commit dirty =
     ''serctl-xfer '' @ release @ '' (git '' @ commit @ (if dirty then ''-dirty'' else []) @ ''; transfer protocol v1)''"

definition version_parts :: "string \<Rightarrow> string \<Rightarrow> bool" where
  "version_parts release commit \<longleftrightarrow> release \<noteq> [] \<and> length release \<le> 64 \<and> list_all release_char release \<and>
     length commit = 12 \<and> list_all is_lower_hex_char commit"

lemma version_affixes:
  "HELPER_BINARY_NAME @ '' '' = ''serctl-xfer ''"
  "''; transfer protocol v'' @ decimal (unat VERSION) @ '')'' = ''; transfer protocol v1)''"
proof -
  have "decimal (unat VERSION) = ''1''" by code_simp
  then show "''; transfer protocol v'' @ decimal (unat VERSION) @ '')'' = ''; transfer protocol v1)''" by simp
qed (simp add: HELPER_BINARY_NAME_def)

lemma char_classes:
  "release_char c \<Longrightarrow> char_code c < 128 \<and> \<not> is_ascii_control c \<and> c \<noteq> CHR '' ''"
  "is_lower_hex_char c \<Longrightarrow> char_code c < 128 \<and> \<not> is_ascii_control c \<and> c \<noteq> CHR ''y''"
  by (auto simp: release_char_def is_lower_hex_char_def is_ascii_alphanumeric_def is_ascii_alphabetic_def
      is_ascii_digit_def is_ascii_lowercase_def is_ascii_uppercase_def is_ascii_control_def char_code_def)

lemma version_text_printable:
  assumes "version_parts release commit"
  shows "is_ascii (version_text release commit dirty)" "\<not> list_ex is_ascii_control (version_text release commit dirty)"
    "length (version_text release commit dirty) \<le> MAX_HELPER_VERSION_BYTES" "version_text release commit dirty \<noteq> []"
  using assms char_classes
  by (auto simp: version_text_def version_parts_def is_ascii_def list_all_iff list_ex_iff is_ascii_control_def char_code_def
      MAX_HELPER_VERSION_BYTES_def)

lemma validate_version_iff:
  "validate_version v = Inr () \<longleftrightarrow> (\<exists>release commit dirty. v = version_text release commit dirty \<and> version_parts release commit)"
  (is "?L \<longleftrightarrow> ?R")
proof -
  define pre where "pre = ''serctl-xfer ''"
  define suf where "suf = ''; transfer protocol v1)''"
  define git where "git = '' (git ''"
  define dty where "dty = ''-dirty''"
  note folds = pre_def [symmetric] suf_def [symmetric] git_def [symmetric] dty_def [symmetric]
  have vt: "version_text release commit dirty = pre @ release @ git @ commit @ (if dirty then dty else []) @ suf"
    for release commit dirty by (simp only: version_text_def folds)
  note validate = validate_version_def [of v, unfolded Let_def version_affixes, unfolded folds]
  show ?thesis
  proof
    assume ?L
    then obtain body release commit where b: "v = pre @ body @ suf"
      "split_once body git = Some (release, commit)" "release \<noteq> []" "length release \<le> 64" "list_all release_char release"
      and c: "length (case strip_suffix commit dty of Some hex \<Rightarrow> hex | None \<Rightarrow> commit) = 12"
        "list_all is_lower_hex_char (case strip_suffix commit dty of Some hex \<Rightarrow> hex | None \<Rightarrow> commit)"
      by (auto simp: validate result_simps bind_eq_Some_conv strip_prefix_Some strip_suffix_Some)
    show ?R
    proof (cases "strip_suffix commit dty")
      case None
      with b c split_once_Some [OF b(2)] show ?thesis
        by (intro exI [of _ release] exI [of _ commit] exI [of _ False]) (simp add: vt version_parts_def)
    next
      case (Some hex)
      with b c split_once_Some [OF b(2)] show ?thesis
        by (intro exI [of _ release] exI [of _ hex] exI [of _ True]) (simp add: vt version_parts_def strip_suffix_Some)
    qed
  next
    assume ?R
    then obtain release commit dirty where v: "v = version_text release commit dirty" and p: "version_parts release commit"
      by blast
    let ?c = "commit @ (if dirty then dty else [])"
    have "CHR '' '' \<notin> set release" using p char_classes(1) by (auto simp: version_parts_def list_all_iff)
    then have s: "split_once (release @ git @ ?c) git = Some (release, ?c)"
      by (intro split_once_first [of git "CHR '' ''" "tl git"]) (simp_all add: git_def)
    have "CHR ''y'' \<notin> set commit" using p char_classes(2) by (auto simp: version_parts_def list_all_iff)
    then have "strip_suffix commit dty = None" by (auto simp: strip_suffix_def suffix_def dty_def)
    then have h: "(case strip_suffix ?c dty of Some hex \<Rightarrow> hex | None \<Rightarrow> ?c) = commit" by simp
    have body: "Option.bind (strip_prefix v pre) (\<lambda>value. strip_suffix value suf) = Some (release @ git @ ?c)"
      unfolding bind_eq_Some_conv strip_prefix_Some strip_suffix_Some by (simp add: v vt)
    show ?L
      using version_text_printable [OF p, of dirty] p s h body
      by (simp add: validate version_parts_def flip: v)
  qed
qed

text \<open>Erasing a control message keeps nothing of it but its kind.\<close>

lemma control_zeroize_erases:
  "control_zeroize c \<in>
     {HelperHello 0 0 0 False False False False \<lparr>hi_name = [], hi_binary_size = 0, hi_sha256 = [], hi_version = []\<rparr>,
      Hello 0 0 0 False False False False, BeginPush [] [] 0 [] [] False, BeginPull [] [] 0, Ready 0 0 0,
      PullReady 0 0 0 [] 0, Ack 0 0 0, Commit, Completed 0 [], Cancel, ControlError [] [] False}"
  by (cases c) (simp_all add: identity_zeroize_def)

section \<open>Properties\<close>

text \<open>C1: a receiver of data frames that arrive in any order, repeated, altered or from another
  transfer accepts frames of its transfer only, each at the offset where the accepted data ends, and
  the offset never wraps; where the chunk hashes are those of the chunks of a file, the accepted
  data is the file from the starting offset on, or two byte strings with the same hash are known.\<close>

theorem transfer_data_contiguous:
  assumes "deliver X s ds = (s', acc)"
  shows "unat (sv_next_offset s') = unat (sv_next_offset s) + length (concat (map df_payload acc)) \<and> subseq acc ds \<and>
    (\<forall>k < length acc. df_transfer_id (acc ! k) = sv_transfer_id s \<and>
       unat (df_offset (acc ! k)) = unat (sv_next_offset s) + length (concat (map df_payload (take k acc)))) \<and>
    (\<forall>content. (\<forall>d\<in>set acc. df_chunk_sha256 d = tx_sha256 X (take (length (df_payload d)) (drop (unat (df_offset d)) content))) \<longrightarrow>
       concat (map df_payload acc) = take (length (concat (map df_payload acc))) (drop (unat (sv_next_offset s)) content) \<or>
       (\<exists>d\<in>set acc. \<exists>m. m \<noteq> df_payload d \<and> tx_sha256 X m = tx_sha256 X (df_payload d)))"
proof -
  note d = deliver_contiguous [OF assms]
  have c: "contiguous (sv_transfer_id s) (unat (sv_next_offset s)) acc" using d by blast
  have "concat (map df_payload acc) = take (length (concat (map df_payload acc))) (drop (unat (sv_next_offset s)) content) \<or>
       (\<exists>d\<in>set acc. \<exists>m. m \<noteq> df_payload d \<and> tx_sha256 X m = tx_sha256 X (df_payload d))"
    if h: "\<forall>d\<in>set acc. df_chunk_sha256 d = tx_sha256 X (take (length (df_payload d)) (drop (unat (df_offset d)) content))" for content
  proof (cases "\<forall>d\<in>set acc. take (length (df_payload d)) (drop (unat (df_offset d)) content) = df_payload d")
    case True
    with contiguous_content [OF c] show ?thesis by simp
  next
    case False
    moreover have "tx_sha256 X (df_payload e) = df_chunk_sha256 e" if "e \<in> set acc" for e
      using d that by (auto simp: list_all_iff data_validate_def result_simps)
    ultimately show ?thesis using h by metis
  qed
  with d contiguous_nth [OF c] show ?thesis by blast
qed

text \<open>C1: frames written one after the other are read back as they are; and a data frame is read only
  from exactly the bytes that writing it produces.\<close>

theorem transfer_stream_exact:
  assumes "list_all2 (\<lambda>f bs. write_frame X f = Inr bs) fs bss" and "control_json_laws X"
    and "\<forall>d. DataFrame d \<in> set fs \<longrightarrow> data_typed d"
  shows "read_all (read_frame X) (Suc (length fs)) (concat bss) = Some (Inr fs) \<and>
    (read_frame X bs = Inr (Some (DataFrame d, rest)) \<longleftrightarrow> data_typed d \<and> (\<exists>w. write_data X d = Inr w \<and> bs = w @ rest))"
proof
  have "list_all (\<lambda>f. control_json_laws X \<and> (case f of DataFrame d \<Rightarrow> data_typed d | _ \<Rightarrow> True)) fs"
    using assms(2,3) by (auto simp: list_all_iff split: frame.splits)
  then show "read_all (read_frame X) (Suc (length fs)) (concat bss) = Some (Inr fs)"
    by (intro transfer_frames.read_all_written [OF assms(1)]) simp_all
  show "read_frame X bs = Inr (Some (DataFrame d, rest)) \<longleftrightarrow> data_typed d \<and> (\<exists>w. write_data X d = Inr w \<and> bs = w @ rest)"
    by (rule read_data_iff)
qed

text \<open>C1: whatever bytes a peer sends, a frame that is read is well formed: a validated control
  message, or a data frame with an id of 16 bytes, a hash of 32 bytes and between one byte and one
  MiB of data with that hash; and at most the bound of a frame was taken from the stream for it.\<close>

theorem transfer_read_typed:
  assumes "read_frame X bs = Inr (Some (f, rest))"
  shows "(case f of
      ControlFrame c \<Rightarrow> control_validate c = Inr ()
    | DataFrame d \<Rightarrow> length (df_transfer_id d) = 16 \<and> length (df_chunk_sha256 d) = 32 \<and>
        1 \<le> length (df_payload d) \<and> length (df_payload d) \<le> 1048576 \<and> tx_sha256 X (df_payload d) = df_chunk_sha256 d \<and>
        unat (df_offset d) + length (df_payload d) < 2 ^ 64) \<and>
    (\<exists>used. bs = used @ rest \<and> 12 \<le> length used \<and> length used \<le> 12 + MAX_FRAME_BYTES)"
proof -
  have m: "length MAGIC = 4" by (simp add: MAGIC_def)
  from assms obtain kind n r where r: "n \<le> MAX_FRAME_BYTES" "bs = MAGIC @ be16 VERSION @ [kind, 0] @ be32 (word_of_nat n) @ r"
    "(if kind = KIND_CONTROL then read_control_body X n r else if kind = KIND_DATA then read_data_body X n r
      else Inl ''unknown native transfer frame kind'') = Inr (f, rest)"
    unfolding read_frame_iff by blast
  then have "read_control_body X n r = Inr (f, rest) \<or> read_data_body X n r = Inr (f, rest)" by (auto split: if_splits)
  then show ?thesis
  proof
    assume "read_control_body X n r = Inr (f, rest)"
    then obtain c body where "f = ControlFrame c" "n = length body" "r = body @ rest" "control_validate c = Inr ()"
      by (auto simp: read_control_body_iff)
    with r(1,2) m show ?thesis
      by (auto intro!: exI [of _ "MAGIC @ be16 VERSION @ [kind, 0] @ be32 (word_of_nat n) @ body"])
  next
    assume "read_data_body X n r = Inr (f, rest)"
    then obtain d where d: "f = DataFrame d" "data_typed d" "n = 56 + length (df_payload d)" "data_validate X d = Inr ()"
      "r = df_transfer_id d @ be64 (df_offset d) @ df_chunk_sha256 d @ df_payload d @ rest"
      by (auto simp: read_data_body_iff)
    from d(4) have v: "df_payload d \<noteq> []" "length (df_payload d) \<le> MAX_CHUNK_BYTES" "tx_sha256 X (df_payload d) = df_chunk_sha256 d"
      and "\<exists>e. checked_add (df_offset d) (word_of_nat (length (df_payload d))) = Some e"
      by (auto simp: data_validate_def end_offset_def result_simps)
    then obtain e where "checked_add (df_offset d) (word_of_nat (length (df_payload d))) = Some e" by blast
    from unat_checked_add [OF this] have "unat (df_offset d) + length (df_payload d) < 2 ^ 64"
      using chunk_len_value [OF v(2)] unat_less [of e] by simp
    with v have "case f of ControlFrame c \<Rightarrow> control_validate c = Inr ()
      | DataFrame d \<Rightarrow> length (df_transfer_id d) = 16 \<and> length (df_chunk_sha256 d) = 32 \<and>
        1 \<le> length (df_payload d) \<and> length (df_payload d) \<le> 1048576 \<and> tx_sha256 X (df_payload d) = df_chunk_sha256 d \<and>
        unat (df_offset d) + length (df_payload d) < 2 ^ 64"
      using d(1,2) by (cases "df_payload d") (auto simp: data_typed_def MAX_CHUNK_BYTES_def)
    moreover have "\<exists>used. bs = used @ rest \<and> 12 \<le> length used \<and> length used \<le> 12 + MAX_FRAME_BYTES"
      using d(2,3,5) r(1,2) m
      by (intro exI [of _ "MAGIC @ be16 VERSION @ [kind, 0] @ be32 (word_of_nat n) @ df_transfer_id d @ be64 (df_offset d) @
          df_chunk_sha256 d @ df_payload d"]) (simp add: data_typed_def)
    ultimately show ?thesis by blast
  qed
qed

text \<open>C1: the runtime identity of a helper is valid exactly when its name is the helper's, its size is
  within bounds, its hash is 64 lowercase hexadecimal characters and its version is the printed form of
  a release, a commit of twelve hexadecimal characters, perhaps marked dirty, and this protocol version.\<close>

theorem helper_identity_grammar:
  "identity_validate i = Inr () \<longleftrightarrow>
     hi_name i = ''serctl-xfer'' \<and> 1 \<le> unat (hi_binary_size i) \<and> unat (hi_binary_size i) \<le> 512 * 1024 * 1024 \<and>
     length (hi_sha256 i) = 64 \<and> list_all is_lower_hex_char (hi_sha256 i) \<and>
     (\<exists>release commit dirty. hi_version i = version_text release commit dirty \<and> version_parts release commit)"
  by (auto simp: identity_validate_def result_simps validate_sha256_def is_lower_hex_def validate_version_iff
      HELPER_BINARY_NAME_def MAX_HELPER_BINARY_BYTES_def word_le_nat_alt)

subsection \<open>A sample transfer\<close>

definition sample_transfer_ext :: transfer_ext where
  "sample_transfer_ext = \<lparr>tx_sha256 = (\<lambda>m. take 32 (m @ replicate 32 0)), tx_control_json = [Commit \<mapsto> [7]],
     tx_control_parse = [[7] \<mapsto> Commit]\<rparr>"

definition sample_data :: "u64 \<Rightarrow> u8 \<Rightarrow> data_frame" where
  "sample_data offset b = \<lparr>df_transfer_id = replicate 16 1, df_offset = offset,
     df_chunk_sha256 = take 32 ([b] @ replicate 32 0), df_payload = [b]\<rparr>"

lemma sample_data_valid: "offset < 100 \<Longrightarrow> data_validate sample_transfer_ext (sample_data offset b) = Inr ()"
  by (auto simp: data_validate_def sample_transfer_ext_def sample_data_def end_offset_def transfer_sizes checked_add_def
      word_less_nat_alt)

lemma sample_written: "\<exists>w. write_data sample_transfer_ext (sample_data 0 5) = Inr w"
  "\<exists>w. write_control sample_transfer_ext Commit = Inr w" "data_typed (sample_data 0 5)"
  by (simp_all add: write_data_eq write_control_eq sample_data_valid) (simp_all add: sample_transfer_ext_def transfer_sizes
      data_typed_def sample_data_def)

theorem transfer_data_contiguous_witness:
  "\<exists>s' acc. deliver sample_transfer_ext (validator_new (replicate 16 1) 0)
      [sample_data 0 5, sample_data 9 4, sample_data 0 5, sample_data 1 6] = (s', acc) \<and>
    acc = [sample_data 0 5, sample_data 1 6] \<and> unat (sv_next_offset s') = 2"
proof -
  let ?ds = "[sample_data 0 5, sample_data 9 4, sample_data 0 5, sample_data 1 6]"
  have v: "validate_next sample_transfer_ext (sample_data k b) (validator_new (replicate 16 1) n) =
      (if k = n then (validator_new (replicate 16 1) (k + 1), Inr ())
       else (validator_new (replicate 16 1) n, Inl ''native transfer data offset gap or replay''))" if "k < 100" for k n b
    using sample_data_valid [OF that] that
    by (auto simp: validate_next_def validator_new_def end_offset_def sample_data_def checked_add_def word_less_nat_alt)
  have "deliver sample_transfer_ext (validator_new (replicate 16 1) 0) ?ds =
      (validator_new (replicate 16 1) 2, [sample_data 0 5, sample_data 1 6])"
    by (simp add: v)
  from transfer_data_contiguous [OF this] this show ?thesis by (auto simp: sample_data_def validator_new_def)
qed

theorem transfer_stream_exact_witness:
  "\<exists>a b. read_all (read_frame sample_transfer_ext) 3 (a @ b) = Some (Inr [ControlFrame Commit, DataFrame (sample_data 0 5)])"
proof -
  obtain a b where w: "write_control sample_transfer_ext Commit = Inr a" "write_data sample_transfer_ext (sample_data 0 5) = Inr b"
    using sample_written by blast
  then have l: "list_all2 (\<lambda>f bs. write_frame sample_transfer_ext f = Inr bs) [ControlFrame Commit, DataFrame (sample_data 0 5)] [a, b]"
    by (simp add: write_frame_def)
  have "control_json_laws sample_transfer_ext" by (simp add: control_json_laws_def sample_transfer_ext_def)
  from transfer_stream_exact [OF l this] sample_written(3)
  have "read_all (read_frame sample_transfer_ext) 3 (a @ b) = Some (Inr [ControlFrame Commit, DataFrame (sample_data 0 5)])"
    by (simp add: numeral_3_eq_3 del: read_all.simps)
  then show ?thesis by blast
qed

theorem transfer_read_typed_witness:
  "\<exists>w. read_frame sample_transfer_ext w = Inr (Some (DataFrame (sample_data 0 5), [])) \<and> 12 \<le> length w"
proof -
  obtain w where "write_data sample_transfer_ext (sample_data 0 5) = Inr w" using sample_written by blast
  then have r: "read_frame sample_transfer_ext w = Inr (Some (DataFrame (sample_data 0 5), []))"
    using sample_written(3) by (simp add: read_data_iff)
  from transfer_read_typed [OF r] r show ?thesis by auto
qed

end
