(* ===== verification/Grants.thy ===== *)
theory Grants
  imports Ipc_Session Audit_Ledger "HOL-Library.Char_ord"
begin

text \<open>
  Operation grants: the capability itself (crates/serctl_protocol/src/grant.rs) and the credential
  pool and grant registry of the daemon (crates/serctl_daemon/src/daemon.rs).

  Instants of the monotonic clock and durations are numbers of nanoseconds; every reading of a clock
  is an argument. A shared record behind an \<open>Arc\<close> is an index into a store, so that pointer equality
  is equality of indices; hash maps are association lists with distinct keys. The mutex of a
  registry makes each of its operations one step; a poisoned mutex and the idle counter are not
  modelled. Ed25519 and the JSON of the signed payload are the fields of \<open>grant_ext\<close>.
\<close>

section \<open>The capability\<close>

type_synonym instant = nat
type_synonym duration = nat

definition from_secs :: "nat \<Rightarrow> duration" where "from_secs s = s * 1000000000"
definition from_millis :: "nat \<Rightarrow> duration" where "from_millis ms = ms * 1000000"
definition as_secs :: "duration \<Rightarrow> nat" where "as_secs d = d div 1000000000"
definition subsec_nanos :: "duration \<Rightarrow> nat" where "subsec_nanos d = d mod 1000000000"
definition as_millis :: "duration \<Rightarrow> nat" where "as_millis d = d div 1000000"

text \<open>\<open>Instant::checked_add\<close> on Linux: the seconds are a signed 64-bit integer.\<close>

definition instant_checked_add :: "instant \<Rightarrow> duration \<Rightarrow> instant option" where
  "instant_checked_add t d = (if as_secs (t + d) < 2 ^ 63 then Some (t + d) else None)"

definition GRANT_DEFAULT_TTL :: duration where "GRANT_DEFAULT_TTL = from_secs (30 * 60)"
definition GRANT_MIN_TTL :: duration where "GRANT_MIN_TTL = from_secs 60"
definition GRANT_MAX_TTL :: duration where "GRANT_MAX_TTL = from_secs (40 * 60)"
definition GRANT_BUDGET_CAP :: u32 where "GRANT_BUDGET_CAP = 1000"
definition GRANT_MAX_OPERATIONS :: nat where "GRANT_MAX_OPERATIONS = 32"
definition POP_SIGNATURE_B64_LEN :: nat where "POP_SIGNATURE_B64_LEN = 88"
definition POP_DOMAIN :: bytes where
  "POP_DOMAIN = as_bytes ''serctl/ipc/v9/grant-pop/v1'' @ [0]"

record profile_identity =
  pi_profile_id :: bytes
  pi_generation :: u64

record operation_grant =
  og_grant_id :: bytes
  og_profile_name :: string
  og_profile_id :: bytes
  og_profile_generation :: u64
  og_operations :: "string list"
  og_budget :: u32
  og_issued_unix_ms :: u64
  og_expires_unix_ms :: u64
  og_holder_key :: bytes

record pop_payload =
  po_protocol_version :: u16
  po_client_session_id :: bytes
  po_request_id :: bytes
  po_operation_kind :: string
  po_profile_id :: "bytes option"
  po_profile_name :: "string option"
  po_grant_id :: "bytes option"
  po_profile_proof :: "string option"
  po_requested_deadline_unix_ms :: u64
  po_root_request_hash :: bytes

text \<open>\<open>gx_valid_key\<close> is whether \<open>VerifyingKey::from_bytes\<close> accepts 32 bytes, \<open>gx_sign\<close> and
  \<open>gx_verify\<close> are signing with a private key and checking against the bytes of a public key.\<close>

record grant_ext =
  gx_chan :: chan_ext
  gx_pop_json :: "pop_payload \<Rightarrow> bytes option"
  gx_valid_key :: "bytes \<Rightarrow> bool"
  gx_sign :: "bytes \<Rightarrow> bytes \<Rightarrow> bytes"
  gx_verify :: "bytes \<Rightarrow> bytes \<Rightarrow> bytes \<Rightarrow> bool"

definition u64_from_nat :: "nat \<Rightarrow> u64 option" where
  "u64_from_nat n = (if n < 2 ^ 64 then Some (word_of_nat n) else None)"

text \<open>The random grant id is the argument \<open>grant_id\<close>.\<close>

definition new_with_ttl ::
  "bytes \<Rightarrow> string \<Rightarrow> profile_identity \<Rightarrow> string list \<Rightarrow> u32 \<Rightarrow> bytes \<Rightarrow> u64 \<Rightarrow> duration \<Rightarrow> operation_grant res" where
  "new_with_ttl grant_id profile_name identity operations budget holder_key now_unix_ms ttl =
     ensure (profile_name \<noteq> [] \<and> length profile_name \<le> 128 \<and> \<not> list_ex unsafe_name_char (chars profile_name))
       ''grant profile name must satisfy the vault profile-name rules'' (
     ensure (pi_generation identity > 0) ''grant profile generation must be non-zero'' (
     ensure (1 \<le> budget \<and> budget \<le> GRANT_BUDGET_CAP) ''grant budget must be between 1 and 1000'' (
     ensure (operations \<noteq> [] \<and> length operations \<le> GRANT_MAX_OPERATIONS)
       ''grant must authorize 1..=32 operation kinds'' (
     ensure (GRANT_MIN_TTL \<le> ttl \<and> ttl \<le> GRANT_MAX_TTL) ''grant TTL must be between 60 and 2400 seconds'' (
     ensure (subsec_nanos ttl = 0 \<and> as_secs ttl mod 60 = 0) ''grant TTL must use whole minutes'' (
     and_then (ok_or (u64_from_nat (as_millis ttl)) ''grant TTL exceeds u64 millis'') (\<lambda>ttl_ms.
     and_then (ok_or (checked_add now_unix_ms ttl_ms) ''grant expiry overflow'') (\<lambda>expires_unix_ms.
     Inr \<lparr>og_grant_id = grant_id, og_profile_name = profile_name, og_profile_id = pi_profile_id identity,
          og_profile_generation = pi_generation identity, og_operations = operations, og_budget = budget,
          og_issued_unix_ms = now_unix_ms, og_expires_unix_ms = expires_unix_ms,
          og_holder_key = holder_key\<rparr>))))))))"

definition grant_new ::
  "bytes \<Rightarrow> string \<Rightarrow> profile_identity \<Rightarrow> string list \<Rightarrow> u32 \<Rightarrow> bytes \<Rightarrow> u64 \<Rightarrow> operation_grant res" where
  "grant_new grant_id profile_name identity operations budget holder_key now_unix_ms =
     new_with_ttl grant_id profile_name identity operations budget holder_key now_unix_ms GRANT_DEFAULT_TTL"

definition grant_is_expired :: "operation_grant \<Rightarrow> u64 \<Rightarrow> bool" where
  "grant_is_expired g now_unix_ms \<longleftrightarrow> now_unix_ms \<ge> og_expires_unix_ms g"

definition policy_ttl :: "operation_grant \<Rightarrow> duration res" where
  "policy_ttl g =
     ensure (og_profile_generation g > 0) ''grant profile generation must be non-zero'' (
     and_then (ok_or (checked_sub (og_expires_unix_ms g) (og_issued_unix_ms g))
       ''grant expiry precedes its issue time'') (\<lambda>millis.
     ensure (millis mod 60000 = 0) ''grant TTL must use whole minutes'' (
     let ttl = from_millis (unat millis) in
     ensure (GRANT_MIN_TTL \<le> ttl \<and> ttl \<le> GRANT_MAX_TTL) ''grant TTL is outside the allowed policy range'' (
     Inr ttl))))"

definition covers :: "operation_grant \<Rightarrow> v6_prelude \<Rightarrow> bool" where
  "covers g p \<longleftrightarrow> list_ex (\<lambda>kind. kind = pl_operation_kind p) (og_operations g)"

definition covers_profile :: "operation_grant \<Rightarrow> v6_prelude \<Rightarrow> bool" where
  "covers_profile g p \<longleftrightarrow> (case pl_profile_name p of None \<Rightarrow> False | Some name \<Rightarrow> name = og_profile_name g)"

subsection \<open>Proof of possession\<close>

definition pop_payload_of :: "v6_prelude \<Rightarrow> pop_payload" where
  "pop_payload_of p =
     \<lparr>po_protocol_version = pl_protocol_version p, po_client_session_id = pl_client_session_id p,
      po_request_id = pl_request_id p, po_operation_kind = pl_operation_kind p,
      po_profile_id = pl_profile_id p, po_profile_name = pl_profile_name p, po_grant_id = pl_grant_id p,
      po_profile_proof = pl_profile_proof p,
      po_requested_deadline_unix_ms = pl_requested_deadline_unix_ms p,
      po_root_request_hash = pl_root_request_hash p\<rparr>"

definition prelude_pop_message :: "grant_ext \<Rightarrow> v6_prelude \<Rightarrow> bytes res" where
  "prelude_pop_message G p =
     and_then (ok_or (gx_pop_json G (pop_payload_of p)) ''serialize grant proof-of-possession payload'') (\<lambda>encoded.
     Inr (POP_DOMAIN @ encoded))"

definition sign_prelude_pop :: "grant_ext \<Rightarrow> bytes \<Rightarrow> v6_prelude \<Rightarrow> string res" where
  "sign_prelude_pop G key p =
     and_then (prelude_pop_message G p) (\<lambda>message.
     Inr (ix_b64_encode (cx_ipc (gx_chan G)) (gx_sign G key message)))"

definition verify_prelude_pop :: "grant_ext \<Rightarrow> bytes \<Rightarrow> string \<Rightarrow> v6_prelude \<Rightarrow> unit res" where
  "verify_prelude_pop G holder_key signature_b64 p =
     (if length signature_b64 > POP_SIGNATURE_B64_LEN + 16
      then Inl ''grant proof-of-possession signature is oversized''
      else
        and_then (ok_or (ix_b64_decode (cx_ipc (gx_chan G)) signature_b64)
          ''decode grant proof-of-possession signature'') (\<lambda>decoded.
        ensure (length decoded = 64) ''grant proof-of-possession signature must decode to 64 bytes'' (
        ensure (gx_valid_key G holder_key) ''grant holder key is invalid'' (
        and_then (prelude_pop_message G p) (\<lambda>message.
        ensure (gx_verify G holder_key message decoded) ''grant proof-of-possession verification failed''
          (Inr ()))))))"

section \<open>The credential pool of the daemon\<close>

text \<open>The fields of a pool entry that authorization uses: the SSH sessions, the connection data and
  the profile lease it also keeps alive are not modelled. \<open>pe_quarantined\<close> is the address of the
  shared flag.\<close>

record profile_entry =
  pe_identity :: profile_identity
  pe_profile :: string
  pe_call_key :: bytes
  pe_audit :: audit_ledger
  pe_quarantined :: nat
  pe_expires_at :: instant

type_synonym profile_pool = "(bytes \<times> profile_entry) list"

definition alist_put :: "'k \<Rightarrow> 'v \<Rightarrow> ('k \<times> 'v) list \<Rightarrow> ('k \<times> 'v) list" where
  "alist_put k v m = (k, v) # remove_key k m"

definition entry_for :: "bytes \<Rightarrow> instant \<Rightarrow> profile_pool \<Rightarrow> profile_pool \<times> profile_entry option" where
  "entry_for profile_id now pool =
     (let expired = (case map_of pool profile_id of None \<Rightarrow> False | Some entry \<Rightarrow> pe_expires_at entry \<le> now);
          pool' = (if expired then remove_key profile_id pool else pool) in
      (pool', map_of pool' profile_id))"

definition pool_insert :: "bytes \<Rightarrow> profile_entry \<Rightarrow> profile_pool \<Rightarrow> profile_pool" where
  "pool_insert profile_id entry pool = alist_put profile_id entry pool"

definition pool_prune_expired :: "instant \<Rightarrow> profile_pool \<Rightarrow> profile_pool" where
  "pool_prune_expired now pool = filter (\<lambda>(_, entry). pe_expires_at entry > now) pool"

section \<open>The grant registry\<close>

definition GRANT_REGISTRY_LIMIT :: nat where "GRANT_REGISTRY_LIMIT = 1024"

definition GRANTABLE_OPERATION_KINDS :: "string list" where
  "GRANTABLE_OPERATION_KINDS =
     [''ssh.exec'', ''ssh.connection-identity'', ''daemon.status'', ''sftp.list'', ''sftp.write'',
      ''transfer.read'', ''transfer.write'', ''transfer.status'', ''transfer.cancel'',
      ''forward.local/open'', ''forward.remote/open'', ''forward.dynamic/open'', ''forward.status'',
      ''forward.cancel'']"

definition UNKNOWN_GRANT_ERROR :: string where
  "UNKNOWN_GRANT_ERROR = ''grant is not registered in this daemon instance; the daemon may have restarted, so reissue the grant''"

definition GRANT_TERMINAL_TOMBSTONE_TTL :: duration where
  "GRANT_TERMINAL_TOMBSTONE_TTL = from_secs 60"

datatype grant_terminal_kind = TerminalExhausted | TerminalExpired

record grant_tombstone =
  gt_kind :: grant_terminal_kind
  gt_expires_at :: instant
  gt_forget_at :: instant

record grant_record =
  gr_grant :: operation_grant
  gr_entry :: profile_entry
  gr_remaining :: u64
  gr_expires_at :: instant

text \<open>\<open>gs_records\<close> is the store of all records ever allocated; \<open>gs_live\<close> maps a grant id to the address
  of its record.\<close>

record grant_registry =
  gs_records :: "grant_record list"
  gs_live :: "(bytes \<times> nat) list"
  gs_tombstones :: "(bytes \<times> grant_tombstone) list"

datatype grant_lookup = GrantLive nat | GrantExhausted | GrantExpired | GrantUnknown

definition registry_new :: grant_registry where
  "registry_new = \<lparr>gs_records = [], gs_live = [], gs_tombstones = []\<rparr>"

definition forget_at :: "instant \<Rightarrow> instant" where
  "forget_at expires_at =
     (case instant_checked_add expires_at GRANT_TERMINAL_TOMBSTONE_TTL of
        None \<Rightarrow> expires_at | Some t \<Rightarrow> t)"

definition bury :: "instant \<Rightarrow> bytes \<Rightarrow> grant_registry \<Rightarrow> grant_registry" where
  "bury now grant_id st =
     (case map_of (gs_live st) grant_id of
        None \<Rightarrow> st
      | Some a \<Rightarrow>
          let r = gs_records st ! a; st' = st\<lparr>gs_live := remove_key grant_id (gs_live st)\<rparr> in
          if forget_at (gr_expires_at r) > now
          then st'\<lparr>gs_tombstones := alist_put grant_id
                 \<lparr>gt_kind = TerminalExpired, gt_expires_at = gr_expires_at r, gt_forget_at = forget_at (gr_expires_at r)\<rparr>
                 (gs_tombstones st')\<rparr>
          else st')"

definition prune_locked :: "instant \<Rightarrow> grant_registry \<Rightarrow> grant_registry" where
  "prune_locked now st =
     (let st = st\<lparr>gs_tombstones := filter (\<lambda>(_, t). gt_forget_at t > now) (gs_tombstones st)\<rparr>;
          expired_ids = map fst (filter (\<lambda>(_, a). gr_expires_at (gs_records st ! a) \<le> now) (gs_live st)) in
      fold (bury now) expired_ids st)"

definition registry_lookup :: "bytes \<Rightarrow> instant \<Rightarrow> grant_registry \<Rightarrow> grant_registry \<times> grant_lookup" where
  "registry_lookup grant_id now st =
     (let st = prune_locked now st in
      case map_of (gs_live st) grant_id of
        Some a \<Rightarrow> (st, GrantLive a)
      | None \<Rightarrow>
          (case map_of (gs_tombstones st) grant_id of
             Some t \<Rightarrow>
               if gt_kind t = TerminalExhausted \<and> now < gt_expires_at t then (st, GrantExhausted)
               else (st, GrantExpired)
           | None \<Rightarrow> (st, GrantUnknown)))"

definition check_grant_binding :: "operation_grant \<Rightarrow> profile_entry \<Rightarrow> 'a res \<Rightarrow> 'a res" where
  "check_grant_binding g entry rest =
     ensure (pi_profile_id (pe_identity entry) = og_profile_id g)
       ''grant profile id does not match its bound profile entry'' (
     ensure (pi_generation (pe_identity entry) = og_profile_generation g)
       ''grant profile generation does not match its bound profile entry'' (
     ensure (pe_profile entry = og_profile_name g)
       ''grant profile name does not match its bound profile entry'' rest))"

definition record_new :: "operation_grant \<Rightarrow> profile_entry \<Rightarrow> instant \<Rightarrow> grant_record res" where
  "record_new g entry issued_at =
     and_then (policy_ttl g) (\<lambda>ttl.
     check_grant_binding g entry (
     and_then (ok_or (instant_checked_add issued_at ttl) ''grant monotonic expiry overflow'') (\<lambda>expires_at.
     Inr \<lparr>gr_grant = g, gr_entry = entry, gr_remaining = ucast (og_budget g), gr_expires_at = expires_at\<rparr>)))"

definition registry_insert :: "operation_grant \<Rightarrow> profile_entry \<Rightarrow> instant \<Rightarrow> (grant_registry, unit) action" where
  "registry_insert g entry now st =
     (let st = prune_locked now st in
      if \<not> length (gs_live st) + length (gs_tombstones st) < GRANT_REGISTRY_LIMIT
      then (st, Inl ''grant registry is at its capacity'')
      else if map_of (gs_live st) (og_grant_id g) \<noteq> None \<or> map_of (gs_tombstones st) (og_grant_id g) \<noteq> None
      then (st, Inl ''grant id collision'')
      else case record_new g entry now of
             Inl e \<Rightarrow> (st, Inl e)
           | Inr r \<Rightarrow>
               (st\<lparr>gs_records := gs_records st @ [r],
                   gs_live := alist_put (og_grant_id g) (length (gs_records st)) (gs_live st)\<rparr>, Inr ()))"

definition mark_terminal_if_same ::
  "bytes \<Rightarrow> nat \<Rightarrow> grant_terminal_kind \<Rightarrow> instant \<Rightarrow> grant_registry \<Rightarrow> grant_registry" where
  "mark_terminal_if_same grant_id expected kind now st =
     (let st = prune_locked now st in
      if map_of (gs_live st) grant_id = Some expected
      then let r = gs_records st ! expected in
           st\<lparr>gs_live := remove_key grant_id (gs_live st),
              gs_tombstones := alist_put grant_id
                \<lparr>gt_kind = kind, gt_expires_at = gr_expires_at r, gt_forget_at = forget_at (gr_expires_at r)\<rparr>
                (gs_tombstones st)\<rparr>
      else st)"

definition registry_prune_expired :: "instant \<Rightarrow> grant_registry \<Rightarrow> grant_registry" where
  "registry_prune_expired now st = prune_locked now st"

subsection \<open>Grant records\<close>

definition validate_request :: "grant_ext \<Rightarrow> grant_record \<Rightarrow> v6_prelude \<Rightarrow> instant \<Rightarrow> u64 \<Rightarrow> unit res" where
  "validate_request G r p now now_ms =
     (let g = gr_grant r in
      check_grant_binding g (gr_entry r) (
      ensure (now < gr_expires_at r) ''grant has expired'' (
      ensure (pl_requested_deadline_unix_ms p > now_ms \<and> pl_requested_deadline_unix_ms p \<le> og_expires_unix_ms g)
        ''requested deadline exceeds the grant expiry'' (
      ensure (covers g p) ''grant does not authorize this operation kind'' (
      ensure (covers_profile g p) ''grant profile mismatch'' (
      and_then (ok_or (pl_pop_signature p) ''grant prelude must carry a proof-of-possession signature'') (\<lambda>signature.
      verify_prelude_pop G (og_holder_key g) signature p)))))))"

text \<open>One turn of the compare-and-exchange loop of \<open>spend_budget\<close>: with the value it expects, either
  an error, or the stored value and whether the last unit was spent, or the value to try again with.
  \<open>spurious\<close> is a failure of the weak exchange although the value is the expected one.\<close>

datatype spend_turn = SpendExhausted | SpendDone u64 bool | SpendRetry u64

definition spend_turn_of :: "u64 \<Rightarrow> bool \<Rightarrow> u64 \<Rightarrow> spend_turn" where
  "spend_turn_of expected spurious current =
     (if expected = 0 then SpendExhausted
      else if current = expected \<and> \<not> spurious then SpendDone (expected - 1) (expected = 1)
      else SpendRetry current)"

definition grant_policy_preimage :: "operation_grant \<Rightarrow> bytes" where
  "grant_policy_preimage g =
     as_bytes ''serctl/audit/grant-policy/v1'' @ [0] @ og_grant_id g @ og_profile_id g @
     be64 (og_profile_generation g) @ be32 (og_budget g) @ be64 (og_issued_unix_ms g) @
     be64 (og_expires_unix_ms g) @
     concat (map (\<lambda>operation. be64 (word_of_nat (length operation)) @ as_bytes operation) (og_operations g))"

definition policy_digest :: "audit_ext \<Rightarrow> grant_record \<Rightarrow> string" where
  "policy_digest X r = ax_hex_encode X (ax_sha256 X (grant_policy_preimage (gr_grant r)))"

definition record_is_expired :: "grant_record \<Rightarrow> instant \<Rightarrow> bool" where
  "record_is_expired r now \<longleftrightarrow> now \<ge> gr_expires_at r"

subsection \<open>Issuing\<close>

text \<open>The clocks are read at \<open>now\<close> for the pool, \<open>wall\<close> for the grant and \<open>now'\<close> for the registry.\<close>

definition issue_grant ::
  "grant_ext \<Rightarrow> bytes \<Rightarrow> instant \<Rightarrow> u64 \<Rightarrow> instant \<Rightarrow> v6_prelude \<Rightarrow> ipc_frame \<Rightarrow>
   (profile_pool \<times> grant_registry, operation_grant) action" where
  "issue_grant G grant_id now wall now' p frame = (\<lambda>(pool, grants).
     case frame of
       IssueGrant req \<Rightarrow>
         if pl_profile_name p \<noteq> Some (ig_profile req)
         then ((pool, grants), Inl ''grant issuance must target the unlocked issuing profile'')
         else (case pl_profile_id p of
           None \<Rightarrow> ((pool, grants), Inl ''grant issuance requires the issuing profile id'')
         | Some profile_id \<Rightarrow>
             (case entry_for profile_id now pool of
                (pool, None) \<Rightarrow> ((pool, grants), Inl ''profile is locked: unlock it first'')
              | (pool, Some entry) \<Rightarrow>
                  let checked =
                    ensure (pe_profile entry = ig_profile req) ''grant profile name does not match its profile id'' (
                    and_then (ok_or (pl_profile_proof p) ''grant issuance requires a profile call proof'') (\<lambda>profile_proof.
                    and_then (verify_profile_prelude_proof (gx_chan G) (pe_call_key entry) profile_proof p) (\<lambda>_.
                    let unique = remdups_adj (sort (ig_operations req)) in
                    ensure (unique \<noteq> [] \<and> list_all (\<lambda>kind. kind \<in> set GRANTABLE_OPERATION_KINDS) unique)
                      ''grant contains a non-grantable or empty operation kind'' (
                    and_then (ok_or (ix_b64_decode (cx_ipc (gx_chan G)) (ig_holder_key req))
                      ''decode grant holder public key'') (\<lambda>key_bytes.
                    ensure (length key_bytes = 32) ''grant holder key must decode to 32 bytes'' (
                    ensure (gx_valid_key G key_bytes) ''grant holder public key is invalid'' (
                    new_with_ttl grant_id (ig_profile req)
                      \<lparr>pi_profile_id = profile_id, pi_generation = pi_generation (pe_identity entry)\<rparr>
                      unique (ig_budget req) key_bytes wall (from_secs (unat (ig_ttl_secs req)))))))))) in
                  (case checked of
                     Inl e \<Rightarrow> ((pool, grants), Inl e)
                   | Inr g \<Rightarrow>
                       (case registry_insert g entry now' grants of
                          (grants, Inl e) \<Rightarrow> ((pool, grants), Inl e)
                        | (grants, Inr _) \<Rightarrow> ((pool, grants), Inr g)))))
     | _ \<Rightarrow> ((pool, grants), Inl ''issue-grant operation kind without an issue-grant frame''))"

section \<open>Association lists\<close>

lemma map_of_alist_put [simp]: "map_of (alist_put k v m) = (map_of m)(k \<mapsto> v)"
  by (simp add: alist_put_def map_of_remove_key)

lemma alist_put_keys: "map fst (alist_put k v m) = k # filter (\<lambda>x. x \<noteq> k) (map fst m)"
  by (simp add: alist_put_def remove_key_keys)

lemma length_remove_key:
  assumes "distinct (map fst m)"
  shows "length (remove_key k m) + (if map_of m k = None then 0 else 1) = length m"
  using assms
proof (induction m)
  case (Cons x m)
  show ?case
  proof (cases "fst x = k")
    case True
    with Cons.prems have "map_of m k = None" by (simp add: map_of_eq_None_iff)
    with Cons True show ?thesis by (auto simp: remove_key_def split: prod.splits)
  next
    case False
    with Cons show ?thesis by (auto simp: remove_key_def split: prod.splits)
  qed
qed (simp add: remove_key_def)

lemma length_alist_put: "length (alist_put k v m) \<le> Suc (length m)"
  by (simp add: alist_put_def remove_key_def)

lemma map_of_filter_distinct:
  "distinct (map fst m) \<Longrightarrow>
   map_of (filter P m) k = (case map_of m k of Some v \<Rightarrow> if P (k, v) then Some v else None | None \<Rightarrow> None)"
proof (induction m)
  case (Cons x m)
  then have "map_of m (fst x) = None" by (simp add: map_of_eq_None_iff)
  with Cons show ?case by (cases x) (auto split: option.splits)
qed simp

section \<open>The registry\<close>

subsection \<open>Pruning\<close>

definition expired_tombstone :: "instant \<Rightarrow> grant_tombstone" where
  "expired_tombstone e = \<lparr>gt_kind = TerminalExpired, gt_expires_at = e, gt_forget_at = forget_at e\<rparr>"

definition keys_ok :: "grant_registry \<Rightarrow> bool" where
  "keys_ok st \<longleftrightarrow>
     distinct (map fst (gs_live st)) \<and> distinct (map fst (gs_tombstones st)) \<and>
     set (map fst (gs_live st)) \<inter> set (map fst (gs_tombstones st)) = {} \<and>
     length (gs_live st) + length (gs_tombstones st) \<le> GRANT_REGISTRY_LIMIT \<and>
     (\<forall>(id, a)\<in>set (gs_live st). a < length (gs_records st) \<and> og_grant_id (gr_grant (gs_records st ! a)) = id)"

lemma bury_simps:
  "gs_records (bury now i st) = gs_records st"
  "gs_live (bury now i st) = remove_key i (gs_live st)"
  "map_of (gs_tombstones (bury now i st)) k =
     (case map_of (gs_live st) k of
        Some a \<Rightarrow> if k = i \<and> forget_at (gr_expires_at (gs_records st ! a)) > now
                 then Some (expired_tombstone (gr_expires_at (gs_records st ! a)))
                 else map_of (gs_tombstones st) k
      | None \<Rightarrow> map_of (gs_tombstones st) k)"
proof -
  have "remove_key i m = m" if "map_of m i = None" for m :: "(bytes \<times> nat) list"
    using that by (auto simp: remove_key_def filter_id_conv map_of_eq_None_iff) force
  then show "gs_records (bury now i st) = gs_records st"
    "gs_live (bury now i st) = remove_key i (gs_live st)"
    "map_of (gs_tombstones (bury now i st)) k =
     (case map_of (gs_live st) k of
        Some a \<Rightarrow> if k = i \<and> forget_at (gr_expires_at (gs_records st ! a)) > now
                 then Some (expired_tombstone (gr_expires_at (gs_records st ! a)))
                 else map_of (gs_tombstones st) k
      | None \<Rightarrow> map_of (gs_tombstones st) k)"
    by (auto simp: bury_def Let_def expired_tombstone_def split: option.split)
qed

lemma bury_tombstones:
  "gs_tombstones (bury now i st) = gs_tombstones st \<or>
   map_of (gs_live st) i \<noteq> None \<and> (\<exists>t. gs_tombstones (bury now i st) = alist_put i t (gs_tombstones st))"
  by (auto simp: bury_def Let_def split: option.split)

lemma bury_keys_ok: "keys_ok st \<Longrightarrow> keys_ok (bury now i st)"
proof -
  assume ok: "keys_ok st"
  note l = length_remove_key [of "gs_live st" i]
  have live: "distinct (map fst (remove_key i (gs_live st)))"
    "set (map fst (remove_key i (gs_live st))) = set (map fst (gs_live st)) - {i}"
    using ok by (auto simp: keys_ok_def remove_key_keys)
  have sub: "x \<in> set (remove_key i (gs_live st)) \<Longrightarrow> x \<in> set (gs_live st)" for x by (simp add: remove_key_def)
  from bury_tombstones [of now i st] show ?thesis
  proof (elim disjE conjE exE)
    assume "gs_tombstones (bury now i st) = gs_tombstones st"
    with ok live l sub show ?thesis unfolding keys_ok_def bury_simps by auto
  next
    fix t assume i: "map_of (gs_live st) i \<noteq> None" and t: "gs_tombstones (bury now i st) = alist_put i t (gs_tombstones st)"
    have "length (alist_put i t (gs_tombstones st)) \<le> Suc (length (gs_tombstones st))" by (rule length_alist_put)
    then have "length (remove_key i (gs_live st)) + length (alist_put i t (gs_tombstones st)) \<le> GRANT_REGISTRY_LIMIT"
      using ok l i by (auto simp: keys_ok_def)
    moreover have "distinct (map fst (alist_put i t (gs_tombstones st)))"
      "set (map fst (remove_key i (gs_live st))) \<inter> set (map fst (alist_put i t (gs_tombstones st))) = {}"
      using ok live(2) by (auto simp: keys_ok_def alist_put_keys)
    ultimately show ?thesis using ok live(1) sub unfolding keys_ok_def bury_simps t by auto
  qed
qed

lemma fold_bury:
  "gs_records (fold (bury now) ids st) = gs_records st"
  "gs_live (fold (bury now) ids st) = filter (\<lambda>(k, _). k \<notin> set ids) (gs_live st)"
  "keys_ok st \<Longrightarrow> keys_ok (fold (bury now) ids st)"
  "map_of (gs_tombstones (fold (bury now) ids st)) k =
     (case map_of (gs_live st) k of
        Some a \<Rightarrow> if k \<in> set ids \<and> forget_at (gr_expires_at (gs_records st ! a)) > now
                 then Some (expired_tombstone (gr_expires_at (gs_records st ! a)))
                 else map_of (gs_tombstones st) k
      | None \<Rightarrow> map_of (gs_tombstones st) k)"
proof -
  show "gs_records (fold (bury now) ids st) = gs_records st"
    by (induction ids arbitrary: st) (simp_all add: bury_simps)
  show "gs_live (fold (bury now) ids st) = filter (\<lambda>(k, _). k \<notin> set ids) (gs_live st)"
    by (induction ids arbitrary: st) (auto simp: bury_simps remove_key_def intro!: filter_cong)
  show "keys_ok st \<Longrightarrow> keys_ok (fold (bury now) ids st)"
    by (induction ids arbitrary: st) (simp_all add: bury_keys_ok)
  show "map_of (gs_tombstones (fold (bury now) ids st)) k =
     (case map_of (gs_live st) k of
        Some a \<Rightarrow> if k \<in> set ids \<and> forget_at (gr_expires_at (gs_records st ! a)) > now
                 then Some (expired_tombstone (gr_expires_at (gs_records st ! a)))
                 else map_of (gs_tombstones st) k
      | None \<Rightarrow> map_of (gs_tombstones st) k)"
  proof (induction ids arbitrary: st)
    case (Cons i ids)
    show ?case by (auto simp: Cons bury_simps map_of_remove_key split: option.split)
  qed (simp split: option.split)
qed

text \<open>What is live and what is remembered after pruning.\<close>

lemma prune_locked_eq:
  assumes "keys_ok st"
  shows "gs_records (prune_locked now st) = gs_records st" "keys_ok (prune_locked now st)"
    "map_of (gs_live (prune_locked now st)) k =
       (case map_of (gs_live st) k of
          Some a \<Rightarrow> if now < gr_expires_at (gs_records st ! a) then Some a else None | None \<Rightarrow> None)"
    "map_of (gs_tombstones (prune_locked now st)) k =
       (case map_of (gs_live st) k of
          Some a \<Rightarrow> if gr_expires_at (gs_records st ! a) \<le> now \<and> now < forget_at (gr_expires_at (gs_records st ! a))
                   then Some (expired_tombstone (gr_expires_at (gs_records st ! a))) else None
        | None \<Rightarrow> (case map_of (gs_tombstones st) k of
             Some t \<Rightarrow> if now < gt_forget_at t then Some t else None | None \<Rightarrow> None))"
proof -
  let ?st = "st\<lparr>gs_tombstones := filter (\<lambda>(_, t). gt_forget_at t > now) (gs_tombstones st)\<rparr>"
  let ?ids = "map fst (filter (\<lambda>(_, a). gr_expires_at (gs_records st ! a) \<le> now) (gs_live st))"
  have p: "prune_locked now st = fold (bury now) ?ids ?st" by (simp add: prune_locked_def)
  have ok: "keys_ok ?st"
    using assms by (auto simp: keys_ok_def distinct_map_filter intro: le_trans [OF add_left_mono [OF length_filter_le]])
  have dl: "distinct (map fst (gs_live st))" "distinct (map fst (gs_tombstones st))"
    using assms by (simp_all add: keys_ok_def)
  have ids: "k \<in> set ?ids \<longleftrightarrow> (\<exists>a. map_of (gs_live st) k = Some a \<and> gr_expires_at (gs_records st ! a) \<le> now)" for k
    using dl(1) by (force simp: map_of_eq_Some_iff)
  have disj: "map_of (gs_live st) k = Some a \<Longrightarrow> map_of (gs_tombstones st) k = None" for a
  proof -
    assume "map_of (gs_live st) k = Some a"
    then have "k \<in> fst ` set (gs_live st)" by (force dest: map_of_SomeD)
    then show ?thesis
      using assms [unfolded keys_ok_def, THEN conjunct2, THEN conjunct2, THEN conjunct1]
      unfolding map_of_eq_None_iff set_map by blast
  qed
  show "gs_records (prune_locked now st) = gs_records st" "keys_ok (prune_locked now st)"
    using ok by (simp_all add: p fold_bury)
  show "map_of (gs_live (prune_locked now st)) k =
       (case map_of (gs_live st) k of
          Some a \<Rightarrow> if now < gr_expires_at (gs_records st ! a) then Some a else None | None \<Rightarrow> None)"
    using ids [of k] dl(1) by (auto simp: p fold_bury map_of_filter_distinct simp del: set_map map_of_eq_Some_iff split: option.split)
  show "map_of (gs_tombstones (prune_locked now st)) k =
       (case map_of (gs_live st) k of
          Some a \<Rightarrow> if gr_expires_at (gs_records st ! a) \<le> now \<and> now < forget_at (gr_expires_at (gs_records st ! a))
                   then Some (expired_tombstone (gr_expires_at (gs_records st ! a))) else None
        | None \<Rightarrow> (case map_of (gs_tombstones st) k of
             Some t \<Rightarrow> if now < gt_forget_at t then Some t else None | None \<Rightarrow> None))"
    using ids [of k] dl(2) disj by (auto simp: p fold_bury map_of_filter_distinct simp del: set_map map_of_eq_Some_iff split: option.split)
qed

lemma forget_at_ge: "e \<le> forget_at e"
  by (auto simp: forget_at_def instant_checked_add_def split: option.split)

lemma record_new_eq:
  assumes "record_new g entry now = Inr r"
  shows "gr_grant r = g" "gr_entry r = entry" "now < gr_expires_at r" "gr_remaining r = ucast (og_budget g)"
proof -
  from assms obtain ttl where "policy_ttl g = Inr ttl" and
    r: "gr_grant r = g" "gr_entry r = entry" "gr_expires_at r = now + ttl" "gr_remaining r = ucast (og_budget g)"
    by (auto simp: record_new_def check_grant_binding_def result_simps instant_checked_add_def split: if_splits)
  from this(1) have "0 < ttl" by (auto simp: policy_ttl_def result_simps Let_def GRANT_MIN_TTL_def from_secs_def)
  with r show "gr_grant r = g" "gr_entry r = entry" "now < gr_expires_at r" "gr_remaining r = ucast (og_budget g)"
    by simp_all
qed

lemma keys_ok_new: "keys_ok registry_new"
  by (simp add: keys_ok_def registry_new_def GRANT_REGISTRY_LIMIT_def)

lemma lookup_keys_ok: "keys_ok st \<Longrightarrow> keys_ok (fst (registry_lookup i now st))"
  by (simp add: registry_lookup_def Let_def prune_locked_eq(2) split: option.split)

lemma map_of_None_remove: "map_of m k = None \<Longrightarrow> remove_key k m = m"
  by (auto simp: remove_key_def filter_id_conv map_of_eq_None_iff) force

lemma insert_keys_ok:
  assumes "keys_ok st"
  shows "keys_ok (fst (registry_insert g entry now st))"
proof -
  let ?st = "prune_locked now st"
  note ok = prune_locked_eq(2) [OF assms, of now]
  show ?thesis
  proof (cases "length (gs_live ?st) + length (gs_tombstones ?st) < GRANT_REGISTRY_LIMIT \<and>
      map_of (gs_live ?st) (og_grant_id g) = None \<and> map_of (gs_tombstones ?st) (og_grant_id g) = None")
    case False
    with ok show ?thesis by (auto simp: registry_insert_def Let_def)
  next
    case True
    show ?thesis
    proof (cases "record_new g entry now")
      case (Inl e)
      with ok True show ?thesis by (simp add: registry_insert_def Let_def)
    next
      case (Inr r)
      with True have eq: "fst (registry_insert g entry now st) =
          ?st\<lparr>gs_records := gs_records ?st @ [r], gs_live := (og_grant_id g, length (gs_records ?st)) # gs_live ?st\<rparr>"
        by (simp add: registry_insert_def Let_def alist_put_def map_of_None_remove)
      have "og_grant_id g \<notin> fst ` set (gs_live ?st)" "og_grant_id g \<notin> fst ` set (gs_tombstones ?st)"
        using True by (simp_all add: map_of_eq_None_iff)
      then show ?thesis
        using ok True record_new_eq(1) [OF Inr] unfolding eq keys_ok_def by (auto simp: nth_append)
    qed
  qed
qed

lemma mark_keys_ok:
  assumes "keys_ok st"
  shows "keys_ok (mark_terminal_if_same i a kind now st)"
proof -
  let ?st = "prune_locked now st"
  note ok = prune_locked_eq(2) [OF assms, of now]
  show ?thesis
  proof (cases "map_of (gs_live ?st) i = Some a")
    case True
    define t where "t = \<lparr>gt_kind = kind, gt_expires_at = gr_expires_at (gs_records ?st ! a),
        gt_forget_at = forget_at (gr_expires_at (gs_records ?st ! a))\<rparr>"
    have eq: "mark_terminal_if_same i a kind now st =
        ?st\<lparr>gs_live := remove_key i (gs_live ?st), gs_tombstones := alist_put i t (gs_tombstones ?st)\<rparr>"
      using True by (simp add: mark_terminal_if_same_def Let_def t_def)
    have "length (remove_key i (gs_live ?st)) + length (alist_put i t (gs_tombstones ?st)) \<le> GRANT_REGISTRY_LIMIT"
      using ok True length_remove_key [of "gs_live ?st" i] length_alist_put [of i t "gs_tombstones ?st"]
      by (simp add: keys_ok_def del: map_of_eq_Some_iff)
    moreover have "distinct (map fst (remove_key i (gs_live ?st)))" "distinct (map fst (alist_put i t (gs_tombstones ?st)))"
      "set (map fst (remove_key i (gs_live ?st))) \<inter> set (map fst (alist_put i t (gs_tombstones ?st))) = {}"
      using ok by (auto simp: keys_ok_def alist_put_keys remove_key_keys)
    ultimately show ?thesis
      using ok unfolding eq keys_ok_def by (auto simp: remove_key_def)
  qed (use ok in \<open>simp add: mark_terminal_if_same_def Let_def\<close>)
qed

lemmas registry_keys_ok =
  keys_ok_new lookup_keys_ok insert_keys_ok mark_keys_ok prune_locked_eq(2)

subsection \<open>What the registry promises\<close>

text \<open>The specification forgets nothing and prunes nothing: it keeps, for every id, the record it was
  last given to, the expiry and how it was ended, and the latest time it was told. Whether a grant
  is live, ended or forgotten follows from the time.\<close>

record grant_spec =
  sp_clock :: instant
  sp_count :: nat
  sp_entries :: "bytes \<Rightarrow> (nat \<times> instant \<times> grant_terminal_kind option) option"

definition spec_new :: grant_spec where
  "spec_new = \<lparr>sp_clock = 0, sp_count = 0, sp_entries = (\<lambda>_. None)\<rparr>"

definition spec_tick :: "instant \<Rightarrow> grant_spec \<Rightarrow> grant_spec" where
  "spec_tick now sp = sp\<lparr>sp_clock := max (sp_clock sp) now\<rparr>"

lemma spec_tick_simps [simp]:
  "sp_clock (spec_tick now sp) = max (sp_clock sp) now" "sp_count (spec_tick now sp) = sp_count sp"
  "sp_entries (spec_tick now sp) = sp_entries sp"
  by (simp_all add: spec_tick_def)

definition remembered :: "grant_spec \<Rightarrow> bytes set" where
  "remembered sp = {i. \<exists>a e m. sp_entries sp i = Some (a, e, m) \<and> sp_clock sp < forget_at e}"

definition spec_lookup :: "bytes \<Rightarrow> instant \<Rightarrow> grant_spec \<Rightarrow> grant_lookup" where
  "spec_lookup i now sp =
     (case sp_entries sp i of
        None \<Rightarrow> GrantUnknown
      | Some (a, e, m) \<Rightarrow>
          if m = None \<and> sp_clock sp < e then GrantLive a
          else if forget_at e \<le> sp_clock sp then GrantUnknown
          else if m = Some TerminalExhausted \<and> now < e then GrantExhausted
          else GrantExpired)"

definition spec_insert :: "operation_grant \<Rightarrow> profile_entry \<Rightarrow> instant \<Rightarrow> grant_spec \<Rightarrow> grant_spec \<times> unit res" where
  "spec_insert g entry now sp =
     (if GRANT_REGISTRY_LIMIT \<le> card (remembered sp) then (sp, Inl ''grant registry is at its capacity'')
      else if og_grant_id g \<in> remembered sp then (sp, Inl ''grant id collision'')
      else case record_new g entry now of
             Inl e \<Rightarrow> (sp, Inl e)
           | Inr r \<Rightarrow>
               (sp\<lparr>sp_count := Suc (sp_count sp),
                   sp_entries := (sp_entries sp)(og_grant_id g \<mapsto> (sp_count sp, gr_expires_at r, None))\<rparr>, Inr ()))"

definition spec_mark :: "bytes \<Rightarrow> nat \<Rightarrow> grant_terminal_kind \<Rightarrow> grant_spec \<Rightarrow> grant_spec" where
  "spec_mark i a kind sp =
     (case sp_entries sp i of
        None \<Rightarrow> sp
      | Some (a', e, m) \<Rightarrow>
          if a' = a \<and> m = None \<and> sp_clock sp < e
          then sp\<lparr>sp_entries := (sp_entries sp)(i \<mapsto> (a, e, Some kind))\<rparr> else sp)"

datatype registry_op =
  OpLookup bytes instant
| OpInsert operation_grant profile_entry instant
| OpMark bytes nat grant_terminal_kind instant
| OpPrune instant

datatype registry_reply = ReplyLookup grant_lookup | ReplyInsert "unit res" | ReplyNone

fun registry_apply :: "registry_op \<Rightarrow> grant_registry \<Rightarrow> grant_registry \<times> registry_reply" where
  "registry_apply (OpLookup i now) st = apsnd ReplyLookup (registry_lookup i now st)"
| "registry_apply (OpInsert g entry now) st = apsnd ReplyInsert (registry_insert g entry now st)"
| "registry_apply (OpMark i a kind now) st = (mark_terminal_if_same i a kind now st, ReplyNone)"
| "registry_apply (OpPrune now) st = (registry_prune_expired now st, ReplyNone)"

fun spec_apply :: "registry_op \<Rightarrow> grant_spec \<Rightarrow> grant_spec \<times> registry_reply" where
  "spec_apply (OpLookup i now) sp = (let sp = spec_tick now sp in (sp, ReplyLookup (spec_lookup i now sp)))"
| "spec_apply (OpInsert g entry now) sp = apsnd ReplyInsert (spec_insert g entry now (spec_tick now sp))"
| "spec_apply (OpMark i a kind now) sp = (spec_mark i a kind (spec_tick now sp), ReplyNone)"
| "spec_apply (OpPrune now) sp = (spec_tick now sp, ReplyNone)"

fun replies :: "(registry_op \<Rightarrow> 's \<Rightarrow> 's \<times> registry_reply) \<Rightarrow> 's \<Rightarrow> registry_op list \<Rightarrow> registry_reply list" where
  "replies f s [] = []"
| "replies f s (op # ops) = (case f op s of (s', r) \<Rightarrow> r # replies f s' ops)"

text \<open>How the maps of the registry follow from the specification.\<close>

definition represents :: "grant_registry \<Rightarrow> grant_spec \<Rightarrow> bool" where
  "represents st sp \<longleftrightarrow>
     keys_ok st \<and> length (gs_records st) = sp_count sp \<and>
     (\<forall>i a e m. sp_entries sp i = Some (a, e, m) \<longrightarrow> a < sp_count sp \<and> gr_expires_at (gs_records st ! a) = e) \<and>
     (\<forall>i. map_of (gs_live st) i =
        (case sp_entries sp i of
           Some (a, e, m) \<Rightarrow> if m = None \<and> sp_clock sp < e then Some a else None | None \<Rightarrow> None)) \<and>
     (\<forall>i. map_of (gs_tombstones st) i =
        (case sp_entries sp i of
           Some (a, e, m) \<Rightarrow>
             if (m = None \<longrightarrow> e \<le> sp_clock sp) \<and> sp_clock sp < forget_at e
             then Some \<lparr>gt_kind = (case m of None \<Rightarrow> TerminalExpired | Some k \<Rightarrow> k), gt_expires_at = e,
                        gt_forget_at = forget_at e\<rparr> else None
         | None \<Rightarrow> None))"

lemma representsD:
  assumes "represents st sp"
  shows "keys_ok st" "length (gs_records st) = sp_count sp"
    "sp_entries sp i = Some (a, e, m) \<Longrightarrow> a < sp_count sp \<and> gr_expires_at (gs_records st ! a) = e"
    "map_of (gs_live st) i =
        (case sp_entries sp i of
           Some (a, e, m) \<Rightarrow> if m = None \<and> sp_clock sp < e then Some a else None | None \<Rightarrow> None)"
    "map_of (gs_tombstones st) i =
        (case sp_entries sp i of
           Some (a, e, m) \<Rightarrow>
             if (m = None \<longrightarrow> e \<le> sp_clock sp) \<and> sp_clock sp < forget_at e
             then Some \<lparr>gt_kind = (case m of None \<Rightarrow> TerminalExpired | Some k \<Rightarrow> k), gt_expires_at = e,
                        gt_forget_at = forget_at e\<rparr> else None
         | None \<Rightarrow> None)"
  using assms unfolding represents_def by blast+

lemma represents_prune:
  assumes r: "represents st sp"
  shows "represents (prune_locked now st) (spec_tick now sp)"
proof -
  note d = representsD [OF r]
  note p = prune_locked_eq [OF d(1), of now]
  have "map_of (gs_live (prune_locked now st)) i =
      (case sp_entries sp i of
         Some (a, e, m) \<Rightarrow> if m = None \<and> max (sp_clock sp) now < e then Some a else None | None \<Rightarrow> None)" for i
    unfolding p(3) d(4) using d(3) [of i] by (auto split: option.split prod.split)
  moreover have "map_of (gs_tombstones (prune_locked now st)) i =
      (case sp_entries sp i of
         Some (a, e, m) \<Rightarrow>
           if (m = None \<longrightarrow> e \<le> max (sp_clock sp) now) \<and> max (sp_clock sp) now < forget_at e
           then Some \<lparr>gt_kind = (case m of None \<Rightarrow> TerminalExpired | Some k \<Rightarrow> k), gt_expires_at = e,
                      gt_forget_at = forget_at e\<rparr> else None
       | None \<Rightarrow> None)" for i
  proof (cases "sp_entries sp i")
    case (Some x)
    obtain a e m where x: "x = (a, e, m)" by (cases x)
    with Some d(3) [of i] forget_at_ge [of e] show ?thesis
      unfolding p(4) d(4,5) by (auto simp: expired_tombstone_def split: option.split)
  qed (simp add: p(4) d(4,5))
  ultimately show ?thesis
    unfolding represents_def spec_tick_simps using p(1,2) d(2,3) by simp
qed

lemma represents_remembered:
  assumes "represents st sp"
  shows "remembered sp = fst ` set (gs_live st) \<union> fst ` set (gs_tombstones st)"
    "card (remembered sp) = length (gs_live st) + length (gs_tombstones st)"
proof -
  note d = representsD [OF assms]
  have "i \<in> remembered sp \<longleftrightarrow> map_of (gs_live st) i \<noteq> None \<or> map_of (gs_tombstones st) i \<noteq> None" for i
    unfolding d(4,5) remembered_def using forget_at_ge
    by (auto split: option.split) (meson le_less_trans not_le order_less_le_trans)+
  then show r: "remembered sp = fst ` set (gs_live st) \<union> fst ` set (gs_tombstones st)"
    by (auto simp only: map_of_eq_None_iff)
  have "card (fst ` set (gs_live st)) = length (gs_live st)" "card (fst ` set (gs_tombstones st)) = length (gs_tombstones st)"
    using d(1) distinct_card [of "map fst (gs_live st)"] distinct_card [of "map fst (gs_tombstones st)"]
    by (simp_all add: keys_ok_def)
  moreover have "fst ` set (gs_live st) \<inter> fst ` set (gs_tombstones st) = {}"
    using d(1) by (simp add: keys_ok_def)
  ultimately show "card (remembered sp) = length (gs_live st) + length (gs_tombstones st)"
    unfolding r by (subst card_Un_disjoint) simp_all
qed

lemma represents_lookup:
  assumes "represents st sp" and "registry_lookup i now st = (st', r)"
  shows "represents st' (spec_tick now sp) \<and> r = spec_lookup i now (spec_tick now sp)"
proof -
  note rp = represents_prune [OF assms(1), of now]
  note d = representsD(4,5) [OF rp, of i]
  have "st' = prune_locked now st"
    using assms(2) by (auto simp: registry_lookup_def Let_def split: option.splits if_splits)
  moreover have "r = spec_lookup i now (spec_tick now sp)"
  proof (cases "sp_entries sp i")
    case None
    with assms(2) d show ?thesis by (simp add: registry_lookup_def spec_lookup_def Let_def)
  next
    case (Some x)
    obtain a e m where x: "x = (a, e, m)" by (cases x)
    from assms(2) d Some x show ?thesis
      by (cases m) (auto simp: registry_lookup_def spec_lookup_def Let_def split: if_splits)
  qed
  ultimately show ?thesis using rp by simp
qed

lemma represents_insert:
  assumes "represents st sp" and "registry_insert g entry now st = (st', r)" and "sp_clock sp \<le> now"
  shows "represents st' (fst (spec_insert g entry now (spec_tick now sp))) \<and>
    r = snd (spec_insert g entry now (spec_tick now sp))"
proof -
  let ?st = "prune_locked now st" and ?sp = "spec_tick now sp" and ?i = "og_grant_id g"
  note rp = represents_prune [OF assms(1), of now]
  note d = representsD [OF rp]
  note rem = represents_remembered [OF rp]
  have i: "?i \<in> remembered ?sp \<longleftrightarrow> map_of (gs_live ?st) ?i \<noteq> None \<or> map_of (gs_tombstones ?st) ?i \<noteq> None"
    unfolding rem(1) map_of_eq_None_iff by auto
  show ?thesis
  proof (cases "card (remembered ?sp) < GRANT_REGISTRY_LIMIT \<and> ?i \<notin> remembered ?sp")
    case False
    with assms(2) rp i rem(2) show ?thesis
      by (auto simp: registry_insert_def spec_insert_def Let_def split: if_splits)
  next
    case True
    show ?thesis
    proof (cases "record_new g entry now")
      case (Inl e)
      with True assms(2) rp i rem(2) show ?thesis by (auto simp: registry_insert_def spec_insert_def Let_def)
    next
      case (Inr rec)
      let ?r' = "?st\<lparr>gs_records := gs_records ?st @ [rec],
          gs_live := alist_put ?i (length (gs_records ?st)) (gs_live ?st)\<rparr>"
      let ?s' = "?sp\<lparr>sp_count := Suc (sp_count ?sp),
          sp_entries := (sp_entries ?sp)(?i \<mapsto> (sp_count ?sp, gr_expires_at rec, None))\<rparr>"
      have st': "st' = ?r'" and r: "r = Inr ()"
        using True Inr assms(2) i rem(2) by (auto simp: registry_insert_def Let_def split: if_splits)
      have sp': "spec_insert g entry now ?sp = (?s', Inr ())"
        using True Inr by (simp add: spec_insert_def)
      have ok: "keys_ok ?r'" using insert_keys_ok [OF representsD(1) [OF assms(1)], of g entry now] st' assms(2) by simp
      have new: "max (sp_clock sp) now < gr_expires_at rec" using record_new_eq(3) [OF Inr] assms(3) by simp
      have t: "map_of (gs_tombstones ?st) ?i = None" using True i by blast
      have "represents ?r' ?s'"
        unfolding represents_def
      proof (intro conjI allI impI)
        show "map_of (gs_live ?r') k = (case sp_entries ?s' k of
            Some (a, e, m) \<Rightarrow> if m = None \<and> sp_clock ?s' < e then Some a else None | None \<Rightarrow> None)" for k
          using d(2) d(4) [of k] new by (cases "k = ?i") (simp_all cong: option.case_cong prod.case_cong if_cong)
        show "map_of (gs_tombstones ?r') k = (case sp_entries ?s' k of
            Some (a, e, m) \<Rightarrow> if (m = None \<longrightarrow> e \<le> sp_clock ?s') \<and> sp_clock ?s' < forget_at e
              then Some \<lparr>gt_kind = (case m of None \<Rightarrow> TerminalExpired | Some k \<Rightarrow> k), gt_expires_at = e,
                        gt_forget_at = forget_at e\<rparr> else None | None \<Rightarrow> None)" for k
          using t d(5) [of k] new [folded not_le] by (cases "k = ?i") (simp_all cong: option.case_cong prod.case_cong if_cong)
      next
        fix k a e m assume k: "sp_entries ?s' k = Some (a, e, m)"
        then show "a < sp_count ?s'" "gr_expires_at (gs_records ?r' ! a) = e"
          using d(2) d(3) [of k a e m] by (auto simp: nth_append split: if_splits)
      qed (use ok d(2) in simp_all)
      with st' r sp' show ?thesis by simp
    qed
  qed
qed

lemma represents_mark:
  assumes "represents st sp"
  shows "represents (mark_terminal_if_same i a kind now st) (spec_mark i a kind (spec_tick now sp))"
proof -
  let ?st = "prune_locked now st" and ?sp = "spec_tick now sp"
  note rp = represents_prune [OF assms(1), of now]
  note d = representsD [OF rp]
  show ?thesis
  proof (cases "map_of (gs_live ?st) i = Some a")
    case False
    then have "spec_mark i a kind ?sp = ?sp"
      unfolding d(4) by (auto simp: spec_mark_def split: option.splits if_splits)
    with False rp show ?thesis by (simp add: mark_terminal_if_same_def Let_def)
  next
    case True
    then obtain e where e: "sp_entries sp i = Some (a, e, None)" "max (sp_clock sp) now < e"
      unfolding d(4) by (auto split: option.splits if_splits)
    let ?t = "\<lparr>gt_kind = kind, gt_expires_at = e, gt_forget_at = forget_at e\<rparr>"
    let ?r' = "?st\<lparr>gs_live := remove_key i (gs_live ?st), gs_tombstones := alist_put i ?t (gs_tombstones ?st)\<rparr>"
    let ?s' = "?sp\<lparr>sp_entries := (sp_entries ?sp)(i \<mapsto> (a, e, Some kind))\<rparr>"
    have exp: "gr_expires_at (gs_records ?st ! a) = e" using d(3) [of i a e None] e by simp
    have r': "mark_terminal_if_same i a kind now st = ?r'"
      using True exp by (simp add: mark_terminal_if_same_def Let_def del: map_of_eq_Some_iff)
    have s': "spec_mark i a kind ?sp = ?s'" using e by (simp add: spec_mark_def)
    have f: "max (sp_clock sp) now < forget_at e" using e(2) forget_at_ge [of e] by simp
    have "represents ?r' ?s'"
      unfolding represents_def
    proof (intro conjI allI impI)
      show "keys_ok ?r'" using mark_keys_ok [OF representsD(1) [OF assms], of i a kind now] r' by simp
      show "map_of (gs_live ?r') k = (case sp_entries ?s' k of
          Some (a, e, m) \<Rightarrow> if m = None \<and> sp_clock ?s' < e then Some a else None | None \<Rightarrow> None)" for k
        using d(4) [of k] by (cases "k = i") (simp_all add: map_of_remove_key cong: option.case_cong prod.case_cong if_cong)
      show "map_of (gs_tombstones ?r') k = (case sp_entries ?s' k of
          Some (a, e, m) \<Rightarrow> if (m = None \<longrightarrow> e \<le> sp_clock ?s') \<and> sp_clock ?s' < forget_at e
            then Some \<lparr>gt_kind = (case m of None \<Rightarrow> TerminalExpired | Some k \<Rightarrow> k), gt_expires_at = e,
                      gt_forget_at = forget_at e\<rparr> else None | None \<Rightarrow> None)" for k
        using d(5) [of k] f by (cases "k = i") (simp_all cong: option.case_cong prod.case_cong if_cong)
    next
      fix k a' e' m assume k: "sp_entries ?s' k = Some (a', e', m)"
      then show "a' < sp_count ?s'" "gr_expires_at (gs_records ?r' ! a') = e'"
        using d(3) [of k a' e' m] d(3) [of i a e None] e by (auto split: if_splits)
    qed (use d(2) in simp_all)
    with r' s' show ?thesis by simp
  qed
qed

text \<open>An insertion reads the clock under the lock, so at a time no earlier than every reading of an
  operation that held the lock before.\<close>

fun timely :: "instant \<Rightarrow> registry_op list \<Rightarrow> bool" where
  "timely t [] \<longleftrightarrow> True"
| "timely t (OpInsert g entry now # ops) \<longleftrightarrow> t \<le> now \<and> timely now ops"
| "timely t (OpLookup i now # ops) \<longleftrightarrow> timely (max t now) ops"
| "timely t (OpMark i a kind now # ops) \<longleftrightarrow> timely (max t now) ops"
| "timely t (OpPrune now # ops) \<longleftrightarrow> timely (max t now) ops"

lemma spec_clock [simp]:
  "sp_clock (fst (spec_insert g entry now sp)) = sp_clock sp" "sp_clock (spec_mark i a kind sp) = sp_clock sp"
  by (auto simp: spec_insert_def spec_mark_def split: sum.split option.split)

lemma represents_step:
  assumes "represents st sp" "timely (sp_clock sp) (op # ops)"
    "registry_apply op st = (st', r)" "spec_apply op sp = (sp', r')"
  shows "represents st' sp' \<and> r = r' \<and> timely (sp_clock sp') ops"
proof (cases op)
  case (OpLookup i now)
  with assms represents_lookup [OF assms(1), of i now] show ?thesis
    by (cases "registry_lookup i now st") (auto simp: Let_def)
next
  case (OpInsert g entry now)
  with assms represents_insert [OF assms(1), of g entry now] show ?thesis
    by (cases "registry_insert g entry now st"; cases "spec_insert g entry now (spec_tick now sp)")
      (auto simp: max_def dest: arg_cong [where f = "sp_clock \<circ> fst"])
next
  case (OpMark i a kind now)
  with assms represents_mark [OF assms(1), of i a kind now] show ?thesis by auto
next
  case (OpPrune now)
  with assms represents_prune [OF assms(1), of now] show ?thesis by (auto simp: registry_prune_expired_def)
qed

lemma represents_new: "represents registry_new spec_new"
  by (simp add: represents_def registry_keys_ok) (simp add: registry_new_def spec_new_def)

lemma replies_refine:
  "represents st sp \<Longrightarrow> timely (sp_clock sp) ops \<Longrightarrow> replies registry_apply st ops = replies spec_apply sp ops"
proof (induction ops arbitrary: st sp)
  case (Cons op ops)
  obtain st' r sp' r' where s: "registry_apply op st = (st', r)" "spec_apply op sp = (sp', r')"
    by (metis surj_pair)
  from represents_step [OF Cons.prems s] Cons.IH [of st' sp'] s show ?case by simp
qed simp

section \<open>Properties of grants\<close>

subsection \<open>Issued grants\<close>

lemma entry_for_Some:
  "entry_for i now pool = (pool', Some entry) \<longleftrightarrow> pool' = pool \<and> map_of pool i = Some entry \<and> now < pe_expires_at entry"
  by (auto simp: entry_for_def Let_def map_of_remove_key simp del: map_of_eq_Some_iff split: option.splits if_splits)

definition grant_bounded :: "operation_grant \<Rightarrow> bool" where
  "grant_bounded g \<longleftrightarrow>
     1 \<le> unat (og_budget g) \<and> unat (og_budget g) \<le> 1000 \<and> og_profile_generation g > 0 \<and>
     og_operations g \<noteq> [] \<and> length (og_operations g) \<le> 32 \<and>
     (\<exists>minutes. 1 \<le> minutes \<and> minutes \<le> 40 \<and>
        unat (og_expires_unix_ms g) = unat (og_issued_unix_ms g) + minutes * 60000)"

lemma new_with_ttl_eq:
  assumes "new_with_ttl i name ident ops budget key wall ttl = Inr g"
  shows "g = \<lparr>og_grant_id = i, og_profile_name = name, og_profile_id = pi_profile_id ident,
      og_profile_generation = pi_generation ident, og_operations = ops, og_budget = budget,
      og_issued_unix_ms = wall, og_expires_unix_ms = og_expires_unix_ms g, og_holder_key = key\<rparr>"
    "grant_bounded g" "policy_ttl g = Inr ttl"
    "unat (og_expires_unix_ms g) = unat wall + as_millis ttl"
proof -
  from assms obtain e where e: "checked_add wall (word_of_nat (as_millis ttl)) = Some e" "as_millis ttl < 2 ^ 64"
    and c: "pi_generation ident > 0" "1 \<le> budget" "budget \<le> GRANT_BUDGET_CAP" "ops \<noteq> []"
      "length ops \<le> GRANT_MAX_OPERATIONS" "GRANT_MIN_TTL \<le> ttl" "ttl \<le> GRANT_MAX_TTL"
      "subsec_nanos ttl = 0" "as_secs ttl mod 60 = 0"
    and g: "g = \<lparr>og_grant_id = i, og_profile_name = name, og_profile_id = pi_profile_id ident,
      og_profile_generation = pi_generation ident, og_operations = ops, og_budget = budget,
      og_issued_unix_ms = wall, og_expires_unix_ms = e, og_holder_key = key\<rparr>"
    unfolding new_with_ttl_def result_simps by (auto simp: u64_from_nat_def split: if_splits)
  define minutes where "minutes = as_secs ttl div 60"
  have ttl: "ttl = minutes * 60000000000"
    using c(8,9) by (auto simp: minutes_def subsec_nanos_def as_secs_def)
  then have m: "1 \<le> minutes" "minutes \<le> 40"
    using c(6,7) by (simp_all add: GRANT_MIN_TTL_def GRANT_MAX_TTL_def from_secs_def)
  have ms: "as_millis ttl = minutes * 60000" by (simp add: as_millis_def ttl)
  have u: "unat e = unat wall + minutes * 60000"
    using e m by (auto simp: checked_add_def ms unat_word_ariths unat_of_nat split: if_splits)
  show "g = \<lparr>og_grant_id = i, og_profile_name = name, og_profile_id = pi_profile_id ident,
      og_profile_generation = pi_generation ident, og_operations = ops, og_budget = budget,
      og_issued_unix_ms = wall, og_expires_unix_ms = og_expires_unix_ms g, og_holder_key = key\<rparr>"
    using g by simp
  show "unat (og_expires_unix_ms g) = unat wall + as_millis ttl" using g u ms by simp
  have "1 \<le> unat budget" "unat budget \<le> 1000"
    using c(2,3) by (simp_all add: GRANT_BUDGET_CAP_def word_le_nat_alt)
  with c(1,4,5) g u m show "grant_bounded g" by (auto simp: grant_bounded_def GRANT_MAX_OPERATIONS_def)
  have le: "wall \<le> e" using u by (simp add: word_le_nat_alt)
  then have d: "unat (e - wall) = minutes * 60000" using u by (simp add: unat_sub)
  then have "(e - wall) mod 60000 = 0" by (simp add: word_unat_eq_iff unat_mod)
  then show "policy_ttl g = Inr ttl"
    using c(1,6,7) le d by (simp add: policy_ttl_def g checked_sub_def Let_def from_millis_def ttl)
qed

lemma insert_registers:
  assumes "keys_ok st" "registry_insert g entry now st = (st', Inr ())"
  shows "\<exists>r. record_new g entry now = Inr r \<and> map_of (gs_live st') (og_grant_id g) = Some (length (gs_records st)) \<and>
    gs_records st' = gs_records st @ [r]"
  using assms prune_locked_eq(1) [OF assms(1), of now]
  by (auto simp: registry_insert_def Let_def simp del: map_of_eq_Some_iff split: if_splits sum.splits)

lemma issue_grant_eq_Inr:
  assumes "issue_grant G i now wall now' p frame (pool, grants) = ((pool', grants'), Inr g)"
  obtains req profile_id entry proof_text key where
    "frame = IssueGrant req" "pl_profile_name p = Some (ig_profile req)" "pl_profile_id p = Some profile_id"
    "map_of pool profile_id = Some entry" "now < pe_expires_at entry" "pool' = pool"
    "pe_profile entry = ig_profile req" "pl_profile_proof p = Some proof_text"
    "verify_profile_prelude_proof (gx_chan G) (pe_call_key entry) proof_text p = Inr ()"
    "set (ig_operations req) \<subseteq> set GRANTABLE_OPERATION_KINDS"
    "ix_b64_decode (cx_ipc (gx_chan G)) (ig_holder_key req) = Some key" "gx_valid_key G key"
    "new_with_ttl i (ig_profile req)
       \<lparr>pi_profile_id = profile_id, pi_generation = pi_generation (pe_identity entry)\<rparr>
       (remdups_adj (sort (ig_operations req))) (ig_budget req) key wall (from_secs (unat (ig_ttl_secs req))) = Inr g"
    "registry_insert g entry now' grants = (grants', Inr ())"
proof -
  from assms obtain req where f: "frame = IssueGrant req" by (cases frame) (simp_all add: issue_grant_def)
  from assms f obtain pid where p: "pl_profile_name p = Some (ig_profile req)" "pl_profile_id p = Some pid"
    by (auto simp: issue_grant_def split: if_splits option.splits)
  from assms f p obtain entry where e: "entry_for pid now pool = (pool', Some entry)"
    by (cases "entry_for pid now pool")
      (auto simp: issue_grant_def Let_def split: option.splits sum.splits prod.splits)
  from assms f p e show thesis
    by (auto simp: issue_grant_def Let_def result_simps entry_for_Some list_all_iff
        intro: that [of req pid entry] split: sum.splits prod.splits)
qed

lemma distinct_remdups_adj: "sorted (xs :: 'a::linorder list) \<Longrightarrow> distinct (remdups_adj xs)"
  by (induction xs rule: remdups_adj.induct) auto

lemma lookup_live:
  assumes "keys_ok st" "map_of (gs_live st) i = Some a" "t < gr_expires_at (gs_records st ! a)"
  shows "snd (registry_lookup i t st) = GrantLive a"
  using assms prune_locked_eq(3) [OF assms(1), of t i]
  by (simp add: registry_lookup_def Let_def del: map_of_eq_Some_iff)

lemma lookup_eq_live:
  assumes "keys_ok st" "registry_lookup i t st = (st', GrantLive a)"
  shows "map_of (gs_live st) i = Some a" "t < gr_expires_at (gs_records st ! a)" "gs_records st' = gs_records st"
    "a < length (gs_records st)" "og_grant_id (gr_grant (gs_records st ! a)) = i" "map_of (gs_live st') i = Some a"
proof -
  have st': "st' = prune_locked t st" and l: "map_of (gs_live (prune_locked t st)) i = Some a"
    using assms(2) by (auto simp: registry_lookup_def Let_def simp del: map_of_eq_Some_iff split: option.splits if_splits)
  then show m: "map_of (gs_live st) i = Some a" and "t < gr_expires_at (gs_records st ! a)"
    using prune_locked_eq(3) [OF assms(1), of t i]
    by (auto simp del: map_of_eq_Some_iff split: option.splits if_splits)
  show "gs_records st' = gs_records st" using st' prune_locked_eq(1) [OF assms(1)] by simp
  show "map_of (gs_live st') i = Some a" using st' l by simp
  have "\<forall>(i, a)\<in>set (gs_live st). a < length (gs_records st) \<and> og_grant_id (gr_grant (gs_records st ! a)) = i"
    using assms(1) by (simp add: keys_ok_def)
  with map_of_SomeD [OF m] show "a < length (gs_records st)" "og_grant_id (gr_grant (gs_records st ! a)) = i"
    by fast+
qed

lemma record_new_binding:
  "record_new g entry now = Inr r \<Longrightarrow>
     pi_profile_id (pe_identity entry) = og_profile_id g \<and> pi_generation (pe_identity entry) = og_profile_generation g \<and>
     pe_profile entry = og_profile_name g"
  by (auto simp: record_new_def check_grant_binding_def result_simps)

text \<open>C8: the registry of grants keeps its promise at every time and through every sequence of
  operations: it answers like one that never prunes, where a grant is live until its expiry or its
  end, is then reported as exhausted before the expiry and as expired for a minute after it, and is
  unknown afterwards; and its capacity counts exactly the grants that are remembered.\<close>

theorem grant_registry_refines:
  assumes "timely 0 ops"
  shows "replies registry_apply registry_new ops = replies spec_apply spec_new ops"
  using replies_refine [OF represents_new, of ops] assms by (simp add: spec_new_def)


text \<open>What the code relies on of the signed payload's JSON: the text determines the payload.\<close>

definition pop_laws :: "grant_ext \<Rightarrow> bool" where
  "pop_laws G \<longleftrightarrow> (\<forall>x y j. gx_pop_json G x = Some j \<longrightarrow> gx_pop_json G y = Some j \<longrightarrow> x = y)"

lemma verify_prelude_pop_eq:
  "verify_prelude_pop G k s p = Inr () \<longleftrightarrow>
     (\<exists>sig m. length s \<le> POP_SIGNATURE_B64_LEN + 16 \<and> ix_b64_decode (cx_ipc (gx_chan G)) s = Some sig \<and>
        length sig = 64 \<and> gx_valid_key G k \<and> prelude_pop_message G p = Inr m \<and> gx_verify G k m sig)"
  by (auto simp: verify_prelude_pop_def result_simps)

text \<open>C40: a request under a grant is authorised only before the grant expires, with a deadline in the
  future and within the grant, for a granted kind and for the grant's profile, at the profile
  generation the grant was issued for; and a signature the agent made for one request authorises
  no other one: the request is the signed one, or one signature verifies for two messages.\<close>

theorem grant_request_authorised:
  assumes "validate_request G r p now wall = Inr ()"
    and "pl_pop_signature p = Some s" and "verify_prelude_pop G (og_holder_key (gr_grant r)) s q = Inr ()"
    and "pop_laws G"
  shows "now < gr_expires_at r \<and> wall < pl_requested_deadline_unix_ms p \<and>
    pl_requested_deadline_unix_ms p \<le> og_expires_unix_ms (gr_grant r) \<and>
    pl_operation_kind p \<in> set (og_operations (gr_grant r)) \<and>
    pl_profile_name p = Some (og_profile_name (gr_grant r)) \<and>
    pe_profile (gr_entry r) = og_profile_name (gr_grant r) \<and>
    pe_identity (gr_entry r) =
      \<lparr>pi_profile_id = og_profile_id (gr_grant r), pi_generation = og_profile_generation (gr_grant r)\<rparr> \<and>
    (p = q\<lparr>pl_pop_signature := Some s\<rparr> \<or>
     (\<exists>m m' sig. prelude_pop_message G p = Inr m \<and> prelude_pop_message G q = Inr m' \<and> m \<noteq> m' \<and>
        gx_verify G (og_holder_key (gr_grant r)) m sig \<and> gx_verify G (og_holder_key (gr_grant r)) m' sig))"
proof -
  from assms(1,2) have c: "now < gr_expires_at r" "wall < pl_requested_deadline_unix_ms p"
    "pl_requested_deadline_unix_ms p \<le> og_expires_unix_ms (gr_grant r)" "covers (gr_grant r) p"
    "covers_profile (gr_grant r) p" "pe_profile (gr_entry r) = og_profile_name (gr_grant r)"
    "pi_profile_id (pe_identity (gr_entry r)) = og_profile_id (gr_grant r)"
    "pi_generation (pe_identity (gr_entry r)) = og_profile_generation (gr_grant r)"
    and v: "verify_prelude_pop G (og_holder_key (gr_grant r)) s p = Inr ()"
    by (auto simp: validate_request_def check_grant_binding_def Let_def result_simps)
  from v assms(3) obtain sig m m' where m: "prelude_pop_message G p = Inr m" "prelude_pop_message G q = Inr m'"
    "gx_verify G (og_holder_key (gr_grant r)) m sig" "gx_verify G (og_holder_key (gr_grant r)) m' sig"
    unfolding verify_prelude_pop_eq by force
  have "p = q\<lparr>pl_pop_signature := Some s\<rparr>" if "m = m'"
  proof -
    from m(1,2) that obtain j where j: "gx_pop_json G (pop_payload_of p) = Some j" "gx_pop_json G (pop_payload_of q) = Some j"
      by (auto simp: prelude_pop_message_def result_simps)
    have "pop_payload_of p = pop_payload_of q"
      using assms(4) [unfolded pop_laws_def, rule_format, OF j] .
    with assms(2) show ?thesis by (cases p; cases q) (simp add: pop_payload_of_def)
  qed
  with c m show ?thesis
    by (auto simp: covers_def covers_profile_def list_ex_iff split: option.splits)
qed

subsection \<open>A sample grant\<close>

definition sample_request :: v6_prelude where
  "sample_request = sample_prelude\<lparr>pl_operation_kind := ''daemon.status'', pl_profile_name := Some ''p'',
     pl_root_request_hash := take 32 ([1, 2] @ replicate 32 0), pl_grant_id := Some (replicate 16 8), pl_pop_signature := Some ''pop'',
     pl_requested_deadline_unix_ms := 60000\<rparr>"

definition sample_grant_ext :: grant_ext where
  "sample_grant_ext =
     \<lparr>gx_chan = chan_ext1\<lparr>cx_ipc := sample_ipc_ext
        \<lparr>ix_b64_decode := (\<lambda>s. if s = ''pop'' then Some (replicate 64 0) else unhex s)\<rparr>,
        cx_proof_json := (\<lambda>_. Some [9])\<rparr>,
      gx_pop_json = (\<lambda>x. if x = pop_payload_of sample_request then Some [1] else None),
      gx_valid_key = (\<lambda>_. True), gx_sign = (\<lambda>k m. replicate 64 0), gx_verify = (\<lambda>k m s. True)\<rparr>"

definition sample_entry :: profile_entry where
  "sample_entry =
     \<lparr>pe_identity = \<lparr>pi_profile_id = replicate 16 1, pi_generation = 1\<rparr>, pe_profile = ''p'',
      pe_call_key = replicate 32 2, pe_audit = sample_ledger, pe_quarantined = 0, pe_expires_at = 100\<rparr>"

definition sample_issue :: issue_grant_request where
  "sample_issue = \<lparr>ig_profile = ''p'', ig_operations = [''ssh.exec'', ''daemon.status'', ''ssh.exec''], ig_budget = 2,
     ig_ttl_secs = 60, ig_holder_key = hex_lower (replicate 32 3)\<rparr>"

definition sample_issue_prelude :: v6_prelude where
  "sample_issue_prelude = sample_prelude\<lparr>pl_operation_kind := ''daemon.issue-grant'', pl_profile_name := Some ''p'',
     pl_profile_id := Some (replicate 16 1),
     pl_profile_proof := Some (hex_lower (take 32 (replicate 32 2 @ PROFILE_PROOF_DOMAIN @ [9])))\<rparr>"

definition sample_grant :: operation_grant where
  "sample_grant =
     \<lparr>og_grant_id = replicate 16 8, og_profile_name = ''p'', og_profile_id = replicate 16 1,
      og_profile_generation = 1, og_operations = [''daemon.status'', ''ssh.exec''], og_budget = 2,
      og_issued_unix_ms = 0, og_expires_unix_ms = 60000, og_holder_key = replicate 32 3\<rparr>"

definition sample_record :: "profile_entry \<Rightarrow> grant_record" where
  "sample_record entry = \<lparr>gr_grant = sample_grant, gr_entry = entry, gr_remaining = 2,
     gr_expires_at = from_secs 60\<rparr>"

definition sample_grants :: "profile_entry \<Rightarrow> grant_registry" where
  "sample_grants entry =
     \<lparr>gs_records = [sample_record entry], gs_live = [(replicate 16 8, 0)], gs_tombstones = []\<rparr>"

lemma sample_issue_run:
  assumes "pe_identity entry = pe_identity sample_entry" "pe_profile entry = ''p''" "pe_call_key entry = replicate 32 2"
    "pe_expires_at entry > 0"
  shows "issue_grant sample_grant_ext (replicate 16 8) 0 0 0 sample_issue_prelude (IssueGrant sample_issue)
     ([(replicate 16 1, entry)], registry_new) = (([(replicate 16 1, entry)], sample_grants entry), Inr sample_grant)"
proof -
  have l: "length (hex_lower (replicate 32 (3::u8))) = 64" by (simp add: hex_lower_chars)
  have 1: "entry_for (replicate 16 1) 0 [(replicate 16 1, entry)] = ([(replicate 16 1, entry)], Some entry)"
    using assms(4) by (simp add: entry_for_def Let_def)
  have id: "pe_identity entry = \<lparr>pi_profile_id = replicate 16 1, pi_generation = 1\<rparr>"
    using assms(1) by (simp add: sample_entry_def)
  have pop: "hex_lower bs \<noteq> ''pop''" for bs using hex_lower_chars(2) [of bs] by (auto simp: is_lower_hex_char_def is_ascii_digit_def char_code_def)
  have 2: "verify_profile_prelude_proof (gx_chan sample_grant_ext) (replicate 32 2)
      (hex_lower (take 32 (replicate 32 2 @ PROFILE_PROOF_DOMAIN @ [9]))) sample_issue_prelude = Inr ()"
    by (simp add: verify_profile_prelude_proof_def hex_lower_chars sample_grant_ext_def pop sample_ipc_ext_def
        profile_prelude_proof_def profile_proof_message_def sample_issue_prelude_def sample_prelude_def)
  have nm: "\<not> list_ex unsafe_name_char (chars ''p'')" by code_simp
  have 3: "new_with_ttl (replicate 16 8) ''p'' \<lparr>pi_profile_id = replicate 16 1, pi_generation = 1\<rparr>
      [''daemon.status'', ''ssh.exec''] 2 (replicate 32 3) 0 (from_secs 60) = Inr sample_grant"
    using nm by (simp add: new_with_ttl_def sample_grant_def GRANT_BUDGET_CAP_def GRANT_MAX_OPERATIONS_def
        GRANT_MIN_TTL_def GRANT_MAX_TTL_def from_secs_def subsec_nanos_def as_secs_def u64_from_nat_def as_millis_def
        checked_add_def)
  have 4: "remdups_adj (sort (ig_operations sample_issue)) = [''daemon.status'', ''ssh.exec'']" by code_simp
  have 5: "record_new sample_grant entry 0 = Inr (sample_record entry)"
    using assms(2) by (simp add: record_new_def policy_ttl_def sample_grant_def id sample_record_def checked_sub_def
        GRANT_MIN_TTL_def GRANT_MAX_TTL_def from_secs_def from_millis_def check_grant_binding_def instant_checked_add_def
        as_secs_def)
  have 6: "ix_b64_decode (cx_ipc (gx_chan sample_grant_ext)) (hex_lower (replicate 32 3)) = Some (replicate 32 3)"
    by (simp add: sample_grant_ext_def pop)
  have gid: "og_grant_id sample_grant = replicate 16 8" by (simp add: sample_grant_def)
  have 7: "registry_insert sample_grant entry 0 registry_new = (sample_grants entry, Inr ())"
    using 5 by (simp add: registry_insert_def registry_new_def prune_locked_def GRANT_REGISTRY_LIMIT_def sample_grants_def
        alist_put_def remove_key_def gid)
  have 8: "list_all (\<lambda>kind. kind \<in> set GRANTABLE_OPERATION_KINDS) [''daemon.status'', ''ssh.exec'']"
    by (simp add: GRANTABLE_OPERATION_KINDS_def)
  have 9: "pl_profile_name sample_issue_prelude = Some ''p''" "pl_profile_id sample_issue_prelude = Some (replicate 16 1)"
    "pl_profile_proof sample_issue_prelude = Some (hex_lower (take 32 (replicate 32 2 @ PROFILE_PROOF_DOMAIN @ [9])))"
    "ig_profile sample_issue = ''p''" "ig_budget sample_issue = 2" "unat (ig_ttl_secs sample_issue) = 60"
    "ig_holder_key sample_issue = hex_lower (replicate 32 3)" "gx_valid_key sample_grant_ext = (\<lambda>_. True)"
    by (simp_all add: sample_issue_prelude_def sample_issue_def sample_grant_ext_def)
  show ?thesis using 2 7 8 assms(2,3) by (simp add: issue_grant_def 1 3 4 6 9 id Let_def)
qed

theorem grant_registry_refines_witness:
  "timely 0 [OpPrune 0, OpInsert sample_grant sample_entry 0, OpLookup (replicate 16 8) 5, OpMark (replicate 16 8) 0 TerminalExhausted 6] \<and>
   replies registry_apply registry_new [OpPrune 0, OpInsert sample_grant sample_entry 0, OpLookup (replicate 16 8) 5,
       OpMark (replicate 16 8) 0 TerminalExhausted 6] =
     replies spec_apply spec_new [OpPrune 0, OpInsert sample_grant sample_entry 0, OpLookup (replicate 16 8) 5,
       OpMark (replicate 16 8) 0 TerminalExhausted 6]"
  by (intro conjI grant_registry_refines) simp_all


lemma sample_request_valid:
  assumes "pe_identity entry = pe_identity sample_entry" "pe_profile entry = ''p''"
  shows "validate_request sample_grant_ext (sample_record entry) sample_request 5 5 = Inr ()"
    "verify_prelude_pop sample_grant_ext k ''pop'' sample_request = Inr ()"
    "pl_pop_signature sample_request = Some ''pop''" "pop_laws sample_grant_ext"
proof -
  show pl: "pl_pop_signature sample_request = Some ''pop''" by (simp add: sample_request_def)
  have v: "verify_prelude_pop sample_grant_ext k ''pop'' sample_request = Inr ()" for k
    by (simp add: verify_prelude_pop_eq sample_grant_ext_def POP_SIGNATURE_B64_LEN_def prelude_pop_message_def)
  then show "verify_prelude_pop sample_grant_ext k ''pop'' sample_request = Inr ()" .
  show "validate_request sample_grant_ext (sample_record entry) sample_request 5 5 = Inr ()"
    using assms by (simp add: validate_request_def check_grant_binding_def sample_record_def sample_grant_def sample_entry_def pl v
        covers_def covers_profile_def from_secs_def) (simp add: sample_request_def)
  show "pop_laws sample_grant_ext" by (simp add: pop_laws_def sample_grant_ext_def)
qed

theorem grant_request_authorised_witness:
  "validate_request sample_grant_ext (sample_record sample_entry) sample_request 5 5 = Inr () \<and>
   pl_operation_kind sample_request \<in> set (og_operations (gr_grant (sample_record sample_entry)))"
proof -
  note v = sample_request_valid [of sample_entry]
  have "pe_profile sample_entry = ''p''" by (simp add: sample_entry_def)
  from grant_request_authorised [OF v(1) v(3,2,4)] v(1) this show ?thesis by blast
qed

end
