(* ===== verification/Grant_Audit.thy ===== *)
theory Grant_Audit
  imports Grants
begin

text \<open>
  The authoritative audit of a request under a grant (crates/serctl_daemon/src/daemon.rs:
  \<open>OperationContextKey\<close>, \<open>GrantAuditOperation\<close>, \<open>write_frame_until\<close>).

  The audit world is the directory of the ledgers, the quarantine flags the entries share, and the
  blocking workers nobody waits for: a worker whose deadline passes or whose handler is dropped is
  not stopped, and appends its event later or never. A turn gives what an await finds: the clocks,
  the file system and whether the worker was joined.
\<close>

section \<open>Operation contexts\<close>

record operation_context_binding =
  cb_instance_id :: bytes
  cb_grant_id :: bytes
  cb_request_id :: bytes
  cb_profile :: profile_identity
  cb_root_request_hash :: bytes

definition length_prefixed :: "string \<Rightarrow> bytes" where
  "length_prefixed value = be64 (word_of_nat (length value)) @ as_bytes value"

definition operation_context_preimage ::
  "operation_context_binding \<Rightarrow> string \<Rightarrow> string \<Rightarrow> string \<Rightarrow> bytes" where
  "operation_context_preimage b transport_attempt_id object_id action =
     as_bytes ''serctl/operation-context/hmac-sha256/v1'' @ [0] @ cb_instance_id b @ cb_grant_id b @
     cb_request_id b @ pi_profile_id (cb_profile b) @ be64 (pi_generation (cb_profile b)) @
     cb_root_request_hash b @
     concat (map length_prefixed [transport_attempt_id, object_id, action])"

definition derive_operation_context ::
  "audit_ext \<Rightarrow> bytes \<Rightarrow> operation_context_binding \<Rightarrow> string \<Rightarrow> string \<Rightarrow> string \<Rightarrow> operation_context_id res" where
  "derive_operation_context X key b transport_attempt_id object_id action =
     and_then (ok_or (ax_hmac X key (operation_context_preimage b transport_attempt_id object_id action))
       ''initialize operation context HMAC'') (\<lambda>mac.
     operation_context_id_parse (ax_hex_encode X mac))"

section \<open>The audit of one request\<close>

definition AUDIT_STATE_PENDING :: nat where "AUDIT_STATE_PENDING = 0"
definition AUDIT_STATE_FINALIZING :: nat where "AUDIT_STATE_FINALIZING = 1"
definition AUDIT_STATE_COMPLETE :: nat where "AUDIT_STATE_COMPLETE = 2"
definition AUDIT_STATE_FAILED :: nat where "AUDIT_STATE_FAILED = 3"

lemmas audit_states =
  AUDIT_STATE_PENDING_def AUDIT_STATE_FINALIZING_def AUDIT_STATE_COMPLETE_def AUDIT_STATE_FAILED_def

record grant_audit =
  ga_ledger :: audit_ledger
  ga_quarantined :: nat
  ga_profile :: profile_identity
  ga_request_id :: bytes
  ga_operation_kind :: string
  ga_policy_digest :: string
  ga_intent_digest :: string
  ga_instance_id :: bytes
  ga_grant_id :: bytes
  ga_deadline :: instant
  ga_state :: nat

record audit_terminal =
  at_decision :: audit_decision
  at_reason_code :: string
  at_result_material :: bytes

record audit_world =
  aw_dir :: dir_state
  aw_flags :: "bool list"
  aw_workers :: "(audit_ledger \<times> audit_event) list"

datatype worker_end = WorkerJoined | WorkerLate

record audit_turn =
  tu_now :: instant
  tu_wall :: u64
  tu_env :: unix_env
  tu_end :: worker_end

definition grant_audit_new ::
  "audit_ext \<Rightarrow> grant_record \<Rightarrow> v6_prelude \<Rightarrow> instant \<Rightarrow> bytes \<Rightarrow> grant_audit" where
  "grant_audit_new X r p deadline instance_id =
     \<lparr>ga_ledger = pe_audit (gr_entry r), ga_quarantined = pe_quarantined (gr_entry r),
      ga_profile = pe_identity (gr_entry r), ga_request_id = pl_request_id p,
      ga_operation_kind = pl_operation_kind p, ga_policy_digest = policy_digest X r,
      ga_intent_digest = ax_hex_encode X (pl_root_request_hash p), ga_instance_id = instance_id,
      ga_grant_id = og_grant_id (gr_grant r), ga_deadline = deadline, ga_state = AUDIT_STATE_PENDING\<rparr>"

definition audit_context_id ::
  "audit_ext \<Rightarrow> bytes \<Rightarrow> grant_audit \<Rightarrow> string \<Rightarrow> string \<Rightarrow> string \<Rightarrow> operation_context_id res" where
  "audit_context_id X key op transport_attempt_id object_id action =
     and_then (ok_or (ax_hex_decode X (ga_intent_digest op)) ''decode retained root request commitment'') (\<lambda>hash.
     ensure (length hash = 32) ''retained root request commitment length changed'' (
     derive_operation_context X key
       \<lparr>cb_instance_id = ga_instance_id op, cb_grant_id = ga_grant_id op, cb_request_id = ga_request_id op,
        cb_profile = ga_profile op, cb_root_request_hash = hash\<rparr>
       transport_attempt_id object_id action))"

definition grant_audit_event ::
  "audit_ext \<Rightarrow> u64 \<Rightarrow> grant_audit \<Rightarrow> audit_phase \<Rightarrow> audit_decision \<Rightarrow> string \<Rightarrow> string option \<Rightarrow> audit_event" where
  "grant_audit_event X wall op phase decision reason_code result_digest =
     \<lparr>ae_profile_id = ax_hex_encode X (pi_profile_id (ga_profile op)),
      ae_profile_generation = pi_generation (ga_profile op), ae_request_id = ga_request_id op,
      ae_at_unix_ms = wall, ae_operation_kind = ga_operation_kind op, ae_phase = phase,
      ae_decision = decision, ae_policy_digest = ga_policy_digest op,
      ae_intent_digest = ga_intent_digest op, ae_result_digest = result_digest,
      ae_reason_code = reason_code\<rparr>"

definition audit_append ::
  "audit_ext \<Rightarrow> audit_turn \<Rightarrow> grant_audit \<Rightarrow> audit_event \<Rightarrow> (audit_world, unit) action" where
  "audit_append X t op event w =
     (if \<not> ga_deadline op > tu_now t then (w, Inl ''authoritative audit persistence deadline expired'')
      else case tu_end t of
        WorkerJoined \<Rightarrow>
          (case append_event X (tu_env t) (ga_ledger op) event (aw_dir w) of
             (ds, r) \<Rightarrow> (w\<lparr>aw_dir := ds\<rparr>, and_then r (\<lambda>_. Inr ())))
      | WorkerLate \<Rightarrow>
          (w\<lparr>aw_workers := aw_workers w @ [(ga_ledger op, event)]\<rparr>,
           Inl ''authoritative audit persistence exceeded its deadline''))"

definition quarantine :: "nat \<Rightarrow> audit_world \<Rightarrow> audit_world" where
  "quarantine flag w = w\<lparr>aw_flags := (aw_flags w)[flag := True]\<rparr>"

definition record_intent :: "audit_ext \<Rightarrow> audit_turn \<Rightarrow> grant_audit \<Rightarrow> (audit_world, unit) action" where
  "record_intent X t op w =
     (case audit_append X t op
        (grant_audit_event X (tu_wall t) op PhaseIntent DecisionPending ''intent.recorded'' None) w of
        (w, Inl e) \<Rightarrow> (quarantine (ga_quarantined op) w, Inl e)
      | (w, Inr _) \<Rightarrow> (w, Inr ()))"

fun decision_text :: "audit_decision \<Rightarrow> string" where
  "decision_text DecisionAllowed = ''allowed''"
| "decision_text DecisionDenied = ''denied''"
| "decision_text DecisionSucceeded = ''succeeded''"
| "decision_text DecisionFailed = ''failed''"
| "decision_text DecisionUnknown = ''unknown''"
| "decision_text DecisionPending = ''pending''"

definition outcome_digest :: "audit_ext \<Rightarrow> grant_audit \<Rightarrow> audit_terminal \<Rightarrow> string" where
  "outcome_digest X op terminal =
     ax_hex_encode X (ax_sha256 X
       (as_bytes ''serctl/audit/grant-result/v1'' @ [0] @ as_bytes (ga_intent_digest op) @
        as_bytes (decision_text (at_decision terminal)) @ as_bytes (at_reason_code terminal) @
        be64 (word_of_nat (length (at_result_material terminal))) @ at_result_material terminal))"

definition outcome_event :: "audit_ext \<Rightarrow> u64 \<Rightarrow> grant_audit \<Rightarrow> audit_terminal \<Rightarrow> audit_event" where
  "outcome_event X wall op terminal =
     grant_audit_event X wall op PhaseOutcome (at_decision terminal) (at_reason_code terminal)
       (Some (outcome_digest X op terminal))"

definition record_outcome ::
  "audit_ext \<Rightarrow> audit_turn \<Rightarrow> audit_terminal \<Rightarrow> (grant_audit \<times> audit_world, unit) action" where
  "record_outcome X t terminal = (\<lambda>(op, w).
     if ga_state op = AUDIT_STATE_PENDING then
       let op = op\<lparr>ga_state := AUDIT_STATE_FINALIZING\<rparr> in
       (case audit_append X t op (outcome_event X (tu_wall t) op terminal) w of
          (w, Inr _) \<Rightarrow> ((op\<lparr>ga_state := AUDIT_STATE_COMPLETE\<rparr>, w), Inr ())
        | (w, Inl e) \<Rightarrow> ((op\<lparr>ga_state := AUDIT_STATE_FAILED\<rparr>, quarantine (ga_quarantined op) w), Inl e))
     else if ga_state op = AUDIT_STATE_COMPLETE then ((op, w), Inr ())
     else if ga_state op = AUDIT_STATE_FAILED
     then ((op, w), Inl ''authoritative audit outcome persistence failed'')
     else ((op, w), Inl ''authoritative audit outcome is already being finalized''))"

text \<open>The future of \<open>record_outcome\<close> is dropped while it waits for its worker: the shutdown branch of
  \<open>write_frame_or_shutdown\<close> does that.\<close>

definition interrupt_outcome ::
  "audit_ext \<Rightarrow> audit_turn \<Rightarrow> audit_terminal \<Rightarrow> grant_audit \<times> audit_world \<Rightarrow> grant_audit \<times> audit_world" where
  "interrupt_outcome X t terminal = (\<lambda>(op, w).
     if ga_state op = AUDIT_STATE_PENDING \<and> ga_deadline op > tu_now t then
       (op\<lparr>ga_state := AUDIT_STATE_FINALIZING\<rparr>,
        w\<lparr>aw_workers := aw_workers w @
          [(ga_ledger op, outcome_event X (tu_wall t) op terminal)]\<rparr>)
     else (op, w))"

definition text_contains :: "string \<Rightarrow> string \<Rightarrow> bool" where
  "text_contains s needle \<longleftrightarrow> list_ex (\<lambda>i. starts_with (drop i s) needle) [0..<Suc (length s)]"

definition terminal_of :: "audit_decision \<Rightarrow> string \<Rightarrow> bytes \<Rightarrow> audit_terminal" where
  "terminal_of decision reason material =
     \<lparr>at_decision = decision, at_reason_code = reason, at_result_material = material\<rparr>"

definition succeeded :: "bytes \<Rightarrow> audit_terminal" where
  "succeeded = terminal_of DecisionSucceeded ''dispatch.succeeded''"

definition outcome_unknown :: audit_terminal where
  "outcome_unknown = terminal_of DecisionUnknown ''dispatch.outcome_unknown'' []"

definition terminal_for_frame :: "string \<Rightarrow> ipc_frame \<Rightarrow> audit_terminal option" where
  "terminal_for_frame kind frame =
     (case frame of
        ErrorFrame msg \<Rightarrow>
          let normalized = to_ascii_lowercase msg in
          if text_contains normalized ''outcome unknown'' \<or> text_contains normalized ''outcome is unknown'' \<or>
             text_contains normalized ''may have reached remote''
          then Some outcome_unknown else Some (terminal_of DecisionFailed ''dispatch.failed'' [])
      | ExecExit code _ _ \<Rightarrow>
          if kind = ''ssh.exec'' then
            Some (case code of
                    None \<Rightarrow> outcome_unknown
                  | Some c \<Rightarrow> if c = 0 then succeeded (be32 0)
                              else terminal_of DecisionFailed ''dispatch.remote_failure'' (be32 c))
          else None
      | StatusInfo _ \<Rightarrow> if kind = ''daemon.status'' then Some (succeeded []) else None
      | ConnectionIdentityInfo _ \<Rightarrow> if kind = ''ssh.connection-identity'' then Some (succeeded []) else None
      | DirList _ _ _ _ \<Rightarrow> if kind = ''sftp.list'' then Some (succeeded []) else None
      | CreateDirAccepted _ _ \<Rightarrow> if kind = ''sftp.write'' then Some (succeeded []) else None
      | TransferStatusInfo _ \<Rightarrow> if kind = ''transfer.status'' then Some (succeeded []) else None
      | TransferCancelAccepted _ \<Rightarrow> if kind = ''transfer.cancel'' then Some (succeeded []) else None
      | ManagedTunnelOpened _ \<Rightarrow>
          if kind = ''forward.local/open'' \<or> kind = ''forward.remote/open'' \<or> kind = ''forward.dynamic/open''
          then Some (succeeded []) else None
      | ManagedTunnelStatusInfo _ \<Rightarrow> if kind = ''forward.status'' then Some (succeeded []) else None
      | TransferDone n \<Rightarrow> if kind = ''transfer.write'' then Some (succeeded (be64 n)) else None
      | TransferProgress progress \<Rightarrow>
          if kind = ''transfer.read'' \<and> tp_stage progress = StCompleted
          then Some (succeeded (be64 (tp_confirmed_bytes progress))) else None
      | ManagedTunnelTerminal status \<Rightarrow>
          if kind = ''forward.cancel'' \<and> tn_stage status = TunClosed then Some (succeeded [])
          else if kind = ''forward.cancel'' \<and> tn_stage status = TunUnknown then Some outcome_unknown
          else None
      | _ \<Rightarrow> None)"

definition audit_failure_frame :: ipc_frame where
  "audit_failure_frame = ErrorFrame
     ''operation outcome is unknown because authoritative audit persistence failed; profile quarantined''"

definition before_terminal_frame ::
  "audit_ext \<Rightarrow> audit_turn \<Rightarrow> ipc_frame \<Rightarrow> grant_audit \<times> audit_world \<Rightarrow> (grant_audit \<times> audit_world) \<times> ipc_frame option" where
  "before_terminal_frame X t frame s =
     (case terminal_for_frame (ga_operation_kind (fst s)) frame of
        None \<Rightarrow> (s, None)
      | Some terminal \<Rightarrow>
          (case record_outcome X t terminal s of
             (s, Inr _) \<Rightarrow> (s, None)
           | (s, Inl _) \<Rightarrow> (s, Some audit_failure_frame)))"

definition record_denied ::
  "audit_ext \<Rightarrow> audit_turn \<Rightarrow> string \<Rightarrow> (grant_audit \<times> audit_world, unit) action" where
  "record_denied X t reason_code = record_outcome X t (terminal_of DecisionDenied reason_code [])"

definition finalize_unknown_if_pending ::
  "audit_ext \<Rightarrow> audit_turn \<Rightarrow> (grant_audit \<times> audit_world, unit) action" where
  "finalize_unknown_if_pending X t = (\<lambda>(op, w).
     if ga_state op = AUDIT_STATE_PENDING
     then record_outcome X t (terminal_of DecisionUnknown ''dispatch.no_terminal_result'' []) (op, w)
     else if ga_state op = AUDIT_STATE_COMPLETE then ((op, w), Inr ())
     else if ga_state op = AUDIT_STATE_FAILED
     then ((op, w), Inl ''authoritative audit outcome persistence failed'')
     else if ga_state op = AUDIT_STATE_FINALIZING
     then ((op\<lparr>ga_state := AUDIT_STATE_FAILED\<rparr>, quarantine (ga_quarantined op) w),
           Inl ''authoritative audit outcome finalization was interrupted'')
     else ((op, w), Inl ''authoritative audit state is invalid''))"

definition operation_allowed_while_quarantined :: "string \<Rightarrow> bool" where
  "operation_allowed_while_quarantined kind \<longleftrightarrow>
     kind \<in> {''daemon.status'', ''ssh.connection-identity'', ''sftp.list'', ''transfer.read'', ''transfer.status''} \<or>
     starts_with kind ''audit.''"

text \<open>A worker nobody waits for runs.\<close>

definition run_worker :: "audit_ext \<Rightarrow> unix_env \<Rightarrow> nat \<Rightarrow> audit_world \<Rightarrow> audit_world" where
  "run_worker X E i w =
     (case aw_workers w ! i of
        (L, event) \<Rightarrow>
          w\<lparr>aw_dir := fst (append_event X E L event (aw_dir w)),
            aw_workers := take i (aw_workers w) @ drop (Suc i) (aw_workers w)\<rparr>)"

section \<open>Writing a response\<close>

definition MAX_SHELL_FRAME :: nat where "MAX_SHELL_FRAME = 128 * 1024"
definition MAX_RESPONSE_FRAME :: nat where "MAX_RESPONSE_FRAME = 16 * 1024 * 1024"

definition response_frame_limit :: "ipc_frame \<Rightarrow> nat" where
  "response_frame_limit frame =
     (case frame of
        ShellOut _ \<Rightarrow> MAX_SHELL_FRAME | ShellClosed \<Rightarrow> MAX_SHELL_FRAME
      | Ack \<Rightarrow> MAX_CONTROL_FRAME | TransferAck _ _ \<Rightarrow> MAX_CONTROL_FRAME | TransferDone _ \<Rightarrow> MAX_CONTROL_FRAME
      | TransferDigest _ _ \<Rightarrow> MAX_CONTROL_FRAME | TransferProgress _ \<Rightarrow> MAX_CONTROL_FRAME
      | TransferStatusInfo _ \<Rightarrow> MAX_CONTROL_FRAME | TransferCancelAccepted _ \<Rightarrow> MAX_CONTROL_FRAME
      | StatusInfo _ \<Rightarrow> MAX_CONTROL_FRAME | TunnelReady _ \<Rightarrow> MAX_CONTROL_FRAME | TunnelClosed \<Rightarrow> MAX_CONTROL_FRAME
      | ManagedTunnelOpened _ \<Rightarrow> MAX_CONTROL_FRAME | ManagedTunnelStatusInfo _ \<Rightarrow> MAX_CONTROL_FRAME
      | ManagedTunnelTerminal _ \<Rightarrow> MAX_CONTROL_FRAME | ConnectionIdentityInfo _ \<Rightarrow> MAX_CONTROL_FRAME
      | ErrorFrame _ \<Rightarrow> MAX_CONTROL_FRAME
      | _ \<Rightarrow> MAX_RESPONSE_FRAME)"

section \<open>Ledgers that share a directory\<close>

text \<open>What a client relies on of a set of logs in one store: an append to one log loses no entry of
  any log, and a successful one adds its entry. \<open>ok\<close> says which stores, environments and logs the
  laws are about.\<close>

locale durable_log =
  fixes ok :: "'s \<Rightarrow> bool" and env :: "'v \<Rightarrow> bool" and member :: "'l \<Rightarrow> bool"
    and logged :: "'l \<Rightarrow> 'e \<Rightarrow> 's \<Rightarrow> bool" and put :: "'v \<Rightarrow> 'l \<Rightarrow> 'e \<Rightarrow> 's \<Rightarrow> 's \<times> 'c res"
  assumes ok_put: "ok s \<Longrightarrow> env v \<Longrightarrow> member l \<Longrightarrow> put v l e s = (s', r) \<Longrightarrow> ok s'"
    and put_keeps: "ok s \<Longrightarrow> env v \<Longrightarrow> member l \<Longrightarrow> member l' \<Longrightarrow> logged l' e' s \<Longrightarrow> put v l e s = (s', r) \<Longrightarrow> logged l' e' s'"
    and put_logs: "ok s \<Longrightarrow> env v \<Longrightarrow> member l \<Longrightarrow> put v l e s = (s', Inr c) \<Longrightarrow> logged l e s'"
begin

text \<open>What an observer may rely on while others append.\<close>

definition grows :: "'s \<Rightarrow> 's \<Rightarrow> bool" where
  "grows s s' \<longleftrightarrow> (\<forall>l e. member l \<longrightarrow> logged l e s \<longrightarrow> logged l e s')"

lemma grows_refl: "grows s s"
  by (simp add: grows_def)

lemma grows_trans: "grows s s' \<Longrightarrow> grows s' s'' \<Longrightarrow> grows s s''"
  by (simp add: grows_def)

lemma put_grows: "ok s \<Longrightarrow> env v \<Longrightarrow> member l \<Longrightarrow> put v l e s = (s', r) \<Longrightarrow> ok s' \<and> grows s s'"
  using ok_put put_keeps unfolding grows_def by blast

end

text \<open>Distinct names have distinct files.\<close>

definition no_links :: "dir_state \<Rightarrow> bool" where
  "no_links ds \<longleftrightarrow> wf_dir ds \<and> (\<forall>n n' h. ds_entries ds n = Some h \<longrightarrow> ds_entries ds n' = Some h \<longrightarrow> n = n')"

text \<open>The names \<open>with_protected_key\<close> gives to the files of a ledger.\<close>

definition ledger_in :: "string \<Rightarrow> audit_ledger \<Rightarrow> bool" where
  "ledger_in directory L \<longleftrightarrow> length (al_profile_id L) = 16 \<and>
     (\<exists>stem. al_log_path L = directory @ ''/audit-'' @ stem @ ''.jsonl'' \<and>
             al_checkpoint_path L = directory @ ''/audit-'' @ stem @ ''.checkpoint.json'')"

lemma ledger_in_names:
  assumes "ledger_in d L" "ledger_in d L'"
  shows "al_log_path L \<noteq> al_checkpoint_path L'"
proof
  assume "al_log_path L = al_checkpoint_path L'"
  then have "last (al_log_path L) = last (al_checkpoint_path L')" by simp
  with assms show False by (auto simp: ledger_in_def)
qed

lemma same_data_no_links: "same_data ds ds' \<Longrightarrow> no_links ds' = no_links ds"
  by (simp add: no_links_def same_data_wf) (simp add: same_data_def)

lemma append_event_effect:
  assumes "append_event X E L e ds = (ds', r)"
  shows "\<exists>ds1. same_data ds ds1 \<and> (ds' = ds1 \<or>
    (\<exists>h v t. ds_entries ds (al_log_path L) = Some h \<and> verify_log X L (in_bytes (ds_inodes ds h)) = Inr v \<and>
      (ds' = append_bytes ds1 h t \<or>
       (\<exists>cj. ue_replace E (append_bytes ds1 h t) (al_checkpoint_path L) 0x180 cj = Inr ds'))))"
proof -
  have eff: ?thesis if h: "ds_entries ds (al_log_path L) = Some h"
    and al: "append_locked X E L h e (set_mode ds h 0x180) = (ds', r)" for h
  proof -
    have b: "in_bytes (ds_inodes (set_mode ds h 0x180) h) = in_bytes (ds_inodes ds h)" by simp
    show ?thesis
      using append_locked_appended [OF al] h same_data_trans [OF same_data_set_mode]
      unfolding appended_def b by blast
  qed
  show ?thesis
  proof (cases r)
    case (Inl err)
    from append_event_Inl [OF assms [unfolded Inl]] eff [unfolded Inl] show ?thesis by blast
  next
    case (Inr c)
    from assms [unfolded Inr] show ?thesis by (rule append_event_eq_Inr) (rule eff [unfolded Inr])
  qed
qed

lemma replace_no_links:
  assumes "no_links ds" "env_ok E" "ue_replace E ds path m bs = Inr ds'"
  shows "no_links ds'"
proof -
  have wf: "wf_dir ds" using assms(1) by (simp add: no_links_def)
  note r = env_okD [OF assms(2,3) wf]
  have "n = n'" if "ds_entries ds' n = Some h" "ds_entries ds' n' = Some h" for n n' h
    using that r(3) [of n] r(3) [of n'] r(5) [of n] r(5) [of n'] assms(1) unfolding no_links_def
    by (cases "n = path"; cases "n' = path") (simp, simp, simp, metis)
  with r(1) show ?thesis by (simp add: no_links_def)
qed

lemma file_bytes_append:
  assumes "no_links ds" "ds_entries ds p = Some h"
  shows "file_bytes (append_bytes ds h t) n =
    (if n = p then Some (in_bytes (ds_inodes ds h) @ t) else file_bytes ds n)"
  using assms by (cases "ds_entries ds n") (auto simp: file_bytes_def no_links_def append_bytes_def)

lemma append_event_frame:
  assumes nl: "no_links ds" and E: "env_ok E" and app: "append_event X E L e ds = (ds', r)"
    and p: "al_log_path L \<noteq> al_checkpoint_path L"
  shows "no_links ds'"
    "n \<noteq> al_log_path L \<Longrightarrow> n \<noteq> al_checkpoint_path L \<Longrightarrow> file_bytes ds' n = file_bytes ds n"
    "file_bytes ds (al_log_path L) = Some bs \<Longrightarrow>
       \<exists>t. file_bytes ds' (al_log_path L) = Some (bs @ t) \<and> prefix (log_events X bs) (log_events X (bs @ t))"
proof -
  from append_event_effect [OF app] obtain ds1 where s: "same_data ds ds1" and
    alt: "ds' = ds1 \<or>
    (\<exists>h v t. ds_entries ds (al_log_path L) = Some h \<and> verify_log X L (in_bytes (ds_inodes ds h)) = Inr v \<and>
      (ds' = append_bytes ds1 h t \<or>
       (\<exists>cj. ue_replace E (append_bytes ds1 h t) (al_checkpoint_path L) 0x180 cj = Inr ds')))" by blast
  have n1: "no_links ds1" using nl s by (simp add: same_data_no_links)
  have "no_links ds' \<and>
    (n \<noteq> al_log_path L \<longrightarrow> n \<noteq> al_checkpoint_path L \<longrightarrow> file_bytes ds' n = file_bytes ds n) \<and>
    (file_bytes ds (al_log_path L) = Some bs \<longrightarrow>
       (\<exists>t. file_bytes ds' (al_log_path L) = Some (bs @ t) \<and> prefix (log_events X bs) (log_events X (bs @ t))))"
    using alt
  proof (elim disjE exE conjE)
    assume "ds' = ds1"
    then show ?thesis using n1 s by (auto simp: same_data_bytes intro!: exI [of _ "[]"])
  next
    fix h v t assume h: "ds_entries ds (al_log_path L) = Some h"
      and v: "verify_log X L (in_bytes (ds_inodes ds h)) = Inr v"
    let ?ds2 = "append_bytes ds1 h t"
    have h1: "ds_entries ds1 (al_log_path L) = Some h" using h s by (simp add: same_data_def)
    have b: "in_bytes (ds_inodes ds1 h) = in_bytes (ds_inodes ds h)" using s by (simp add: same_data_def)
    have n2: "no_links ?ds2" using n1 by (simp add: no_links_def)
    have f2: "file_bytes ?ds2 k = (if k = al_log_path L then Some (in_bytes (ds_inodes ds h) @ t) else file_bytes ds k)" for k
      using file_bytes_append [OF n1 h1] b same_data_bytes [OF s] by simp
    have pre: "prefix (log_events X (in_bytes (ds_inodes ds h))) (log_events X (in_bytes (ds_inodes ds h) @ t))"
      using split_inclusive_verified [OF v] by (simp add: log_events_def)
    have bs: "file_bytes ds (al_log_path L) = Some (in_bytes (ds_inodes ds h))" using h by (simp add: file_bytes_def)
    {
      assume "ds' = ?ds2"
      with n2 f2 pre bs show ?thesis by auto
    next
      fix cj assume rep: "ue_replace E ?ds2 (al_checkpoint_path L) 0x180 cj = Inr ds'"
      have wf: "wf_dir ?ds2" using n2 by (simp add: no_links_def)
      have f: "file_bytes ds' k = file_bytes ?ds2 k" if "k \<noteq> al_checkpoint_path L" for k
        using env_okD(4) [OF E rep wf that] by (simp add: file_bytes_lookup)
      from replace_no_links [OF n2 E rep] f f2 pre bs p show ?thesis by auto
    }
  qed
  then show "no_links ds'"
    "n \<noteq> al_log_path L \<Longrightarrow> n \<noteq> al_checkpoint_path L \<Longrightarrow> file_bytes ds' n = file_bytes ds n"
    "file_bytes ds (al_log_path L) = Some bs \<Longrightarrow>
       \<exists>t. file_bytes ds' (al_log_path L) = Some (bs @ t) \<and> prefix (log_events X bs) (log_events X (bs @ t))"
    by blast+
qed

definition logged :: "audit_ext \<Rightarrow> audit_ledger \<Rightarrow> audit_event \<Rightarrow> dir_state \<Rightarrow> bool" where
  "logged X L e ds \<longleftrightarrow> (\<exists>bs. file_bytes ds (al_log_path L) = Some bs \<and> e \<in> set (log_events X bs))"

lemma append_event_logs:
  assumes "audit_laws X" "env_ok E" "no_links ds" "ledger_in d L" "append_event X E L e ds = (ds', Inr c)"
  shows "logged X L e ds'"
proof -
  have ok: "ledger_ok L ds"
    using assms(3,4) ledger_in_names [OF assms(4,4)] unfolding ledger_ok_def no_links_def ledger_in_def
    by (metis not_None_eq)
  from assms(5) obtain h where e: "event_ok X L e" and h: "ds_entries ds (al_log_path L) = Some h"
    "openable E (ds_inodes ds h) True" and al: "append_locked X E L h e (set_mode ds h 0x180) = (ds', Inr c)"
    by (rule append_event_eq_Inr)
  let ?d = "set_mode ds h 0x180"
  have "ledger_ok L ?d" using ok ledger_ok_same [OF same_data_set_mode] by simp
  from h have o: "ds_entries ?d (al_log_path L) = Some h" "openable E (ds_inodes ?d h) False"
    "in_mode (ds_inodes ?d h) = 0x180"
    using assms(2) by (simp_all add: openable_def env_ok_def)
  from agree_append(1) [OF assms(1,2) \<open>ledger_ok L ?d\<close> o e al]
  show ?thesis by (auto simp: logged_def agree_def file_bytes_def)
qed

interpretation ledgers: durable_log "\<lambda>ds. audit_laws X \<and> no_links ds" env_ok "ledger_in d" "logged X" "append_event X"
  for X d
proof
  fix s s' v l e r
  assume "audit_laws X \<and> no_links s" "env_ok v" "ledger_in d l" "append_event X v l e s = (s', r)"
  then show "audit_laws X \<and> no_links s'"
    using append_event_frame(1) [of s v X l e s' r] ledger_in_names [of d l l] by blast
next
  fix s s' v l l' e e' r
  assume a: "audit_laws X \<and> no_links s" "env_ok v" "ledger_in d l" "ledger_in d l'" "logged X l' e' s"
    "append_event X v l e s = (s', r)"
  from a(5) obtain bs where bs: "file_bytes s (al_log_path l') = Some bs" "e' \<in> set (log_events X bs)"
    by (auto simp: logged_def)
  note f = append_event_frame [OF conjunct2 [OF a(1)] a(2,6) ledger_in_names [OF a(3,3)]]
  show "logged X l' e' s'"
  proof (cases "al_log_path l' = al_log_path l")
    case True
    with f(3) bs show ?thesis unfolding logged_def by (metis set_mono_prefix subsetD)
  next
    case False
    with f(2) [of "al_log_path l'"] ledger_in_names [OF a(4,3)] bs show ?thesis by (auto simp: logged_def)
  qed
next
  fix s s' v l e c
  assume "audit_laws X \<and> no_links s" "env_ok v" "ledger_in d l" "append_event X v l e s = (s', Inr c)"
  then show "logged X l e s'" using append_event_logs by blast
qed

section \<open>The audit world grows\<close>

definition world_ok :: "audit_ext \<Rightarrow> string \<Rightarrow> audit_world \<Rightarrow> bool" where
  "world_ok X d w \<longleftrightarrow>
     audit_laws X \<and> no_links (aw_dir w) \<and> list_all (\<lambda>(L, _). ledger_in d L) (aw_workers w)"

definition world_le :: "audit_ext \<Rightarrow> string \<Rightarrow> audit_world \<Rightarrow> audit_world \<Rightarrow> bool" where
  "world_le X d w w' \<longleftrightarrow>
     ledgers.grows d X (aw_dir w) (aw_dir w') \<and> length (aw_flags w) \<le> length (aw_flags w') \<and>
     (\<forall>i < length (aw_flags w). aw_flags w ! i \<longrightarrow> aw_flags w' ! i)"

lemma world_le_refl [simp]: "world_le X d w w"
  by (simp add: world_le_def ledgers.grows_refl)

lemma world_le_trans: "world_le X d w w' \<Longrightarrow> world_le X d w' w'' \<Longrightarrow> world_le X d w w''"
  by (auto simp: world_le_def intro: ledgers.grows_trans)

lemma world_leD:
  "world_le X d w w' \<Longrightarrow> ledger_in d L \<Longrightarrow> logged X L e (aw_dir w) \<Longrightarrow> logged X L e (aw_dir w')"
  "world_le X d w w' \<Longrightarrow> i < length (aw_flags w) \<Longrightarrow> i < length (aw_flags w')"
  "world_le X d w w' \<Longrightarrow> i < length (aw_flags w) \<Longrightarrow> aw_flags w ! i \<Longrightarrow> aw_flags w' ! i"
  by (auto simp: world_le_def ledgers.grows_def)

lemma quarantine_simps [simp]:
  "aw_dir (quarantine i w) = aw_dir w" "aw_workers (quarantine i w) = aw_workers w"
  "length (aw_flags (quarantine i w)) = length (aw_flags w)"
  "i < length (aw_flags w) \<Longrightarrow> aw_flags (quarantine i w) ! i"
  by (simp_all add: quarantine_def)

lemma quarantine_world: "world_ok X d w \<Longrightarrow> world_ok X d (quarantine i w)" "world_le X d w (quarantine i w)"
  by (cases "i < length (aw_flags w)";
      auto simp: world_ok_def world_le_def ledgers.grows_refl quarantine_def nth_list_update list_update_beyond)+

lemma audit_append_world:
  assumes "world_ok X d w" "env_ok (tu_env t)" "ledger_in d (ga_ledger op)" "audit_append X t op e w = (w', r)"
  shows "world_ok X d w'" "world_le X d w w'" "aw_flags w' = aw_flags w"
    "r = Inr u \<Longrightarrow> logged X (ga_ledger op) e (aw_dir w')"
proof -
  have "world_ok X d w' \<and> world_le X d w w' \<and> aw_flags w' = aw_flags w \<and>
    (r = Inr u \<longrightarrow> logged X (ga_ledger op) e (aw_dir w'))"
  proof (cases "ga_deadline op > tu_now t \<and> tu_end t = WorkerJoined")
    case True
    obtain ds r' where a: "append_event X (tu_env t) (ga_ledger op) e (aw_dir w) = (ds, r')" by fastforce
    have ok: "audit_laws X \<and> no_links (aw_dir w)" using assms(1) by (simp add: world_ok_def)
    note g = ledgers.put_grows [OF ok assms(2,3) a] and l = ledgers.put_logs [OF ok assms(2,3)]
    from True a assms(4) have w': "w' = w\<lparr>aw_dir := ds\<rparr>" and r: "r = and_then r' (\<lambda>_. Inr ())"
      by (simp_all add: audit_append_def)
    have "logged X (ga_ledger op) e ds" if "r = Inr u"
      using r that a l [of e ds] by (cases r') auto
    with g assms(1) w' show ?thesis by (auto simp: world_ok_def world_le_def)
  next
    case False
    with assms show ?thesis
      by (cases "tu_end t") (auto simp: audit_append_def world_ok_def world_le_def ledgers.grows_refl split: if_splits)
  qed
  then show "world_ok X d w'" "world_le X d w w'" "aw_flags w' = aw_flags w"
    "r = Inr u \<Longrightarrow> logged X (ga_ledger op) e (aw_dir w')" by blast+
qed

definition intent_event :: "audit_ext \<Rightarrow> u64 \<Rightarrow> grant_audit \<Rightarrow> audit_event" where
  "intent_event X wall op = grant_audit_event X wall op PhaseIntent DecisionPending ''intent.recorded'' None"

lemma record_intent_world:
  assumes "world_ok X d w" "env_ok (tu_env t)" "ledger_in d (ga_ledger op)" "record_intent X t op w = (w', r)"
  shows "world_ok X d w'" "world_le X d w w'"
    "r = Inr u \<Longrightarrow> logged X (ga_ledger op) (intent_event X (tu_wall t) op) (aw_dir w')"
    "r = Inl err \<Longrightarrow> ga_quarantined op < length (aw_flags w) \<Longrightarrow> aw_flags w' ! ga_quarantined op"
proof -
  obtain w1 r1 where a: "audit_append X t op (intent_event X (tu_wall t) op) w = (w1, r1)" by fastforce
  note l = audit_append_world [OF assms(1-3) a]
  have c: "r1 = Inl x \<and> w' = quarantine (ga_quarantined op) w1 \<and> r = Inl x \<or> r1 = Inr () \<and> w' = w1 \<and> r = Inr ()"
    if "r1 = Inl x \<or> r1 = Inr ()" for x
    using assms(4) a that by (auto simp: record_intent_def intent_event_def)
  show "world_ok X d w'" "world_le X d w w'"
    "r = Inr u \<Longrightarrow> logged X (ga_ledger op) (intent_event X (tu_wall t) op) (aw_dir w')"
    "r = Inl err \<Longrightarrow> ga_quarantined op < length (aw_flags w) \<Longrightarrow> aw_flags w' ! ga_quarantined op"
    using c l(1,2,3) l(4) [of u] quarantine_world(1) [OF l(1)] quarantine_world(2) [of X d w1] world_le_trans [OF l(2)]
    by (cases r1; force)+
qed

lemma outcome_event_state [simp]: "outcome_event X wall (op\<lparr>ga_state := s\<rparr>) terminal = outcome_event X wall op terminal"
  by (simp add: outcome_event_def outcome_digest_def grant_audit_event_def)

lemma record_outcome_world:
  assumes "world_ok X d w" "env_ok (tu_env t)" "ledger_in d (ga_ledger op)"
    "record_outcome X t terminal (op, w) = ((op', w'), r)"
  shows "world_ok X d w'" "world_le X d w w'" "op' = op\<lparr>ga_state := ga_state op'\<rparr>"
    "ga_state op \<noteq> AUDIT_STATE_PENDING \<Longrightarrow> op' = op \<and> w' = w \<and> (r = Inr () \<longleftrightarrow> ga_state op = AUDIT_STATE_COMPLETE)"
    "ga_state op = AUDIT_STATE_PENDING \<Longrightarrow>
       r = Inr () \<and> ga_state op' = AUDIT_STATE_COMPLETE \<and>
         logged X (ga_ledger op) (outcome_event X (tu_wall t) op terminal) (aw_dir w') \<or>
       (\<exists>e. r = Inl e) \<and> ga_state op' = AUDIT_STATE_FAILED \<and>
         (ga_quarantined op < length (aw_flags w) \<longrightarrow> aw_flags w' ! ga_quarantined op)"
proof -
  have "world_ok X d w' \<and> world_le X d w w' \<and> op' = op\<lparr>ga_state := ga_state op'\<rparr> \<and>
    (ga_state op \<noteq> AUDIT_STATE_PENDING \<longrightarrow> op' = op \<and> w' = w \<and> (r = Inr () \<longleftrightarrow> ga_state op = AUDIT_STATE_COMPLETE)) \<and>
    (ga_state op = AUDIT_STATE_PENDING \<longrightarrow>
       r = Inr () \<and> ga_state op' = AUDIT_STATE_COMPLETE \<and>
         logged X (ga_ledger op) (outcome_event X (tu_wall t) op terminal) (aw_dir w') \<or>
       (\<exists>e. r = Inl e) \<and> ga_state op' = AUDIT_STATE_FAILED \<and>
         (ga_quarantined op < length (aw_flags w) \<longrightarrow> aw_flags w' ! ga_quarantined op))"
  proof (cases "ga_state op = AUDIT_STATE_PENDING")
    case False
    with assms show ?thesis by (auto simp: record_outcome_def split: if_splits)
  next
    case True
    let ?op = "op\<lparr>ga_state := AUDIT_STATE_FINALIZING\<rparr>"
    obtain w1 r1 where a: "audit_append X t ?op (outcome_event X (tu_wall t) op terminal) w = (w1, r1)" by fastforce
    have led: "ledger_in d (ga_ledger ?op)" using assms(3) by simp
    note l = audit_append_world [OF assms(1,2) led a]
    show ?thesis
    proof (cases r1)
      case (Inl e)
      with assms(4) True a have "op' = op\<lparr>ga_state := AUDIT_STATE_FAILED\<rparr>" "w' = quarantine (ga_quarantined op) w1" "r = Inl e"
        by (simp_all add: record_outcome_def Let_def)
      with True l(1-3) quarantine_world(1) [OF l(1)] world_le_trans [OF l(2) quarantine_world(2)] show ?thesis
        by (simp add: audit_states)
    next
      case (Inr u)
      with assms(4) True a have "op' = op\<lparr>ga_state := AUDIT_STATE_COMPLETE\<rparr>" "w' = w1" "r = Inr ()"
        by (simp_all add: record_outcome_def Let_def)
      with True l(1,2) l(4) [OF Inr] show ?thesis by simp
    qed
  qed
  then show "world_ok X d w'" "world_le X d w w'" "op' = op\<lparr>ga_state := ga_state op'\<rparr>"
    "ga_state op \<noteq> AUDIT_STATE_PENDING \<Longrightarrow> op' = op \<and> w' = w \<and> (r = Inr () \<longleftrightarrow> ga_state op = AUDIT_STATE_COMPLETE)"
    "ga_state op = AUDIT_STATE_PENDING \<Longrightarrow>
       r = Inr () \<and> ga_state op' = AUDIT_STATE_COMPLETE \<and>
         logged X (ga_ledger op) (outcome_event X (tu_wall t) op terminal) (aw_dir w') \<or>
       (\<exists>e. r = Inl e) \<and> ga_state op' = AUDIT_STATE_FAILED \<and>
         (ga_quarantined op < length (aw_flags w) \<longrightarrow> aw_flags w' ! ga_quarantined op)"
    by blast+
qed

lemma interrupt_outcome_world:
  assumes "world_ok X d w" "ledger_in d (ga_ledger op)" "interrupt_outcome X t terminal (op, w) = (op', w')"
  shows "world_ok X d w'" "world_le X d w w'" "op' = op\<lparr>ga_state := ga_state op'\<rparr>"
    "op' = op \<or> ga_state op = AUDIT_STATE_PENDING \<and> ga_state op' = AUDIT_STATE_FINALIZING"
  using assms by (auto simp: interrupt_outcome_def world_ok_def world_le_def ledgers.grows_refl split: if_splits)

lemma run_worker_world:
  assumes "world_ok X d w" "env_ok E" "i < length (aw_workers w)"
  shows "world_ok X d (run_worker X E i w)" "world_le X d w (run_worker X E i w)"
proof -
  obtain L e where i: "aw_workers w ! i = (L, e)" by fastforce
  obtain ds r where a: "append_event X E L e (aw_dir w) = (ds, r)" by fastforce
  have "aw_workers w ! i \<in> set (aw_workers w)" using assms(3) by simp
  then have L: "ledger_in d L" using assms(1) i by (fastforce simp: world_ok_def list_all_iff)
  have ok: "audit_laws X \<and> no_links (aw_dir w)" using assms(1) by (simp add: world_ok_def)
  from ledgers.put_grows [OF ok assms(2) L a] assms(1) i a
  show "world_ok X d (run_worker X E i w)" "world_le X d w (run_worker X E i w)"
    by (auto simp: run_worker_def world_ok_def world_le_def list_all_iff dest: in_set_takeD in_set_dropD)
qed

end
