(* ===== verification/Broker.thy ===== *)
theory Broker
  imports Grant_Audit
begin

text \<open>
  The connection handlers of the global daemon (crates/serctl_daemon/src/daemon.rs:
  \<open>handle_global_conn\<close>, \<open>unlock_profile\<close>, the reaper of \<open>run_global\<close>).

  Handlers run concurrently over the credential pool, the grant registry and the audit world. A
  handler is at a point of its code; a step runs it to its next access to shared state or its next
  await. The steps of all handlers, of the reaper and of audit workers nobody waits for interleave
  freely. What a dispatched operation does on the remote host is not modelled: it writes frames in
  any number and order, may be interrupted while writing and ends. The vault's answer to an unlock
  is a parameter of its step; the diagnostic log of grants and the responses to refused requests
  have no effect on the state and are left out.
\<close>

section \<open>Checks before dispatch\<close>

definition validate_grant_frame_binding :: "ipc_frame \<Rightarrow> unit res" where
  "validate_grant_frame_binding frame =
     (case frame of
        Download d \<Rightarrow>
          ensure (dl_local_target_sha256 d \<noteq> None)
            ''grant-authorized downloads require a local-target commitment'' (Inr ())
      | TransferCancel _ context_id \<Rightarrow>
          ensure (context_id \<noteq> None)
            ''grant-authorized transfer cancellation requires an operation context id'' (Inr ())
      | _ \<Rightarrow> Inr ())"

definition validate_connection_identity_binding :: "ipc_frame \<Rightarrow> profile_identity \<Rightarrow> unit res" where
  "validate_connection_identity_binding frame ident =
     (case frame of
        ConnectionIdentity profile_id generation \<Rightarrow>
          ensure (profile_id = pi_profile_id ident \<and> generation = pi_generation ident)
            ''SSH connection identity request does not match the authorized profile generation'' (Inr ())
      | _ \<Rightarrow> Inr ())"

text \<open>From the resolved entry to the deadline of the authorization, read at \<open>now\<close> and \<open>wall\<close>.\<close>

definition authorize ::
  "grant_ext \<Rightarrow> grant_record option \<Rightarrow> profile_entry \<Rightarrow> v6_prelude \<Rightarrow> ipc_frame \<Rightarrow> instant \<Rightarrow> u64 \<Rightarrow> instant res" where
  "authorize G rec entry p frame now wall =
     and_then (ok_or (case rec of Some r \<Rightarrow> Some (og_profile_name (gr_grant r)) | None \<Rightarrow> pl_profile_name p)
       ''profile name is required for this operation'') (\<lambda>expected_profile.
     ensure (pe_profile entry = expected_profile) ''profile name does not match its profile id'' (
     and_then (validate_connection_identity_binding frame (pe_identity entry)) (\<lambda>_.
     and_then (case rec of
         Some _ \<Rightarrow> Inr ()
       | None \<Rightarrow>
           and_then (ok_or (pl_profile_proof p) ''profile call proof is required'') (\<lambda>proof_text.
           verify_profile_prelude_proof (gx_chan G) (pe_call_key entry) proof_text p)) (\<lambda>_.
     and_then (case rec of
         None \<Rightarrow> Inr (pe_expires_at entry)
       | Some r \<Rightarrow>
           and_then (ok_or (checked_sub (pl_requested_deadline_unix_ms p) wall)
             ''requested deadline has expired'') (\<lambda>remaining_ms.
           and_then (ok_or (instant_checked_add now (from_millis (unat remaining_ms)))
             ''requested deadline exceeds the monotonic clock range'') (\<lambda>requested_deadline.
           Inr (min (gr_expires_at r) requested_deadline)))) (\<lambda>deadline.
     ensure (deadline > now) ''profile authorization lease expired'' (Inr deadline))))))"

section \<open>Handlers\<close>

text \<open>The points of \<open>handle_global_conn\<close> for an operation. \<open>authority\<close> is the record of the grant and its
  audit, or nothing for a request with a profile proof.\<close>

type_synonym authority = "(nat \<times> grant_audit) option"

datatype (plugins only: code) handler_point =
  AtStart
| AtLive nat
| AtIntent nat profile_entry instant
| AtQuarantine authority profile_entry instant
| AtDeny grant_audit string string
| AtLoad nat grant_audit profile_entry instant
| AtSpend nat grant_audit profile_entry instant u64
| AtLast nat grant_audit profile_entry instant
| AtExhausted nat grant_audit
| AtDispatch authority profile_entry instant
| AtFinal authority "unit res"
| AtEnd authority "unit res"
| AtRefused string

text \<open>\<open>hd_passed\<close> records the frames of the dispatched operation that were let through to the client.\<close>

record handler =
  hd_prelude :: v6_prelude
  hd_frame :: ipc_frame
  hd_point :: handler_point
  hd_passed :: "ipc_frame list"

record shared =
  sh_pool :: profile_pool
  sh_grants :: grant_registry
  sh_world :: audit_world

datatype (plugins only: code) dispatch_event =
  DispatchWrites ipc_frame
| DispatchInterrupted ipc_frame
| DispatchEnds "unit res"

text \<open>What a step of a handler finds: readings of the clocks, the turn of an audit await, whether the
  weak exchange fails spuriously, and what the dispatched operation does next.\<close>

record step_input =
  si_now :: instant
  si_check :: instant
  si_wall :: u64
  si_turn :: audit_turn
  si_spurious :: bool
  si_dispatch :: dispatch_event

definition grant_lookup_error :: "grant_lookup \<Rightarrow> string" where
  "grant_lookup_error l =
     (case l of
        GrantExhausted \<Rightarrow> ''grant budget exhausted''
      | GrantExpired \<Rightarrow> ''grant has expired''
      | _ \<Rightarrow> UNKNOWN_GRANT_ERROR)"

definition start_step :: "grant_ext \<Rightarrow> step_input \<Rightarrow> v6_prelude \<Rightarrow> ipc_frame \<Rightarrow> shared \<Rightarrow> shared \<times> handler_point" where
  "start_step G inp p frame s =
     (case pl_grant_id p of
        Some grant_id \<Rightarrow>
          (case registry_lookup grant_id (si_now inp) (sh_grants s) of
             (grants, l) \<Rightarrow>
               (s\<lparr>sh_grants := grants\<rparr>,
                case l of GrantLive a \<Rightarrow> AtLive a | _ \<Rightarrow> AtRefused (grant_lookup_error l)))
      | None \<Rightarrow>
          (case pl_profile_id p of
             None \<Rightarrow> (s, AtRefused ''profile id is required for this operation'')
           | Some profile_id \<Rightarrow>
               (case entry_for profile_id (si_now inp) (sh_pool s) of
                  (pool, None) \<Rightarrow> (s\<lparr>sh_pool := pool\<rparr>, AtRefused ''profile is locked: unlock it first'')
                | (pool, Some entry) \<Rightarrow>
                    (s\<lparr>sh_pool := pool\<rparr>,
                     case authorize G None entry p frame (si_check inp) (si_wall inp) of
                       Inl e \<Rightarrow> AtRefused e
                     | Inr deadline \<Rightarrow> AtQuarantine None entry deadline))))"

definition live_step ::
  "grant_ext \<Rightarrow> step_input \<Rightarrow> nat \<Rightarrow> v6_prelude \<Rightarrow> ipc_frame \<Rightarrow> shared \<Rightarrow> shared \<times> handler_point" where
  "live_step G inp a p frame s =
     (let r = gs_records (sh_grants s) ! a; check_now = si_check inp in
      case validate_request G r p check_now (si_wall inp) of
        Inl e \<Rightarrow>
          (if record_is_expired r check_now
           then s\<lparr>sh_grants := mark_terminal_if_same (the (pl_grant_id p)) a TerminalExpired check_now (sh_grants s)\<rparr>
           else s, AtRefused e)
      | Inr _ \<Rightarrow>
          (s, case and_then (validate_grant_frame_binding frame) (\<lambda>_.
                     authorize G (Some r) (gr_entry r) p frame (si_now inp) (si_wall inp)) of
                Inl e \<Rightarrow> AtRefused e
              | Inr deadline \<Rightarrow> AtIntent a (gr_entry r) deadline))"

definition intent_step ::
  "audit_ext \<Rightarrow> bytes \<Rightarrow> step_input \<Rightarrow> nat \<Rightarrow> profile_entry \<Rightarrow> instant \<Rightarrow> v6_prelude \<Rightarrow> shared \<Rightarrow> shared \<times> handler_point" where
  "intent_step X instance_id inp a entry deadline p s =
     (let op = grant_audit_new X (gs_records (sh_grants s) ! a) p deadline instance_id in
      case record_intent X (si_turn inp) op (sh_world s) of
        (w, Inl e) \<Rightarrow> (s\<lparr>sh_world := w\<rparr>, AtRefused e)
      | (w, Inr _) \<Rightarrow> (s\<lparr>sh_world := w\<rparr>, AtQuarantine (Some (a, op)) entry deadline))"

definition quarantine_step ::
  "authority \<Rightarrow> profile_entry \<Rightarrow> instant \<Rightarrow> v6_prelude \<Rightarrow> shared \<Rightarrow> handler_point" where
  "quarantine_step auth entry deadline p s =
     (let msg = ''profile is quarantined; mutation operations are disabled'' in
      if aw_flags (sh_world s) ! pe_quarantined entry \<and>
         \<not> operation_allowed_while_quarantined (pl_operation_kind p)
      then (case auth of
              Some (_, op) \<Rightarrow> AtDeny op ''quarantine.mutation_denied'' msg
            | None \<Rightarrow> AtRefused msg)
      else (case auth of
              Some (a, op) \<Rightarrow> AtLoad a op entry deadline
            | None \<Rightarrow> AtDispatch None entry deadline))"

definition deny_step ::
  "audit_ext \<Rightarrow> step_input \<Rightarrow> grant_audit \<Rightarrow> string \<Rightarrow> string \<Rightarrow> shared \<Rightarrow> shared \<times> handler_point" where
  "deny_step X inp op reason msg s =
     (case record_denied X (si_turn inp) reason (op, sh_world s) of
        ((_, w), Inr _) \<Rightarrow> (s\<lparr>sh_world := w\<rparr>, AtRefused msg)
      | ((_, w), Inl _) \<Rightarrow>
          (s\<lparr>sh_world := w\<rparr>,
           AtRefused ''profile audit is unavailable; operation denied and outcome unknown''))"

definition set_remaining :: "nat \<Rightarrow> u64 \<Rightarrow> grant_registry \<Rightarrow> grant_registry" where
  "set_remaining a n st = st\<lparr>gs_records := (gs_records st)[a := (gs_records st ! a)\<lparr>gr_remaining := n\<rparr>]\<rparr>"

definition spend_step ::
  "step_input \<Rightarrow> nat \<Rightarrow> grant_audit \<Rightarrow> profile_entry \<Rightarrow> instant \<Rightarrow> u64 \<Rightarrow> shared \<Rightarrow> shared \<times> handler_point" where
  "spend_step inp a op entry deadline expected s =
     (case spend_turn_of expected (si_spurious inp) (gr_remaining (gs_records (sh_grants s) ! a)) of
        SpendExhausted \<Rightarrow> (s, AtExhausted a op)
      | SpendDone n exhausted_after_spend \<Rightarrow>
          (s\<lparr>sh_grants := set_remaining a n (sh_grants s)\<rparr>,
           if exhausted_after_spend then AtLast a op entry deadline
           else AtDispatch (Some (a, op)) entry deadline)
      | SpendRetry current \<Rightarrow> (s, AtSpend a op entry deadline current))"

definition dispatch_step ::
  "audit_ext \<Rightarrow> step_input \<Rightarrow> authority \<Rightarrow> profile_entry \<Rightarrow> instant \<Rightarrow> handler \<Rightarrow> shared \<Rightarrow> shared \<times> handler" where
  "dispatch_step X inp auth entry deadline h s =
     (case si_dispatch inp of
        DispatchEnds r \<Rightarrow> (s, h\<lparr>hd_point := AtFinal auth r\<rparr>)
      | DispatchWrites f \<Rightarrow>
          (case auth of
             None \<Rightarrow> (s, h\<lparr>hd_passed := hd_passed h @ [f]\<rparr>)
           | Some (a, op) \<Rightarrow>
               (case before_terminal_frame X (si_turn inp) f (op, sh_world s) of
                  ((op, w), replacement) \<Rightarrow>
                    (s\<lparr>sh_world := w\<rparr>,
                     h\<lparr>hd_point := AtDispatch (Some (a, op)) entry deadline,
                       hd_passed := (if replacement = None then hd_passed h @ [f] else hd_passed h)\<rparr>)))
      | DispatchInterrupted f \<Rightarrow>
          (case auth of
             None \<Rightarrow> (s, h)
           | Some (a, op) \<Rightarrow>
               (case terminal_for_frame (ga_operation_kind op) f of
                  None \<Rightarrow> (s, h)
                | Some terminal \<Rightarrow>
                    (case interrupt_outcome X (si_turn inp) terminal (op, sh_world s) of
                       (op, w) \<Rightarrow>
                         (s\<lparr>sh_world := w\<rparr>, h\<lparr>hd_point := AtDispatch (Some (a, op)) entry deadline\<rparr>)))))"

definition final_step :: "audit_ext \<Rightarrow> step_input \<Rightarrow> authority \<Rightarrow> unit res \<Rightarrow> shared \<Rightarrow> shared \<times> handler_point" where
  "final_step X inp auth outcome s =
     (case auth of
        None \<Rightarrow> (s, AtEnd None outcome)
      | Some (a, op) \<Rightarrow>
          (case finalize_unknown_if_pending X (si_turn inp) (op, sh_world s) of
             ((op, w), r) \<Rightarrow> (s\<lparr>sh_world := w\<rparr>, AtEnd (Some (a, op)) (and_then r (\<lambda>_. outcome)))))"

definition handler_step ::
  "audit_ext \<Rightarrow> grant_ext \<Rightarrow> bytes \<Rightarrow> step_input \<Rightarrow> handler \<Rightarrow> shared \<Rightarrow> shared \<times> handler" where
  "handler_step X G instance_id inp h s =
     (let p = hd_prelude h; frame = hd_frame h; at = apsnd (\<lambda>pt. h\<lparr>hd_point := pt\<rparr>) in
      case hd_point h of
        AtStart \<Rightarrow> at (start_step G inp p frame s)
      | AtLive a \<Rightarrow> at (live_step G inp a p frame s)
      | AtIntent a entry deadline \<Rightarrow> at (intent_step X instance_id inp a entry deadline p s)
      | AtQuarantine auth entry deadline \<Rightarrow> at (s, quarantine_step auth entry deadline p s)
      | AtDeny op reason msg \<Rightarrow> at (deny_step X inp op reason msg s)
      | AtLoad a op entry deadline \<Rightarrow>
          at (s, AtSpend a op entry deadline (gr_remaining (gs_records (sh_grants s) ! a)))
      | AtSpend a op entry deadline expected \<Rightarrow> at (spend_step inp a op entry deadline expected s)
      | AtLast a op entry deadline \<Rightarrow>
          at (s\<lparr>sh_grants := mark_terminal_if_same (the (pl_grant_id p)) a TerminalExhausted (si_now inp) (sh_grants s)\<rparr>,
              AtDispatch (Some (a, op)) entry deadline)
      | AtExhausted a op \<Rightarrow>
          at (s\<lparr>sh_grants := mark_terminal_if_same (the (pl_grant_id p)) a TerminalExhausted (si_now inp) (sh_grants s)\<rparr>,
              AtDeny op ''grant.budget_exhausted'' ''grant budget exhausted'')
      | AtDispatch auth entry deadline \<Rightarrow> dispatch_step X inp auth entry deadline h s
      | AtFinal auth outcome \<Rightarrow> at (final_step X inp auth outcome s)
      | AtEnd auth outcome \<Rightarrow> (s, h)
      | AtRefused msg \<Rightarrow> (s, h))"

section \<open>The daemon\<close>

definition CREDENTIAL_LEASE_TTL :: duration where "CREDENTIAL_LEASE_TTL = from_secs (30 * 60)"

record daemon =
  dm_shared :: shared
  dm_handlers :: "handler list"

text \<open>The end of \<open>unlock_profile\<close>, given the identity and the call key the vault authenticated: the
  ledger must verify as complete before the entry is published.\<close>

definition unlock_profile ::
  "audit_ext \<Rightarrow> unix_env \<Rightarrow> string \<Rightarrow> string \<Rightarrow> profile_identity \<Rightarrow> bytes \<Rightarrow> instant \<Rightarrow> (shared, unit) action" where
  "unlock_profile X E run_dir name ident call_key unlocked_at s =
     (case act_bind (from_profile_call_key X E (run_dir @ ''/audit'') (pi_profile_id ident) (pi_generation ident) call_key)
             (\<lambda>L. act_bind (verify_complete X E L None) (\<lambda>_. act_result (Inr L))) (aw_dir (sh_world s)) of
        (ds, Inl e) \<Rightarrow> (s\<lparr>sh_world := (sh_world s)\<lparr>aw_dir := ds\<rparr>\<rparr>, Inl e)
      | (ds, Inr L) \<Rightarrow>
          let w = sh_world s;
              entry = \<lparr>pe_identity = ident, pe_profile = name, pe_call_key = call_key, pe_audit = L,
                       pe_quarantined = length (aw_flags w),
                       pe_expires_at = unlocked_at + CREDENTIAL_LEASE_TTL\<rparr> in
          (s\<lparr>sh_pool := pool_insert (pi_profile_id ident) entry (sh_pool s),
             sh_world := w\<lparr>aw_dir := ds, aw_flags := aw_flags w @ [False]\<rparr>\<rparr>, Inr ()))"

definition reap :: "instant \<Rightarrow> shared \<Rightarrow> shared" where
  "reap now s =
     s\<lparr>sh_pool := pool_prune_expired now (sh_pool s), sh_grants := registry_prune_expired now (sh_grants s)\<rparr>"

definition control_kinds :: "string list" where
  "control_kinds = [''daemon.unlock'', ''daemon.list-profiles'', ''daemon.issue-grant'', ''daemon.shutdown'']"

text \<open>One step of the daemon. A connection arrives with the prelude and the root request the encrypted
  channel accepted: the prelude is valid and commits to the request and its kind.\<close>

inductive daemon_step :: "audit_ext \<Rightarrow> grant_ext \<Rightarrow> bytes \<Rightarrow> string \<Rightarrow> daemon \<Rightarrow> daemon \<Rightarrow> bool"
  for X G instance_id run_dir where
  connect: "validate_prelude p = Inr () \<Longrightarrow> ipc_frame_kind frame = pl_operation_kind p \<Longrightarrow>
    root_request_hash (gx_chan G) frame = Inr (pl_root_request_hash p) \<Longrightarrow>
    pl_operation_kind p \<notin> set control_kinds \<Longrightarrow>
    daemon_step X G instance_id run_dir dm
      (dm\<lparr>dm_handlers := dm_handlers dm @
         [\<lparr>hd_prelude = p, hd_frame = frame, hd_point = AtStart, hd_passed = []\<rparr>]\<rparr>)"
| handle: "i < length (dm_handlers dm) \<Longrightarrow> env_ok (tu_env (si_turn inp)) \<Longrightarrow>
    handler_step X G instance_id inp (dm_handlers dm ! i) (dm_shared dm) = (s, h) \<Longrightarrow>
    daemon_step X G instance_id run_dir dm (dm\<lparr>dm_shared := s, dm_handlers := (dm_handlers dm)[i := h]\<rparr>)"
| issue: "issue_grant G grant_id now wall now' p frame (sh_pool (dm_shared dm), sh_grants (dm_shared dm)) =
      ((pool, grants), r) \<Longrightarrow>
    daemon_step X G instance_id run_dir dm (dm\<lparr>dm_shared := (dm_shared dm)\<lparr>sh_pool := pool, sh_grants := grants\<rparr>\<rparr>)"
| unlock: "length (pi_profile_id ident) = 16 \<Longrightarrow> env_ok E \<Longrightarrow>
    unlock_profile X E run_dir name ident call_key now (dm_shared dm) = (s, r) \<Longrightarrow>
    daemon_step X G instance_id run_dir dm (dm\<lparr>dm_shared := s\<rparr>)"
| reaper: "daemon_step X G instance_id run_dir dm (dm\<lparr>dm_shared := reap now (dm_shared dm)\<rparr>)"
| worker: "i < length (aw_workers (sh_world (dm_shared dm))) \<Longrightarrow> env_ok E \<Longrightarrow>
    daemon_step X G instance_id run_dir dm
      (dm\<lparr>dm_shared := (dm_shared dm)\<lparr>sh_world := run_worker X E i (sh_world (dm_shared dm))\<rparr>\<rparr>)"

definition daemon_start :: "dir_state \<Rightarrow> daemon" where
  "daemon_start ds =
     \<lparr>dm_shared = \<lparr>sh_pool = [], sh_grants = registry_new,
        sh_world = \<lparr>aw_dir = ds, aw_flags = [], aw_workers = []\<rparr>\<rparr>, dm_handlers = []\<rparr>"

abbreviation daemon_run :: "audit_ext \<Rightarrow> grant_ext \<Rightarrow> bytes \<Rightarrow> string \<Rightarrow> daemon \<Rightarrow> daemon \<Rightarrow> bool" where
  "daemon_run X G instance_id run_dir \<equiv> (daemon_step X G instance_id run_dir)\<^sup>*\<^sup>*"

section \<open>The invariant\<close>

definition first_terminal :: "string \<Rightarrow> ipc_frame list \<Rightarrow> audit_terminal option" where
  "first_terminal kind fs = (case List.map_filter (terminal_for_frame kind) fs of [] \<Rightarrow> None | t # _ \<Rightarrow> Some t)"

lemma first_terminal_snoc:
  "first_terminal kind (fs @ [f]) =
     (case first_terminal kind fs of None \<Rightarrow> terminal_for_frame kind f | Some t \<Rightarrow> Some t)"
  by (auto simp: first_terminal_def List.map_filter_def split: list.splits)

lemma first_terminal_Nil [simp]: "first_terminal kind [] = None"
  by (simp add: first_terminal_def List.map_filter_def)

definition entry_ok :: "string \<Rightarrow> audit_world \<Rightarrow> profile_entry \<Rightarrow> bool" where
  "entry_ok d w e \<longleftrightarrow> ledger_in d (pe_audit e) \<and> pe_quarantined e < length (aw_flags w)"

text \<open>The parts of a grant record that never change.\<close>

definition same_grant :: "grant_record \<Rightarrow> grant_record \<Rightarrow> bool" where
  "same_grant r r' \<longleftrightarrow>
     gr_grant r' = gr_grant r \<and> gr_entry r' = gr_entry r \<and> gr_expires_at r' = gr_expires_at r"

definition grants_le :: "grant_registry \<Rightarrow> grant_registry \<Rightarrow> bool" where
  "grants_le st st' \<longleftrightarrow>
     length (gs_records st) \<le> length (gs_records st') \<and>
     (\<forall>a < length (gs_records st). same_grant (gs_records st ! a) (gs_records st' ! a))"

definition shared_le :: "audit_ext \<Rightarrow> string \<Rightarrow> shared \<Rightarrow> shared \<Rightarrow> bool" where
  "shared_le X d s s' \<longleftrightarrow> world_le X d (sh_world s) (sh_world s') \<and> grants_le (sh_grants s) (sh_grants s')"

definition record_ok' :: "string \<Rightarrow> audit_world \<Rightarrow> grant_record \<Rightarrow> bool" where
  "record_ok' d w r \<longleftrightarrow>
     grant_bounded (gr_grant r) \<and> set (og_operations (gr_grant r)) \<subseteq> set GRANTABLE_OPERATION_KINDS \<and>
     entry_ok d w (gr_entry r)"

definition shared_ok :: "audit_ext \<Rightarrow> string \<Rightarrow> shared \<Rightarrow> bool" where
  "shared_ok X d s \<longleftrightarrow>
     world_ok X d (sh_world s) \<and> keys_ok (sh_grants s) \<and>
     (\<forall>(i, e) \<in> set (sh_pool s). entry_ok d (sh_world s) e \<and> pi_profile_id (pe_identity e) = i) \<and>
     (\<forall>r \<in> set (gs_records (sh_grants s)). record_ok' d (sh_world s) r)"

text \<open>The request is authorised by the grant of the record at \<open>a\<close>.\<close>

definition granted :: "grant_ext \<Rightarrow> shared \<Rightarrow> v6_prelude \<Rightarrow> ipc_frame \<Rightarrow> nat \<Rightarrow> profile_entry \<Rightarrow> instant \<Rightarrow> bool" where
  "granted G s p frame a entry deadline \<longleftrightarrow>
     a < length (gs_records (sh_grants s)) \<and>
     (let r = gs_records (sh_grants s) ! a in
      pl_grant_id p = Some (og_grant_id (gr_grant r)) \<and> entry = gr_entry r \<and>
      validate_grant_frame_binding frame = Inr () \<and>
      (\<exists>check now wall. validate_request G r p check wall = Inr () \<and>
         authorize G (Some r) entry p frame now wall = Inr deadline))"

text \<open>Moreover its audit is this request's, and its intent is in the ledger.\<close>

definition intended ::
  "audit_ext \<Rightarrow> grant_ext \<Rightarrow> bytes \<Rightarrow> shared \<Rightarrow> v6_prelude \<Rightarrow> ipc_frame \<Rightarrow> nat \<Rightarrow> grant_audit \<Rightarrow> bool" where
  "intended X G instance_id s p frame a op \<longleftrightarrow>
     (\<exists>entry deadline. granted G s p frame a entry deadline \<and>
        op = (grant_audit_new X (gs_records (sh_grants s) ! a) p deadline instance_id)\<lparr>ga_state := ga_state op\<rparr> \<and>
        (\<exists>wall. logged X (ga_ledger op) (intent_event X wall op) (aw_dir (sh_world s))))"

text \<open>The request is authorised by the call key of an unlocked profile.\<close>

definition direct :: "grant_ext \<Rightarrow> v6_prelude \<Rightarrow> ipc_frame \<Rightarrow> profile_entry \<Rightarrow> instant \<Rightarrow> bool" where
  "direct G p frame entry deadline \<longleftrightarrow>
     pl_grant_id p = None \<and> pl_profile_id p = Some (pi_profile_id (pe_identity entry)) \<and>
     (\<exists>now wall. authorize G None entry p frame now wall = Inr deadline)"

definition proved :: "grant_ext \<Rightarrow> v6_prelude \<Rightarrow> ipc_frame \<Rightarrow> bool" where
  "proved G p frame \<longleftrightarrow> (\<exists>entry deadline. direct G p frame entry deadline)"

definition outcome_logged :: "audit_ext \<Rightarrow> shared \<Rightarrow> grant_audit \<Rightarrow> audit_terminal \<Rightarrow> bool" where
  "outcome_logged X s op t \<longleftrightarrow> (\<exists>wall. logged X (ga_ledger op) (outcome_event X wall op t) (aw_dir (sh_world s)))"

definition answered :: "audit_ext \<Rightarrow> shared \<Rightarrow> grant_audit \<Rightarrow> ipc_frame list \<Rightarrow> bool" where
  "answered X s op fs \<longleftrightarrow> (\<forall>t. first_terminal (ga_operation_kind op) fs = Some t \<longrightarrow> outcome_logged X s op t)"

definition audited :: "audit_ext \<Rightarrow> shared \<Rightarrow> grant_audit \<Rightarrow> ipc_frame list \<Rightarrow> bool" where
  "audited X s op fs \<longleftrightarrow>
     answered X s op fs \<and>
     (ga_state op = AUDIT_STATE_COMPLETE \<longleftrightarrow> first_terminal (ga_operation_kind op) fs \<noteq> None) \<and>
     ga_state op \<le> AUDIT_STATE_FAILED \<and>
     (ga_state op = AUDIT_STATE_FAILED \<longrightarrow> aw_flags (sh_world s) ! ga_quarantined op)"

definition accounted :: "audit_ext \<Rightarrow> shared \<Rightarrow> grant_audit \<Rightarrow> bool" where
  "accounted X s op \<longleftrightarrow> (\<exists>t. outcome_logged X s op t) \<or> aw_flags (sh_world s) ! ga_quarantined op"

definition point_ok ::
  "audit_ext \<Rightarrow> grant_ext \<Rightarrow> bytes \<Rightarrow> shared \<Rightarrow> handler \<Rightarrow> bool" where
  "point_ok X G inst s h \<longleftrightarrow>
     (let p = hd_prelude h; frame = hd_frame h; int = intended X G inst s p frame in
      case hd_point h of
        AtStart \<Rightarrow> hd_passed h = []
      | AtLive a \<Rightarrow> hd_passed h = [] \<and> a < length (gs_records (sh_grants s)) \<and>
          pl_grant_id p = Some (og_grant_id (gr_grant (gs_records (sh_grants s) ! a)))
      | AtIntent a entry deadline \<Rightarrow> hd_passed h = [] \<and> granted G s p frame a entry deadline
      | AtQuarantine (Some (a, op)) entry deadline \<Rightarrow>
          hd_passed h = [] \<and> int a op \<and> ga_state op = AUDIT_STATE_PENDING \<and> entry = gr_entry (gs_records (sh_grants s) ! a)
      | AtQuarantine None entry deadline \<Rightarrow> hd_passed h = [] \<and> direct G p frame entry deadline
      | AtDeny op reason msg \<Rightarrow> hd_passed h = [] \<and> (\<exists>a. int a op)
      | AtLoad a op entry deadline \<Rightarrow> hd_passed h = [] \<and> int a op \<and> ga_state op = AUDIT_STATE_PENDING
      | AtSpend a op entry deadline expected \<Rightarrow> hd_passed h = [] \<and> int a op \<and> ga_state op = AUDIT_STATE_PENDING
      | AtLast a op entry deadline \<Rightarrow> hd_passed h = [] \<and> int a op \<and> ga_state op = AUDIT_STATE_PENDING
      | AtExhausted a op \<Rightarrow> hd_passed h = [] \<and> int a op
      | AtDispatch (Some (a, op)) entry deadline \<Rightarrow>
          int a op \<and> audited X s op (hd_passed h)
      | AtDispatch None entry deadline \<Rightarrow> direct G p frame entry deadline
      | AtFinal (Some (a, op)) r \<Rightarrow>
          int a op \<and> audited X s op (hd_passed h)
      | AtFinal None r \<Rightarrow> proved G p frame
      | AtEnd (Some (a, op)) r \<Rightarrow> int a op \<and> answered X s op (hd_passed h) \<and> accounted X s op
      | AtEnd None r \<Rightarrow> proved G p frame
      | AtRefused msg \<Rightarrow> hd_passed h = [])"

definition spent :: "nat \<Rightarrow> handler \<Rightarrow> bool" where
  "spent a h \<longleftrightarrow>
     (case hd_point h of
        AtLast a' _ _ _ \<Rightarrow> a' = a
      | AtDispatch (Some (a', _)) _ _ \<Rightarrow> a' = a
      | AtFinal (Some (a', _)) _ \<Rightarrow> a' = a
      | AtEnd (Some (a', _)) _ \<Rightarrow> a' = a
      | _ \<Rightarrow> False)"

definition remaining :: "nat \<Rightarrow> shared \<Rightarrow> nat" where
  "remaining a s = unat (gr_remaining (gs_records (sh_grants s) ! a))"

definition daemon_inv :: "audit_ext \<Rightarrow> grant_ext \<Rightarrow> bytes \<Rightarrow> string \<Rightarrow> daemon \<Rightarrow> bool" where
  "daemon_inv X G inst rd dm \<longleftrightarrow>
     shared_ok X (rd @ ''/audit'') (dm_shared dm) \<and>
     (\<forall>h \<in> set (dm_handlers dm). point_ok X G inst (dm_shared dm) h) \<and>
     (\<forall>a < length (gs_records (sh_grants (dm_shared dm))).
        remaining a (dm_shared dm) + length (filter (spent a) (dm_handlers dm)) =
          unat (og_budget (gr_grant (gs_records (sh_grants (dm_shared dm)) ! a))))"

section \<open>What never changes\<close>

lemma same_grant_refl [simp]: "same_grant r r"
  by (simp add: same_grant_def)

lemma validate_request_same: "same_grant r r' \<Longrightarrow> validate_request G r' p now wall = validate_request G r p now wall"
  by (simp add: validate_request_def same_grant_def Let_def)

lemma authorize_same: "same_grant r r' \<Longrightarrow> authorize G (Some r') entry p frame now wall = authorize G (Some r) entry p frame now wall"
  by (simp add: authorize_def same_grant_def)

lemma grant_audit_new_same: "same_grant r r' \<Longrightarrow> grant_audit_new X r' p deadline i = grant_audit_new X r p deadline i"
  by (simp add: grant_audit_new_def same_grant_def policy_digest_def)

lemma grants_leD:
  "grants_le st st' \<Longrightarrow> a < length (gs_records st) \<Longrightarrow>
     a < length (gs_records st') \<and> same_grant (gs_records st ! a) (gs_records st' ! a)"
  by (auto simp: grants_le_def)

lemma grants_le_records: "gs_records st' = gs_records st \<Longrightarrow> grants_le st st'"
  by (simp add: grants_le_def)

lemma granted_mono:
  assumes "granted G s p frame a entry deadline" "shared_le X d s s'"
  shows "granted G s' p frame a entry deadline"
proof -
  let ?r = "gs_records (sh_grants s) ! a" and ?r' = "gs_records (sh_grants s') ! a"
  have g: "a < length (gs_records (sh_grants s))" using assms(1) by (simp add: granted_def)
  from assms(2) grants_leD [OF _ g] have r: "a < length (gs_records (sh_grants s'))" "same_grant ?r ?r'"
    by (auto simp: shared_le_def)
  with assms(1) show ?thesis
    by (auto simp: granted_def Let_def validate_request_same [OF r(2)] authorize_same [OF r(2)])
      (auto simp: same_grant_def)
qed

lemma granted_same:
  assumes "granted G s p frame a entry deadline" "shared_le X d s s'"
  shows "same_grant (gs_records (sh_grants s) ! a) (gs_records (sh_grants s') ! a)"
  using assms grants_leD by (auto simp: granted_def shared_le_def)

lemma granted_entry:
  assumes "granted G s p frame a entry deadline" "shared_ok X d s"
  shows "entry_ok d (sh_world s) entry"
proof -
  from assms(1) have "gs_records (sh_grants s) ! a \<in> set (gs_records (sh_grants s))"
    and e: "entry = gr_entry (gs_records (sh_grants s) ! a)" by (auto simp: granted_def Let_def)
  then have "record_ok' d (sh_world s) (gs_records (sh_grants s) ! a)" using assms(2) by (simp add: shared_ok_def)
  with e show ?thesis by (simp add: record_ok'_def)
qed

lemma intended_entry:
  assumes "intended X G inst s p frame a op" "shared_ok X d s"
  shows "ledger_in d (ga_ledger op)" "ga_quarantined op < length (aw_flags (sh_world s))"
    "ga_operation_kind op = pl_operation_kind p" "a < length (gs_records (sh_grants s))"
proof -
  from assms(1) obtain entry deadline where g: "granted G s p frame a entry deadline"
    and op: "op = (grant_audit_new X (gs_records (sh_grants s) ! a) p deadline inst)\<lparr>ga_state := ga_state op\<rparr>"
    by (auto simp: intended_def)
  have "entry = gr_entry (gs_records (sh_grants s) ! a)" using g by (simp add: granted_def Let_def)
  with granted_entry [OF g assms(2)] have "entry_ok d (sh_world s) (gr_entry (gs_records (sh_grants s) ! a))" by simp
  then show "ledger_in d (ga_ledger op)" "ga_quarantined op < length (aw_flags (sh_world s))"
    by (subst op, simp add: grant_audit_new_def entry_ok_def)+
  show "ga_operation_kind op = pl_operation_kind p" by (subst op) (simp add: grant_audit_new_def)
  show "a < length (gs_records (sh_grants s))" using g by (simp add: granted_def)
qed

lemma intent_event_state [simp]: "intent_event X wall (op\<lparr>ga_state := n\<rparr>) = intent_event X wall op"
  by (simp add: intent_event_def grant_audit_event_def)

lemma intended_mono:
  assumes "intended X G inst s p frame a op" "shared_le X d s s'" "shared_ok X d s"
  shows "intended X G inst s' p frame a (op\<lparr>ga_state := n\<rparr>)"
proof -
  from assms(1) obtain entry deadline wall where g: "granted G s p frame a entry deadline"
    and op: "op = (grant_audit_new X (gs_records (sh_grants s) ! a) p deadline inst)\<lparr>ga_state := ga_state op\<rparr>"
    and l: "logged X (ga_ledger op) (intent_event X wall op) (aw_dir (sh_world s))"
    by (auto simp: intended_def)
  have "world_le X d (sh_world s) (sh_world s')" using assms(2) by (simp add: shared_le_def)
  then have "logged X (ga_ledger op) (intent_event X wall op) (aw_dir (sh_world s'))"
    using world_leD(1) intended_entry(1) [OF assms(1,3)] l by blast
  then have "logged X (ga_ledger (op\<lparr>ga_state := n\<rparr>)) (intent_event X wall (op\<lparr>ga_state := n\<rparr>)) (aw_dir (sh_world s'))"
    by simp
  moreover have "op\<lparr>ga_state := n\<rparr> =
      (grant_audit_new X (gs_records (sh_grants s') ! a) p deadline inst)\<lparr>ga_state := ga_state (op\<lparr>ga_state := n\<rparr>)\<rparr>"
    by (subst (1) op) (simp add: grant_audit_new_same [OF granted_same [OF g assms(2)]])
  ultimately show ?thesis unfolding intended_def using granted_mono [OF g assms(2)] by blast
qed

lemma outcome_logged_mono:
  assumes "outcome_logged X s op t" "shared_le X d s s'" "ledger_in d (ga_ledger op)"
  shows "outcome_logged X s' (op\<lparr>ga_state := n\<rparr>) t"
  using assms world_leD(1) unfolding outcome_logged_def shared_le_def by simp blast

lemma answered_mono:
  "answered X s op fs \<Longrightarrow> shared_le X d s s' \<Longrightarrow> ledger_in d (ga_ledger op) \<Longrightarrow> answered X s' (op\<lparr>ga_state := n\<rparr>) fs"
  by (auto simp: answered_def intro: outcome_logged_mono)

lemma ga_state_id [simp]: "op\<lparr>ga_state := ga_state op\<rparr> = op"
  by simp

lemma audited_mono:
  assumes "audited X s op fs" "shared_le X d s s'" "ledger_in d (ga_ledger op)"
    "ga_quarantined op < length (aw_flags (sh_world s))"
  shows "audited X s' op fs"
proof -
  have "answered X s' op fs"
    using answered_mono [OF _ assms(2,3), of fs "ga_state op"] assms(1) by (simp add: audited_def)
  with assms world_leD(3) show ?thesis unfolding audited_def shared_le_def by blast
qed

lemma accounted_mono:
  assumes "accounted X s op" "shared_le X d s s'" "ledger_in d (ga_ledger op)"
    "ga_quarantined op < length (aw_flags (sh_world s))"
  shows "accounted X s' op"
proof -
  have "outcome_logged X s' op t" if "outcome_logged X s op t" for t
    using outcome_logged_mono [OF that assms(2,3), of "ga_state op"] by simp
  with assms world_leD(3) show ?thesis unfolding accounted_def shared_le_def by blast
qed

text \<open>A handler that does not move keeps its part of the invariant while others run.\<close>

lemma point_ok_mono:
  assumes "point_ok X G inst s h" "shared_le X d s s'" "shared_ok X d s"
  shows "point_ok X G inst s' h"
proof -
  note e = intended_entry [OF _ assms(3)]
  note gm = granted_mono [OF _ assms(2)]
  have int: "intended X G inst s p frame a op \<Longrightarrow> intended X G inst s' p frame a op" for p frame a op
    using intended_mono [OF _ assms(2,3), of G inst p frame a op "ga_state op"] by simp
  have live: "same_grant (gs_records (sh_grants s) ! a) (gs_records (sh_grants s') ! a) \<and> a < length (gs_records (sh_grants s'))"
    if "a < length (gs_records (sh_grants s))" for a
    using grants_leD [OF _ that] assms(2) by (auto simp: shared_le_def)
  have aud: "audited X s' op fs" if "intended X G inst s p frame a op" "audited X s op fs" for p frame a op fs
    using audited_mono [OF that(2) assms(2)] e(1,2) [OF that(1)] by blast
  have acc: "accounted X s' op \<and> answered X s' op fs"
    if "intended X G inst s p frame a op" "accounted X s op" "answered X s op fs" for p frame a op fs
    using accounted_mono [OF that(2) assms(2)] answered_mono [OF that(3) assms(2), of "ga_state op"] e(1,2) [OF that(1)] by simp
  show ?thesis
  proof (cases "hd_point h")
    case (AtLive a)
    with assms(1) live [of a] show ?thesis by (auto simp: point_ok_def same_grant_def)
  next
    case (AtIntent a entry deadline)
    with assms(1) gm show ?thesis by (simp add: point_ok_def Let_def)
  next
    case (AtQuarantine auth entry deadline)
    with assms(1) int live e(4) show ?thesis
      by (cases auth) (auto simp: point_ok_def Let_def same_grant_def)
  next
    case (AtDeny op reason msg)
    with assms(1) obtain a where "hd_passed h = []" "intended X G inst s (hd_prelude h) (hd_frame h) a op"
      by (auto simp: point_ok_def Let_def)
    with int AtDeny show ?thesis unfolding point_ok_def Let_def by force
  next
    case (AtDispatch auth entry deadline)
    with assms(1) int aud show ?thesis by (cases auth) (auto simp: point_ok_def Let_def)
  next
    case (AtFinal auth r)
    with assms(1) int aud show ?thesis by (cases auth) (auto simp: point_ok_def Let_def)
  next
    case (AtEnd auth r)
    with assms(1) int acc show ?thesis by (cases auth) (auto simp: point_ok_def Let_def)
  qed (use assms(1) int in \<open>auto simp: point_ok_def Let_def\<close>)
qed

section \<open>Every step keeps the invariant\<close>

lemma shared_le_refl [simp]: "shared_le X d s s"
  by (simp add: shared_le_def grants_le_def)

lemma entry_ok_mono: "entry_ok d w e \<Longrightarrow> world_le X d w w' \<Longrightarrow> entry_ok d w' e"
  using world_leD(2) by (auto simp: entry_ok_def)

lemma shared_grants:
  assumes "shared_ok X d s" "keys_ok st" "gs_records st = gs_records (sh_grants s)"
  shows "shared_ok X d (s\<lparr>sh_grants := st\<rparr>)" "shared_le X d s (s\<lparr>sh_grants := st\<rparr>)"
    "remaining a (s\<lparr>sh_grants := st\<rparr>) = remaining a s"
  using assms by (simp_all add: shared_ok_def shared_le_def grants_le_records remaining_def)

lemma shared_world:
  assumes "shared_ok X d s" "world_ok X d w" "world_le X d (sh_world s) w"
  shows "shared_ok X d (s\<lparr>sh_world := w\<rparr>)" "shared_le X d s (s\<lparr>sh_world := w\<rparr>)"
    "remaining a (s\<lparr>sh_world := w\<rparr>) = remaining a s"
proof -
  show "shared_ok X d (s\<lparr>sh_world := w\<rparr>)"
    using assms entry_ok_mono [OF _ assms(3)] by (auto simp: shared_ok_def record_ok'_def)
qed (use assms in \<open>simp_all add: shared_le_def grants_le_def remaining_def\<close>)

lemma shared_pool:
  assumes "shared_ok X d s" "set pool \<subseteq> set (sh_pool s)"
  shows "shared_ok X d (s\<lparr>sh_pool := pool\<rparr>)" "shared_le X d s (s\<lparr>sh_pool := pool\<rparr>)"
    "remaining a (s\<lparr>sh_pool := pool\<rparr>) = remaining a s"
  using assms by (auto simp: shared_ok_def shared_le_def grants_le_def remaining_def)

lemma entry_for_subset: "entry_for i now pool = (pool', e) \<Longrightarrow> set pool' \<subseteq> set pool"
  by (auto simp: entry_for_def Let_def remove_key_def split: option.splits if_splits)

lemma mark_records: "keys_ok st \<Longrightarrow> gs_records (mark_terminal_if_same i a k now st) = gs_records st"
  by (simp add: mark_terminal_if_same_def Let_def prune_locked_eq(1))

definition balanced :: "shared \<Rightarrow> handler \<Rightarrow> shared \<Rightarrow> handler \<Rightarrow> bool" where
  "balanced s h s' h' \<longleftrightarrow>
     length (gs_records (sh_grants s')) = length (gs_records (sh_grants s)) \<and>
     (\<forall>a < length (gs_records (sh_grants s)).
        remaining a s' + of_bool (spent a h') = remaining a s + of_bool (spent a h))"

definition step_ok ::
  "audit_ext \<Rightarrow> grant_ext \<Rightarrow> bytes \<Rightarrow> string \<Rightarrow> shared \<Rightarrow> handler \<Rightarrow> shared \<Rightarrow> handler \<Rightarrow> bool" where
  "step_ok X G inst d s h s' h' \<longleftrightarrow>
     shared_ok X d s' \<and> shared_le X d s s' \<and> point_ok X G inst s' h' \<and> balanced s h s' h' \<and>
     hd_prelude h' = hd_prelude h \<and> hd_frame h' = hd_frame h"

lemma step_okI:
  assumes "shared_ok X d s'" "shared_le X d s s'" "point_ok X G inst s' h'"
    "gs_records (sh_grants s') = gs_records (sh_grants s)" "\<And>a. spent a h' = spent a h"
    "hd_prelude h' = hd_prelude h" "hd_frame h' = hd_frame h"
  shows "step_ok X G inst d s h s' h'"
  using assms by (simp add: step_ok_def balanced_def remaining_def)

lemma start_step_ok:
  assumes s: "shared_ok X d s" and h: "point_ok X G inst s h" "hd_point h = AtStart"
    and st: "start_step G inp (hd_prelude h) (hd_frame h) s = (s', pt)"
  shows "step_ok X G inst d s h s' (h\<lparr>hd_point := pt\<rparr>)"
proof -
  let ?p = "hd_prelude h" and ?f = "hd_frame h"
  have e: "hd_passed h = []" using h by (simp add: point_ok_def Let_def)
  have k: "keys_ok (sh_grants s)" using s by (simp add: shared_ok_def)
  show ?thesis
  proof (cases "pl_grant_id ?p")
    case (Some gid)
    obtain grants l where l: "registry_lookup gid (si_now inp) (sh_grants s) = (grants, l)" by fastforce
    have gk: "keys_ok grants" using lookup_keys_ok [OF k, of gid "si_now inp"] l by simp
    have gr: "gs_records grants = gs_records (sh_grants s)"
      using l prune_locked_eq(1) [OF k] by (auto simp: registry_lookup_def Let_def split: option.splits if_splits)
    have s': "s' = s\<lparr>sh_grants := grants\<rparr>" "pt = (case l of GrantLive a \<Rightarrow> AtLive a | _ \<Rightarrow> AtRefused (grant_lookup_error l))"
      using st Some l by (simp_all add: start_step_def)
    have "point_ok X G inst s' (h\<lparr>hd_point := pt\<rparr>)"
    proof (cases l)
      case (GrantLive a)
      with lookup_eq_live(4,5) [OF k l [unfolded GrantLive]] s' e Some gr show ?thesis
        by (simp add: point_ok_def Let_def)
    qed (use s' e in \<open>simp_all add: point_ok_def Let_def\<close>)
    with shared_grants [OF s gk gr] s' gr h(2) show ?thesis
      by (intro step_okI) (auto simp: spent_def split: grant_lookup.splits)
  next
    case None
    show ?thesis
    proof (cases "pl_profile_id ?p")
      case None': None
      with None st e s h(2) show ?thesis
        by (intro step_okI) (auto simp: start_step_def point_ok_def spent_def Let_def)
    next
      case (Some pid)
      obtain pool r where ef: "entry_for pid (si_now inp) (sh_pool s) = (pool, r)" by fastforce
      note sp = shared_pool [OF s entry_for_subset [OF ef]]
      show ?thesis
      proof (cases r)
        case None'': None
        with None Some ef st e sp h(2) show ?thesis
          by (intro step_okI) (auto simp: start_step_def point_ok_def spent_def Let_def)
      next
        case e': (Some entry)
        have "(pid, entry) \<in> set (sh_pool s)"
          using ef e' by (auto simp: entry_for_Some simp del: map_of_eq_Some_iff dest: map_of_SomeD)
        then have "pi_profile_id (pe_identity entry) = pid" using s by (auto simp: shared_ok_def)
        with None Some have "direct G ?p ?f entry deadline"
          if "authorize G None entry ?p ?f (si_check inp) (si_wall inp) = Inr deadline" for deadline
          using that unfolding direct_def by blast
        with None Some ef e' st e sp h(2) show ?thesis
          by (intro step_okI) (auto simp: start_step_def point_ok_def spent_def Let_def split: sum.splits)
      qed
    qed
  qed
qed

lemma live_step_ok:
  assumes s: "shared_ok X d s" and h: "point_ok X G inst s h" "hd_point h = AtLive a"
    and st: "live_step G inp a (hd_prelude h) (hd_frame h) s = (s', pt)"
  shows "step_ok X G inst d s h s' (h\<lparr>hd_point := pt\<rparr>)"
proof -
  let ?r = "gs_records (sh_grants s) ! a"
  have p: "hd_passed h = []" "a < length (gs_records (sh_grants s))" "pl_grant_id (hd_prelude h) = Some (og_grant_id (gr_grant ?r))"
    using h by (simp_all add: point_ok_def Let_def)
  have k: "keys_ok (sh_grants s)" using s by (simp add: shared_ok_def)
  note m = shared_grants [OF s mark_keys_ok [OF k] mark_records [OF k]]
  show ?thesis
  proof (cases "validate_request G ?r (hd_prelude h) (si_check inp) (si_wall inp)")
    case (Inl e)
    with st p(1) h(2) m s mark_records [OF k] show ?thesis
      by (intro step_okI) (auto simp: live_step_def Let_def point_ok_def spent_def split: if_splits)
  next
    case (Inr u)
    have "point_ok X G inst s (h\<lparr>hd_point := pt\<rparr>)"
    proof (cases pt)
      case (AtIntent a' entry deadline)
      with st Inr have "a' = a" "entry = gr_entry ?r" "validate_grant_frame_binding (hd_frame h) = Inr ()"
        "authorize G (Some ?r) entry (hd_prelude h) (hd_frame h) (si_now inp) (si_wall inp) = Inr deadline"
        by (auto simp: live_step_def Let_def result_simps split: sum.splits)
      with AtIntent Inr p show ?thesis by (auto simp: point_ok_def Let_def granted_def)
    qed (use st Inr p in \<open>auto simp: live_step_def Let_def point_ok_def split: sum.splits\<close>)
    with st Inr s h(2) show ?thesis
      by (intro step_okI) (auto simp: live_step_def Let_def spent_def split: sum.splits)
  qed
qed

lemma intent_step_ok:
  assumes s: "shared_ok X d s" and h: "point_ok X G inst s h" "hd_point h = AtIntent a entry deadline"
    and st: "intent_step X inst inp a entry deadline (hd_prelude h) s = (s', pt)" and E: "env_ok (tu_env (si_turn inp))"
  shows "step_ok X G inst d s h s' (h\<lparr>hd_point := pt\<rparr>)"
proof -
  define op where "op = grant_audit_new X (gs_records (sh_grants s) ! a) (hd_prelude h) deadline inst"
  have g: "hd_passed h = []" "granted G s (hd_prelude h) (hd_frame h) a entry deadline"
    using h by (simp_all add: point_ok_def Let_def)
  obtain w r where r: "record_intent X (si_turn inp) op (sh_world s) = (w, r)" by fastforce
  have "entry = gr_entry (gs_records (sh_grants s) ! a)" using g(2) by (simp add: granted_def Let_def)
  with granted_entry [OF g(2) s] have L: "ledger_in d (ga_ledger op)" by (simp add: op_def grant_audit_new_def entry_ok_def)
  have wk: "world_ok X d (sh_world s)" using s by (simp add: shared_ok_def)
  note rw = record_intent_world [OF wk E L r]
  note sw = shared_world [OF s rw(1,2)]
  have "point_ok X G inst (s\<lparr>sh_world := w\<rparr>) (h\<lparr>hd_point := pt\<rparr>) \<and> s' = s\<lparr>sh_world := w\<rparr> \<and> (\<forall>a. \<not> spent a (h\<lparr>hd_point := pt\<rparr>))"
  proof (cases r)
    case (Inl e)
    with st r g(1) show ?thesis by (auto simp: intent_step_def op_def point_ok_def Let_def spent_def)
  next
    case (Inr u)
    then have pt: "pt = AtQuarantine (Some (a, op)) entry deadline" "s' = s\<lparr>sh_world := w\<rparr>"
      using st r by (auto simp: intent_step_def op_def Let_def)
    have st: "op = (grant_audit_new X (gs_records (sh_grants (s\<lparr>sh_world := w\<rparr>)) ! a) (hd_prelude h) deadline inst)
        \<lparr>ga_state := ga_state op\<rparr>" by (simp add: op_def)
    have "intended X G inst (s\<lparr>sh_world := w\<rparr>) (hd_prelude h) (hd_frame h) a op"
      unfolding intended_def using granted_mono [OF g(2) sw(2)] st rw(3) [OF Inr] by auto
    moreover have "ga_state op = AUDIT_STATE_PENDING" by (simp add: op_def grant_audit_new_def)
    ultimately show ?thesis using pt g by (simp add: point_ok_def Let_def spent_def granted_def)
  qed
  with sw h(2) show ?thesis by (intro step_okI) (auto simp: spent_def)
qed

lemma quarantine_step_ok:
  assumes "shared_ok X d s" "point_ok X G inst s h" "hd_point h = AtQuarantine auth entry deadline"
  shows "step_ok X G inst d s h s (h\<lparr>hd_point := quarantine_step auth entry deadline (hd_prelude h) s\<rparr>)"
  using assms by (cases auth) (intro step_okI; auto simp: quarantine_step_def point_ok_def spent_def Let_def
      audited_def answered_def audit_states)+

lemma deny_step_ok:
  assumes s: "shared_ok X d s" and h: "point_ok X G inst s h" "hd_point h = AtDeny op reason msg"
    and st: "deny_step X inp op reason msg s = (s', pt)" and E: "env_ok (tu_env (si_turn inp))"
  shows "step_ok X G inst d s h s' (h\<lparr>hd_point := pt\<rparr>)"
proof -
  from h obtain a where p: "hd_passed h = []" "intended X G inst s (hd_prelude h) (hd_frame h) a op"
    by (auto simp: point_ok_def Let_def)
  obtain op' w r where r: "record_outcome X (si_turn inp) (terminal_of DecisionDenied reason []) (op, sh_world s) = ((op', w), r)"
    by (metis surj_pair)
  have wk: "world_ok X d (sh_world s)" using s by (simp add: shared_ok_def)
  note rw = record_outcome_world [OF wk E intended_entry(1) [OF p(2) s] r]
  have "s' = s\<lparr>sh_world := w\<rparr>" "\<exists>m. pt = AtRefused m"
    using st r by (auto simp: deny_step_def record_denied_def split: sum.splits)
  with shared_world [OF s rw(1,2)] p(1) h(2) show ?thesis
    by (intro step_okI) (auto simp: point_ok_def Let_def spent_def)
qed

lemma set_remaining_shared:
  assumes s: "shared_ok X d s" and a: "a < length (gs_records (sh_grants s))"
  shows "shared_ok X d (s\<lparr>sh_grants := set_remaining a n (sh_grants s)\<rparr>)"
    "shared_le X d s (s\<lparr>sh_grants := set_remaining a n (sh_grants s)\<rparr>)"
    "remaining b (s\<lparr>sh_grants := set_remaining a n (sh_grants s)\<rparr>) = (if b = a then unat n else remaining b s)"
proof -
  let ?r = "(gs_records (sh_grants s) ! a)\<lparr>gr_remaining := n\<rparr>"
  have rec: "record_ok' d (sh_world s) ?r"
    using s a nth_mem [OF a] by (simp add: shared_ok_def record_ok'_def)
  have m: "x \<in> set ((gs_records (sh_grants s))[a := ?r]) \<Longrightarrow> x = ?r \<or> x \<in> set (gs_records (sh_grants s))" for x
    by (meson insertE set_update_subset_insert subsetD)
  have "keys_ok (set_remaining a n (sh_grants s))"
    using s a by (auto simp: shared_ok_def keys_ok_def set_remaining_def nth_list_update)
  with s rec m show "shared_ok X d (s\<lparr>sh_grants := set_remaining a n (sh_grants s)\<rparr>)"
    by (auto simp: shared_ok_def set_remaining_def)
  show "shared_le X d s (s\<lparr>sh_grants := set_remaining a n (sh_grants s)\<rparr>)"
    using a by (auto simp: shared_le_def grants_le_def set_remaining_def nth_list_update same_grant_def)
  show "remaining b (s\<lparr>sh_grants := set_remaining a n (sh_grants s)\<rparr>) = (if b = a then unat n else remaining b s)"
    using a by (simp add: remaining_def set_remaining_def)
qed

lemma spend_step_ok:
  assumes s: "shared_ok X d s" and h: "point_ok X G inst s h" "hd_point h = AtSpend a op entry deadline expected"
    and st: "spend_step inp a op entry deadline expected s = (s', pt)"
  shows "step_ok X G inst d s h s' (h\<lparr>hd_point := pt\<rparr>)"
proof -
  have p: "hd_passed h = []" "intended X G inst s (hd_prelude h) (hd_frame h) a op" "ga_state op = AUDIT_STATE_PENDING"
    using h by (auto simp: point_ok_def Let_def)
  have a: "a < length (gs_records (sh_grants s))" by (rule intended_entry(4) [OF p(2) s])
  show ?thesis
  proof (cases "expected \<noteq> 0 \<and> gr_remaining (gs_records (sh_grants s) ! a) = expected \<and> \<not> si_spurious inp")
    case False
    with st have "s' = s" "pt = AtExhausted a op \<or> (\<exists>c. pt = AtSpend a op entry deadline c)"
      by (auto simp: spend_step_def spend_turn_of_def split: if_splits)
    with s p h(2) show ?thesis by (intro step_okI) (auto simp: point_ok_def Let_def spent_def)
  next
    case True
    note sr = set_remaining_shared [OF s a, where n = "expected - 1"]
    have s': "s' = s\<lparr>sh_grants := set_remaining a (expected - 1) (sh_grants s)\<rparr>"
      and pt: "pt = AtLast a op entry deadline \<or> pt = AtDispatch (Some (a, op)) entry deadline"
      using st True by (auto simp: spend_step_def spend_turn_of_def split: if_splits)
    have i: "intended X G inst s' (hd_prelude h) (hd_frame h) a op"
      using intended_mono [OF p(2) sr(2) s, of "ga_state op"] s' by simp
    have "unat (expected - 1) + 1 = unat expected" using True unat_gt_0 [of expected] by (simp add: unat_minus_one)
    then have "balanced s h s' (h\<lparr>hd_point := pt\<rparr>)"
      using pt h(2) True sr(3) s' unfolding balanced_def
      by (auto simp: spent_def set_remaining_def remaining_def)
    moreover have "point_ok X G inst s' (h\<lparr>hd_point := pt\<rparr>)"
      using pt i p by (auto simp: point_ok_def Let_def audited_def answered_def audit_states)
    ultimately show ?thesis using sr s' by (simp add: step_ok_def)
  qed
qed

lemma mark_step_ok:
  assumes s: "shared_ok X d s" and h: "point_ok X G inst s h"
    and st: "s' = s\<lparr>sh_grants := mark_terminal_if_same i a k now (sh_grants s)\<rparr>"
    and pt: "point_ok X G inst s (h\<lparr>hd_point := pt\<rparr>)" "\<And>a. spent a (h\<lparr>hd_point := pt\<rparr>) = spent a h"
  shows "step_ok X G inst d s h s' (h\<lparr>hd_point := pt\<rparr>)"
proof -
  have k: "keys_ok (sh_grants s)" using s by (simp add: shared_ok_def)
  note m = shared_grants [OF s mark_keys_ok [OF k] mark_records [OF k]]
  from point_ok_mono [OF pt(1) m(2) s] m(1,2) st pt(2) mark_records [OF k] show ?thesis by (intro step_okI) auto
qed

lemma dispatch_step_ok:
  assumes s: "shared_ok X d s" and h: "point_ok X G inst s h" "hd_point h = AtDispatch auth entry deadline"
    and st: "dispatch_step X inp auth entry deadline h s = (s', h')" and E: "env_ok (tu_env (si_turn inp))"
  shows "step_ok X G inst d s h s' h'"
proof (cases auth)
  case None
  with h have dir: "direct G (hd_prelude h) (hd_frame h) entry deadline" by (simp add: point_ok_def Let_def)
  then have "proved G (hd_prelude h) (hd_frame h)" unfolding proved_def by blast
  with dir None st s h(2) show ?thesis
    by (intro step_okI) (auto simp: dispatch_step_def point_ok_def Let_def spent_def split: dispatch_event.splits)
next
  case (Some ao)
  obtain a op where ao: "ao = (a, op)" by (cases ao)
  let ?kind = "ga_operation_kind op"
  have i: "intended X G inst s (hd_prelude h) (hd_frame h) a op" and au: "audited X s op (hd_passed h)"
    using h Some ao by (simp_all add: point_ok_def Let_def)
  note en = intended_entry [OF i s]
  have wk: "world_ok X d (sh_world s)" using s by (simp add: shared_ok_def)
  have same: "step_ok X G inst d s h s h" using s h by (intro step_okI) auto
  have goal: "step_ok X G inst d s h (s\<lparr>sh_world := w\<rparr>)
      (h\<lparr>hd_point := AtDispatch (Some (a, op')) entry deadline, hd_passed := fs\<rparr>)"
    if "world_ok X d w" "world_le X d (sh_world s) w" "op' = op\<lparr>ga_state := n\<rparr>"
      "audited X (s\<lparr>sh_world := w\<rparr>) op' fs" for w op' n fs
  proof -
    note sw = shared_world [OF s that(1,2)]
    from intended_mono [OF i sw(2) s, of n] that(3,4) sw(1,2) h(2) Some ao show ?thesis
      by (intro step_okI) (auto simp: point_ok_def Let_def spent_def)
  qed
  show ?thesis
  proof (cases "si_dispatch inp")
    case (DispatchEnds r)
    with st s h Some ao i au show ?thesis
      by (intro step_okI) (auto simp: dispatch_step_def point_ok_def Let_def spent_def)
  next
    case (DispatchInterrupted f)
    show ?thesis
    proof (cases "terminal_for_frame ?kind f")
      case None
      with DispatchInterrupted st Some ao same show ?thesis by (simp add: dispatch_step_def)
    next
      case t: (Some terminal)
      obtain op' w where io: "interrupt_outcome X (si_turn inp) terminal (op, sh_world s) = (op', w)" by fastforce
      note iw = interrupt_outcome_world [OF wk en(1) io]
      note sw = shared_world [OF s iw(1,2)]
      have "audited X (s\<lparr>sh_world := w\<rparr>) op' (hd_passed h)"
      proof (cases "op' = op")
        case True
        with audited_mono [OF au sw(2) en(1,2)] show ?thesis by simp
      next
        case False
        with iw(3,4) have "op' = op\<lparr>ga_state := AUDIT_STATE_FINALIZING\<rparr>" "ga_state op = AUDIT_STATE_PENDING" by auto
        with au show ?thesis by (simp add: audited_def answered_def audit_states)
      qed
      from goal [OF iw(1,2,3) this] DispatchInterrupted st Some ao t io h(2) show ?thesis
        by (simp add: dispatch_step_def)
    qed
  next
    case (DispatchWrites f)
    show ?thesis
    proof (cases "terminal_for_frame ?kind f")
      case None
      have "audited X s op (hd_passed h @ [f])"
        using au None by (auto simp: audited_def answered_def first_terminal_snoc split: option.splits)
      with goal [OF wk world_le_refl, of op "ga_state op"] DispatchWrites st Some ao None h(2) show ?thesis
        by (auto simp: dispatch_step_def before_terminal_frame_def)
    next
      case t: (Some terminal)
      obtain op' w r where ro: "record_outcome X (si_turn inp) terminal (op, sh_world s) = ((op', w), r)"
        by (metis surj_pair)
      note rw = record_outcome_world [OF wk E en(1) ro]
      note sw = shared_world [OF s rw(1,2)]
      let ?fs = "if r = Inr () then hd_passed h @ [f] else hd_passed h"
      have "audited X (s\<lparr>sh_world := w\<rparr>) op' ?fs"
      proof (cases "ga_state op = AUDIT_STATE_PENDING")
        case False
        with rw(4) have same: "op' = op" "w = sh_world s" "r = Inr () \<longleftrightarrow> ga_state op = AUDIT_STATE_COMPLETE" by auto
        then show ?thesis
          using au by (auto simp: audited_def answered_def first_terminal_snoc split: option.splits)
      next
        case True
        with au have none: "first_terminal ?kind (hd_passed h) = None" by (simp add: audited_def audit_states)
        have k: "ga_operation_kind op' = ?kind" "ga_quarantined op' = ga_quarantined op" "ga_ledger op' = ga_ledger op"
          by (subst rw(3), simp)+
        have oe: "outcome_event X wall op' x = outcome_event X wall op x" for wall x
          by (subst rw(3)) (rule outcome_event_state)
        from rw(5) [OF True] show ?thesis
          using none t k oe en(2) by (auto simp: audited_def answered_def first_terminal_snoc outcome_logged_def audit_states)
      qed
      from goal [OF rw(1,2,3) this] DispatchWrites st Some ao t ro h(2) show ?thesis
        by (cases r) (auto simp: dispatch_step_def before_terminal_frame_def)
    qed
  qed
qed

lemma final_step_ok:
  assumes s: "shared_ok X d s" and h: "point_ok X G inst s h" "hd_point h = AtFinal auth outcome"
    and st: "final_step X inp auth outcome s = (s', pt)" and E: "env_ok (tu_env (si_turn inp))"
  shows "step_ok X G inst d s h s' (h\<lparr>hd_point := pt\<rparr>)"
proof (cases auth)
  case None
  with h st s show ?thesis by (intro step_okI) (auto simp: final_step_def point_ok_def Let_def spent_def)
next
  case (Some ao)
  obtain a op where ao: "ao = (a, op)" by (cases ao)
  have i: "intended X G inst s (hd_prelude h) (hd_frame h) a op" and au: "audited X s op (hd_passed h)"
    using h Some ao by (simp_all add: point_ok_def Let_def)
  note en = intended_entry [OF i s]
  have wk: "world_ok X d (sh_world s)" using s by (simp add: shared_ok_def)
  obtain op' w r where f: "finalize_unknown_if_pending X (si_turn inp) (op, sh_world s) = ((op', w), r)"
    by (metis surj_pair)
  have st': "s' = s\<lparr>sh_world := w\<rparr>" "pt = AtEnd (Some (a, op')) (and_then r (\<lambda>_. outcome))"
    using st Some ao f by (simp_all add: final_step_def)
  have "world_ok X d w \<and> world_le X d (sh_world s) w \<and> op' = op\<lparr>ga_state := ga_state op'\<rparr> \<and>
      answered X s' op' (hd_passed h) \<and> accounted X s' op'"
  proof (cases "ga_state op = AUDIT_STATE_PENDING")
    case True
    let ?t = "terminal_of DecisionUnknown ''dispatch.no_terminal_result'' []"
    have "record_outcome X (si_turn inp) ?t (op, sh_world s) = ((op', w), r)"
      using f True by (simp add: finalize_unknown_if_pending_def)
    note rw = record_outcome_world [OF wk E en(1) this]
    have k: "ga_operation_kind op' = ga_operation_kind op" "ga_quarantined op' = ga_quarantined op" "ga_ledger op' = ga_ledger op"
      by (subst rw(3), simp)+
    have oe: "outcome_event X wall op' x = outcome_event X wall op x" for wall x
      by (subst rw(3)) (rule outcome_event_state)
    have none: "first_terminal (ga_operation_kind op) (hd_passed h) = None" using au True by (simp add: audited_def audit_states)
    have "accounted X s' op'"
      using rw(5) [OF True] st' k oe en(2) unfolding accounted_def outcome_logged_def by auto
    with rw(1-3) none k show ?thesis by (simp add: answered_def)
  next
    case False
    show ?thesis
    proof (cases "ga_state op = AUDIT_STATE_FINALIZING")
      case True
      with f have "op' = op\<lparr>ga_state := AUDIT_STATE_FAILED\<rparr>" "w = quarantine (ga_quarantined op) (sh_world s)"
        by (simp_all add: finalize_unknown_if_pending_def audit_states)
      with quarantine_world [where X = X and d = d] wk st' au True en(2) show ?thesis
        by (simp add: audited_def answered_def accounted_def audit_states)
    next
      case f': False
      have "ga_state op = AUDIT_STATE_COMPLETE \<or> ga_state op = AUDIT_STATE_FAILED"
        using au False f' by (auto simp: audited_def audit_states)
      moreover have same: "op' = op" "w = sh_world s"
        using f False f' calculation by (auto simp: finalize_unknown_if_pending_def audit_states)
      ultimately show ?thesis
        using au wk st' by (auto simp: audited_def answered_def accounted_def audit_states)
    qed
  qed
  then have *: "world_ok X d w" "world_le X d (sh_world s) w" "op' = op\<lparr>ga_state := ga_state op'\<rparr>"
    "answered X s' op' (hd_passed h)" "accounted X s' op'" by blast+
  note sw = shared_world [OF s *(1,2)]
  have "intended X G inst s' (hd_prelude h) (hd_frame h) a op'"
    using intended_mono [OF i sw(2) s, of "ga_state op'"] *(3) st'(1) by simp
  with sw(1,2) st' *(4,5) h(2) Some ao show ?thesis
    by (intro step_okI) (auto simp: point_ok_def Let_def spent_def)
qed

lemma handler_step_ok:
  assumes s: "shared_ok X d s" and h: "point_ok X G inst s h" and E: "env_ok (tu_env (si_turn inp))"
    and st: "handler_step X G inst inp h s = (s', h')"
  shows "step_ok X G inst d s h s' h'"
proof (cases "hd_point h")
  case AtStart
  with st start_step_ok [OF s h AtStart] show ?thesis
    by (cases "start_step G inp (hd_prelude h) (hd_frame h) s") (auto simp: handler_step_def)
next
  case (AtLive a)
  with st live_step_ok [OF s h AtLive] show ?thesis
    by (cases "live_step G inp a (hd_prelude h) (hd_frame h) s") (auto simp: handler_step_def)
next
  case (AtIntent a entry deadline)
  with st intent_step_ok [OF s h AtIntent _ E] show ?thesis
    by (cases "intent_step X inst inp a entry deadline (hd_prelude h) s") (auto simp: handler_step_def)
next
  case (AtQuarantine auth entry deadline)
  with st quarantine_step_ok [OF s h AtQuarantine] show ?thesis by (auto simp: handler_step_def Let_def)
next
  case (AtDeny op reason msg)
  with st deny_step_ok [OF s h AtDeny _ E] show ?thesis
    by (cases "deny_step X inp op reason msg s") (auto simp: handler_step_def)
next
  case (AtLoad a op entry deadline)
  with st s h show ?thesis
    by (intro step_okI) (auto simp: handler_step_def point_ok_def spent_def Let_def)
next
  case (AtSpend a op entry deadline expected)
  with st spend_step_ok [OF s h AtSpend] show ?thesis
    by (cases "spend_step inp a op entry deadline expected s") (auto simp: handler_step_def)
next
  case (AtLast a op entry deadline)
  have "point_ok X G inst s (h\<lparr>hd_point := AtDispatch (Some (a, op)) entry deadline\<rparr>)"
    using h AtLast by (simp add: point_ok_def Let_def audited_def answered_def audit_states)
  from mark_step_ok [OF s h refl this] AtLast st show ?thesis
    by (auto simp: handler_step_def spent_def Let_def)
next
  case (AtExhausted a op)
  have "point_ok X G inst s (h\<lparr>hd_point := AtDeny op ''grant.budget_exhausted'' ''grant budget exhausted''\<rparr>)"
    using h AtExhausted unfolding point_ok_def Let_def by auto
  from mark_step_ok [OF s h refl this] AtExhausted st show ?thesis
    by (auto simp: handler_step_def spent_def Let_def)
next
  case (AtDispatch auth entry deadline)
  with st dispatch_step_ok [OF s h AtDispatch _ E] show ?thesis by (simp add: handler_step_def)
next
  case (AtFinal auth outcome)
  with st final_step_ok [OF s h AtFinal _ E] show ?thesis
    by (cases "final_step X inp auth outcome s") (auto simp: handler_step_def)
qed (use st s h in \<open>auto simp: handler_step_def intro: step_okI\<close>)

lemma act_ensure_same:
  "act_ensure c e m ds = (ds', r) \<Longrightarrow> (\<And>ds ds' r. m ds = (ds', r) \<Longrightarrow> same_data ds ds') \<Longrightarrow> same_data ds ds'"
  by (cases c) (auto simp: act_ensure_def act_result_def)

lemma harden_directory_same: "harden_directory E ds = (ds', r) \<Longrightarrow> same_data ds ds'"
  unfolding harden_directory_def
  by (erule act_bind_same)
    (auto simp: open_directory_def harden_open_directory_def same_data_def Let_def split: option.splits if_splits)

lemma verify_complete_same: "verify_complete X E L anchor ds = (ds', r) \<Longrightarrow> same_data ds ds'"
  unfolding verify_complete_def verify_internal_def open_existing_defs
  by (erule act_bind_same act_ensure_same open_existing_same verify_checkpoint_against_log_same act_result_same
      | simp add: verify_log_file_eq)+

lemma unlock_ledger:
  assumes "act_bind (from_profile_call_key X E dir pid gen key) (\<lambda>L. act_bind (verify_complete X E L None)
      (\<lambda>_. act_result (Inr L))) ds = (ds', r)" and "length pid = 16"
  shows "same_data ds ds'" "r = Inr L \<Longrightarrow> ledger_in dir L"
proof -
  have k: "same_data ds ds'" if "from_profile_call_key X E dir pid gen key ds = (ds', r)" for ds ds' r
    using that unfolding from_profile_call_key_def with_protected_key_def
    by (elim act_bind_same act_ensure_same harden_directory_same act_result_same) (auto simp: Let_def act_result_def)
  show "same_data ds ds'"
    using assms(1) by (elim act_bind_same k verify_complete_same act_result_same)
  show "r = Inr L \<Longrightarrow> ledger_in dir L"
    using assms by (auto simp: result_simps from_profile_call_key_def with_protected_key_def Let_def ledger_in_def)
qed

lemma same_data_world:
  assumes "world_ok X d w" "same_data (aw_dir w) ds" "prefix (aw_flags w) flags"
  shows "world_ok X d (w\<lparr>aw_dir := ds, aw_flags := flags\<rparr>)" "world_le X d w (w\<lparr>aw_dir := ds, aw_flags := flags\<rparr>)"
proof -
  show "world_ok X d (w\<lparr>aw_dir := ds, aw_flags := flags\<rparr>)"
    using assms same_data_no_links by (simp add: world_ok_def)
  show "world_le X d w (w\<lparr>aw_dir := ds, aw_flags := flags\<rparr>)"
    using assms(3) same_data_bytes [OF assms(2)]
    by (auto simp: world_le_def ledgers.grows_def logged_def prefix_def nth_append)
qed

lemma unlock_ok:
  assumes s: "shared_ok X (rd @ ''/audit'') s" and i: "length (pi_profile_id ident) = 16"
    and u: "unlock_profile X E rd name ident key now s = (s', r)"
  shows "shared_ok X (rd @ ''/audit'') s'" "shared_le X (rd @ ''/audit'') s s'"
    "gs_records (sh_grants s') = gs_records (sh_grants s)"
proof -
  let ?d = "rd @ ''/audit''"
  have wk: "world_ok X ?d (sh_world s)" using s by (simp add: shared_ok_def)
  obtain ds r0 where b: "act_bind (from_profile_call_key X E ?d (pi_profile_id ident) (pi_generation ident) key)
      (\<lambda>L. act_bind (verify_complete X E L None) (\<lambda>_. act_result (Inr L))) (aw_dir (sh_world s)) = (ds, r0)"
    by fastforce
  note l = unlock_ledger [OF b i]
  have "shared_ok X ?d s' \<and> shared_le X ?d s s' \<and> gs_records (sh_grants s') = gs_records (sh_grants s)"
  proof (cases r0)
    case (Inl e)
    have eq: "(sh_world s)\<lparr>aw_dir := ds\<rparr> = (sh_world s)\<lparr>aw_dir := ds, aw_flags := aw_flags (sh_world s)\<rparr>" by simp
    have s': "s' = s\<lparr>sh_world := (sh_world s)\<lparr>aw_dir := ds, aw_flags := aw_flags (sh_world s)\<rparr>\<rparr>"
      using u b Inl by (simp add: unlock_profile_def)
    from same_data_world [OF wk l(1), of "aw_flags (sh_world s)"] shared_world [OF s] s' show ?thesis by simp
  next
    case (Inr L)
    define w where "w = (sh_world s)\<lparr>aw_dir := ds, aw_flags := aw_flags (sh_world s) @ [False]\<rparr>"
    define entry where "entry = \<lparr>pe_identity = ident, pe_profile = name, pe_call_key = key, pe_audit = L,
        pe_quarantined = length (aw_flags (sh_world s)), pe_expires_at = now + CREDENTIAL_LEASE_TTL\<rparr>"
    have s': "s' = s\<lparr>sh_pool := pool_insert (pi_profile_id ident) entry (sh_pool s), sh_world := w\<rparr>"
      using u b Inr by (simp add: unlock_profile_def Let_def entry_def w_def)
    have wo: "world_ok X ?d w" "world_le X ?d (sh_world s) w"
      using same_data_world [OF wk l(1), of "aw_flags (sh_world s) @ [False]"] by (simp_all add: w_def)
    note sw = shared_world [OF s wo]
    have e: "entry_ok ?d w entry" using l(2) [OF Inr] by (simp add: entry_ok_def entry_def w_def)
    have "shared_ok X ?d s'"
      using sw(1) e s' by (auto simp: shared_ok_def pool_insert_def alist_put_def remove_key_def entry_def)
    moreover have "shared_le X ?d s s'" using sw(2) s' by (simp add: shared_le_def)
    ultimately show ?thesis using s' by simp
  qed
  then show "shared_ok X ?d s'" "shared_le X ?d s s'" "gs_records (sh_grants s') = gs_records (sh_grants s)" by blast+
qed

lemma insert_records:
  assumes "keys_ok st" "registry_insert g entry now st = (st', Inl e)"
  shows "gs_records st' = gs_records st"
  using assms prune_locked_eq(1) [OF assms(1), of now]
  by (auto simp: registry_insert_def Let_def split: if_splits sum.splits)

lemma issue_grant_Inl:
  assumes "issue_grant G i now wall now' p frame (pool, grants) = ((pool', grants'), Inl e)" and k: "keys_ok grants"
  shows "set pool' \<subseteq> set pool" "keys_ok grants'" "gs_records grants' = gs_records grants"
proof -
  have ins: "keys_ok st \<and> gs_records st = gs_records grants"
    if "registry_insert g entry now' grants = (st, Inl x)" for g entry st x
    using insert_keys_ok [OF k, of g entry now'] insert_records [OF k that] that by simp
  have "set pool' \<subseteq> set pool \<and> keys_ok grants' \<and> gs_records grants' = gs_records grants"
  proof (cases "\<exists>req. frame = IssueGrant req")
    case False
    with assms show ?thesis by (cases frame) (simp_all add: issue_grant_def)
  next
    case True
    then obtain req where f: "frame = IssueGrant req" ..
    show ?thesis
    proof (cases "pl_profile_name p = Some (ig_profile req) \<and> pl_profile_id p \<noteq> None")
      case False
      with assms f show ?thesis by (auto simp: issue_grant_def split: if_splits)
    next
      case True
      then obtain pid where pid: "pl_profile_name p = Some (ig_profile req)" "pl_profile_id p = Some pid" by blast
      obtain pool1 e1 where e: "entry_for pid now pool = (pool1, e1)" by fastforce
      show ?thesis
      proof (cases e1)
        case None
        with assms f pid e entry_for_subset [OF e] show ?thesis by (simp add: issue_grant_def)
      next
        case (Some entry)
        with assms(1) f pid e have
          "pool' = pool1 \<and> (grants' = grants \<or> (\<exists>g x. registry_insert g entry now' grants = (grants', Inl x)))"
          by (auto simp: issue_grant_def Let_def split: sum.splits prod.splits)
        with ins k entry_for_subset [OF e] show ?thesis by blast
      qed
    qed
  qed
  then show "set pool' \<subseteq> set pool" "keys_ok grants'" "gs_records grants' = gs_records grants" by blast+
qed

lemma issue_ok:
  assumes s: "shared_ok X d s"
    and u: "issue_grant G i now wall now' p frame (sh_pool s, sh_grants s) = ((pool, grants), r)"
  shows "shared_ok X d (s\<lparr>sh_pool := pool, sh_grants := grants\<rparr>)"
    "shared_le X d s (s\<lparr>sh_pool := pool, sh_grants := grants\<rparr>)"
    "gs_records grants = gs_records (sh_grants s) \<or>
       (\<exists>r. gs_records grants = gs_records (sh_grants s) @ [r] \<and> gr_remaining r = ucast (og_budget (gr_grant r)))"
proof -
  have k: "keys_ok (sh_grants s)" using s by (simp add: shared_ok_def)
  have "shared_ok X d (s\<lparr>sh_pool := pool, sh_grants := grants\<rparr>) \<and>
    shared_le X d s (s\<lparr>sh_pool := pool, sh_grants := grants\<rparr>) \<and>
    (gs_records grants = gs_records (sh_grants s) \<or>
       (\<exists>r. gs_records grants = gs_records (sh_grants s) @ [r] \<and> gr_remaining r = ucast (og_budget (gr_grant r))))"
  proof (cases r)
    case (Inl e)
    note l = issue_grant_Inl [OF u [unfolded Inl] k]
    from shared_pool [OF s l(1)] shared_grants [OF s l(2,3)] l(3) show ?thesis
      by (auto simp: shared_ok_def shared_le_def)
  next
    case (Inr g)
    from u [unfolded Inr] obtain req :: issue_grant_request and pid entry key where e: "map_of (sh_pool s) pid = Some entry" and pool: "pool = sh_pool s"
      and n: "new_with_ttl i (ig_profile req) \<lparr>pi_profile_id = pid, pi_generation = pi_generation (pe_identity entry)\<rparr>
       (remdups_adj (sort (ig_operations req))) (ig_budget req) key wall (from_secs (unat (ig_ttl_secs req))) = Inr g"
      and ops: "set (ig_operations req) \<subseteq> set GRANTABLE_OPERATION_KINDS"
      and ins: "registry_insert g entry now' (sh_grants s) = (grants, Inr ())"
      by (rule issue_grant_eq_Inr)
    note g = new_with_ttl_eq [OF n]
    have "og_operations g = remdups_adj (sort (ig_operations req))" by (subst g(1)) simp
    with ops have ops': "set (og_operations g) \<subseteq> set GRANTABLE_OPERATION_KINDS" by simp
    from insert_registers [OF k ins] obtain rec where
      rec: "record_new g entry now' = Inr rec" "gs_records grants = gs_records (sh_grants s) @ [rec]" by auto
    have "(pid, entry) \<in> set (sh_pool s)" using e by (rule map_of_SomeD)
    then have "entry_ok d (sh_world s) entry" using s by (auto simp: shared_ok_def)
    with g(2) ops' record_new_eq [OF rec(1)] have "record_ok' d (sh_world s) rec" by (simp add: record_ok'_def)
    moreover have "keys_ok grants" using insert_keys_ok [OF k, of g entry now'] ins by simp
    ultimately show ?thesis
      using s pool rec(2) record_new_eq [OF rec(1)]
      by (auto simp: shared_ok_def shared_le_def grants_le_def nth_append)
  qed
  then show "shared_ok X d (s\<lparr>sh_pool := pool, sh_grants := grants\<rparr>)"
    "shared_le X d s (s\<lparr>sh_pool := pool, sh_grants := grants\<rparr>)"
    "gs_records grants = gs_records (sh_grants s) \<or>
       (\<exists>r. gs_records grants = gs_records (sh_grants s) @ [r] \<and> gr_remaining r = ucast (og_budget (gr_grant r)))"
    by blast+
qed

lemma unat_ucast_u32: "unat (ucast (x :: u32) :: u64) = unat x"
  using unat_less [of x] by (simp add: unsigned_ucast_eq take_bit_nat_eq_self)

lemma filter_update_length:
  "i < length hs \<Longrightarrow>
   length (filter P (hs[i := h])) + of_bool (P (hs ! i)) = length (filter P hs) + of_bool (P h)"
proof (induction hs arbitrary: i)
  case (Cons x hs)
  then show ?case by (cases i) auto
qed simp

lemma spent_bound:
  assumes "point_ok X G inst s h" "spent a h" "shared_ok X d s"
  shows "a < length (gs_records (sh_grants s))"
  using assms intended_entry(4) [OF _ assms(3)]
  by (fastforce simp: spent_def point_ok_def Let_def split: handler_point.splits option.splits prod.splits)

lemma daemon_inv_others:
  assumes "daemon_inv X G inst rd dm" "shared_ok X (rd @ ''/audit'') s" "shared_le X (rd @ ''/audit'') (dm_shared dm) s"
    "gs_records (sh_grants s) = gs_records (sh_grants (dm_shared dm)) \<or>
     (\<exists>r. gs_records (sh_grants s) = gs_records (sh_grants (dm_shared dm)) @ [r] \<and>
          gr_remaining r = ucast (og_budget (gr_grant r)))"
  shows "daemon_inv X G inst rd (dm\<lparr>dm_shared := s\<rparr>)"
proof -
  let ?s = "dm_shared dm" and ?n = "length (gs_records (sh_grants (dm_shared dm)))"
  have so: "shared_ok X (rd @ ''/audit'') ?s" and po: "\<forall>h\<in>set (dm_handlers dm). point_ok X G inst ?s h"
    and bal: "\<And>a. a < ?n \<Longrightarrow> remaining a ?s + length (filter (spent a) (dm_handlers dm)) =
      unat (og_budget (gr_grant (gs_records (sh_grants ?s) ! a)))"
    using assms(1) by (auto simp: daemon_inv_def)
  have none: "filter (spent ?n) (dm_handlers dm) = []"
    using spent_bound [OF _ _ so] po by (fastforce simp: filter_empty_conv)
  have "remaining a s + length (filter (spent a) (dm_handlers dm)) =
      unat (og_budget (gr_grant (gs_records (sh_grants s) ! a)))" if "a < length (gs_records (sh_grants s))" for a
  proof (cases "a < ?n")
    case True
    with assms(4) bal [OF True] show ?thesis by (auto simp: remaining_def nth_append)
  next
    case False
    with assms(4) that obtain r where r: "gs_records (sh_grants s) = gs_records (sh_grants ?s) @ [r]"
      "gr_remaining r = ucast (og_budget (gr_grant r))" "a = ?n" by auto
    then show ?thesis using none by (simp add: remaining_def unat_ucast_u32)
  qed
  with assms(2) po point_ok_mono [OF _ assms(3) so] show ?thesis by (simp add: daemon_inv_def)
qed

lemma daemon_step_inv:
  assumes "daemon_step X G inst rd dm dm'" "daemon_inv X G inst rd dm"
  shows "daemon_inv X G inst rd dm'"
    and "shared_le X (rd @ ''/audit'') (dm_shared dm) (dm_shared dm')"
proof -
  let ?d = "rd @ ''/audit''" and ?s = "dm_shared dm"
  have so: "shared_ok X ?d ?s" and po: "\<And>h. h \<in> set (dm_handlers dm) \<Longrightarrow> point_ok X G inst ?s h"
    and wk: "world_ok X ?d (sh_world ?s)" and k: "keys_ok (sh_grants ?s)"
    using assms(2) by (auto simp: daemon_inv_def shared_ok_def)
  have "daemon_inv X G inst rd dm' \<and> shared_le X ?d (dm_shared dm) (dm_shared dm')"
    using assms(1)
  proof cases
    case (connect p frame)
    have "point_ok X G inst ?s \<lparr>hd_prelude = p, hd_frame = frame, hd_point = AtStart, hd_passed = []\<rparr>"
      by (simp add: point_ok_def Let_def)
    with connect(1) assms(2) show ?thesis by (auto simp: daemon_inv_def spent_def)
  next
    case (handle i inp s h)
    have "point_ok X G inst ?s (dm_handlers dm ! i)" using handle(2) po by simp
    from handler_step_ok [OF so this handle(3,4)] have
      st: "shared_ok X ?d s" "shared_le X ?d ?s s" "point_ok X G inst s h" "balanced ?s (dm_handlers dm ! i) s h"
      by (simp_all add: step_ok_def)
    let ?hs = "(dm_handlers dm)[i := h]"
    have "point_ok X G inst s x" if "x \<in> set ?hs" for x
    proof -
      have "x = h \<or> x \<in> set (dm_handlers dm)" using that set_update_subset_insert by fast
      with st(3) point_ok_mono [OF po st(2) so] show ?thesis by blast
    qed
    moreover have "remaining a s + length (filter (spent a) ?hs) = unat (og_budget (gr_grant (gs_records (sh_grants s) ! a)))"
      if "a < length (gs_records (sh_grants s))" for a
    proof -
      have a: "a < length (gs_records (sh_grants ?s))" using that st(4) by (simp add: balanced_def)
      have "remaining a s + of_bool (spent a h) = remaining a ?s + of_bool (spent a (dm_handlers dm ! i))"
        using st(4) a by (simp add: balanced_def)
      moreover have "remaining a ?s + length (filter (spent a) (dm_handlers dm)) =
          unat (og_budget (gr_grant (gs_records (sh_grants ?s) ! a)))" using assms(2) a by (simp add: daemon_inv_def)
      moreover have g: "gr_grant (gs_records (sh_grants s) ! a) = gr_grant (gs_records (sh_grants ?s) ! a)"
        using st(2) grants_leD [OF _ a] by (auto simp: shared_le_def same_grant_def)
      ultimately show ?thesis using filter_update_length [OF handle(2), of "spent a" h] unfolding g by linarith
    qed
    ultimately show ?thesis using handle(1) st(1,2) by (simp add: daemon_inv_def)
  next
    case (issue grant_id now wall now' p frame pool grants r)
    from issue_ok [OF so issue(2)] issue(1) daemon_inv_others [OF assms(2), of "?s\<lparr>sh_pool := pool, sh_grants := grants\<rparr>"]
    show ?thesis by simp
  next
    case (unlock ident E name call_key now s r)
    from unlock_ok [OF so unlock(2,4)] unlock(1) daemon_inv_others [OF assms(2), of s] show ?thesis by simp
  next
    case (reaper now)
    let ?s1 = "?s\<lparr>sh_pool := pool_prune_expired now (sh_pool ?s)\<rparr>"
    let ?s2 = "?s1\<lparr>sh_grants := prune_locked now (sh_grants ?s)\<rparr>"
    have r: "reap now ?s = ?s2" by (simp add: reap_def registry_prune_expired_def)
    have p: "shared_ok X ?d ?s1" by (rule shared_pool(1) [OF so]) (auto simp: pool_prune_expired_def)
    from shared_grants [OF p prune_locked_eq(2) [OF k, of now]] prune_locked_eq(1) [OF k, of now]
    have "shared_ok X ?d ?s2" "shared_le X ?d ?s ?s2" "gs_records (sh_grants ?s2) = gs_records (sh_grants ?s)"
      by (simp_all add: shared_le_def)
    with daemon_inv_others [OF assms(2), of ?s2] r reaper show ?thesis by simp
  next
    case (worker i E)
    note w = run_worker_world [OF wk worker(3,2)]
    from shared_world [OF so w] worker(1) daemon_inv_others [OF assms(2), of "?s\<lparr>sh_world := run_worker X E i (sh_world ?s)\<rparr>"]
    show ?thesis by simp
  qed
  then show "daemon_inv X G inst rd dm'" "shared_le X ?d (dm_shared dm) (dm_shared dm')" by blast+
qed

lemma daemon_start_inv:
  assumes "audit_laws X" "no_links ds"
  shows "daemon_inv X G inst rd (daemon_start ds)"
  using assms keys_ok_new
  by (simp add: daemon_inv_def daemon_start_def shared_ok_def world_ok_def) (simp add: registry_new_def)

lemma daemon_run_inv:
  assumes "daemon_run X G inst rd (daemon_start ds) dm" "audit_laws X" "no_links ds"
  shows "daemon_inv X G inst rd dm"
  using assms(1) by induction (auto intro: daemon_start_inv [OF assms(2,3)] daemon_step_inv(1))

definition request_ok :: "grant_ext \<Rightarrow> handler \<Rightarrow> bool" where
  "request_ok G h \<longleftrightarrow>
     validate_prelude (hd_prelude h) = Inr () \<and> ipc_frame_kind (hd_frame h) = pl_operation_kind (hd_prelude h) \<and>
     root_request_hash (gx_chan G) (hd_frame h) = Inr (pl_root_request_hash (hd_prelude h))"

lemma daemon_step_requests:
  assumes "daemon_step X G inst rd dm dm'" "daemon_inv X G inst rd dm" "\<forall>h\<in>set (dm_handlers dm). request_ok G h"
  shows "\<forall>h\<in>set (dm_handlers dm'). request_ok G h"
  using assms(1)
proof cases
  case (handle i inp s h)
  have so: "shared_ok X (rd @ ''/audit'') (dm_shared dm)" and "point_ok X G inst (dm_shared dm) (dm_handlers dm ! i)"
    using assms(2) handle(2) by (simp_all add: daemon_inv_def)
  from handler_step_ok [OF this handle(3,4)] have "hd_prelude h = hd_prelude (dm_handlers dm ! i)"
    "hd_frame h = hd_frame (dm_handlers dm ! i)" by (simp_all add: step_ok_def)
  with assms(3) handle(2) have "request_ok G h" by (simp add: request_ok_def)
  moreover have "x = h \<or> x \<in> set (dm_handlers dm)" if "x \<in> set ((dm_handlers dm)[i := h])" for x
    using that set_update_subset_insert by fast
  ultimately show ?thesis using assms(3) handle(1) by auto
qed (use assms(3) in \<open>auto simp: request_ok_def\<close>)

lemma daemon_run_requests:
  assumes "daemon_run X G inst rd (daemon_start ds) dm" "audit_laws X" "no_links ds"
  shows "\<forall>h\<in>set (dm_handlers dm). request_ok G h"
  using assms(1)
proof induction
  case base
  then show ?case by (simp add: daemon_start_def)
next
  case (step dm dm')
  from daemon_step_requests [OF step(2) daemon_run_inv [OF step(1) assms(2,3)] step(3)] show ?case .
qed

lemma daemon_run_shared_le:
  assumes "daemon_run X G inst rd dm dm'" "daemon_inv X G inst rd dm"
  shows "daemon_inv X G inst rd dm' \<and> shared_le X (rd @ ''/audit'') (dm_shared dm) (dm_shared dm')"
  using assms(1)
proof induction
  case (step dm1 dm2)
  then have "daemon_inv X G inst rd dm2" "shared_le X (rd @ ''/audit'') (dm_shared dm1) (dm_shared dm2)"
    using daemon_step_inv by blast+
  moreover have "shared_le X (rd @ ''/audit'') a c" if "shared_le X (rd @ ''/audit'') a b" "shared_le X (rd @ ''/audit'') b c" for a b c
    using that world_le_trans by (auto simp: shared_le_def grants_le_def same_grant_def)
  ultimately show ?case using step by blast
qed (simp add: assms(2))

section \<open>Properties\<close>

text \<open>C3: however the handlers of the daemon interleave, the requests that were let to dispatch under a
  grant and what remains of its budget are together the budget it was issued with, which is at most
  1000; and every registered grant is bounded and has only grantable kinds.\<close>

theorem grant_budget_respected:
  assumes "daemon_run X G inst rd (daemon_start ds) dm" and "audit_laws X" and "no_links ds"
    and "a < length (gs_records (sh_grants (dm_shared dm)))"
  shows "length (filter (spent a) (dm_handlers dm)) + remaining a (dm_shared dm) =
      unat (og_budget (gr_grant (gs_records (sh_grants (dm_shared dm)) ! a))) \<and>
    length (filter (spent a) (dm_handlers dm)) \<le> 1000 \<and>
    grant_bounded (gr_grant (gs_records (sh_grants (dm_shared dm)) ! a)) \<and>
    set (og_operations (gr_grant (gs_records (sh_grants (dm_shared dm)) ! a))) \<subseteq> set GRANTABLE_OPERATION_KINDS"
proof -
  note inv = daemon_run_inv [OF assms(1-3)]
  have "record_ok' (rd @ ''/audit'') (sh_world (dm_shared dm)) (gs_records (sh_grants (dm_shared dm)) ! a)"
    using inv assms(4) by (simp add: daemon_inv_def shared_ok_def)
  moreover have "remaining a (dm_shared dm) + length (filter (spent a) (dm_handlers dm)) =
      unat (og_budget (gr_grant (gs_records (sh_grants (dm_shared dm)) ! a)))"
    using inv assms(4) by (simp add: daemon_inv_def)
  ultimately show ?thesis by (auto simp: record_ok'_def grant_bounded_def)
qed



text \<open>What a handler beyond the check of the flag \<open>q\<close> may do while the flag is set.\<close>

definition checked :: "nat \<Rightarrow> handler \<Rightarrow> bool" where
  "checked q h \<longleftrightarrow>
     (case hd_point h of
        AtLoad _ _ entry _ \<Rightarrow> pe_quarantined entry = q \<longrightarrow> operation_allowed_while_quarantined (pl_operation_kind (hd_prelude h))
      | AtSpend _ _ entry _ _ \<Rightarrow> pe_quarantined entry = q \<longrightarrow> operation_allowed_while_quarantined (pl_operation_kind (hd_prelude h))
      | AtLast _ _ entry _ \<Rightarrow> pe_quarantined entry = q \<longrightarrow> operation_allowed_while_quarantined (pl_operation_kind (hd_prelude h))
      | AtDispatch _ entry _ \<Rightarrow> pe_quarantined entry = q \<longrightarrow> operation_allowed_while_quarantined (pl_operation_kind (hd_prelude h))
      | _ \<Rightarrow> True)"

lemma handler_step_checked:
  assumes "handler_step X G inst inp h s = (s', h')" "checked q h" "aw_flags (sh_world s) ! q"
  shows "checked q h'"
proof (cases "hd_point h")
  case AtStart
  with assms show ?thesis
    by (auto simp: handler_step_def start_step_def checked_def Let_def split: option.splits prod.splits grant_lookup.splits sum.splits)
next
  case (AtLive a)
  with assms show ?thesis by (auto simp: handler_step_def live_step_def checked_def Let_def split: sum.splits if_splits)
next
  case (AtIntent a entry deadline)
  with assms show ?thesis by (auto simp: handler_step_def intent_step_def checked_def Let_def split: sum.splits prod.splits)
next
  case (AtQuarantine auth entry deadline)
  with assms show ?thesis
    by (auto simp: handler_step_def quarantine_step_def checked_def Let_def split: option.splits if_splits)
next
  case (AtDeny op reason msg)
  with assms show ?thesis by (auto simp: handler_step_def deny_step_def checked_def Let_def split: sum.splits prod.splits)
next
  case (AtSpend a op entry deadline expected)
  with assms show ?thesis by (auto simp: handler_step_def spend_step_def checked_def Let_def split: spend_turn.splits)
next
  case (AtDispatch auth entry deadline)
  with assms show ?thesis
    by (auto simp: handler_step_def dispatch_step_def checked_def Let_def split: dispatch_event.splits option.splits prod.splits)
next
  case (AtFinal auth r)
  with assms show ?thesis by (auto simp: handler_step_def final_step_def checked_def Let_def split: option.splits prod.splits)
qed (use assms in \<open>auto simp: handler_step_def checked_def Let_def\<close>)

lemma daemon_step_checked:
  assumes "daemon_step X G inst rd dm dm'" "aw_flags (sh_world (dm_shared dm)) ! q"
    "i < length (dm_handlers dm) \<longrightarrow> checked q (dm_handlers dm ! i)" "i < length (dm_handlers dm')"
  shows "checked q (dm_handlers dm' ! i)"
  using assms(1)
proof cases
  case (connect p frame)
  with assms(3,4) show ?thesis by (cases "i < length (dm_handlers dm)") (auto simp: nth_append checked_def)
next
  case (handle j inp s h)
  with assms handler_step_checked [OF handle(4)] show ?thesis by (cases "i = j") auto
qed (use assms in auto)


section \<open>A request that is let through\<close>

definition handler_moves ::
  "audit_ext \<Rightarrow> grant_ext \<Rightarrow> bytes \<Rightarrow> shared \<times> handler \<Rightarrow> shared \<times> handler \<Rightarrow> bool" where
  "handler_moves X G inst = (\<lambda>(s, h) (s', h').
     \<exists>inp. env_ok (tu_env (si_turn inp)) \<and> handler_step X G inst inp h s = (s', h'))"

lemma handler_moves_run:
  assumes "(handler_moves X G inst)\<^sup>*\<^sup>* (s, h) (s', h')" "dm_shared dm = s" "i < length (dm_handlers dm)" "dm_handlers dm ! i = h"
  shows "\<exists>dm'. daemon_run X G inst rd dm dm' \<and> dm_shared dm' = s' \<and> i < length (dm_handlers dm') \<and> dm_handlers dm' ! i = h'"
  using assms(1)
proof (induction rule: rtranclp_induct2)
  case refl
  with assms(2-4) show ?case by blast
next
  case (step s1 h1 s' h')
  then obtain dm1 inp where
    1: "daemon_run X G inst rd dm dm1" "dm_shared dm1 = s1" "i < length (dm_handlers dm1)" "dm_handlers dm1 ! i = h1"
    and 2: "env_ok (tu_env (si_turn inp))" "handler_step X G inst inp h1 s1 = (s', h')"
    by (auto simp: handler_moves_def)
  have "daemon_step X G inst rd dm1 (dm1\<lparr>dm_shared := s', dm_handlers := (dm_handlers dm1)[i := h']\<rparr>)"
    by (rule daemon_step.handle [OF 1(3) 2(1)]) (simp add: 1(2,4) 2(2))
  with 1 show ?case by (intro exI [of _ "dm1\<lparr>dm_shared := s', dm_handlers := (dm_handlers dm1)[i := h']\<rparr>"]) auto
qed

definition plain_input :: "instant \<Rightarrow> u64 \<Rightarrow> unix_env \<Rightarrow> step_input" where
  "plain_input now wall E =
     \<lparr>si_now = now, si_check = now, si_wall = wall,
      si_turn = \<lparr>tu_now = now, tu_wall = wall, tu_env = E, tu_end = WorkerJoined\<rparr>, si_spurious = False,
      si_dispatch = DispatchEnds (Inr ())\<rparr>"

lemma plain_input_simps [simp]:
  "si_now (plain_input now wall E) = now" "si_check (plain_input now wall E) = now" "si_wall (plain_input now wall E) = wall"
  "si_turn (plain_input now wall E) = \<lparr>tu_now = now, tu_wall = wall, tu_env = E, tu_end = WorkerJoined\<rparr>"
  "\<not> si_spurious (plain_input now wall E)"
  by (simp_all add: plain_input_def)

text \<open>A handler whose grant is live and validates its request, and the record of the grant it found.\<close>

definition admitted ::
  "grant_ext \<Rightarrow> instant \<Rightarrow> u64 \<Rightarrow> shared \<Rightarrow> handler \<Rightarrow> nat \<Rightarrow> grant_record \<Rightarrow> instant \<Rightarrow> bool" where
  "admitted G now wall s h a r deadline \<longleftrightarrow> keys_ok (sh_grants s) \<and> hd_point h = AtStart \<and>
     (\<exists>gid. pl_grant_id (hd_prelude h) = Some gid \<and> snd (registry_lookup gid now (sh_grants s)) = GrantLive a) \<and>
     r = gs_records (sh_grants s) ! a \<and> validate_request G r (hd_prelude h) now wall = Inr () \<and>
     validate_grant_frame_binding (hd_frame h) = Inr () \<and>
     authorize G (Some r) (gr_entry r) (hd_prelude h) (hd_frame h) now wall = Inr deadline"

lemma handler_movesI:
  "handler_step X G inst (plain_input now wall E) h s = (s', h') \<Longrightarrow> env_ok E \<Longrightarrow> handler_moves X G inst (s, h) (s', h')"
  by (auto simp: handler_moves_def intro!: exI [of _ "plain_input now wall E"])

lemma admitted_reaches_intent:
  assumes "admitted G now wall s h a r deadline" "env_ok E"
  obtains st where
    "(handler_moves X G inst)\<^sup>*\<^sup>* (s, h) (s\<lparr>sh_grants := st\<rparr>, h\<lparr>hd_point := AtIntent a (gr_entry r) deadline\<rparr>)"
    "keys_ok st" "gs_records st = gs_records (sh_grants s)" "a < length (gs_records st)"
proof -
  let ?M = "handler_moves X G inst"
  note A = assms(1) [unfolded admitted_def]
  from A obtain gid st where gid: "pl_grant_id (hd_prelude h) = Some gid"
    and l: "registry_lookup gid now (sh_grants s) = (st, GrantLive a)"
    by (metis prod.collapse)
  have k: "keys_ok (sh_grants s)" using A by blast
  note le = lookup_eq_live [OF k l]
  have v: "gs_records st ! a = r" "validate_request G r (hd_prelude h) now wall = Inr ()"
    "validate_grant_frame_binding (hd_frame h) = Inr ()"
    "authorize G (Some r) (gr_entry r) (hd_prelude h) (hd_frame h) now wall = Inr deadline"
    using A le(3) by auto
  have "?M (s, h) (s\<lparr>sh_grants := st\<rparr>, h\<lparr>hd_point := AtLive a\<rparr>)"
    by (rule handler_movesI [of X G inst now wall, OF _ assms(2)]) (use A gid l in \<open>simp add: handler_step_def start_step_def\<close>)
  moreover have "?M (s\<lparr>sh_grants := st\<rparr>, h\<lparr>hd_point := AtLive a\<rparr>)
      (s\<lparr>sh_grants := st\<rparr>, h\<lparr>hd_point := AtIntent a (gr_entry r) deadline\<rparr>)"
    by (rule handler_movesI [of X G inst now wall, OF _ assms(2)]) (use v in \<open>simp add: handler_step_def live_step_def Let_def\<close>)
  moreover have "keys_ok st" using lookup_keys_ok [OF k, of gid now] l by simp
  ultimately show thesis
    using le(3,4) by (intro that [of st]) (auto intro: converse_rtranclp_into_rtranclp)
qed

lemma set_remaining_keys_ok: "keys_ok st \<Longrightarrow> a < length (gs_records st) \<Longrightarrow> keys_ok (set_remaining a n st)"
  by (auto simp: keys_ok_def set_remaining_def nth_list_update)

text \<open>From the recorded intent, with budget left and the flag clear.\<close>

lemma intent_reaches_dispatch:
  assumes "keys_ok (sh_grants s)" "a < length (gs_records (sh_grants s))" "r = gs_records (sh_grants s) ! a"
    and "env_ok E" "\<not> aw_flags (sh_world s) ! pe_quarantined entry" "gr_remaining r \<noteq> 0"
  shows "\<exists>s'. (handler_moves X G inst)\<^sup>*\<^sup>* (s, h\<lparr>hd_point := AtQuarantine (Some (a, op)) entry deadline\<rparr>)
      (s', h\<lparr>hd_point := AtDispatch (Some (a, op)) entry deadline\<rparr>) \<and>
    remaining a s' + 1 = unat (gr_remaining r) \<and> sh_world s' = sh_world s"
proof -
  let ?M = "handler_moves X G inst" and ?at = "\<lambda>pt. h\<lparr>hd_point := pt\<rparr>"
  let ?d = "AtDispatch (Some (a, op)) entry deadline"
  define s3 where "s3 = s\<lparr>sh_grants := set_remaining a (gr_remaining r - 1) (sh_grants s)\<rparr>"
  define pt where "pt = (if gr_remaining r = 1 then AtLast a op entry deadline else ?d)"
  have 1: "?M (s, ?at (AtQuarantine (Some (a, op)) entry deadline)) (s, ?at (AtLoad a op entry deadline))"
    by (rule handler_movesI [of X G inst now wall, OF _ assms(4)]) (use assms(5) in \<open>simp add: handler_step_def quarantine_step_def Let_def\<close>)
  have 2: "?M (s, ?at (AtLoad a op entry deadline)) (s, ?at (AtSpend a op entry deadline (gr_remaining r)))"
    by (rule handler_movesI [of X G inst now wall, OF _ assms(4)]) (use assms(3) in \<open>simp add: handler_step_def Let_def\<close>)
  have 3: "?M (s, ?at (AtSpend a op entry deadline (gr_remaining r))) (s3, ?at pt)"
    by (rule handler_movesI [of X G inst now wall, OF _ assms(4)])
      (use assms(3,6) in \<open>simp add: handler_step_def spend_step_def spend_turn_of_def s3_def Let_def pt_def\<close>)
  have "\<exists>s'. ?M\<^sup>*\<^sup>* (s3, ?at pt) (s', ?at ?d) \<and> gs_records (sh_grants s') = gs_records (sh_grants s3) \<and> sh_world s' = sh_world s3"
  proof (cases "gr_remaining r = 1")
    case False
    then show ?thesis by (intro exI [of _ s3]) (simp add: pt_def)
  next
    case True
    let ?s = "s3\<lparr>sh_grants := mark_terminal_if_same (the (pl_grant_id (hd_prelude h))) a TerminalExhausted now (sh_grants s3)\<rparr>"
    have "?M (s3, ?at pt) (?s, ?at ?d)"
      by (rule handler_movesI [of X G inst now wall, OF _ assms(4)]) (use True in \<open>simp add: handler_step_def pt_def Let_def\<close>)
    moreover have "gs_records (sh_grants ?s) = gs_records (sh_grants s3)"
      using mark_records [OF set_remaining_keys_ok [OF assms(1,2)]] by (simp add: s3_def)
    ultimately show ?thesis by (intro exI [of _ ?s]) auto
  qed
  then obtain s' where 4: "?M\<^sup>*\<^sup>* (s3, ?at pt) (s', ?at ?d)" "gs_records (sh_grants s') = gs_records (sh_grants s3)"
    "sh_world s' = sh_world s3" by blast
  have "?M\<^sup>*\<^sup>* (s, ?at (AtQuarantine (Some (a, op)) entry deadline)) (s', ?at ?d)"
    using 1 2 3 4(1) by (meson converse_rtranclp_into_rtranclp)
  moreover have "unat (gr_remaining r - 1) + 1 = unat (gr_remaining r)"
    using assms(6) unat_gt_0 [of "gr_remaining r"] by (simp add: unat_minus_one)
  then have "remaining a s' + 1 = unat (gr_remaining r)"
    using 4(2) assms(2) by (simp add: remaining_def s3_def set_remaining_def)
  ultimately show ?thesis using 4(3) by (auto simp: s3_def)
qed

lemma admitted_reaches_dispatch:
  assumes A: "admitted G now wall s h a r deadline" and op: "op = grant_audit_new X r (hd_prelude h) deadline inst"
    and E: "env_ok E" and laws: "audit_laws X" "no_links (aw_dir (sh_world s))" "ledger_in d (pe_audit (gr_entry r))"
    and ap: "append_event X E (pe_audit (gr_entry r)) (intent_event X wall op) (aw_dir (sh_world s)) = (ds, Inr c)"
    and "\<not> aw_flags (sh_world s) ! pe_quarantined (gr_entry r)" "gr_remaining r \<noteq> 0"
  shows "\<exists>s'. (handler_moves X G inst)\<^sup>*\<^sup>* (s, h) (s', h\<lparr>hd_point := AtDispatch (Some (a, op)) (gr_entry r) deadline\<rparr>) \<and>
    remaining a s' + 1 = unat (gr_remaining r) \<and>
    logged X (pe_audit (gr_entry r)) (intent_event X wall op) (aw_dir (sh_world s'))"
proof -
  let ?M = "handler_moves X G inst"
  obtain st where st: "?M\<^sup>*\<^sup>* (s, h) (s\<lparr>sh_grants := st\<rparr>, h\<lparr>hd_point := AtIntent a (gr_entry r) deadline\<rparr>)"
    "keys_ok st" "gs_records st = gs_records (sh_grants s)" "a < length (gs_records st)"
    using admitted_reaches_intent [OF A E] by blast
  have r: "r = gs_records st ! a" and "deadline > now"
    using A st(3) by (auto simp: admitted_def authorize_def result_simps)
  define s2 where "s2 = s\<lparr>sh_grants := st, sh_world := (sh_world s)\<lparr>aw_dir := ds\<rparr>\<rparr>"
  have "record_intent X (si_turn (plain_input now wall E)) op (sh_world s) = ((sh_world s)\<lparr>aw_dir := ds\<rparr>, Inr ())"
    using op ap \<open>deadline > now\<close>
    by (simp add: record_intent_def audit_append_def intent_event_def [symmetric] grant_audit_new_def)
  then have i: "?M (s\<lparr>sh_grants := st\<rparr>, h\<lparr>hd_point := AtIntent a (gr_entry r) deadline\<rparr>)
      (s2, h\<lparr>hd_point := AtQuarantine (Some (a, op)) (gr_entry r) deadline\<rparr>)"
    by (intro handler_movesI [of X G inst now wall, OF _ E]) (use op r in \<open>simp add: handler_step_def intent_step_def s2_def Let_def\<close>)
  from intent_reaches_dispatch [of s2 a r E "gr_entry r", where X = X and G = G and inst = inst and h = h and op = op and deadline = deadline] obtain s' where
    s': "?M\<^sup>*\<^sup>* (s2, h\<lparr>hd_point := AtQuarantine (Some (a, op)) (gr_entry r) deadline\<rparr>)
      (s', h\<lparr>hd_point := AtDispatch (Some (a, op)) (gr_entry r) deadline\<rparr>)"
    "remaining a s' + 1 = unat (gr_remaining r)" "sh_world s' = sh_world s2"
    using st r E assms(8,9) by (auto simp: s2_def)
  from st(1) i s'(1) have "?M\<^sup>*\<^sup>* (s, h) (s', h\<lparr>hd_point := AtDispatch (Some (a, op)) (gr_entry r) deadline\<rparr>)"
    by (meson converse_rtranclp_into_rtranclp rtranclp_trans)
  moreover have "logged X (pe_audit (gr_entry r)) (intent_event X wall op) (aw_dir (sh_world s'))"
    using append_event_logs [OF laws(1) E laws(2,3) ap] s'(3) by (simp add: s2_def)
  ultimately show ?thesis using s'(2) by blast
qed

text \<open>C38: a request under a grant is let through when everything is in order: its grant is live and
  validates it, its intent can be appended to the ledger, its profile is not quarantined and its
  budget is not spent. Then the handler can reach dispatch, the intent is in the ledger, and exactly
  one unit of the budget is gone.\<close>

theorem grant_request_dispatched:
  assumes "admitted G now wall (dm_shared dm) (dm_handlers dm ! i) a r deadline" and "i < length (dm_handlers dm)"
    and "op = grant_audit_new X r (hd_prelude (dm_handlers dm ! i)) deadline inst" and "env_ok E" and "audit_laws X"
    and "no_links (aw_dir (sh_world (dm_shared dm)))" and "ledger_in d (pe_audit (gr_entry r))"
    and "append_event X E (pe_audit (gr_entry r)) (intent_event X wall op) (aw_dir (sh_world (dm_shared dm))) = (ds, Inr c)"
    and "\<not> aw_flags (sh_world (dm_shared dm)) ! pe_quarantined (gr_entry r)" and "gr_remaining r \<noteq> 0"
  shows "\<exists>dm'. daemon_run X G inst rd dm dm' \<and>
    hd_point (dm_handlers dm' ! i) = AtDispatch (Some (a, op)) (gr_entry r) deadline \<and>
    remaining a (dm_shared dm') + 1 = unat (gr_remaining r) \<and>
    logged X (pe_audit (gr_entry r)) (intent_event X wall op) (aw_dir (sh_world (dm_shared dm')))"
proof -
  from admitted_reaches_dispatch [OF assms(1,3-10)] obtain s' where
    s': "(handler_moves X G inst)\<^sup>*\<^sup>* (dm_shared dm, dm_handlers dm ! i)
      (s', (dm_handlers dm ! i)\<lparr>hd_point := AtDispatch (Some (a, op)) (gr_entry r) deadline\<rparr>)"
    "remaining a s' + 1 = unat (gr_remaining r)"
    "logged X (pe_audit (gr_entry r)) (intent_event X wall op) (aw_dir (sh_world s'))" by blast
  from handler_moves_run [OF s'(1) refl assms(2) refl] s'(2,3) show ?thesis by fastforce
qed

section \<open>A sample run\<close>

text \<open>An instance of the audit parameters that can serialise one intent, \<open>e\<close>, of one ledger, \<open>L\<close>.\<close>

definition one_checkpoint :: "audit_ledger \<Rightarrow> u64 \<Rightarrow> bytes \<Rightarrow> audit_checkpoint" where
  "one_checkpoint L s d = projr (make_checkpoint audit_ext0 L s d)"

definition one_record :: "audit_ledger \<Rightarrow> audit_event \<Rightarrow> audit_record" where
  "one_record L e = projr (make_record audit_ext0 L 1 ZERO_HASH e sample_hash1)"

definition one_event_ext :: "audit_ledger \<Rightarrow> audit_event \<Rightarrow> audit_ext" where
  "one_event_ext L e = audit_ext0
     \<lparr>ax_event_json := [e \<mapsto> [1]], ax_record_json := [one_record L e \<mapsto> [1]],
      ax_record_parse := [[1] \<mapsto> one_record L e],
      ax_checkpoint_json := [one_checkpoint L 0 ZERO_HASH \<mapsto> [0], one_checkpoint L 1 sample_hash1 \<mapsto> [1]],
      ax_checkpoint_parse := [[0] \<mapsto> one_checkpoint L 0 ZERO_HASH, [1] \<mapsto> one_checkpoint L 1 sample_hash1]\<rparr>"

definition ledger_dir :: "audit_ledger \<Rightarrow> dir_state" where
  "ledger_dir L =
     \<lparr>ds_root = Some \<lparr>in_kind = Directory, in_uid = 7, in_mode = 0x1C0, in_bytes = []\<rparr>,
      ds_entries = [al_log_path L \<mapsto> 0, al_checkpoint_path L \<mapsto> 1],
      ds_inodes = (\<lambda>i. \<lparr>in_kind = Regular, in_uid = 7, in_mode = 0x180, in_bytes = (if i = 0 then [] else [0])\<rparr>),
      ds_next = 2\<rparr>"

lemma one_event_simps [simp]:
  "ax_sha256 (one_event_ext L e) = sample_sha" "ax_hmac (one_event_ext L e) = (\<lambda>k m. Some (sample_sha (k @ m)))"
  "ax_hex_encode (one_event_ext L e) = hex_lower" "ax_hex_decode (one_event_ext L e) = unhex"
  "ax_payload_json (one_event_ext L e) = (\<lambda>_. Some [7])" "ax_unsigned_json (one_event_ext L e) = (\<lambda>_. Some [8])"
  "ax_event_json (one_event_ext L e) = [e \<mapsto> [1]]" "ax_record_json (one_event_ext L e) = [one_record L e \<mapsto> [1]]"
  "ax_record_parse (one_event_ext L e) = [[1] \<mapsto> one_record L e]"
  "ax_checkpoint_json (one_event_ext L e) =
     [one_checkpoint L 0 ZERO_HASH \<mapsto> [0], one_checkpoint L 1 sample_hash1 \<mapsto> [1]]"
  "ax_checkpoint_parse (one_event_ext L e) =
     [[0] \<mapsto> one_checkpoint L 0 ZERO_HASH, [1] \<mapsto> one_checkpoint L 1 sample_hash1]"
  by (simp_all add: one_event_ext_def audit_ext0_def)

lemma one_event_records:
  "make_record (one_event_ext L e) L 1 ZERO_HASH e sample_hash1 = Inr (one_record L e)"
  "make_checkpoint (one_event_ext L e) L s d = Inr (one_checkpoint L s d)"
  "ac_sequence (one_checkpoint L s d) = s"
  by (simp_all add: make_record_def record_mac_def one_record_def audit_ext0_def
      make_checkpoint_def checkpoint_mac_def one_checkpoint_def Let_def)

lemma one_checkpoint_eq: "one_checkpoint L s d = one_checkpoint L t d' \<Longrightarrow> s = t"
  by (metis one_event_records(3))

lemma one_event_laws: "audit_laws (one_event_ext L e)"
  unfolding audit_laws_def
  by (intro conjI allI) (auto simp: hex_lower_chars dest: one_checkpoint_eq split: if_splits)

lemma ledger_dir_simps [simp]:
  "in_mode (ds_inodes (ledger_dir L) h) = 0x180" "openable sample_unix (ds_inodes (ledger_dir L) h) w"
  "in_bytes (ds_inodes (ledger_dir L) h) = (if h = 0 then [] else [0])"
  "ds_entries (ledger_dir L) (al_checkpoint_path L) = Some 1" "set_mode (ledger_dir L) h 0x180 = ledger_dir L"
  "al_log_path L \<noteq> al_checkpoint_path L \<Longrightarrow> ds_entries (ledger_dir L) (al_log_path L) = Some 0"
  "harden_directory sample_unix (ledger_dir L) = (ledger_dir L, Inr ())"
  by (simp_all add: ledger_dir_def openable_def sample_unix_def set_mode_def fun_upd_idem harden_directory_def
      open_directory_def harden_open_directory_def act_bind_def)

lemma ledger_dir_no_links: "al_log_path L \<noteq> al_checkpoint_path L \<Longrightarrow> no_links (ledger_dir L)"
  by (auto simp: no_links_def ledger_dir_def wf_dir_def split: if_splits)

lemma one_event_agree:
  assumes "al_log_path L \<noteq> al_checkpoint_path L" and "al_profile_generation L > 0" "length (al_profile_id L) = 16"
  shows "agree (one_event_ext L e) sample_unix L 0 (ledger_dir L) (one_checkpoint L 0 ZERO_HASH) []"
proof -
  note ck = make_checkpoint_eq [OF one_event_laws one_event_records(2) [of L e 0 ZERO_HASH]]
  have z: "length ZERO_HASH = 32" by (simp add: ZERO_HASH_def)
  have "verify_log (one_event_ext L e) L [] = Inr empty_log" by (simp add: verify_log_def)
  moreover have "check_checkpoint (one_event_ext L e) L empty_log (one_checkpoint L 0 ZERO_HASH) = Inr ()"
    using ck z by (simp add: check_checkpoint_def hash_at_def empty_log_def)
  moreover have "ledger_ok L (ledger_dir L)"
    using assms by (auto simp: ledger_ok_def ledger_dir_def wf_dir_def split: if_splits)
  ultimately show ?thesis
    using assms ck z by (simp add: agree_def log_events_def MAX_AUDIT_RECORD_BYTES_def empty_log_def)
qed

lemma one_event_verify:
  assumes "al_log_path L \<noteq> al_checkpoint_path L" "al_profile_generation L > 0" "length (al_profile_id L) = 16"
  shows "verify_complete (one_event_ext L e) sample_unix L None (ledger_dir L) =
    (ledger_dir L, Inr (one_checkpoint L 0 ZERO_HASH))"
proof -
  have v: "verify_log (one_event_ext L e) L [] = Inr empty_log" by (simp add: verify_log_def)
  have 1: "open_existing_protected_file_with_access sample_unix (al_log_path L) False (ledger_dir L) =
      (ledger_dir L, Inr (Some 0))" using assms(1) by (simp add: open_existing_eq_Some)
  have 2: "verify_log_file (one_event_ext L e) L 0 (ledger_dir L) = (ledger_dir L, Inr empty_log)"
    using v by (simp add: verify_log_file_eq_Inr)
  have 3: "verify_checkpoint_against_log (one_event_ext L e) sample_unix L empty_log False (ledger_dir L) =
      (ledger_dir L, Inr (one_checkpoint L 0 ZERO_HASH))"
    using one_event_agree [OF assms, of e] v
    by (simp add: agree_def verify_checkpoint_against_log_eq read_checkpoint_eq_Some)
  from 1 2 3 show ?thesis
    by (simp add: verify_complete_def verify_internal_def open_existing_defs act_bind_def act_ensure_def act_result_def
        verify_external_anchor_def) (simp add: empty_log_def)
qed

lemma one_event_append:
  assumes "al_log_path L \<noteq> al_checkpoint_path L" "event_ok (one_event_ext L e) L e" "ae_phase e = PhaseIntent"
    "al_profile_generation L > 0" "length (al_profile_id L) = 16"
  shows "\<exists>ds. append_event (one_event_ext L e) sample_unix L e (ledger_dir L) = (ds, Inr (one_checkpoint L 1 sample_hash1))"
proof -
  let ?X = "one_event_ext L e" and ?ds = "ledger_dir L"
  have v: "verify_log ?X L (in_bytes (ds_inodes ?ds 0)) = Inr empty_log" by (simp add: verify_log_def)
  have p: "prepare_append ?X L empty_log e = Inr (1, sample_hash1, [1])"
    using assms(3)
    by (simp add: prepare_append_def check_appendable_def empty_log_def checked_add_def
        calculate_record_hash_def one_event_records sample_hash1_def [symmetric] MAX_AUDIT_RECORD_BYTES_def)
  have "\<exists>ds'. append_locked ?X sample_unix L 0 e ?ds = (ds', Inr (one_checkpoint L 1 sample_hash1))"
    by (rule append_locked_total [OF one_event_agree [OF assms(1,4,5)] v p one_event_records(2) _ _ _ sample_replaced,
          where cj = "[1]"])
      (auto simp: MAX_AUDIT_LOG_BYTES_def sample_unix_def dest: one_checkpoint_eq)
  moreover have "append_event ?X sample_unix L e ?ds = append_locked ?X sample_unix L 0 e ?ds"
    by (rule append_event_opened [OF assms(2)]) (use assms(1) in simp_all)
  ultimately show ?thesis by simp
qed

definition broker_ident :: profile_identity where
  "broker_ident = \<lparr>pi_profile_id = replicate 16 1, pi_generation = 1\<rparr>"

definition broker_ledger :: audit_ledger where
  "broker_ledger =
     (let stem = ''run/audit/audit-'' @ hex_lower (replicate 16 1) @ ''-g'' @ decimal 1 in
      \<lparr>al_log_path = stem @ ''.jsonl'', al_checkpoint_path = stem @ ''.checkpoint.json'',
       al_profile_id = replicate 16 1, al_profile_generation = 1,
       al_key = sample_sha (replicate 32 2 @ AUDIT_KEY_DOMAIN @ replicate 16 1 @ be64 1)\<rparr>)"

definition broker_entry :: profile_entry where
  "broker_entry =
     \<lparr>pe_identity = broker_ident, pe_profile = ''p'', pe_call_key = replicate 32 2, pe_audit = broker_ledger,
      pe_quarantined = 0, pe_expires_at = CREDENTIAL_LEASE_TTL\<rparr>"

definition broker_op :: grant_audit where
  "broker_op = grant_audit_new audit_ext0 (sample_record broker_entry) sample_request 59995000005 (replicate 16 5)"

definition broker_ext :: audit_ext where
  "broker_ext = one_event_ext broker_ledger (intent_event audit_ext0 5 broker_op)"

definition broker_shared :: shared where
  "broker_shared =
     \<lparr>sh_pool = [(replicate 16 1, broker_entry)], sh_grants = sample_grants broker_entry,
      sh_world = \<lparr>aw_dir = ledger_dir broker_ledger, aw_flags = [False], aw_workers = []\<rparr>\<rparr>"

definition broker_handler :: handler where
  "broker_handler = \<lparr>hd_prelude = sample_request, hd_frame = Status, hd_point = AtStart, hd_passed = []\<rparr>"

definition broker_daemon :: daemon where
  "broker_daemon = \<lparr>dm_shared = broker_shared, dm_handlers = [broker_handler]\<rparr>"

lemma broker_ledger_paths:
  "al_log_path broker_ledger \<noteq> al_checkpoint_path broker_ledger" "al_profile_generation broker_ledger = 1"
  "al_profile_id broker_ledger = replicate 16 1" "ledger_in (''run'' @ ''/audit'') broker_ledger"
  by (simp_all add: broker_ledger_def Let_def ledger_in_def)

lemma broker_laws: "audit_laws broker_ext" "no_links (ledger_dir broker_ledger)"
  using one_event_laws ledger_dir_no_links [OF broker_ledger_paths(1)] by (simp_all add: broker_ext_def)

lemma broker_unlock:
  "unlock_profile broker_ext sample_unix ''run'' ''p'' broker_ident (replicate 32 2) 0
     (dm_shared (daemon_start (ledger_dir broker_ledger))) = (broker_shared\<lparr>sh_grants := registry_new\<rparr>, Inr ())"
proof -
  have "from_profile_call_key broker_ext sample_unix (''run'' @ ''/audit'') (replicate 16 1) 1 (replicate 32 2)
      (ledger_dir broker_ledger) = (ledger_dir broker_ledger, Inr broker_ledger)"
    by (simp add: from_profile_call_key_def with_protected_key_def broker_ext_def act_bind_def act_ensure_def
        act_result_def Let_def) (simp add: broker_ledger_def Let_def)
  moreover have "verify_complete broker_ext sample_unix broker_ledger None (ledger_dir broker_ledger) =
      (ledger_dir broker_ledger, Inr (one_checkpoint broker_ledger 0 ZERO_HASH))"
    unfolding broker_ext_def by (rule one_event_verify) (simp_all add: broker_ledger_paths)
  ultimately show ?thesis
    by (simp add: unlock_profile_def daemon_start_def broker_ident_def act_bind_def act_result_def broker_shared_def
        broker_entry_def pool_insert_def alist_put_def remove_key_def)
qed

lemma sample_request_typed:
  "validate_prelude sample_request = Inr ()" "ipc_frame_kind Status = pl_operation_kind sample_request"
  "root_request_hash (gx_chan sample_grant_ext) Status = Inr (pl_root_request_hash sample_request)"
  "pl_operation_kind sample_request \<notin> set control_kinds"
proof -
  show "validate_prelude sample_request = Inr ()" by code_simp
qed (simp_all add: sample_request_def root_request_hash_def frame_to_vec_def sample_grant_ext_def sample_ipc_ext_def
    chan_ext1_def cx_sha256_def control_kinds_def ipc_frame_kind_def)

lemma broker_reaches: "daemon_run broker_ext sample_grant_ext inst ''run'' (daemon_start (ledger_dir broker_ledger)) broker_daemon"
proof -
  let ?S = "daemon_step broker_ext sample_grant_ext inst ''run''"
  let ?d0 = "daemon_start (ledger_dir broker_ledger)"
  define d1 where "d1 = ?d0\<lparr>dm_shared := broker_shared\<lparr>sh_grants := registry_new\<rparr>\<rparr>"
  define d2 where "d2 = d1\<lparr>dm_shared := broker_shared\<rparr>"
  have "?S ?d0 d1" unfolding d1_def
    by (rule daemon_step.unlock [OF _ sample_env_laws(1) broker_unlock]) (simp add: broker_ident_def)
  moreover have "?S d1 d2"
  proof -
    have "issue_grant sample_grant_ext (replicate 16 8) 0 0 0 sample_issue_prelude (IssueGrant sample_issue)
       ([(replicate 16 1, broker_entry)], registry_new) =
       (([(replicate 16 1, broker_entry)], sample_grants broker_entry), Inr sample_grant)"
      by (rule sample_issue_run) (simp_all add: broker_entry_def sample_entry_def broker_ident_def CREDENTIAL_LEASE_TTL_def from_secs_def)
    then have i: "issue_grant sample_grant_ext (replicate 16 8) 0 0 0 sample_issue_prelude (IssueGrant sample_issue)
       (sh_pool (dm_shared d1), sh_grants (dm_shared d1)) =
       (([(replicate 16 1, broker_entry)], sample_grants broker_entry), Inr sample_grant)"
      by (simp add: d1_def broker_shared_def)
    have "d2 = d1\<lparr>dm_shared := (dm_shared d1)\<lparr>sh_pool := [(replicate 16 1, broker_entry)],
        sh_grants := sample_grants broker_entry\<rparr>\<rparr>"
      by (simp add: d2_def d1_def broker_shared_def)
    with daemon_step.issue [OF i] show ?thesis by simp
  qed
  moreover have "?S d2 broker_daemon"
    using daemon_step.connect [OF sample_request_typed, of broker_ext inst "''run''" d2]
    by (simp add: broker_daemon_def d2_def d1_def daemon_start_def broker_handler_def)
  ultimately show ?thesis by (meson converse_rtranclp_into_rtranclp rtranclp.rtrancl_refl)
qed

lemma broker_admitted:
  "admitted sample_grant_ext 5 5 broker_shared broker_handler 0 (sample_record broker_entry) 59995000005"
proof -
  have e: "pe_identity broker_entry = pe_identity sample_entry" "pe_profile broker_entry = ''p''"
    by (simp_all add: broker_entry_def sample_entry_def broker_ident_def)
  have k: "keys_ok (sample_grants broker_entry)"
    by (simp add: keys_ok_def sample_grants_def sample_record_def sample_grant_def GRANT_REGISTRY_LIMIT_def)
  have "snd (registry_lookup (replicate 16 8) 5 (sample_grants broker_entry)) = GrantLive 0"
    by (rule lookup_live [OF k]) (simp_all add: sample_grants_def sample_record_def from_secs_def)
  moreover have "authorize sample_grant_ext (Some (sample_record broker_entry)) broker_entry sample_request Status 5 5 =
      Inr 59995000005"
    using e(2) by (simp add: authorize_def sample_record_def sample_grant_def validate_connection_identity_binding_def
        sample_request_def checked_sub_def instant_checked_add_def from_millis_def from_secs_def as_secs_def)
  ultimately show ?thesis
    using k sample_request_valid(1) [OF e]
    by (simp add: admitted_def broker_shared_def broker_handler_def sample_grants_def validate_grant_frame_binding_def)
      (simp add: sample_request_def sample_record_def)
qed

lemma broker_op_eq: "broker_op = grant_audit_new broker_ext (sample_record broker_entry) sample_request 59995000005 (replicate 16 5)"
  "intent_event broker_ext 5 broker_op = intent_event audit_ext0 5 broker_op"
  by (simp_all add: broker_op_def grant_audit_new_def policy_digest_def broker_ext_def audit_ext0_def intent_event_def
      grant_audit_event_def)

lemma broker_append:
  "\<exists>ds. append_event broker_ext sample_unix broker_ledger (intent_event broker_ext 5 broker_op) (ledger_dir broker_ledger) =
     (ds, Inr (one_checkpoint broker_ledger 1 sample_hash1))"
proof -
  let ?e = "intent_event audit_ext0 5 broker_op"
  have "event_ok broker_ext broker_ledger ?e"
    by (simp add: event_ok_def validate_event_def intent_event_def grant_audit_event_def broker_op_def grant_audit_new_def
        policy_digest_def sample_record_def broker_entry_def broker_ident_def broker_ledger_paths broker_ext_def
        validate_profile_id_def validate_token_def validate_digest_def hex_lower_chars audit_ext0_def sample_request_def
        MAX_OPERATION_KIND_BYTES_def MAX_REASON_CODE_BYTES_def is_ascii_lowercase_def char_code_def)
  then show ?thesis
    unfolding broker_op_eq(2) unfolding broker_ext_def
    by (intro one_event_append) (simp_all add: broker_ledger_paths intent_event_def grant_audit_event_def)
qed

abbreviation broker_run :: "daemon \<Rightarrow> daemon \<Rightarrow> bool" where
  "broker_run \<equiv> daemon_run broker_ext sample_grant_ext (replicate 16 5) ''run''"

lemma broker_moves_run:
  assumes "(handler_moves broker_ext sample_grant_ext (replicate 16 5))\<^sup>*\<^sup>* (broker_shared, broker_handler) (s, h)"
  shows "\<exists>dm. broker_run (daemon_start (ledger_dir broker_ledger)) dm \<and> dm_shared dm = s \<and>
    0 < length (dm_handlers dm) \<and> dm_handlers dm ! 0 = h"
proof -
  have "\<exists>dm. broker_run broker_daemon dm \<and> dm_shared dm = s \<and> 0 < length (dm_handlers dm) \<and> dm_handlers dm ! 0 = h"
    by (rule handler_moves_run [OF assms]) (simp_all add: broker_daemon_def)
  then obtain dm where "broker_run broker_daemon dm" "dm_shared dm = s" "0 < length (dm_handlers dm)" "dm_handlers dm ! 0 = h"
    by blast
  with rtranclp_trans [OF broker_reaches] show ?thesis by blast
qed

lemma broker_sample:
  "no_links (aw_dir (sh_world broker_shared))" "ledger_in (''run'' @ ''/audit'') (pe_audit (gr_entry (sample_record broker_entry)))"
  "\<not> aw_flags (sh_world broker_shared) ! pe_quarantined (gr_entry (sample_record broker_entry))"
  "gr_remaining (sample_record broker_entry) = 2" "gr_entry (sample_record broker_entry) = broker_entry"
  "pe_audit broker_entry = broker_ledger" "hd_prelude broker_handler = sample_request" "pe_quarantined broker_entry = 0"
  using broker_laws(2) broker_ledger_paths(4)
  by (simp_all add: broker_shared_def sample_record_def broker_entry_def broker_handler_def)

lemma broker_dispatches:
  "\<exists>dm. broker_run (daemon_start (ledger_dir broker_ledger)) dm \<and> 0 < length (dm_handlers dm) \<and>
     dm_handlers dm ! 0 = broker_handler\<lparr>hd_point := AtDispatch (Some (0, broker_op)) broker_entry 59995000005\<rparr>"
proof -
  obtain ds where a: "append_event broker_ext sample_unix (pe_audit (gr_entry (sample_record broker_entry)))
      (intent_event broker_ext 5 broker_op) (aw_dir (sh_world broker_shared)) =
      (ds, Inr (one_checkpoint broker_ledger 1 sample_hash1))"
    using broker_append by (auto simp: broker_sample) (auto simp: broker_shared_def)
  from admitted_reaches_dispatch [OF broker_admitted _ sample_env_laws(1) broker_laws(1) broker_sample(1,2) a broker_sample(3)]
  obtain s where "(handler_moves broker_ext sample_grant_ext (replicate 16 5))\<^sup>*\<^sup>* (broker_shared, broker_handler)
      (s, broker_handler\<lparr>hd_point := AtDispatch (Some (0, broker_op)) broker_entry 59995000005\<rparr>)"
    using broker_op_eq(1) by (auto simp: broker_sample)
  from broker_moves_run [OF this] show ?thesis by blast
qed

theorem grant_request_dispatched_witness:
  "\<exists>dm'. broker_run broker_daemon dm' \<and>
     hd_point (dm_handlers dm' ! 0) = AtDispatch (Some (0, broker_op)) broker_entry 59995000005 \<and>
     remaining 0 (dm_shared dm') = 1"
proof -
  have d: "dm_shared broker_daemon = broker_shared" "dm_handlers broker_daemon ! 0 = broker_handler"
    "dm_handlers broker_daemon \<noteq> []" by (simp_all add: broker_daemon_def)
  obtain ds where a: "append_event broker_ext sample_unix (pe_audit (gr_entry (sample_record broker_entry)))
      (intent_event broker_ext 5 broker_op) (aw_dir (sh_world broker_shared)) =
      (ds, Inr (one_checkpoint broker_ledger 1 sample_hash1))"
    using broker_append by (auto simp: broker_sample) (auto simp: broker_shared_def)
  from grant_request_dispatched [of sample_grant_ext 5 5 broker_daemon 0 0 "sample_record broker_entry" 59995000005 broker_op
      broker_ext "replicate 16 5" sample_unix "''run'' @ ''/audit''" ds "one_checkpoint broker_ledger 1 sample_hash1" "''run''"]
  show ?thesis
    using broker_admitted broker_op_eq(1) sample_env_laws(1) broker_laws(1) broker_sample a
    by (auto simp: d)
qed

theorem grant_budget_respected_witness:
  "broker_run (daemon_start (ledger_dir broker_ledger)) broker_daemon \<and>
   length (filter (spent 0) (dm_handlers broker_daemon)) + remaining 0 (dm_shared broker_daemon) = 2"
proof -
  have "0 < length (gs_records (sh_grants (dm_shared broker_daemon)))"
    "unat (og_budget (gr_grant (gs_records (sh_grants (dm_shared broker_daemon)) ! 0))) = 2"
    by (simp_all add: broker_daemon_def broker_shared_def sample_grants_def sample_record_def sample_grant_def)
  with grant_budget_respected [OF broker_reaches broker_laws] broker_reaches show ?thesis by fastforce
qed



lemma broker_quarantined:
  "\<exists>dm msg. broker_run (daemon_start (ledger_dir broker_ledger)) dm \<and> aw_flags (sh_world (dm_shared dm)) = [True] \<and>
     0 < length (dm_handlers dm) \<and> dm_handlers dm ! 0 = broker_handler\<lparr>hd_point := AtRefused msg\<rparr>"
proof -
  let ?M = "handler_moves broker_ext sample_grant_ext (replicate 16 5)"
  let ?inp = "(plain_input 5 5 sample_unix)\<lparr>si_turn := \<lparr>tu_now = 5, tu_wall = 5, tu_env = sample_unix, tu_end = WorkerLate\<rparr>\<rparr>"
  define msg where "msg = ''authoritative audit persistence exceeded its deadline''"
  obtain st where st: "?M\<^sup>*\<^sup>* (broker_shared, broker_handler)
      (broker_shared\<lparr>sh_grants := st\<rparr>, broker_handler\<lparr>hd_point := AtIntent 0 broker_entry 59995000005\<rparr>)"
    "gs_records st = gs_records (sh_grants broker_shared)"
    using admitted_reaches_intent [OF broker_admitted sample_env_laws(1)] by (metis broker_sample(5))
  have "\<exists>s. handler_step broker_ext sample_grant_ext (replicate 16 5) ?inp
      (broker_handler\<lparr>hd_point := AtIntent 0 broker_entry 59995000005\<rparr>) (broker_shared\<lparr>sh_grants := st\<rparr>) =
      (s, broker_handler\<lparr>hd_point := AtRefused msg\<rparr>) \<and> aw_flags (sh_world s) = [True]"
    using st(2) by (simp add: handler_step_def intent_step_def record_intent_def audit_append_def grant_audit_new_def
        quarantine_def broker_shared_def sample_grants_def broker_sample Let_def msg_def)
  then obtain s where h: "handler_step broker_ext sample_grant_ext (replicate 16 5) ?inp
      (broker_handler\<lparr>hd_point := AtIntent 0 broker_entry 59995000005\<rparr>) (broker_shared\<lparr>sh_grants := st\<rparr>) =
      (s, broker_handler\<lparr>hd_point := AtRefused msg\<rparr>)" and f: "aw_flags (sh_world s) = [True]" by blast
  have "env_ok (tu_env (si_turn ?inp))" using sample_env_laws(1) by simp
  from this h have "?M (broker_shared\<lparr>sh_grants := st\<rparr>, broker_handler\<lparr>hd_point := AtIntent 0 broker_entry 59995000005\<rparr>)
      (s, broker_handler\<lparr>hd_point := AtRefused msg\<rparr>)"
    unfolding handler_moves_def prod.case by (intro exI conjI)
  from broker_moves_run [OF rtranclp.rtrancl_into_rtrancl [OF st(1) this]] f show ?thesis by blast
qed


end
