(* ===== verification/Spec2Isabelle.thy ===== *)
theory Spec2Isabelle
  imports Policy Remote_Session Job_Store Audit_Ledger Ipc_Stream Transfer_Protocol Broker
begin

text \<open>
  A verification library for serctl, a controller that runs bounded, audited operations on remote
  hosts.
\<close>

end
